(* ===== verification/Prelude.thy ===== *)
theory Prelude
  imports Main "HOL-Library.Word" "HOL-Library.Multiset" "HOL-Library.Monad_Syntax"
begin

text \<open>
  Shared vocabulary of the development: the machine-integer types of the Go code, exchanging two
  list positions, sums of machine words over a list, and the lemma collections
  (\<open>queue_simps\<close>, \<open>stats_simps\<close>) that the component theories extend.
\<close>

named_theorems queue_simps "unfolding the queue operations"
named_theorems stats_simps "unfolding the statistics bookkeeping"

text \<open>Go's \<open>uint64\<close> and \<open>int64\<close> are both 64 bits wide; conversions between them keep the bits, so
  one type serves for both and \<open>sint\<close> or \<open>unat\<close> reads it.\<close>

type_synonym uint64 = "64 word"
type_synonym int64 = "64 word"

text \<open>Instants and durations are nanosecond counts.\<close>

type_synonym time = int
type_synonym duration = int

subsection \<open>Exchanging two positions of a list\<close>

definition swap_list :: "nat \<Rightarrow> nat \<Rightarrow> 'a list \<Rightarrow> 'a list" where
  "swap_list i j xs = xs[i := xs ! j, j := xs ! i]"

lemma length_swap_list [simp]: "length (swap_list i j xs) = length xs"
  by (simp add: swap_list_def)

lemma swap_list_nth:
  "i < length xs \<Longrightarrow> j < length xs \<Longrightarrow> k < length xs \<Longrightarrow>
   swap_list i j xs ! k = (if k = i then xs ! j else if k = j then xs ! i else xs ! k)"
  by (auto simp: swap_list_def nth_list_update)

lemma mset_swap_list [simp]:
  "i < length xs \<Longrightarrow> j < length xs \<Longrightarrow> mset (swap_list i j xs) = mset xs"
  using mset_swap [of j xs i] by (simp add: swap_list_def)

lemma set_swap_list [simp]:
  "i < length xs \<Longrightarrow> j < length xs \<Longrightarrow> set (swap_list i j xs) = set xs"
  by (metis mset_swap_list set_mset_mset)

subsection \<open>Sums of machine words over a list\<close>

definition wsum :: "('a \<Rightarrow> 'w::len word) \<Rightarrow> 'a list \<Rightarrow> 'w word" where
  "wsum f xs = sum_list (map f xs)"

lemma wsum_simps [simp]:
  "wsum f [] = 0"
  "wsum f (x # xs) = f x + wsum f xs"
  "wsum f (xs @ ys) = wsum f xs + wsum f ys"
  by (simp_all add: wsum_def)

lemma wsum_mset: "mset xs = mset ys \<Longrightarrow> wsum f xs = wsum f ys"
  by (metis mset_map sum_mset_sum_list wsum_def)

lemma wsum_filter_split: "wsum f xs = wsum f (filter P xs) + wsum f (filter (\<lambda>x. \<not> P x) xs)"
  by (induction xs) (auto simp: algebra_simps)

lemma wsum_remove1: "x \<in> set xs \<Longrightarrow> wsum f (remove1 x xs) = wsum f xs - f x"
  by (induction xs) auto

end
