(* ===== verification/FlowTypes.thy ===== *)
theory FlowTypes
  imports Prelude "HOL-Library.Char_ord" "HOL-Library.List_Lexorder"
begin

text \<open>
  The data of the flow-control layer: flow keys and their ordering
  (\<open>framework/interface/flowcontrol/flow.go\<close>), requests, queue outcomes and errors
  (\<open>flowcontrol/types\<close>, \<open>flowcontrol/contracts/errors.go\<close>), and the items the queues hold
  (\<open>controller/internal/item.go\<close>).

  Items and queue handles are heap objects that several components point to, so they live in a
  \<open>Store\<close>: an item is named by its reference, its mutable part (handle, final state, done channel) is
  looked up there, and so is every handle a queue has created. A step that would panic in Go (a send
  on a closed channel, a nil dereference) has the value \<^const>\<open>None\<close>.
\<close>

subsection \<open>Flow keys\<close>

datatype FlowKey = FlowKey (fk_ID: string) (fk_Priority: int)

definition strings_Compare :: "string \<Rightarrow> string \<Rightarrow> int" where
  "strings_Compare a b = (if a = b then 0 else if a < b then -1 else 1)"

definition Compare :: "FlowKey \<Rightarrow> FlowKey \<Rightarrow> int" where
  "Compare k other =
     (if fk_Priority k > fk_Priority other then -1
      else if fk_Priority k < fk_Priority other then 1
      else strings_Compare (fk_ID k) (fk_ID other))"

lemmas Compare_defs = Compare_def strings_Compare_def

text \<open>Keys are ordered by \<open>Compare\<close>, which is a linear order, so sorting with it is \<^const>\<open>sort\<close>.\<close>

instantiation FlowKey :: linorder
begin

definition less_eq_FlowKey :: "FlowKey \<Rightarrow> FlowKey \<Rightarrow> bool" where
  "less_eq_FlowKey a b \<longleftrightarrow> Compare a b \<le> 0"

definition less_FlowKey :: "FlowKey \<Rightarrow> FlowKey \<Rightarrow> bool" where
  "less_FlowKey a b \<longleftrightarrow> Compare a b < 0"

instance
proof
  fix x y z :: FlowKey
  show "(x < y) = (x \<le> y \<and> \<not> y \<le> x)"
    by (auto simp: less_FlowKey_def less_eq_FlowKey_def Compare_defs split: if_splits)
  show "x \<le> x" by (simp add: less_eq_FlowKey_def Compare_defs)
  show "x \<le> z" if "x \<le> y" "y \<le> z"
    using that by (auto simp: less_eq_FlowKey_def Compare_defs split: if_splits)
  show "x = y" if "x \<le> y" "y \<le> x"
    using that by (cases x; cases y)
      (auto simp: less_eq_FlowKey_def Compare_defs split: if_splits)
  show "x \<le> y \<or> y \<le> x"
    by (auto simp: less_eq_FlowKey_def Compare_defs)
qed

end

subsection \<open>Errors\<close>

text \<open>The sentinel errors, the two context errors, and \<open>fmt.Errorf\<close> with its \<open>%w\<close> operands.\<close>

datatype fc_error =
    ErrRejected | ErrEvicted | ErrQueueAtCapacity | ErrTTLExpired | ErrContextCancelled
  | ErrFlowControllerNotRunning
  | ErrFlowInstanceNotFound | ErrFlowIDEmpty | ErrPriorityBandNotFound
  | ErrPolicyQueueIncompatible | ErrInvalidShardCount | ErrShardDraining
  | ErrInvalidQueueItemHandle | ErrQueueItemNotFound
  | ErrProcessorBusy | errNoShards | ErrIncompatiblePriorityType
  | Canceled | DeadlineExceeded
  | ErrMsg string
  | Errorf "fc_error list"

fun errors_Is :: "fc_error \<Rightarrow> fc_error \<Rightarrow> bool" where
  "errors_Is (Errorf es) target = (Errorf es = target \<or> list_ex (\<lambda>e. errors_Is e target) es)"
| "errors_Is e target = (e = target)"

subsection \<open>Outcomes\<close>

datatype QueueOutcome =
    QueueOutcomeNotYetFinalized
  | QueueOutcomeDispatched
  | QueueOutcomeRejectedCapacity
  | QueueOutcomeRejectedOther
  | QueueOutcomeEvictedTTL
  | QueueOutcomeEvictedContextCancelled
  | QueueOutcomeEvictedOther

definition rejected_outcomes :: "QueueOutcome set" where
  "rejected_outcomes = {QueueOutcomeRejectedCapacity, QueueOutcomeRejectedOther}"

definition evicted_outcomes :: "QueueOutcome set" where
  "evicted_outcomes =
     {QueueOutcomeEvictedTTL, QueueOutcomeEvictedContextCancelled, QueueOutcomeEvictedOther}"

subsection \<open>Requests and items\<close>

record FlowControlRequest =
  rq_ID :: string
  rq_FlowKey :: FlowKey
  rq_ByteSize :: uint64
  rq_ReceivedTimestamp :: time
  rq_InitialEffectiveTTL :: duration
  rq_Headers :: "(string \<times> string) list option"

record FlowItem =
  fi_ref :: nat
  fi_enqueueTime :: time
  fi_effectiveTTL :: duration
  fi_originalRequest :: FlowControlRequest

abbreviation item_key :: "FlowItem \<Rightarrow> FlowKey" where
  "item_key x \<equiv> rq_FlowKey (fi_originalRequest x)"

abbreviation item_bytes :: "FlowItem \<Rightarrow> uint64" where
  "item_bytes x \<equiv> rq_ByteSize (fi_originalRequest x)"

record FinalState =
  fs_Outcome :: QueueOutcome
  fs_Err :: "fc_error option"

text \<open>The mutable part of an item. \<open>im_done\<close> holds what was sent on the channel \<open>done\<close>.\<close>

record ItemMut =
  im_handle :: "nat option"
  im_finalState :: "FinalState option"
  im_done :: "FinalState list"
  im_doneClosed :: bool
  im_onceFinalize :: bool

text \<open>Handle objects: the \<open>heapItem\<close> of a \<open>MaxMinHeap\<close> (its index is kept with the heap) and the
  \<open>listItemHandle\<close> of a \<open>ListQueue\<close>, with the element's value and the queue that made it.\<close>

datatype HandleObj =
    HeapItemObj (ho_isInvalidated: bool)
  | ListHandleObj (ho_value: FlowItem) (ho_owner: nat) (ho_isInvalidated: bool)

record Store =
  st_item :: "nat \<Rightarrow> ItemMut"
  st_obj :: "nat \<Rightarrow> HandleObj option"
  st_next :: nat

definition NewItem :: ItemMut where
  "NewItem = \<lparr>im_handle = None, im_finalState = None, im_done = [], im_doneClosed = False,
              im_onceFinalize = False\<rparr>"

definition empty_store :: Store where
  "empty_store = \<lparr>st_item = (\<lambda>_. NewItem), st_obj = (\<lambda>_. None), st_next = 0\<rparr>"

definition Handle :: "Store \<Rightarrow> FlowItem \<Rightarrow> nat option" where
  "Handle st x = im_handle (st_item st (fi_ref x))"

definition SetHandle :: "FlowItem \<Rightarrow> nat \<Rightarrow> Store \<Rightarrow> Store" where
  "SetHandle x k st = st\<lparr>st_item := (st_item st)(fi_ref x := (st_item st (fi_ref x))\<lparr>im_handle := Some k\<rparr>)\<rparr>"

definition new_obj :: "HandleObj \<Rightarrow> Store \<Rightarrow> nat \<times> Store" where
  "new_obj ob st = (st_next st, st\<lparr>st_obj := (st_obj st)(st_next st \<mapsto> ob), st_next := Suc (st_next st)\<rparr>)"

fun set_invalidated :: "HandleObj \<Rightarrow> HandleObj" where
  "set_invalidated (HeapItemObj _) = HeapItemObj True"
| "set_invalidated (ListHandleObj v ow _) = ListHandleObj v ow True"

definition Invalidate :: "nat \<Rightarrow> Store \<Rightarrow> Store" where
  "Invalidate k st = st\<lparr>st_obj := (st_obj st)(k := map_option set_invalidated (st_obj st k))\<rparr>"

definition IsInvalidated :: "nat \<Rightarrow> Store \<Rightarrow> bool" where
  "IsInvalidated k st = (case st_obj st k of None \<Rightarrow> False | Some ob \<Rightarrow> ho_isInvalidated ob)"

text \<open>The queues invalidate the handle an item currently carries, if it has one.\<close>

definition invalidate_item :: "FlowItem \<Rightarrow> Store \<Rightarrow> Store" where
  "invalidate_item x st = (case Handle st x of None \<Rightarrow> st | Some k \<Rightarrow> Invalidate k st)"

lemmas store_defs = Handle_def SetHandle_def new_obj_def Invalidate_def IsInvalidated_def
  invalidate_item_def

subsection \<open>Finalization\<close>

definition FinalState_of :: "Store \<Rightarrow> FlowItem \<Rightarrow> FinalState option" where
  "FinalState_of st x = im_finalState (st_item st (fi_ref x))"

text \<open>A send on the closed channel panics and a send on the full one blocks for ever, so neither
  returns.\<close>

definition finalizeInternal :: "QueueOutcome \<Rightarrow> fc_error option \<Rightarrow> ItemMut \<Rightarrow> ItemMut option" where
  "finalizeInternal outcome err im =
     (let fs = \<lparr>fs_Outcome = outcome, fs_Err = err\<rparr> in
      if im_doneClosed im \<or> im_done im \<noteq> [] then None
      else Some (im\<lparr>im_finalState := Some fs, im_done := im_done im @ [fs], im_doneClosed := True\<rparr>))"

definition inferOutcome :: "fc_error \<Rightarrow> bool \<Rightarrow> QueueOutcome \<times> fc_error" where
  "inferOutcome cause isQueued =
     (let (specificErr, outcomeIfEvicted) =
        (if errors_Is cause ErrTTLExpired \<or> errors_Is cause DeadlineExceeded
         then (ErrTTLExpired, QueueOutcomeEvictedTTL)
         else if errors_Is cause Canceled
         then (Errorf [ErrContextCancelled, cause], QueueOutcomeEvictedContextCancelled)
         else (cause, QueueOutcomeEvictedOther))
      in if isQueued then (outcomeIfEvicted, Errorf [ErrEvicted, specificErr])
         else (QueueOutcomeRejectedOther, Errorf [ErrRejected, specificErr]))"

text \<open>\<open>onceFinalize.Do\<close>: the body runs on the first call only.\<close>

definition once_finalize :: "FlowItem \<Rightarrow> (ItemMut \<Rightarrow> ItemMut option) \<Rightarrow> Store \<Rightarrow> Store option" where
  "once_finalize x f st =
     (let im = st_item st (fi_ref x) in
      if im_onceFinalize im then Some st
      else (case f (im\<lparr>im_onceFinalize := True\<rparr>) of
              None \<Rightarrow> None
            | Some im' \<Rightarrow> Some (st\<lparr>st_item := (st_item st)(fi_ref x := im')\<rparr>)))"

definition Finalize :: "FlowItem \<Rightarrow> fc_error \<Rightarrow> Store \<Rightarrow> Store option" where
  "Finalize x cause st =
     once_finalize x (\<lambda>im. let isQueued = (im_handle im \<noteq> None);
                               (outcome, finalErr) = inferOutcome cause isQueued
                           in finalizeInternal outcome (Some finalErr) im) st"

definition FinalizeWithOutcome :: "FlowItem \<Rightarrow> QueueOutcome \<Rightarrow> fc_error option \<Rightarrow> Store \<Rightarrow> Store option" where
  "FinalizeWithOutcome x outcome err st = once_finalize x (finalizeInternal outcome err) st"

text \<open>The lifecycle invariant of one item: it is finalized exactly when \<open>onceFinalize\<close> has run, and
  then the channel \<open>done\<close> carries exactly its final state and is closed.\<close>

definition item_ok :: "ItemMut \<Rightarrow> bool" where
  "item_ok im \<longleftrightarrow>
     (case im_finalState im of
        None \<Rightarrow> \<not> im_onceFinalize im \<and> im_done im = [] \<and> \<not> im_doneClosed im
      | Some fs \<Rightarrow> im_onceFinalize im \<and> im_done im = [fs] \<and> im_doneClosed im)"

definition store_ok :: "Store \<Rightarrow> bool" where
  "store_ok st \<longleftrightarrow> (\<forall>r. item_ok (st_item st r))"

lemma store_ok_empty [simp]: "store_ok empty_store"
  by (simp add: store_ok_def empty_store_def item_ok_def NewItem_def)

lemma finalizeInternal_fresh:
  "item_ok im \<Longrightarrow> \<not> im_onceFinalize im \<Longrightarrow>
   finalizeInternal oc err (im\<lparr>im_onceFinalize := True\<rparr>) =
     Some (im\<lparr>im_onceFinalize := True, im_finalState := Some \<lparr>fs_Outcome = oc, fs_Err = err\<rparr>,
            im_done := [\<lparr>fs_Outcome = oc, fs_Err = err\<rparr>], im_doneClosed := True\<rparr>)"
  by (auto simp: item_ok_def finalizeInternal_def Let_def split: option.splits)

text \<open>What finalizing one item does, when it is not final yet and when it is.\<close>

definition finalized_with :: "FlowItem \<Rightarrow> FinalState \<Rightarrow> Store \<Rightarrow> Store" where
  "finalized_with x fs st =
     (if FinalState_of st x = None
      then st\<lparr>st_item := (st_item st)(fi_ref x := (st_item st (fi_ref x))
             \<lparr>im_onceFinalize := True, im_finalState := Some fs, im_done := [fs], im_doneClosed := True\<rparr>)\<rparr>
      else st)"

lemma store_ok_item: "store_ok st \<Longrightarrow> item_ok (st_item st r)"
  by (simp add: store_ok_def)

lemma item_ok_once: "item_ok im \<Longrightarrow> im_onceFinalize im \<longleftrightarrow> im_finalState im \<noteq> None"
  by (auto simp: item_ok_def split: option.splits)

lemma FinalizeWithOutcome_eq:
  "store_ok st \<Longrightarrow>
   FinalizeWithOutcome x oc err st = Some (finalized_with x \<lparr>fs_Outcome = oc, fs_Err = err\<rparr> st)"
  using store_ok_item [of st "fi_ref x"]
  by (auto simp: FinalizeWithOutcome_def once_finalize_def finalized_with_def FinalState_of_def
      Let_def item_ok_once finalizeInternal_fresh)

lemma Finalize_eq:
  "store_ok st \<Longrightarrow>
   Finalize x cause st =
     Some (finalized_with x
       (case inferOutcome cause (Handle st x \<noteq> None) of (oc, e) \<Rightarrow> \<lparr>fs_Outcome = oc, fs_Err = Some e\<rparr>) st)"
  using store_ok_item [of st "fi_ref x"]
  by (auto simp: Finalize_def once_finalize_def finalized_with_def FinalState_of_def Handle_def
      Let_def item_ok_once finalizeInternal_fresh split: prod.splits)

lemma store_ok_finalized_with [simp]: "store_ok st \<Longrightarrow> store_ok (finalized_with x fs st)"
  by (simp add: store_ok_def finalized_with_def) (simp add: item_ok_def)

lemma finalized_with_final [simp]:
  "FinalState_of (finalized_with x fs st) y =
     (if fi_ref y = fi_ref x then Some (case FinalState_of st x of None \<Rightarrow> fs | Some fs' \<Rightarrow> fs')
      else FinalState_of st y)"
  by (auto simp: finalized_with_def FinalState_of_def split: option.splits)

lemma finalized_with_Handle [simp]: "Handle (finalized_with x fs st) y = Handle st y"
  by (auto simp: finalized_with_def Handle_def)

lemma finalized_with_obj [simp]:
  "st_obj (finalized_with x fs st) = st_obj st" "st_next (finalized_with x fs st) = st_next st"
  by (auto simp: finalized_with_def)

lemma item_ok_handle: "item_ok (im\<lparr>im_handle := k\<rparr>) = item_ok im"
  by (simp add: item_ok_def split: option.split)

text \<open>Handle bookkeeping leaves the final states alone.\<close>

lemma store_ops_final [simp]:
  "FinalState_of (SetHandle x k st) y = FinalState_of st y"
  "FinalState_of (Invalidate k st) y = FinalState_of st y"
  "FinalState_of (invalidate_item x st) y = FinalState_of st y"
  by (auto simp: store_defs FinalState_of_def split: option.splits)

lemma store_ops_ok [simp]:
  "store_ok st \<Longrightarrow> store_ok (SetHandle x k st)"
  "store_ok st \<Longrightarrow> store_ok (Invalidate k st)"
  "store_ok st \<Longrightarrow> store_ok (invalidate_item x st)"
  by (simp_all add: store_defs store_ok_def item_ok_handle split: option.splits)

end
