(* ===== verification/HeapOrder.thy ===== *)
theory HeapOrder
  imports Prelude "HOL-Library.Log_Nat"
begin

text \<open>
  The order theory of array-based heaps: ancestors in the implicit binary tree, strict weak orders
  (the contract of a \<open>Less\<close> function), and the predicate \<open>level_heap\<close> saying that
  every node stands in the right order to the nodes below it, on levels that alternate between
  \<open>largest first\<close> and \<open>smallest first\<close>.
\<close>

subsection \<open>The implicit binary tree\<close>

definition par :: "nat \<Rightarrow> nat" where
  "par i = (i - 1) div 2"

lemma par_less: "0 < i \<Longrightarrow> par i < i"
  by (simp add: par_def)

lemma par_children [simp]: "par (2 * i + 1) = i" "par (2 * i + 2) = i" "par (Suc (2 * i)) = i"
    "par (Suc (Suc (2 * i))) = i"
  by (simp_all add: par_def)

lemma par_eqD: "par c = i \<Longrightarrow> 0 < c \<Longrightarrow> c = 2 * i + 1 \<or> c = 2 * i + 2"
  by (auto simp: par_def)

function anc :: "nat \<Rightarrow> nat \<Rightarrow> bool" where
  "anc a j = (if j = 0 then False else a = par j \<or> anc a (par j))"
  by pat_completeness auto
termination
  by (relation "measure snd") (auto simp: par_less)

declare anc.simps [simp del]

lemma anc_0 [simp]: "\<not> anc a 0"
  by (simp add: anc.simps)

lemma anc_par [simp]: "0 < j \<Longrightarrow> anc (par j) j"
  by (subst anc.simps) simp

lemma anc_step: "anc a (par j) \<Longrightarrow> 0 < j \<Longrightarrow> anc a j"
  by (subst anc.simps) simp

lemma anc_cases: "anc a j \<Longrightarrow> a = par j \<or> anc a (par j)"
  by (subst (asm) anc.simps) (simp split: if_splits)

lemma anc_pos: "anc a j \<Longrightarrow> 0 < j"
  by (subst (asm) anc.simps) (simp split: if_splits)

lemma anc_less: "anc a j \<Longrightarrow> a < j"
proof (induction j rule: less_induct)
  case (less j)
  have "par j < j" using par_less [OF anc_pos [OF less.prems]] .
  with anc_cases [OF less.prems] less.IH [of "par j"] show ?case by fastforce
qed

lemma anc_trans: "anc a b \<Longrightarrow> anc b c \<Longrightarrow> anc a c"
proof (induction c rule: less_induct)
  case (less c)
  have c: "0 < c" using anc_pos [OF less.prems(2)] .
  have "anc a (par c)"
    using anc_cases [OF less.prems(2)] less.IH [OF par_less [OF c] less.prems(1)] less.prems(1) by blast
  then show ?case using c by (rule anc_step)
qed

text \<open>A descendant is a child, a grandchild, or lies below a grandchild.\<close>

lemma anc_desc_cases:
  "anc e j \<Longrightarrow> par j = e \<or> (0 < par j \<and> par (par j) = e)
    \<or> (\<exists>g. anc g j \<and> 0 < g \<and> 0 < par g \<and> par (par g) = e)"
proof (induction j rule: less_induct)
  case (less j)
  have j: "0 < j" using anc_pos [OF less.prems] .
  show ?case
  proof (cases "e = par j")
    case False
    then have ep: "anc e (par j)" using anc_cases [OF less.prems] by blast
    from less.IH [OF par_less [OF j] ep] anc_pos [OF ep] show ?thesis
      using anc_par [OF j] anc_step [OF _ j] by blast
  qed simp
qed

text \<open>A node with a descendant has a left child no further than that descendant.\<close>

lemma anc_left_child: "anc e j \<Longrightarrow> 2 * e + 1 \<le> j"
proof (induction j rule: less_induct)
  case (less j)
  have j: "0 < j" using anc_pos [OF less.prems] .
  show ?case
  proof (cases "e = par j")
    case True
    with par_eqD [of j e] j show ?thesis by auto
  next
    case False
    then have "anc e (par j)" using anc_cases [OF less.prems] by blast
    from less.IH [OF par_less [OF j] this] par_less [OF j] show ?thesis by simp
  qed
qed

subsection \<open>Strict weak orders\<close>

text \<open>\<open>bef a b\<close> reads \<open>a\<close> goes before \<open>b\<close>; \<open>less_eq_by bef a b\<close> that \<open>b\<close> does not go
  before \<open>a\<close>.\<close>

definition less_eq_by :: "('a \<Rightarrow> 'a \<Rightarrow> bool) \<Rightarrow> 'a \<Rightarrow> 'a \<Rightarrow> bool" where
  "less_eq_by bef a b \<longleftrightarrow> \<not> bef b a"

locale strict_weak =
  fixes bef :: "'a \<Rightarrow> 'a \<Rightarrow> bool"
  assumes asym: "bef a b \<Longrightarrow> \<not> bef b a"
    and neg_trans: "bef a b \<Longrightarrow> bef a c \<or> bef c b"
begin

lemma irrefl [simp]: "\<not> bef a a"
  using asym by blast

lemma less_trans: "bef a b \<Longrightarrow> bef b c \<Longrightarrow> bef a c"
  using asym neg_trans by blast

lemma le_refl [simp]: "less_eq_by bef a a"
  by (simp add: less_eq_by_def)

lemma le_trans: "less_eq_by bef a b \<Longrightarrow> less_eq_by bef b c \<Longrightarrow> less_eq_by bef a c"
  unfolding less_eq_by_def using neg_trans by blast

lemma less_imp_le: "bef a b \<Longrightarrow> less_eq_by bef a b"
  unfolding less_eq_by_def using asym by blast

lemma le_total: "less_eq_by bef a b \<or> less_eq_by bef b a"
  unfolding less_eq_by_def using asym by blast

end

sublocale strict_weak \<subseteq> dual: strict_weak "\<lambda>a b. bef b a"
  by unfold_locales (use asym neg_trans in blast)+

text \<open>No two different members of the list tie, and no member occurs twice.\<close>

definition no_ties :: "('a \<Rightarrow> 'a \<Rightarrow> bool) \<Rightarrow> 'a list \<Rightarrow> bool" where
  "no_ties bef xs \<longleftrightarrow> distinct xs \<and> (\<forall>x\<in>set xs. \<forall>y\<in>set xs. x \<noteq> y \<longrightarrow> bef x y \<or> bef y x)"

lemma no_ties_mset: "mset xs = mset ys \<Longrightarrow> no_ties bef xs \<longleftrightarrow> no_ties bef ys"
  unfolding no_ties_def by (metis mset_eq_imp_distinct_iff mset_eq_setD)

lemma no_ties_dual: "no_ties (\<lambda>a b. bef b a) xs \<longleftrightarrow> no_ties bef xs"
  unfolding no_ties_def by blast

lemma no_tiesD:
  "no_ties bef xs \<Longrightarrow> i < length xs \<Longrightarrow> j < length xs \<Longrightarrow> i \<noteq> j \<Longrightarrow>
   less_eq_by bef (xs ! i) (xs ! j) \<Longrightarrow> \<not> less_eq_by bef (xs ! j) (xs ! i)"
  unfolding no_ties_def less_eq_by_def by (metis nth_eq_iff_index_eq nth_mem)

lemma no_ties_filter: "no_ties bef xs \<Longrightarrow> no_ties bef (filter P xs)"
  by (auto simp: no_ties_def)

subsection \<open>Heaps on alternating levels\<close>

text \<open>\<open>above bef low x y\<close>: \<open>x\<close> may stand above \<open>y\<close>, on a level that keeps the member going last
  (\<open>low\<close>) or the member going first.\<close>

definition above :: "('a \<Rightarrow> 'a \<Rightarrow> bool) \<Rightarrow> bool \<Rightarrow> 'a \<Rightarrow> 'a \<Rightarrow> bool" where
  "above bef low x y = (if low then less_eq_by bef y x else less_eq_by bef x y)"

lemma above_dual: "above (\<lambda>a b. bef b a) (\<not> low) x y \<longleftrightarrow> above bef low x y"
  by (simp add: above_def less_eq_by_def)

definition heap_on :: "('a \<Rightarrow> 'a \<Rightarrow> bool) \<Rightarrow> (nat \<Rightarrow> bool) \<Rightarrow> (nat \<Rightarrow> nat \<Rightarrow> bool) \<Rightarrow> 'a list \<Rightarrow> bool" where
  "heap_on bef L P xs \<longleftrightarrow>
     (\<forall>a j. anc a j \<longrightarrow> j < length xs \<longrightarrow> P a j \<longrightarrow> above bef (L a) (xs ! a) (xs ! j))"

lemma heap_on_dual: "heap_on (\<lambda>a b. bef b a) (\<lambda>i. \<not> L i) P xs \<longleftrightarrow> heap_on bef L P xs"
  unfolding heap_on_def above_dual ..

lemma heap_onD:
  "heap_on bef L P xs \<Longrightarrow> anc a j \<Longrightarrow> j < length xs \<Longrightarrow> P a j \<Longrightarrow> above bef (L a) (xs ! a) (xs ! j)"
  by (simp add: heap_on_def)

lemma heap_on_mono: "heap_on bef L P xs \<Longrightarrow> (\<And>a j. Q a j \<Longrightarrow> P a j) \<Longrightarrow> heap_on bef L Q xs"
  by (simp add: heap_on_def)

definition alternating :: "(nat \<Rightarrow> bool) \<Rightarrow> bool" where
  "alternating L \<longleftrightarrow> (\<forall>j > 0. L j = (\<not> L (par j)))"

lemma alternating_dual: "alternating (\<lambda>i. \<not> L i) \<longleftrightarrow> alternating L"
  by (auto simp: alternating_def)

lemma alternatingD: "alternating L \<Longrightarrow> 0 < j \<Longrightarrow> L j \<longleftrightarrow> \<not> L (par j)"
  by (simp add: alternating_def)

text \<open>The two invariants of the sifting loops: going down, the heap is right from node \<open>k\<close> on except
  below \<open>e\<close>; going up, it is right except where \<open>e\<close> stands below a node of its own kind of level.\<close>

definition down_inv :: "('a \<Rightarrow> 'a \<Rightarrow> bool) \<Rightarrow> (nat \<Rightarrow> bool) \<Rightarrow> nat \<Rightarrow> nat \<Rightarrow> 'a list \<Rightarrow> bool" where
  "down_inv bef L k e xs = heap_on bef L (\<lambda>a j. k \<le> a \<and> a \<noteq> e) xs"

definition up_inv :: "('a \<Rightarrow> 'a \<Rightarrow> bool) \<Rightarrow> (nat \<Rightarrow> bool) \<Rightarrow> nat \<Rightarrow> 'a list \<Rightarrow> bool" where
  "up_inv bef L e xs = heap_on bef L (\<lambda>a j. j \<noteq> e \<or> L a) xs"

definition heap_from :: "('a \<Rightarrow> 'a \<Rightarrow> bool) \<Rightarrow> (nat \<Rightarrow> bool) \<Rightarrow> nat \<Rightarrow> 'a list \<Rightarrow> bool" where
  "heap_from bef L k xs = heap_on bef L (\<lambda>a j. k \<le> a) xs"

abbreviation level_heap :: "('a \<Rightarrow> 'a \<Rightarrow> bool) \<Rightarrow> (nat \<Rightarrow> bool) \<Rightarrow> 'a list \<Rightarrow> bool" where
  "level_heap bef L xs \<equiv> heap_from bef L 0 xs"

lemmas heap_inv_defs = down_inv_def up_inv_def heap_from_def

text \<open>\<open>best_below\<close>: \<open>m\<close> is a child or grandchild of \<open>e\<close> that goes no later than any other.\<close>

definition near :: "nat \<Rightarrow> nat \<Rightarrow> bool" where
  "near e c \<longleftrightarrow> 0 < c \<and> (par c = e \<or> (0 < par c \<and> par (par c) = e))"

definition best_below :: "('a \<Rightarrow> 'a \<Rightarrow> bool) \<Rightarrow> nat \<Rightarrow> nat \<Rightarrow> 'a list \<Rightarrow> bool" where
  "best_below bef e m xs \<longleftrightarrow> near e m \<and> m < length xs
     \<and> (\<forall>c < length xs. near e c \<longrightarrow> less_eq_by bef (xs ! m) (xs ! c))"

lemma near_anc: "near e c \<Longrightarrow> anc e c"
  unfolding near_def by (metis anc_par anc_step)

context strict_weak
begin

lemma best_below_all:
  assumes alt: "alternating L" and top: "\<not> L e"
    and inv: "down_inv bef L k e xs" and ke: "k \<le> e"
    and best: "best_below bef e m xs" and j: "anc e j" "j < length xs"
  shows "less_eq_by bef (xs ! m) (xs ! j)"
proof (cases "near e j")
  case True
  with best j(2) show ?thesis by (simp add: best_below_def)
next
  case False
  with anc_desc_cases [OF j(1)] anc_pos [OF j(1)] obtain g
    where g: "anc g j" "0 < g" "0 < par g" "par (par g) = e"
    unfolding near_def by blast
  then have eg: "near e g" by (simp add: near_def)
  have gl: "g < length xs" using anc_less [OF g(1)] j(2) by simp
  have "less_eq_by bef (xs ! m) (xs ! g)" using best gl eg by (simp add: best_below_def)
  moreover have "\<not> L g" using alt top g by (metis alternatingD)
  moreover have "k \<le> g" "g \<noteq> e" using near_anc [OF eg] anc_less ke by fastforce+
  ultimately show ?thesis
    using heap_onD [OF inv [unfolded down_inv_def] g(1) j(2)] le_trans by (simp add: above_def)
qed

lemma down_stop:
  assumes "alternating L" "\<not> L e" "down_inv bef L k e xs" "k \<le> e" "best_below bef e m xs"
    and "\<not> bef (xs ! m) (xs ! e)"
  shows "heap_from bef L k xs"
  unfolding heap_from_def heap_on_def
proof (intro allI impI)
  fix a j assume j: "anc a j" "j < length xs" "k \<le> a"
  show "above bef (L a) (xs ! a) (xs ! j)"
  proof (cases "a = e")
    case True
    have "less_eq_by bef (xs ! e) (xs ! m)" using assms(6) by (simp add: less_eq_by_def)
    with best_below_all [OF assms(1-5)] j True assms(2) show ?thesis
      using le_trans by (simp add: above_def)
  next
    case False
    with assms(3) j show ?thesis by (simp add: down_inv_def heap_on_def)
  qed
qed

lemma down_leaf:
  assumes "down_inv bef L k e xs" "length xs \<le> 2 * e + 1"
  shows "heap_from bef L k xs"
  using assms anc_left_child unfolding heap_inv_defs heap_on_def by fastforce

text \<open>The best node is a grandchild: it moves up, the displaced member is ordered with its new
  parent.\<close>

lemma down_step_grandchild:
  assumes alt: "alternating L" and top: "\<not> L e"
    and inv: "down_inv bef L k e xs" and ke: "k \<le> e"
    and best: "best_below bef e m xs" and gc: "par (par m) = e" "0 < par m"
    and lt: "bef (xs ! m) (xs ! e)"
    and ys: "ys = (if bef (xs ! par m) (xs ! e) then swap_list m (par m) (swap_list e m xs)
                   else swap_list e m xs)"
  shows "down_inv bef L k m ys"
  unfolding down_inv_def heap_on_def
proof (intro allI impI)
  fix a j assume aj: "anc a j" "j < length ys" "k \<le> a \<and> a \<noteq> m"
  define q where "q = par m"
  have len: "length ys = length xs" using ys by simp
  have m: "m < length xs" "0 < m" "anc q m" "anc e q" "anc e m"
    using best gc unfolding best_below_def q_def by (auto simp: near_def intro: anc_step anc_trans)
  have ord: "e < q" "q < m" using m anc_less by auto
  have bnd: "e < length xs" "q < length xs" using ord m(1) by auto
  have yv: "ys ! e = xs ! m" "\<And>i. i < length xs \<Longrightarrow> i \<notin> {e, q, m} \<Longrightarrow> ys ! i = xs ! i"
    using ord bnd m(1) ys by (auto simp: swap_list_nth q_def [symmetric])
  have yqm: "(ys ! q = xs ! q \<and> ys ! m = xs ! e \<and> less_eq_by bef (xs ! e) (xs ! q))
      \<or> (ys ! q = xs ! e \<and> ys ! m = xs ! q \<and> bef (xs ! q) (xs ! e))"
    using ord bnd m(1) ys by (auto simp: swap_list_nth q_def [symmetric] less_eq_by_def)
  have below: "\<And>i. anc e i \<Longrightarrow> i < length xs \<Longrightarrow> less_eq_by bef (xs ! m) (xs ! i)"
    using best_below_all [OF alt top inv ke best] .
  have j: "j < length xs" using aj len by simp
  consider "a = e" | "a = q" | "a \<noteq> e" "a \<noteq> q" "a \<noteq> m" using aj by blast
  then show "above bef (L a) (ys ! a) (ys ! j)"
  proof cases
    case 1
    have "less_eq_by bef (xs ! m) (ys ! j)"
      using yqm yv(2) [of j] below [of j] below [of q] j aj(1) 1 m anc_less [of e e] bnd
        less_imp_le [OF lt] by (cases "j \<in> {e, q, m}") (auto simp: anc_less)
    then show ?thesis using 1 top yv(1) by (simp add: above_def)
  next
    case 2
    have low: "L q" using alt top gc m(2) unfolding q_def by (metis alternatingD)
    have "less_eq_by bef (ys ! j) (ys ! q)"
    proof (cases "j = m")
      case True with yqm less_imp_le show ?thesis by auto
    next
      case False
      moreover have "j \<noteq> q" "j \<noteq> e" using anc_less [OF aj(1)] 2 ord by auto
      ultimately have "ys ! j = xs ! j" using yv j by simp
      moreover have "less_eq_by bef (xs ! j) (xs ! q)"
        using heap_onD [OF inv [unfolded down_inv_def] aj(1) j] 2 ord ke low by (simp add: above_def)
      ultimately show ?thesis using yqm less_imp_le le_trans by metis
    qed
    then show ?thesis using 2 low by (simp add: above_def)
  next
    case 3
    then have ya: "ys ! a = xs ! a" using yv anc_less [OF aj(1)] j by auto
    have D: "\<And>i. anc a i \<Longrightarrow> i < length xs \<Longrightarrow> above bef (L a) (xs ! a) (xs ! i)"
      using heap_onD [OF inv [unfolded down_inv_def]] aj 3 by blast
    show ?thesis
    proof (cases "j \<in> {e, q, m}")
      case True
      then have "anc a e" using 3 aj(1) m(2) gc q_def anc_cases by blast
      then have "anc a e" "anc a q" "anc a m" using m anc_trans by blast+
      then have "above bef (L a) (xs ! a) (xs ! e)" "above bef (L a) (xs ! a) (xs ! q)"
        "above bef (L a) (xs ! a) (xs ! m)" using D bnd m(1) by blast+
      with True ya yv(1) yqm show ?thesis by auto
    next
      case False
      with ya yv(2) D aj(1) j show ?thesis by simp
    qed
  qed
qed

text \<open>The best node is a child: it has no children of its own, unless members tie.\<close>

lemma down_step_child:
  assumes alt: "alternating L" and top: "\<not> L e"
    and inv: "down_inv bef L k e xs" and ke: "k \<le> e"
    and best: "best_below bef e m xs" and child: "par m = e"
    and lt: "bef (xs ! m) (xs ! e)"
  shows "down_inv bef L k m (swap_list e m xs)"
  unfolding down_inv_def heap_on_def
proof (intro allI impI)
  fix a j assume aj: "anc a j" "j < length (swap_list e m xs)" "k \<le> a \<and> a \<noteq> m"
  have nm: "near e m" and m: "m < length xs" using best by (simp_all add: best_below_def)
  then have m: "m < length xs" "0 < m" "anc e m"
    using anc_pos [OF near_anc [OF nm]] near_anc [OF nm] by auto
  have em: "e < m" "e < length xs" using m anc_less [OF m(3)] by auto
  have j: "j < length xs" using aj by simp
  note yv = swap_list_nth [OF em(2) m(1)]
  have below: "\<And>i. anc e i \<Longrightarrow> i < length xs \<Longrightarrow> less_eq_by bef (xs ! m) (xs ! i)"
    using best_below_all [OF alt top inv ke best] .
  show "above bef (L a) (swap_list e m xs ! a) (swap_list e m xs ! j)"
  proof (cases "a = e")
    case True
    have "j \<noteq> e" using aj(1) True anc_less by blast
    then show ?thesis
      using True top below aj(1) j yv em less_imp_le [OF lt] by (auto simp: above_def)
  next
    case False
    have D: "\<And>i. anc a i \<Longrightarrow> i < length xs \<Longrightarrow> above bef (L a) (xs ! a) (xs ! i)"
      using heap_onD [OF inv [unfolded down_inv_def]] aj False by blast
    have "j \<in> {e, m} \<Longrightarrow> anc a e" using aj(1) anc_cases child False m(2) by blast
    then have "j \<in> {e, m} \<Longrightarrow> above bef (L a) (xs ! a) (xs ! e) \<and> above bef (L a) (xs ! a) (xs ! m)"
      using D em m anc_trans by blast
    with D aj j False show ?thesis
      using yv anc_less [OF aj(1)] by (cases "j \<in> {e, m}") auto
  qed
qed

lemma best_child_leaf:
  assumes alt: "alternating L" and top: "\<not> L e"
    and inv: "down_inv bef L k e xs" and ke: "k \<le> e"
    and best: "best_below bef e m xs" and child: "par m = e"
    and ties: "no_ties bef xs"
  shows "length xs \<le> 2 * m + 1"
proof (rule ccontr)
  assume "\<not> length xs \<le> 2 * m + 1"
  then have c: "2 * m + 1 < length xs" by simp
  have nm: "near e m" and ml: "m < length xs" using best by (simp_all add: best_below_def)
  have m: "m < length xs" "0 < m" "e < m"
    using ml anc_pos [OF near_anc [OF nm]] anc_less [OF near_anc [OF nm]] by auto
  have "near e (2 * m + 1)" using m child by (simp add: near_def)
  then have le: "less_eq_by bef (xs ! m) (xs ! (2 * m + 1))"
    using best c by (simp add: best_below_def)
  have "L m" using alt top child m by (metis alternatingD)
  moreover have "anc m (2 * m + 1)" using anc_par [of "2 * m + 1"] by simp
  ultimately have "less_eq_by bef (xs ! (2 * m + 1)) (xs ! m)"
    using heap_onD [OF inv [unfolded down_inv_def], of m "2 * m + 1"] c ke m by (simp add: above_def)
  with no_tiesD [OF ties m(1) c _ le] show False by simp
qed

subsection \<open>Going up\<close>

lemma up_step:
  assumes alt: "alternating L" and top: "\<not> L e"
    and inv: "up_inv bef L e xs" and e: "e < length xs" "0 < par e" and g: "g = par (par e)"
    and lt: "bef (xs ! e) (xs ! g)"
  shows "up_inv bef L g (swap_list e g xs)"
  unfolding up_inv_def heap_on_def
proof (intro allI impI)
  fix a j assume aj: "anc a j" "j < length (swap_list e g xs)" "j \<noteq> g \<or> L a"
  have e0: "0 < e" using e(2) by (metis par_def diff_0_eq_0 div_0 gr0I less_irrefl)
  have gp: "anc g (par e)" "anc g e" using g e anc_par anc_step e0 by blast+
  have ge: "g < length xs" "g \<noteq> e" using anc_less [OF gp(2)] e(1) by auto
  note yv = swap_list_nth [OF e(1) ge(1)]
  have topg: "\<not> L g" using alt top e(2) g e0 by (metis alternatingD)
  have j: "j < length xs" using aj by simp
  have D: "\<And>i. anc a i \<Longrightarrow> i < length xs \<Longrightarrow> i \<noteq> e \<or> L a \<Longrightarrow> above bef (L a) (xs ! a) (xs ! i)"
    using heap_onD [OF inv [unfolded up_inv_def]] by blast
  have aj': "a < length xs" using anc_less [OF aj(1)] j by simp
  consider "a = e" | "a = g" | "a \<noteq> e" "a \<noteq> g" by blast
  then show "above bef (L a) (swap_list e g xs ! a) (swap_list e g xs ! j)"
  proof cases
    case 1
    then have "anc g j" "j \<noteq> e" "j \<noteq> g" using aj(1) gp(2) anc_trans anc_less by blast+
    then have "above bef (L g) (xs ! g) (xs ! j)"
      using heap_onD [OF inv [unfolded up_inv_def]] j by blast
    with 1 \<open>j \<noteq> e\<close> \<open>j \<noteq> g\<close> top topg yv j e ge show ?thesis by (simp add: above_def)
  next
    case 2
    have "j \<noteq> g" using aj(1) 2 anc_less by blast
    moreover have "j \<noteq> e \<Longrightarrow> less_eq_by bef (xs ! e) (xs ! j)"
      using D [of j] 2 topg aj(1) j le_trans [OF less_imp_le [OF lt]] by (simp add: above_def)
    ultimately show ?thesis
      using 2 topg yv j e ge less_imp_le [OF lt] by (auto simp: above_def)
  next
    case 3
    then have ya: "swap_list e g xs ! a = xs ! a" using yv aj' by simp
    show ?thesis
    proof (cases "j = e")
      case True
      have "a = par e \<or> anc a g" using aj(1) True anc_cases g 3 by blast
      then have "above bef (L a) (xs ! a) (xs ! g)"
      proof
        assume a: "a = par e"
        have "L a" using alt top e0 a by (metis alternatingD)
        have "above bef (L g) (xs ! g) (xs ! par e)"
          using heap_onD [OF inv [unfolded up_inv_def] gp(1)] par_less [OF e0] e(1) by simp
        with \<open>L a\<close> topg a show ?thesis by (simp add: above_def)
      next
        assume "anc a g" with D ge show ?thesis by blast
      qed
      with True ya yv e ge show ?thesis by simp
    next
      case False
      show ?thesis
      proof (cases "j = g")
        case True
        with aj(3) have "L a" by simp
        moreover have "anc a e" using aj(1) True gp(2) anc_trans by blast
        ultimately have "above bef (L a) (xs ! a) (xs ! e)" using D e by blast
        with True ya yv e ge False show ?thesis by simp
      next
        case False': False
        with False ya yv j D [OF aj(1) j] show ?thesis by simp
      qed
    qed
  qed
qed

lemma up_stop:
  assumes alt: "alternating L" and top: "\<not> L e"
    and inv: "up_inv bef L e xs" and e: "e < length xs"
    and stop: "par e = 0 \<and> (0 < e \<longrightarrow> L 0) \<or> (0 < par e \<and> \<not> bef (xs ! e) (xs ! par (par e)))"
  shows "level_heap bef L xs"
  unfolding heap_from_def heap_on_def
proof (intro allI impI)
  fix a j assume aj: "anc a j" "j < length xs"
  show "above bef (L a) (xs ! a) (xs ! j)"
  proof (cases "j \<noteq> e \<or> L a")
    case True
    with heap_onD [OF inv [unfolded up_inv_def] aj] show ?thesis by simp
  next
    case False
    then have ae: "anc a e" "\<not> L a" using aj by auto
    have e0: "0 < e" using anc_pos [OF ae(1)] .
    have "a \<noteq> par e" using alt top ae(2) e0 alternatingD by blast
    then have ap: "anc a (par e)" using ae(1) anc_cases by blast
    then have p0: "0 < par e" using anc_pos by blast
    then have nl: "less_eq_by bef (xs ! par (par e)) (xs ! e)" using stop by (simp add: less_eq_by_def)
    have "a = par (par e) \<or> anc a (par (par e))" using ap anc_cases by blast
    moreover have "par (par e) < length xs" "par (par e) \<noteq> e"
      using par_less [OF p0] par_less [OF e0] e by linarith+
    ultimately have "less_eq_by bef (xs ! a) (xs ! e)"
      using heap_onD [OF inv [unfolded up_inv_def], of a "par (par e)"] ae(2) nl le_trans
      by (auto simp: above_def)
    with False ae(2) show ?thesis by (simp add: above_def)
  qed
qed

text \<open>A new last node \<open>e\<close>, on a level keeping the member going first, below a parent that keeps the
  member going last.\<close>

lemma up_start_keep:
  assumes alt: "alternating L" and top: "\<not> L e" and e: "e < length xs" "0 < e"
    and rest: "heap_on bef L (\<lambda>a j. j \<noteq> e) xs"
    and ok: "\<not> bef (xs ! par e) (xs ! e)"
  shows "up_inv bef L e xs"
  unfolding up_inv_def heap_on_def
proof (intro allI impI)
  fix a j assume aj: "anc a j" "j < length xs" "j \<noteq> e \<or> L a"
  show "above bef (L a) (xs ! a) (xs ! j)"
  proof (cases "j = e")
    case True
    then have "L a" using aj by simp
    have le: "less_eq_by bef (xs ! e) (xs ! par e)" using ok by (simp add: less_eq_by_def)
    have "a = par e \<or> anc a (par e)" using aj(1) True anc_cases by blast
    moreover have "par e < length xs" "par e \<noteq> e" using par_less [OF e(2)] e(1) by linarith+
    ultimately show ?thesis
      using heap_onD [OF rest, of a "par e"] \<open>L a\<close> True le le_trans by (auto simp: above_def)
  next
    case False
    with heap_onD [OF rest aj(1,2)] show ?thesis by simp
  qed
qed

lemma up_start_swap:
  assumes low: "L (par e)" and e: "length xs = Suc e" "0 < e"
    and rest: "heap_on bef L (\<lambda>a j. j \<noteq> e) xs"
    and bad: "bef (xs ! par e) (xs ! e)"
  shows "up_inv (\<lambda>a b. bef b a) (\<lambda>i. \<not> L i) (par e) (swap_list e (par e) xs)"
  unfolding up_inv_def heap_on_dual heap_on_def
proof (intro allI impI)
  define p where "p = par e"
  fix a j assume "anc a j" "j < length (swap_list e (par e) xs)" "j \<noteq> par e \<or> \<not> L a"
  then have aj: "anc a j" "j < length xs" "j \<noteq> p \<or> \<not> L a" by (simp_all add: p_def)
  have pe: "p < e" "p < length xs" "e < length xs" "anc p e"
    using par_less [OF e(2)] e anc_par [OF e(2)] by (simp_all add: p_def)
  note yv = swap_list_nth [OF pe(3,2)]
  have ae: "a \<noteq> e" "a < length xs" using anc_less [OF aj(1)] aj(2) e by auto
  have le: "less_eq_by bef (xs ! p) (xs ! e)" using less_imp_le [OF bad] by (simp add: p_def)
  have D: "\<And>i. anc a i \<Longrightarrow> i < length xs \<Longrightarrow> i \<noteq> e \<Longrightarrow> above bef (L a) (xs ! a) (xs ! i)"
    using heap_onD [OF rest] by blast
  show "above bef (L a) (swap_list e (par e) xs ! a) (swap_list e (par e) xs ! j)"
    unfolding p_def [symmetric]
  proof (cases "a = p")
    case True
    have jp: "j \<noteq> p" using anc_less [OF aj(1)] True by simp
    have "j \<noteq> e \<Longrightarrow> less_eq_by bef (xs ! j) (xs ! e)"
      using D [of j] aj True low le le_trans by (simp add: above_def p_def)
    with True low jp le yv aj pe show "above bef (L a) (swap_list e p xs ! a) (swap_list e p xs ! j)"
      by (simp add: above_def p_def)
  next
    case False
    have ya: "swap_list e p xs ! a = xs ! a" using yv ae False by simp
    consider "j = e" | "j = p" | "j \<noteq> e" "j \<noteq> p" by blast
    then show "above bef (L a) (swap_list e p xs ! a) (swap_list e p xs ! j)"
    proof cases
      case 1
      then have "anc a p" using aj(1) False anc_cases p_def by blast
      with D [of p] 1 ya yv pe show ?thesis by simp
    next
      case 2
      then have "less_eq_by bef (xs ! a) (xs ! p)" "\<not> L a" using D [of p] aj pe by (auto simp: above_def)
      with 2 ya yv pe le le_trans show ?thesis by (simp add: above_def)
    next
      case 3
      with D aj ya yv show ?thesis by simp
    qed
  qed
qed

end

end
