(* ===== verification/OrderingPolicies.thy ===== *)
theory OrderingPolicies
  imports FlowTypes HeapOrder
begin

text \<open>
  The three ordering policies (\<open>plugins/flowcontrol/ordering\<close>): first come first served, earliest
  deadline first, and SLO deadline, with the header lookup and the number parsing the last one uses.
  The queues compare items that are never nil, so each \<open>Less\<close> is given on two items after its nil
  guards are stated on optional ones. Each policy is shown to be a strict weak order, which is what
  the heap of \<open>MaxMinHeap\<close> needs.
\<close>

subsection \<open>Nil guards\<close>

definition nil_less :: "('a \<Rightarrow> 'a \<Rightarrow> bool) \<Rightarrow> 'a option \<Rightarrow> 'a option \<Rightarrow> bool" where
  "nil_less f a b =
     (case a of None \<Rightarrow> False
      | Some x \<Rightarrow> (case b of None \<Rightarrow> True | Some y \<Rightarrow> f x y))"

subsection \<open>First come, first served\<close>

definition fcfs_Less :: "FlowItem \<Rightarrow> FlowItem \<Rightarrow> bool" where
  "fcfs_Less a b = (fi_enqueueTime a < fi_enqueueTime b)"

definition fcfs_Less_nil :: "FlowItem option \<Rightarrow> FlowItem option \<Rightarrow> bool" where
  "fcfs_Less_nil = nil_less fcfs_Less"

subsection \<open>Earliest deadline first\<close>

definition maxDeadlineTime :: time where
  "maxDeadlineTime = 2 ^ 63 - 1"

definition calculateDeadline :: "FlowItem \<Rightarrow> time" where
  "calculateDeadline item =
     (if fi_effectiveTTL item \<le> 0 then maxDeadlineTime
      else fi_enqueueTime item + fi_effectiveTTL item)"

definition edf_Less :: "FlowItem \<Rightarrow> FlowItem \<Rightarrow> bool" where
  "edf_Less a b =
     (if calculateDeadline a \<noteq> calculateDeadline b then calculateDeadline a < calculateDeadline b
      else fi_enqueueTime a < fi_enqueueTime b)"

definition edf_Less_nil :: "FlowItem option \<Rightarrow> FlowItem option \<Rightarrow> bool" where
  "edf_Less_nil = nil_less edf_Less"

subsection \<open>Header lookup\<close>

text \<open>Strings are byte strings. The keys looked up are ASCII, so lower-casing the ASCII letters
  decides the comparison. A header map is an association list in the order of the iteration.\<close>

definition byte_lower :: "char \<Rightarrow> char" where
  "byte_lower c = (if 65 \<le> (of_char c :: nat) \<and> (of_char c :: nat) \<le> 90
                   then char_of ((of_char c :: nat) + 32) else c)"

definition ToLower :: "string \<Rightarrow> string" where
  "ToLower s = map byte_lower s"

definition GetHeader :: "(string \<times> string) list \<Rightarrow> string \<Rightarrow> string" where
  "GetHeader headers key =
     (case map_of headers key of
        Some v \<Rightarrow> v
      | None \<Rightarrow> (case find (\<lambda>(k, v). ToLower k = ToLower key) headers of
                  Some (k, v) \<Rightarrow> v
                | None \<Rightarrow> ''''))"

subsection \<open>\<open>strings.TrimSpace\<close> and \<open>strconv.ParseInt\<close>\<close>

text \<open>The UTF-8 encodings of the runes \<open>unicode.IsSpace\<close> accepts.\<close>

definition space_runes :: "nat list list" where
  "space_runes =
     [[9], [10], [11], [12], [13], [32], [0xC2, 0x85], [0xC2, 0xA0], [0xE1, 0x9A, 0x80]]
     @ map (\<lambda>b. [0xE2, 0x80, b]) [0x80 ..< 0x8B]
     @ [[0xE2, 0x80, 0xA8], [0xE2, 0x80, 0xA9], [0xE2, 0x80, 0xAF], [0xE2, 0x81, 0x9F], [0xE3, 0x80, 0x80]]"

fun drop_prefix :: "'a list \<Rightarrow> 'a list \<Rightarrow> 'a list option" where
  "drop_prefix [] ys = Some ys"
| "drop_prefix (x # xs) [] = None"
| "drop_prefix (x # xs) (y # ys) = (if x = y then drop_prefix xs ys else None)"

lemma drop_prefix_append: "drop_prefix xs ys = Some zs \<Longrightarrow> ys = xs @ zs"
  by (induction xs ys rule: drop_prefix.induct) (auto split: if_splits)

fun first_some :: "('a \<Rightarrow> 'b option) \<Rightarrow> 'a list \<Rightarrow> 'b option" where
  "first_some f [] = None"
| "first_some f (x # xs) = (case f x of None \<Rightarrow> first_some f xs | Some y \<Rightarrow> Some y)"

lemma first_some_Some: "first_some f xs = Some y \<Longrightarrow> \<exists>x \<in> set xs. f x = Some y"
  by (induction xs) (auto split: option.splits)

definition drop_one :: "'a list list \<Rightarrow> 'a list \<Rightarrow> 'a list option" where
  "drop_one rs s = first_some (\<lambda>r. case r of [] \<Rightarrow> None | _ \<Rightarrow> drop_prefix r s) rs"

lemma drop_one_shorter: "drop_one rs s = Some t \<Longrightarrow> length t < length s"
  by (auto simp: drop_one_def dest!: first_some_Some drop_prefix_append split: list.splits)

function trim_left :: "'a list list \<Rightarrow> 'a list \<Rightarrow> 'a list" where
  "trim_left rs s = (case drop_one rs s of None \<Rightarrow> s | Some t \<Rightarrow> trim_left rs t)"
  by pat_completeness auto
termination
  by (relation "measure (\<lambda>(rs, s). length s)") (auto dest: drop_one_shorter)

declare trim_left.simps [simp del]

definition TrimSpace :: "string \<Rightarrow> string" where
  "TrimSpace s =
     map char_of (rev (trim_left (map rev space_runes)
       (rev (trim_left space_runes (map of_char s :: nat list)))))"

text \<open>\<open>ParseInt(s, 10, 64)\<close>: an optional sign and decimal digits, in the range of \<open>int64\<close>.\<close>

fun parse_digits :: "nat list \<Rightarrow> nat \<Rightarrow> nat option" where
  "parse_digits [] acc = Some acc"
| "parse_digits (c # cs) acc =
     (if 48 \<le> c \<and> c \<le> 57 then parse_digits cs (10 * acc + (c - 48)) else None)"

definition ParseInt :: "string \<Rightarrow> int option" where
  "ParseInt s =
     (let bs = map of_char s :: nat list;
          neg = (bs \<noteq> [] \<and> hd bs = 45);
          ds = (if bs \<noteq> [] \<and> (hd bs = 45 \<or> hd bs = 43) then tl bs else bs)
      in if ds = [] then None
         else (case parse_digits ds 0 of
                 None \<Rightarrow> None
               | Some n \<Rightarrow> if \<not> neg \<and> 2 ^ 63 \<le> n then None
                           else if neg \<and> 2 ^ 63 < n then None
                           else Some (if neg then - int n else int n)))"

subsection \<open>SLO deadline\<close>

definition sloTtftHeader :: string where
  "sloTtftHeader = ''x-slo-ttft-ms''"

definition sloMaxDeadlineTime :: time where
  "sloMaxDeadlineTime = 2 ^ 63 - 1"

text \<open>A \<open>time.Duration\<close> is an \<open>int64\<close> of nanoseconds, so the product wraps.\<close>

definition duration_of_ms :: "int \<Rightarrow> duration" where
  "duration_of_ms ms = sint (word_of_int ms * 1000000 :: int64)"

definition calculateSLODeadline :: "FlowItem \<Rightarrow> time" where
  "calculateSLODeadline item =
     (let req = fi_originalRequest item in
      case rq_Headers req of
        None \<Rightarrow> sloMaxDeadlineTime
      | Some hs \<Rightarrow>
          (let sloTtft = GetHeader hs sloTtftHeader in
           if sloTtft = '''' then sloMaxDeadlineTime
           else (case ParseInt (TrimSpace sloTtft) of
                   None \<Rightarrow> sloMaxDeadlineTime
                 | Some ms \<Rightarrow> if ms < 0 then sloMaxDeadlineTime
                              else rq_ReceivedTimestamp req + duration_of_ms ms)))"

definition slo_Less :: "FlowItem \<Rightarrow> FlowItem \<Rightarrow> bool" where
  "slo_Less a b =
     (if calculateSLODeadline a \<noteq> calculateSLODeadline b
      then calculateSLODeadline a < calculateSLODeadline b
      else rq_ReceivedTimestamp (fi_originalRequest a) < rq_ReceivedTimestamp (fi_originalRequest b))"

definition slo_Less_nil :: "FlowItem option \<Rightarrow> FlowItem option \<Rightarrow> bool" where
  "slo_Less_nil = nil_less slo_Less"

subsection \<open>The policies are strict weak orders\<close>

lemma strict_weak_lex:
  fixes f g :: "'a \<Rightarrow> int"
  shows "strict_weak (\<lambda>a b. if f a \<noteq> f b then f a < f b else g a < g b)"
  by unfold_locales (auto split: if_splits)

interpretation fcfs: strict_weak fcfs_Less
  by unfold_locales (auto simp: fcfs_Less_def)

interpretation edf: strict_weak edf_Less
  using strict_weak_lex [of calculateDeadline fi_enqueueTime] by (simp add: edf_Less_def [abs_def])

interpretation slo: strict_weak slo_Less
  using strict_weak_lex [of calculateSLODeadline "\<lambda>x. rq_ReceivedTimestamp (fi_originalRequest x)"]
  by (simp add: slo_Less_def [abs_def])

lemma strict_weak_nil:
  assumes "strict_weak f"
  shows "strict_weak (nil_less f)"
proof -
  from assms have "f a b \<Longrightarrow> \<not> f b a" "f a b \<Longrightarrow> f a c \<or> f c b" for a b c
    by (auto simp: strict_weak_def)
  then show ?thesis
    by unfold_locales (auto simp: nil_less_def split: option.splits)
qed

interpretation fcfs_nil: strict_weak fcfs_Less_nil
  unfolding fcfs_Less_nil_def by (rule strict_weak_nil) (rule fcfs.strict_weak_axioms)

interpretation edf_nil: strict_weak edf_Less_nil
  unfolding edf_Less_nil_def by (rule strict_weak_nil) (rule edf.strict_weak_axioms)

interpretation slo_nil: strict_weak slo_Less_nil
  unfolding slo_Less_nil_def by (rule strict_weak_nil) (rule slo.strict_weak_axioms)

end
