(* ===== verification/SafeQueue.thy ===== *)
theory SafeQueue
  imports FlowTypes
begin

text \<open>
  The contract \<open>contracts.SafeQueue\<close> (\<open>flowcontrol/contracts/queue.go\<close>) that the list queue and the
  max-min heap provide and the managed queue relies on. A queue is judged together with the store
  its handles live in. \<open>frame R K st st'\<close> bounds what an operation changes there: the handles of the
  items \<open>R\<close> and the handle objects \<open>K\<close>, and nothing of an item's life cycle.
\<close>

unbundle bit_operations_syntax

definition frame :: "nat set \<Rightarrow> nat set \<Rightarrow> Store \<Rightarrow> Store \<Rightarrow> bool" where
  "frame R K st st' \<longleftrightarrow>
     (\<forall>r. r \<notin> R \<longrightarrow> st_item st' r = st_item st r) \<and>
     (\<forall>r. (st_item st' r)\<lparr>im_handle := None\<rparr> = (st_item st r)\<lparr>im_handle := None\<rparr>) \<and>
     (\<forall>k < st_next st. k \<notin> K \<longrightarrow> st_obj st' k = st_obj st k) \<and>
     st_next st \<le> st_next st'"

lemma frame_refl [simp]: "frame R K st st"
  by (simp add: frame_def)

lemma frame_mono: "frame R K st st' \<Longrightarrow> R \<subseteq> R' \<Longrightarrow> K \<subseteq> K' \<Longrightarrow> frame R' K' st st'"
  unfolding frame_def by blast

lemma frame_trans: "frame R K a b \<Longrightarrow> frame R' K' b c \<Longrightarrow> frame (R \<union> R') (K \<union> K') a c"
  unfolding frame_def by (auto dest: order_trans)

lemma frame_Handle: "frame R K st st' \<Longrightarrow> fi_ref x \<notin> R \<Longrightarrow> Handle st' x = Handle st x"
  by (simp add: frame_def Handle_def)

lemma frame_obj: "frame R K st st' \<Longrightarrow> k < st_next st \<Longrightarrow> k \<notin> K \<Longrightarrow> st_obj st' k = st_obj st k"
  by (simp add: frame_def)

lemma frame_next: "frame R K st st' \<Longrightarrow> st_next st \<le> st_next st'"
  by (simp add: frame_def)

lemma frame_life:
  assumes "frame R K st st'"
  shows "im_finalState (st_item st' r) = im_finalState (st_item st r)"
    "im_done (st_item st' r) = im_done (st_item st r)"
    "im_doneClosed (st_item st' r) = im_doneClosed (st_item st r)"
    "im_onceFinalize (st_item st' r) = im_onceFinalize (st_item st r)"
proof -
  have "(st_item st' r)\<lparr>im_handle := None\<rparr> = (st_item st r)\<lparr>im_handle := None\<rparr>"
    using assms by (simp add: frame_def)
  then have "im_finalState ((st_item st' r)\<lparr>im_handle := None\<rparr>) = im_finalState ((st_item st r)\<lparr>im_handle := None\<rparr>)"
    "im_done ((st_item st' r)\<lparr>im_handle := None\<rparr>) = im_done ((st_item st r)\<lparr>im_handle := None\<rparr>)"
    "im_doneClosed ((st_item st' r)\<lparr>im_handle := None\<rparr>) = im_doneClosed ((st_item st r)\<lparr>im_handle := None\<rparr>)"
    "im_onceFinalize ((st_item st' r)\<lparr>im_handle := None\<rparr>) = im_onceFinalize ((st_item st r)\<lparr>im_handle := None\<rparr>)"
    by auto
  then show "im_finalState (st_item st' r) = im_finalState (st_item st r)"
    "im_done (st_item st' r) = im_done (st_item st r)"
    "im_doneClosed (st_item st' r) = im_doneClosed (st_item st r)"
    "im_onceFinalize (st_item st' r) = im_onceFinalize (st_item st r)"
    by simp_all
qed

lemma frame_final: "frame R K st st' \<Longrightarrow> FinalState_of st' x = FinalState_of st x"
  by (simp add: FinalState_of_def frame_life)

lemma frame_store_ok:
  assumes "frame R K st st'"
  shows "store_ok st \<Longrightarrow> store_ok st'"
  by (simp add: store_ok_def item_ok_def frame_life [OF assms] cong: option.case_cong)

subsection \<open>Frames of the store operations\<close>

lemma frame_add: "frame {fi_ref x} {} st (SetHandle x (st_next st) (snd (new_obj ob st)))"
  by (simp add: frame_def SetHandle_def new_obj_def)

lemma frame_Invalidate: "frame {} {k} st (Invalidate k st)"
  by (simp add: frame_def Invalidate_def)

definition handles_of :: "Store \<Rightarrow> FlowItem set \<Rightarrow> nat set" where
  "handles_of st X = {k. \<exists>x \<in> X. Handle st x = Some k}"

lemma handles_of_simps [simp]:
  "handles_of st {} = {}"
  "handles_of st (insert x X) = (case Handle st x of None \<Rightarrow> {} | Some k \<Rightarrow> {k}) \<union> handles_of st X"
  by (auto simp: handles_of_def split: option.splits)

lemma handles_of_I: "Handle st x = Some k \<Longrightarrow> x \<in> X \<Longrightarrow> k \<in> handles_of st X"
  by (auto simp: handles_of_def)

fun invalidate_all :: "FlowItem list \<Rightarrow> Store \<Rightarrow> Store" where
  "invalidate_all [] st = st"
| "invalidate_all (x # xs) st = invalidate_all xs (invalidate_item x st)"

lemma invalidate_item_Handle [simp]: "Handle (invalidate_item x st) y = Handle st y"
  by (simp add: store_defs split: option.splits)

lemma invalidate_all_Handle [simp]: "Handle (invalidate_all xs st) y = Handle st y"
  by (induction xs arbitrary: st) simp_all

lemma invalidate_all_next [simp]: "st_next (invalidate_all xs st) = st_next st"
  by (induction xs arbitrary: st) (auto simp: store_defs split: option.splits)

lemma invalidate_all_item [simp]: "st_item (invalidate_all xs st) = st_item st"
  by (induction xs arbitrary: st) (auto simp: store_defs split: option.splits)

lemma invalidate_all_obj:
  "st_obj (invalidate_all xs st) k =
     (if k \<in> handles_of st (set xs) then map_option set_invalidated (st_obj st k) else st_obj st k)"
proof (induction xs arbitrary: st)
  case (Cons x xs)
  have "handles_of (invalidate_item x st) (set xs) = handles_of st (set xs)"
    by (simp add: handles_of_def)
  moreover have "set_invalidated (set_invalidated ob) = set_invalidated ob" for ob
    by (cases ob) simp_all
  ultimately show ?case
    by (auto simp: Cons.IH invalidate_item_def Invalidate_def option.map_comp comp_def
        split: option.splits)
qed simp

lemma frame_invalidate_all: "frame {} (handles_of st (set xs)) st (invalidate_all xs st)"
  by (simp add: frame_def invalidate_all_obj)

lemma set_invalidated_inv [simp]: "ho_isInvalidated (set_invalidated ob)"
  by (cases ob) simp_all

lemma invalidate_all_inv:
  "x \<in> set xs \<Longrightarrow> Handle st x = Some k \<Longrightarrow> st_obj st k \<noteq> None \<Longrightarrow> IsInvalidated k (invalidate_all xs st)"
  by (auto simp: IsInvalidated_def invalidate_all_obj handles_of_I)

text \<open>The queues subtract byte sizes by adding the two's complement.\<close>

lemma minus_bytes: "a + (NOT b + 1) = a - (b :: uint64)"
  by (simp add: minus_eq_not_plus_1 [symmetric])

subsection \<open>The contract\<close>

locale safe_queue =
  fixes contents :: "'q \<Rightarrow> FlowItem list"
    and wf :: "Store \<Rightarrow> 'q \<Rightarrow> bool"
    and add :: "FlowItem \<Rightarrow> Store \<Rightarrow> 'q \<Rightarrow> (Store \<times> 'q) option"
    and remove :: "nat option \<Rightarrow> Store \<Rightarrow> 'q \<Rightarrow> ((fc_error + FlowItem) \<times> Store \<times> 'q) option"
    and cleanup :: "(FlowItem \<Rightarrow> bool) \<Rightarrow> Store \<Rightarrow> 'q \<Rightarrow> (FlowItem list \<times> Store \<times> 'q) option"
    and drain :: "Store \<Rightarrow> 'q \<Rightarrow> FlowItem list \<times> Store \<times> 'q"
    and qlen :: "'q \<Rightarrow> nat"
    and qbytes :: "'q \<Rightarrow> uint64"
    and peek_head :: "'q \<Rightarrow> FlowItem option"
    and peek_tail :: "'q \<Rightarrow> FlowItem option"
  assumes len: "wf st q \<Longrightarrow> qlen q = length (contents q)"
    and bytes: "wf st q \<Longrightarrow> qbytes q = wsum item_bytes (contents q)"
    and head_None: "wf st q \<Longrightarrow> peek_head q = None \<longleftrightarrow> contents q = []"
    and head_in: "wf st q \<Longrightarrow> peek_head q = Some x \<Longrightarrow> x \<in> set (contents q)"
    and tail_None: "wf st q \<Longrightarrow> peek_tail q = None \<longleftrightarrow> contents q = []"
    and tail_in: "wf st q \<Longrightarrow> peek_tail q = Some x \<Longrightarrow> x \<in> set (contents q)"
    and refs: "wf st q \<Longrightarrow> distinct (map fi_ref (contents q))"
    and handle: "wf st q \<Longrightarrow> x \<in> set (contents q) \<Longrightarrow>
          \<exists>k. Handle st x = Some k \<and> k < st_next st \<and> st_obj st k \<noteq> None \<and> \<not> IsInvalidated k st"
    and handle_inj: "wf st q \<Longrightarrow> x \<in> set (contents q) \<Longrightarrow> y \<in> set (contents q) \<Longrightarrow>
          Handle st x = Handle st y \<Longrightarrow> x = y"
    and wf_frame: "wf st q \<Longrightarrow> frame R K st st' \<Longrightarrow> R \<inter> fi_ref ` set (contents q) = {} \<Longrightarrow>
          K \<inter> handles_of st (set (contents q)) = {} \<Longrightarrow> wf st' q"
    and add_spec: "wf st q \<Longrightarrow> fi_ref x \<notin> fi_ref ` set (contents q) \<Longrightarrow>
          \<exists>st' q'. add x st q = Some (st', q') \<and> wf st' q' \<and>
            mset (contents q') = add_mset x (mset (contents q)) \<and> frame {fi_ref x} {} st st' \<and>
            Handle st' x = Some (st_next st)"
    and remove_spec: "wf st q \<Longrightarrow> x \<in> set (contents q) \<Longrightarrow> Handle st x = Some k \<Longrightarrow>
          \<exists>st' q'. remove (Some k) st q = Some (Inr x, st', q') \<and> wf st' q' \<and>
            mset (contents q') = mset (contents q) - {#x#} \<and> frame {} {k} st st' \<and> IsInvalidated k st'"
    and remove_invalid: "h = None \<or> (\<exists>k. h = Some k \<and> IsInvalidated k st) \<Longrightarrow>
          remove h st q = Some (Inl ErrInvalidQueueItemHandle, st, q)"
    and cleanup_spec: "wf st q \<Longrightarrow>
          \<exists>rem st' q'. cleanup p st q = Some (rem, st', q') \<and> wf st' q' \<and>
            mset rem = filter_mset p (mset (contents q)) \<and>
            mset (contents q') = filter_mset (\<lambda>x. \<not> p x) (mset (contents q)) \<and>
            st' = invalidate_all rem st"
    and drain_spec: "wf st q \<Longrightarrow>
          \<exists>rem st' q'. drain st q = (rem, st', q') \<and> wf st' q' \<and>
            mset rem = mset (contents q) \<and> contents q' = [] \<and> st' = invalidate_all rem st"
begin

text \<open>A queued item can be removed by the handle it carries.\<close>

lemma remove_head_spec:
  assumes "wf st q" "peek_head q = Some x"
  shows "\<exists>st' q'. remove (Handle st x) st q = Some (Inr x, st', q') \<and> wf st' q' \<and>
     mset (contents q') = mset (contents q) - {#x#} \<and> qlen q = Suc (qlen q')"
proof -
  have x: "x \<in> set (contents q)" using head_in assms by blast
  then obtain k where k: "Handle st x = Some k" using handle assms(1) by blast
  obtain st' q' where r: "remove (Some k) st q = Some (Inr x, st', q')" "wf st' q'"
    "mset (contents q') = mset (contents q) - {#x#}"
    using remove_spec [OF assms(1) x k] by blast
  have "length (contents q) = Suc (length (contents q'))"
    using r(3) x by (metis add_mset_remove_trivial_If insert_DiffM set_mset_mset size_add_mset size_mset)
  then show ?thesis using k r len assms(1) by auto
qed

lemma add_remove:
  assumes "wf st q" "fi_ref x \<notin> fi_ref ` set (contents q)" "add x st q = Some (st1, q1)"
  shows "\<exists>st2 q2. remove (Handle st1 x) st1 q1 = Some (Inr x, st2, q2) \<and> wf st2 q2 \<and>
     mset (contents q2) = mset (contents q)"
proof -
  have a: "wf st1 q1" "mset (contents q1) = add_mset x (mset (contents q))"
    "Handle st1 x = Some (st_next st)"
    using add_spec [OF assms(1,2)] assms(3) by auto
  have "x \<in> set (contents q1)" using a(2) by (metis set_mset_mset union_single_eq_member)
  from remove_spec [OF a(1) this a(3)] show ?thesis using a by auto
qed

end

end
