(* ===== verification/MaxMinHeap.thy ===== *)
theory MaxMinHeap
  imports OrderingPolicies SafeQueue "HOL-Library.Monad_Syntax"
begin

text \<open>
  The max-min heap of \<open>plugins/queue/maxminheap.go\<close>: an array whose even levels hold maxima and
  whose odd levels hold minima, with a map from handles to array positions. \<open>bef a b\<close> is the policy's
  \<open>Less a b\<close> (a is dispatched before b), and \<open>hdl\<close> is \<open>item.Handle()\<close>. A swap whose item has no
  entry in \<open>handles\<close> dereferences nil and has the value \<^const>\<open>None\<close>.
\<close>

unbundle bit_operations_syntax

subsection \<open>State and index bookkeeping\<close>

record 'a MaxMinHeap =
  mh_items :: "'a list"
  mh_handles :: "nat \<rightharpoonup> nat"
  mh_byteSize :: uint64

definition set_index :: "('a \<Rightarrow> nat option) \<Rightarrow> 'a \<Rightarrow> nat \<Rightarrow> 'a MaxMinHeap \<Rightarrow> 'a MaxMinHeap option" where
  "set_index hdl x i h =
     (case hdl x of
        None \<Rightarrow> None
      | Some k \<Rightarrow> (case mh_handles h k of
                    None \<Rightarrow> None
                  | Some _ \<Rightarrow> Some (h\<lparr>mh_handles := (mh_handles h)(k \<mapsto> i)\<rparr>)))"

definition heap_swap :: "('a \<Rightarrow> nat option) \<Rightarrow> nat \<Rightarrow> nat \<Rightarrow> 'a MaxMinHeap \<Rightarrow> 'a MaxMinHeap option" where
  "heap_swap hdl i j h =
     (let h1 = h\<lparr>mh_items := swap_list i j (mh_items h)\<rparr> in
      do { h2 \<leftarrow> set_index hdl (mh_items h1 ! i) i h1;
           set_index hdl (mh_items h1 ! j) j h2 })"

definition isMinLevel :: "nat \<Rightarrow> bool" where
  "isMinLevel i = ((floorlog 2 (i + 1) - 1) mod 2 \<noteq> 0)"

subsection \<open>Sifting up\<close>

function upMin :: "('a \<Rightarrow> 'a \<Rightarrow> bool) \<Rightarrow> ('a \<Rightarrow> nat option) \<Rightarrow> nat \<Rightarrow> 'a MaxMinHeap \<Rightarrow> 'a MaxMinHeap option" where
  "upMin bef hdl i h =
     (let p = (i - 1) div 2 in
      if p = 0 then Some h
      else (let g = (p - 1) div 2 in
            if bef (mh_items h ! g) (mh_items h ! i)
            then do { h' \<leftarrow> heap_swap hdl i g h; upMin bef hdl g h' }
            else Some h))"
  by pat_completeness auto
termination
  by (relation "measure (\<lambda>(bef, hdl, i, h). i)") auto

function upMax :: "('a \<Rightarrow> 'a \<Rightarrow> bool) \<Rightarrow> ('a \<Rightarrow> nat option) \<Rightarrow> nat \<Rightarrow> 'a MaxMinHeap \<Rightarrow> 'a MaxMinHeap option" where
  "upMax bef hdl i h =
     (let p = (i - 1) div 2 in
      if p = 0 then Some h
      else (let g = (p - 1) div 2 in
            if bef (mh_items h ! i) (mh_items h ! g)
            then do { h' \<leftarrow> heap_swap hdl i g h; upMax bef hdl g h' }
            else Some h))"
  by pat_completeness auto
termination
  by (relation "measure (\<lambda>(bef, hdl, i, h). i)") auto

definition up :: "('a \<Rightarrow> 'a \<Rightarrow> bool) \<Rightarrow> ('a \<Rightarrow> nat option) \<Rightarrow> nat \<Rightarrow> 'a MaxMinHeap \<Rightarrow> 'a MaxMinHeap option" where
  "up bef hdl i h =
     (if i = 0 then Some h
      else (let p = (i - 1) div 2 in
            if isMinLevel i then
              (if bef (mh_items h ! i) (mh_items h ! p)
               then do { h' \<leftarrow> heap_swap hdl i p h; upMax bef hdl p h' }
               else upMin bef hdl i h)
            else
              (if bef (mh_items h ! p) (mh_items h ! i)
               then do { h' \<leftarrow> heap_swap hdl i p h; upMin bef hdl p h' }
               else upMax bef hdl i h)))"

subsection \<open>Sifting down\<close>

definition findSmallestChildOrGrandchild :: "('a \<Rightarrow> 'a \<Rightarrow> bool) \<Rightarrow> 'a list \<Rightarrow> nat \<Rightarrow> nat option" where
  "findSmallestChildOrGrandchild bef xs i =
     (let l = 2 * i + 1 in
      if length xs \<le> l then None
      else (let r = 2 * i + 2;
                m = (if r < length xs \<and> bef (xs ! l) (xs ! r) then r else l);
                gs = 2 * l + 1
            in Some (foldl (\<lambda>m j. if bef (xs ! m) (xs ! j) then j else m) m
                       [gs ..< min (gs + 4) (length xs)])))"

definition findLargestChildOrGrandchild :: "('a \<Rightarrow> 'a \<Rightarrow> bool) \<Rightarrow> 'a list \<Rightarrow> nat \<Rightarrow> nat option" where
  "findLargestChildOrGrandchild bef xs i =
     (let l = 2 * i + 1 in
      if length xs \<le> l then None
      else (let r = 2 * i + 2;
                m = (if r < length xs \<and> bef (xs ! r) (xs ! l) then r else l);
                gs = 2 * l + 1
            in Some (foldl (\<lambda>m j. if bef (xs ! j) (xs ! m) then j else m) m
                       [gs ..< min (gs + 4) (length xs)])))"

lemma foldl_select:
  "foldl (\<lambda>m j. if P m j then j else m) m js \<in> insert m (set js)"
proof (induction js arbitrary: m)
  case (Cons j js)
  show ?case using Cons.IH [of "if P m j then j else m"] by auto
qed simp

lemma upt_filter: "[a ..< min (a + 4) n] = filter (\<lambda>j. j < n) [a, a + 1, a + 2, a + 3]" for a n :: nat
proof -
  have "[a ..< min b n] = filter (\<lambda>j. j < n) [a ..< b]" for b
    by (induction b) (auto simp: min_def split: if_splits)
  moreover have "[a ..< a + 4] = [a, a + 1, a + 2, a + 3]"
    by (simp add: upt_rec)
  ultimately show ?thesis by metis
qed

text \<open>The children and grandchildren are scanned in array order.\<close>

lemma findSmallest_alt:
  "findSmallestChildOrGrandchild bef xs i =
     (if length xs \<le> 2 * i + 1 then None
      else Some (foldl (\<lambda>m j. if bef (xs ! m) (xs ! j) then j else m) (2 * i + 1)
             (filter (\<lambda>j. j < length xs) [2 * i + 2, 4 * i + 3, 4 * i + 4, 4 * i + 5, 4 * i + 6])))"
proof -
  have "[2 * (2 * i + 1) + 1 ..< min (2 * (2 * i + 1) + 1 + 4) (length xs)] =
      filter (\<lambda>j. j < length xs) [4 * i + 3, 4 * i + 4, 4 * i + 5, 4 * i + 6]"
    using upt_filter [of "4 * i + 3" "length xs"] by (simp add: algebra_simps numeral_eq_Suc)
  then show ?thesis
    by (simp add: findSmallestChildOrGrandchild_def Let_def)
qed

lemma findSmallest_bounds:
  assumes "findSmallestChildOrGrandchild bef xs i = Some m"
  shows "i < m \<and> m < length xs"
proof -
  from assms have "2 * i + 1 < length xs"
    "m \<in> insert (2 * i + 1)
        (set (filter (\<lambda>j. j < length xs) [2 * i + 2, 4 * i + 3, 4 * i + 4, 4 * i + 5, 4 * i + 6]))"
    using foldl_select [of "\<lambda>m j. bef (xs ! m) (xs ! j)"]
    by (auto simp only: findSmallest_alt split: if_splits)
  then show ?thesis by (auto split: if_splits)
qed

lemma findLargest_eq: "findLargestChildOrGrandchild bef = findSmallestChildOrGrandchild (\<lambda>a b. bef b a)"
  by (intro ext) (simp add: findLargestChildOrGrandchild_def findSmallestChildOrGrandchild_def)

text \<open>The loops of \<open>downMin\<close> and \<open>downMax\<close>. The index grows and stays below the length, which a swap
  keeps.\<close>

lemma set_index_items: "set_index hdl x i h = Some h' \<Longrightarrow> mh_items h' = mh_items h"
  by (auto simp: set_index_def split: option.splits)

lemma heap_swap_length: "heap_swap hdl i j h = Some h' \<Longrightarrow> length (mh_items h') = length (mh_items h)"
  by (auto simp: heap_swap_def Let_def dest!: set_index_items split: Option.bind_splits)

function downMin :: "('a \<Rightarrow> 'a \<Rightarrow> bool) \<Rightarrow> ('a \<Rightarrow> nat option) \<Rightarrow> nat \<Rightarrow> 'a MaxMinHeap \<Rightarrow> 'a MaxMinHeap option" where
  "downMin bef hdl i h =
     (case findSmallestChildOrGrandchild bef (mh_items h) i of
        None \<Rightarrow> Some h
      | Some m \<Rightarrow>
          if bef (mh_items h ! i) (mh_items h ! m)
          then (case heap_swap hdl i m h of
                  None \<Rightarrow> None
                | Some h1 \<Rightarrow>
                    (let p = (m - 1) div 2 in
                     if p \<noteq> i \<and> bef (mh_items h1 ! m) (mh_items h1 ! p)
                     then (case heap_swap hdl m p h1 of
                             None \<Rightarrow> None
                           | Some h2 \<Rightarrow> downMin bef hdl m h2)
                     else downMin bef hdl m h1))
          else Some h)"
  by pat_completeness auto
termination
  by (relation "measure (\<lambda>(bef, hdl, i, h). length (mh_items h) - i)")
    (auto dest!: findSmallest_bounds heap_swap_length)

function downMax :: "('a \<Rightarrow> 'a \<Rightarrow> bool) \<Rightarrow> ('a \<Rightarrow> nat option) \<Rightarrow> nat \<Rightarrow> 'a MaxMinHeap \<Rightarrow> 'a MaxMinHeap option" where
  "downMax bef hdl i h =
     (case findLargestChildOrGrandchild bef (mh_items h) i of
        None \<Rightarrow> Some h
      | Some m \<Rightarrow>
          if bef (mh_items h ! m) (mh_items h ! i)
          then (case heap_swap hdl i m h of
                  None \<Rightarrow> None
                | Some h1 \<Rightarrow>
                    (let p = (m - 1) div 2 in
                     if p \<noteq> i \<and> bef (mh_items h1 ! p) (mh_items h1 ! m)
                     then (case heap_swap hdl m p h1 of
                             None \<Rightarrow> None
                           | Some h2 \<Rightarrow> downMax bef hdl m h2)
                     else downMax bef hdl m h1))
          else Some h)"
  by pat_completeness auto
termination
  by (relation "measure (\<lambda>(bef, hdl, i, h). length (mh_items h) - i)")
    (auto dest!: findSmallest_bounds heap_swap_length simp: findLargest_eq)

declare upMin.simps [simp del] upMax.simps [simp del] downMin.simps [simp del] downMax.simps [simp del]

definition down :: "('a \<Rightarrow> 'a \<Rightarrow> bool) \<Rightarrow> ('a \<Rightarrow> nat option) \<Rightarrow> nat \<Rightarrow> 'a MaxMinHeap \<Rightarrow> 'a MaxMinHeap option" where
  "down bef hdl i h = (if isMinLevel i then downMin bef hdl i h else downMax bef hdl i h)"

text \<open>The rebuilding loop of \<open>Cleanup\<close>: \<open>for i := n - 1; i >= 0; i--\<close>.\<close>

fun heapify :: "('a \<Rightarrow> 'a \<Rightarrow> bool) \<Rightarrow> ('a \<Rightarrow> nat option) \<Rightarrow> nat \<Rightarrow> 'a MaxMinHeap \<Rightarrow> 'a MaxMinHeap option" where
  "heapify bef hdl 0 h = Some h"
| "heapify bef hdl (Suc i) h = do { h' \<leftarrow> down bef hdl i h; heapify bef hdl i h' }"

fun set_indices :: "('a \<Rightarrow> nat option) \<Rightarrow> nat \<Rightarrow> 'a list \<Rightarrow> 'a MaxMinHeap \<Rightarrow> 'a MaxMinHeap option" where
  "set_indices hdl i [] h = Some h"
| "set_indices hdl i (x # xs) h = do { h' \<leftarrow> set_index hdl x i h; set_indices hdl (Suc i) xs h' }"

subsection \<open>The queue operations\<close>

type_synonym heap_queue = "FlowItem MaxMinHeap"

definition newMaxMinHeap :: heap_queue where
  "newMaxMinHeap = \<lparr>mh_items = [], mh_handles = Map.empty, mh_byteSize = 0\<rparr>"

definition heap_Len :: "heap_queue \<Rightarrow> nat" where
  "heap_Len h = length (mh_items h)"

definition heap_ByteSize :: "heap_queue \<Rightarrow> uint64" where
  "heap_ByteSize h = mh_byteSize h"

definition heap_PeekHead :: "heap_queue \<Rightarrow> FlowItem option" where
  "heap_PeekHead h = (if mh_items h = [] then None else Some (mh_items h ! 0))"

definition heap_PeekTail :: "(FlowItem \<Rightarrow> FlowItem \<Rightarrow> bool) \<Rightarrow> heap_queue \<Rightarrow> FlowItem option" where
  "heap_PeekTail bef h =
     (let n = length (mh_items h) in
      if n = 0 then None
      else if n = 1 then Some (mh_items h ! 0)
      else if n = 2 then Some (mh_items h ! 1)
      else if bef (mh_items h ! 1) (mh_items h ! 2) then Some (mh_items h ! 2)
      else Some (mh_items h ! 1))"

definition push :: "(FlowItem \<Rightarrow> FlowItem \<Rightarrow> bool) \<Rightarrow> FlowItem \<Rightarrow> Store \<Rightarrow> heap_queue \<Rightarrow> (Store \<times> heap_queue) option" where
  "push bef x st h =
     (let (k, st1) = new_obj (HeapItemObj False) st;
          h1 = h\<lparr>mh_items := mh_items h @ [x]\<rparr>;
          st2 = SetHandle x k st1;
          h2 = h1\<lparr>mh_handles := (mh_handles h1)(k \<mapsto> length (mh_items h))\<rparr>
      in do { h3 \<leftarrow> up bef (Handle st2) (length (mh_items h2) - 1) h2; Some (st2, h3) })"

definition heap_Add :: "(FlowItem \<Rightarrow> FlowItem \<Rightarrow> bool) \<Rightarrow> FlowItem \<Rightarrow> Store \<Rightarrow> heap_queue \<Rightarrow> (Store \<times> heap_queue) option" where
  "heap_Add bef x st h =
     do { (st', h') \<leftarrow> push bef x st h;
          Some (st', h'\<lparr>mh_byteSize := mh_byteSize h' + item_bytes x\<rparr>) }"

text \<open>The handle argument is nil, or an object of the store. Subtraction is the two's complement
  addition the code writes out.\<close>

definition is_heapItem :: "nat \<Rightarrow> Store \<Rightarrow> bool" where
  "is_heapItem k st = (case st_obj st k of Some (HeapItemObj _) \<Rightarrow> True | _ \<Rightarrow> False)"

definition heap_Remove :: "(FlowItem \<Rightarrow> FlowItem \<Rightarrow> bool) \<Rightarrow> nat option \<Rightarrow> Store \<Rightarrow> heap_queue
    \<Rightarrow> ((fc_error + FlowItem) \<times> Store \<times> heap_queue) option" where
  "heap_Remove bef handle st h =
     (case handle of
        None \<Rightarrow> Some (Inl ErrInvalidQueueItemHandle, st, h)
      | Some k \<Rightarrow>
          if IsInvalidated k st then Some (Inl ErrInvalidQueueItemHandle, st, h)
          else if \<not> is_heapItem k st then Some (Inl ErrInvalidQueueItemHandle, st, h)
          else (case mh_handles h k of
                  None \<Rightarrow> Some (Inl ErrQueueItemNotFound, st, h)
                | Some i \<Rightarrow>
                    if length (mh_items h) \<le> i then None
                    else
                      (let item = mh_items h ! i;
                           n = length (mh_items h) - 1;
                           cut = (\<lambda>g. g\<lparr>mh_items := take n (mh_items g),
                                        mh_handles := (mh_handles g)(k := None),
                                        mh_byteSize := mh_byteSize g + (NOT (item_bytes item) + 1)\<rparr>)
                       in do { h' \<leftarrow> (if i < n
                                      then do { h1 \<leftarrow> heap_swap (Handle st) i n h;
                                                down bef (Handle st) i (cut h1) }
                                      else Some (cut h));
                               Some (Inr item, Invalidate k st, h') })))"

text \<open>The first loop of \<open>Cleanup\<close>: the removed items lose handle and bytes, in array order.\<close>

fun heap_forget :: "('a \<Rightarrow> nat option) \<Rightarrow> ('a \<Rightarrow> uint64) \<Rightarrow> 'a list \<Rightarrow> 'a MaxMinHeap \<Rightarrow> 'a MaxMinHeap" where
  "heap_forget hdl bytes [] h = h"
| "heap_forget hdl bytes (x # xs) h =
     heap_forget hdl bytes xs
       (h\<lparr>mh_handles := (case hdl x of None \<Rightarrow> mh_handles h | Some k \<Rightarrow> (mh_handles h)(k := None)),
          mh_byteSize := mh_byteSize h + (NOT (bytes x) + 1)\<rparr>)"

definition heap_Cleanup :: "(FlowItem \<Rightarrow> FlowItem \<Rightarrow> bool) \<Rightarrow> (FlowItem \<Rightarrow> bool) \<Rightarrow> Store \<Rightarrow> heap_queue
    \<Rightarrow> (FlowItem list \<times> Store \<times> heap_queue) option" where
  "heap_Cleanup bef predicate st h =
     (let removed = filter predicate (mh_items h);
          keep = filter (\<lambda>x. \<not> predicate x) (mh_items h);
          st' = invalidate_all removed st;
          h1 = heap_forget (Handle st) item_bytes removed h
      in if removed = [] then Some ([], st', h1)
         else (let h2 = h1\<lparr>mh_items := keep\<rparr> in
               do { h3 \<leftarrow> set_indices (Handle st') 0 keep h2;
                    h4 \<leftarrow> heapify bef (Handle st') (length keep div 2) h3;
                    Some (removed, st', h4) }))"

definition heap_Drain :: "Store \<Rightarrow> heap_queue \<Rightarrow> FlowItem list \<times> Store \<times> heap_queue" where
  "heap_Drain st h =
     (mh_items h, invalidate_all (mh_items h) st,
      \<lparr>mh_items = [], mh_handles = Map.empty, mh_byteSize = 0\<rparr>)"

end
