(* ===== verification/MaxMinHeapProofs.thy ===== *)
theory MaxMinHeapProofs
  imports MaxMinHeap
begin

text \<open>
  Correctness of the sifting loops of the max-min heap. First the handle map: no loop dereferences
  nil, and every handle keeps pointing at its item. Then the order: \<open>up\<close> restores the heap for every
  policy, and \<open>down\<close> and the rebuilding loop restore it when no two items tie.
\<close>

subsection \<open>Handles point at their items\<close>

definition index_ok :: "('a \<Rightarrow> nat option) \<Rightarrow> 'a MaxMinHeap \<Rightarrow> bool" where
  "index_ok hdl h \<longleftrightarrow>
     (\<forall>i < length (mh_items h). \<exists>k. hdl (mh_items h ! i) = Some k \<and> mh_handles h k = Some i) \<and>
     (\<forall>k i. mh_handles h k = Some i \<longrightarrow> i < length (mh_items h) \<and> hdl (mh_items h ! i) = Some k)"

lemma index_okD:
  assumes "index_ok hdl h" "i < length (mh_items h)"
  obtains k where "hdl (mh_items h ! i) = Some k" "mh_handles h k = Some i"
  using assms unfolding index_ok_def by blast

lemma index_ok_handle:
  "index_ok hdl h \<Longrightarrow> mh_handles h k = Some i \<Longrightarrow> i < length (mh_items h) \<and> hdl (mh_items h ! i) = Some k"
  unfolding index_ok_def by blast

lemma index_ok_distinct: "index_ok hdl h \<Longrightarrow> distinct (mh_items h)"
  unfolding distinct_conv_nth by (metis index_okD option.inject)

text \<open>The same heap contents at other positions.\<close>

definition rearranged :: "('a \<Rightarrow> nat option) \<Rightarrow> 'a MaxMinHeap \<Rightarrow> 'a MaxMinHeap \<Rightarrow> bool" where
  "rearranged hdl h h' \<longleftrightarrow>
     index_ok hdl h' \<and> mset (mh_items h') = mset (mh_items h) \<and> mh_byteSize h' = mh_byteSize h"

lemma rearranged_refl: "index_ok hdl h \<Longrightarrow> rearranged hdl h h"
  by (simp add: rearranged_def)

lemma rearranged_trans: "rearranged hdl a b \<Longrightarrow> rearranged hdl b c \<Longrightarrow> rearranged hdl a c"
  by (simp add: rearranged_def)

lemma rearranged_length: "rearranged hdl h h' \<Longrightarrow> length (mh_items h') = length (mh_items h)"
  by (metis rearranged_def mset_eq_length)

lemma rearranged_index: "rearranged hdl h h' \<Longrightarrow> index_ok hdl h'"
  by (simp add: rearranged_def)

lemma heap_swap_ok:
  assumes ok: "index_ok hdl h" and ij: "i < length (mh_items h)" "j < length (mh_items h)"
  obtains h' where "heap_swap hdl i j h = Some h'" "mh_items h' = swap_list i j (mh_items h)"
    "rearranged hdl h h'"
proof -
  obtain ki where ki: "hdl (mh_items h ! i) = Some ki" "mh_handles h ki = Some i"
    using index_okD [OF ok ij(1)] .
  obtain kj where kj: "hdl (mh_items h ! j) = Some kj" "mh_handles h kj = Some j"
    using index_okD [OF ok ij(2)] .
  define h' where "h' = h\<lparr>mh_items := swap_list i j (mh_items h),
                          mh_handles := (mh_handles h)(kj \<mapsto> i, ki \<mapsto> j)\<rparr>"
  note nth = swap_list_nth [OF ij]
  have eq: "heap_swap hdl i j h = Some h'"
    using ki kj ij by (auto simp: heap_swap_def set_index_def h'_def Let_def nth)
  have "\<exists>k. hdl (mh_items h' ! n) = Some k \<and> mh_handles h' k = Some n" if n: "n < length (mh_items h')" for n
  proof -
    from n have n': "n < length (mh_items h)" by (simp add: h'_def)
    obtain k where "hdl (mh_items h ! n) = Some k" "mh_handles h k = Some n" using index_okD [OF ok n'] .
    then show ?thesis using ki kj n' by (auto simp: h'_def nth)
  qed
  moreover have "n < length (mh_items h') \<and> hdl (mh_items h' ! n) = Some k"
    if k: "mh_handles h' k = Some n" for k n
  proof (cases "k = ki \<or> k = kj")
    case True
    then show ?thesis using k ki kj ij by (auto simp: h'_def swap_list_nth split: if_splits)
  next
    case False
    then have "mh_handles h k = Some n" using k by (simp add: h'_def)
    with index_ok_handle [OF ok this] ki kj False show ?thesis
      by (auto simp: h'_def nth)
  qed
  ultimately have "index_ok hdl h'" unfolding index_ok_def by blast
  then have "rearranged hdl h h'" using ij by (simp add: rearranged_def h'_def)
  then show ?thesis using that eq by (simp add: h'_def)
qed

subsection \<open>Levels and the choice of the next node\<close>

lemma isMinLevel_0 [simp]: "\<not> isMinLevel 0"
  by (simp add: isMinLevel_def floorlog_def)

lemma isMinLevel_par: "0 < i \<Longrightarrow> isMinLevel i = (\<not> isMinLevel (par i))"
proof -
  assume "0 < i"
  then have "(i + 1) div 2 = par i + 1" by (simp add: par_def)
  then have "floorlog 2 (i + 1) = floorlog 2 (par i + 1) + 1"
    using compute_floorlog [of 2 "i + 1"] by simp
  moreover have "floorlog 2 (par i + 1) > 0" by (simp add: floorlog_def)
  ultimately show ?thesis unfolding isMinLevel_def by presburger
qed

lemma isMinLevel_alternating: "alternating isMinLevel"
  using isMinLevel_par by (simp add: alternating_def)

lemma near_cases: "near i c \<Longrightarrow> c \<in> set [2 * i + 1, 2 * i + 2, 4 * i + 3, 4 * i + 4, 4 * i + 5, 4 * i + 6]"
  unfolding near_def using par_eqD [of c i] par_eqD [of c "par c"] par_eqD [of "par c" i] by auto

context strict_weak
begin

lemma foldl_best:
  fixes f :: "nat \<Rightarrow> 'a"
  shows "c \<in> insert m (set js) \<Longrightarrow>
    less_eq_by bef (f (foldl (\<lambda>m j. if bef (f j) (f m) then j else m) m js)) (f c)"
proof (induction js arbitrary: m c)
  case Nil
  then show ?case by (simp add: le_refl)
next
  case (Cons j js)
  define m' where "m' = (if bef (f j) (f m) then j else m)"
  define r where "r = foldl (\<lambda>m j. if bef (f j) (f m) then j else m) m' js"
  have rm: "less_eq_by bef (f r) (f m')" using Cons.IH [of m' m'] by (simp add: r_def)
  have "less_eq_by bef (f m') (f m)" "less_eq_by bef (f m') (f j)"
    by (auto simp: m'_def less_eq_by_def asym)
  then have "less_eq_by bef (f r) (f c)" if "c \<in> {m, j}"
    using that rm le_trans by auto
  moreover have "less_eq_by bef (f r) (f c)" if "c \<in> set js"
    using that Cons.IH [of c m'] by (simp add: r_def)
  ultimately show ?case using Cons.prems by (auto simp: r_def m'_def)
qed

lemma findLargest_best:
  assumes "findLargestChildOrGrandchild bef xs i = Some m"
  shows "best_below bef i m xs"
proof -
  let ?js = "filter (\<lambda>j. j < length xs) [2 * i + 2, 4 * i + 3, 4 * i + 4, 4 * i + 5, 4 * i + 6]"
  from assms have l: "2 * i + 1 < length xs"
    and m: "m = foldl (\<lambda>m j. if bef (xs ! j) (xs ! m) then j else m) (2 * i + 1) ?js"
    by (auto simp only: findLargest_eq findSmallest_alt split: if_splits)
  have "m \<in> insert (2 * i + 1) (set ?js)" unfolding m by (rule foldl_select)
  then have "near i m" "m < length xs" using l by (auto simp: near_def par_def split: if_splits)
  moreover have "less_eq_by bef (xs ! m) (xs ! c)" if "c < length xs" "near i c" for c
    unfolding m using near_cases [OF that(2)] that(1)
    by (intro foldl_best) (auto split: if_splits)
  ultimately show ?thesis by (simp add: best_below_def)
qed

end

lemma findLargest_None: "findLargestChildOrGrandchild bef xs i = None \<Longrightarrow> length xs \<le> 2 * i + 1"
  by (auto simp only: findLargest_eq findSmallest_alt split: if_splits)

lemma findLargest_bounds: "findLargestChildOrGrandchild bef xs i = Some m \<Longrightarrow> i < m \<and> m < length xs"
  by (simp add: findLargest_eq findSmallest_bounds)

lemma par_fold: "(i - Suc 0) div 2 = par i"
  by (simp add: par_def)

subsection \<open>The loops for minima mirror those for maxima\<close>

lemma upMin_mirror: "upMin bef hdl i h = upMax (\<lambda>a b. bef b a) hdl i h"
proof (induction bef hdl i h rule: upMin.induct)
  case (1 bef hdl i h)
  then show ?case
    by (subst upMin.simps, subst upMax.simps) (auto simp: Let_def split: Option.bind_splits)
qed

lemma downMin_mirror: "downMin bef hdl i h = downMax (\<lambda>a b. bef b a) hdl i h"
proof (induction bef hdl i h rule: downMin.induct)
  case (1 bef hdl i h)
  then show ?case
    by (subst downMin.simps, subst downMax.simps)
      (auto simp: Let_def findLargest_eq split: option.splits)
qed

subsection \<open>No operation dereferences nil\<close>

lemma upMax_returns:
  "index_ok hdl h \<Longrightarrow> i < length (mh_items h) \<Longrightarrow> \<exists>h'. upMax bef hdl i h = Some h' \<and> rearranged hdl h h'"
proof (induction bef hdl i h rule: upMax.induct)
  case (1 bef hdl i h)
  let ?p = "(i - 1) div 2" and ?g = "((i - 1) div 2 - 1) div 2"
  show ?case
  proof (cases "?p \<noteq> 0 \<and> bef (mh_items h ! i) (mh_items h ! ?g)")
    case True
    have g: "?g < length (mh_items h)" using 1(3) by simp
    obtain h1 where h1: "heap_swap hdl i ?g h = Some h1" "rearranged hdl h h1"
      using heap_swap_ok [OF 1(2,3) g] .
    have "\<exists>h'. upMax bef hdl ?g h1 = Some h' \<and> rearranged hdl h1 h'"
      using 1(1) [of ?p ?g h1] h1(1) True g rearranged_index [OF h1(2)] rearranged_length [OF h1(2)] by simp
    then show ?thesis
      using True h1 rearranged_trans by (subst upMax.simps) (auto simp: Let_def)
  next
    case False
    then show ?thesis using 1(2) rearranged_refl by (subst upMax.simps) (auto simp: Let_def)
  qed
qed

lemma downMax_returns:
  "index_ok hdl h \<Longrightarrow> i < length (mh_items h) \<Longrightarrow> \<exists>h'. downMax bef hdl i h = Some h' \<and> rearranged hdl h h'"
proof (induction bef hdl i h rule: downMax.induct)
  case (1 bef hdl i h)
  show ?case
  proof (cases "findLargestChildOrGrandchild bef (mh_items h) i")
    case None
    then show ?thesis using 1 rearranged_refl by (subst downMax.simps) auto
  next
    case (Some m)
    note mb = findLargest_bounds [OF Some]
    show ?thesis
    proof (cases "bef (mh_items h ! m) (mh_items h ! i)")
      case False
      then show ?thesis using 1 Some rearranged_refl by (subst downMax.simps) auto
    next
      case True
      obtain h1 where h1: "heap_swap hdl i m h = Some h1" "rearranged hdl h h1"
        using heap_swap_ok [OF 1(3,4)] mb by metis
      let ?p = "(m - 1) div 2"
      have m1: "m < length (mh_items h1)" "?p < length (mh_items h1)"
        using rearranged_length [OF h1(2)] mb by auto
      obtain h2 where h2: "heap_swap hdl m ?p h1 = Some h2" "rearranged hdl h1 h2"
        using heap_swap_ok [OF rearranged_index [OF h1(2)] m1] .
      have m2: "m < length (mh_items h2)" using rearranged_length [OF h2(2)] m1 by simp
      have "\<exists>h'. downMax bef hdl m h2 = Some h' \<and> rearranged hdl h2 h'"
        if "?p \<noteq> i \<and> bef (mh_items h1 ! ?p) (mh_items h1 ! m)"
        using 1(1) [OF Some True h1(1) refl that h2(1) rearranged_index [OF h2(2)] m2] .
      moreover have "\<exists>h'. downMax bef hdl m h1 = Some h' \<and> rearranged hdl h1 h'"
        if "\<not> (?p \<noteq> i \<and> bef (mh_items h1 ! ?p) (mh_items h1 ! m))"
        using 1(2) [OF Some True h1(1) refl that rearranged_index [OF h1(2)] m1(1)] .
      ultimately show ?thesis
        using Some True h1 h2(1) rearranged_trans [OF h1(2)] rearranged_trans [OF h2(2)]
        by (subst downMax.simps) (auto simp: Let_def)
    qed
  qed
qed

subsection \<open>The sifting loops restore the heap\<close>

context strict_weak
begin

lemma downMax_leaf: "length (mh_items h) \<le> 2 * e + 1 \<Longrightarrow> downMax bef hdl e h = Some h"
  by (subst downMax.simps) (simp add: findLargestChildOrGrandchild_def Let_def)

lemma downMax_heap:
  assumes "alternating L" "index_ok hdl h" "\<not> L e" "e < length (mh_items h)" "k \<le> e"
    and "no_ties bef (mh_items h)" "down_inv bef L k e (mh_items h)"
  shows "\<exists>h'. downMax bef hdl e h = Some h' \<and> heap_from bef L k (mh_items h')"
  using assms
proof (induction "length (mh_items h) - e" arbitrary: e h rule: less_induct)
  case less
  note alt = less(2) and ok = less(3) and top = less(4) and el = less(5) and ke = less(6)
    and ties = less(7) and inv = less(8)
  let ?xs = "mh_items h"
  show ?case
  proof (cases "findLargestChildOrGrandchild bef ?xs e")
    case None
    then show ?thesis using down_leaf [OF inv findLargest_None [OF None]]
      by (subst downMax.simps) simp
  next
    case (Some m)
    note best = findLargest_best [OF Some] and mb = findLargest_bounds [OF Some]
    show ?thesis
    proof (cases "bef (?xs ! m) (?xs ! e)")
      case False
      then show ?thesis using down_stop [OF alt top inv ke best False] Some
        by (subst downMax.simps) simp
    next
      case lt: True
      obtain h1 where h1: "heap_swap hdl e m h = Some h1" "mh_items h1 = swap_list e m ?xs"
        "rearranged hdl h h1" using heap_swap_ok [OF ok el] mb by metis
      have p: "(m - 1) div 2 = par m" by (simp add: par_def)
      have near: "near e m" using best by (simp add: best_below_def)
      show ?thesis
      proof (cases "par m = e")
        case True
        have "length ?xs \<le> 2 * m + 1" by (rule best_child_leaf [OF alt top inv ke best True ties])
        then have len: "length (mh_items h1) \<le> 2 * m + 1" using h1(2) by simp
        have "down_inv bef L k m (mh_items h1)"
          using down_step_child [OF alt top inv ke best True lt] h1(2) by simp
        from down_leaf [OF this len] downMax_leaf [OF len] show ?thesis
          using Some lt h1(1) True p by (subst downMax.simps) (simp add: Let_def)
      next
        case False
        then have gc: "par (par m) = e" "0 < par m" using near by (auto simp: near_def)
        have nl: "\<not> L m" using alternatingD [OF alt, of m] alternatingD [OF alt gc(2)] gc top mb by simp
        have pm: "par m < m" "e < par m" using par_less [OF gc(2)] par_less [of m] gc(1) mb by simp_all
        have xe: "mh_items h1 ! m = ?xs ! e" "mh_items h1 ! par m = ?xs ! par m"
          using h1(2) mb el pm by (simp_all add: swap_list_nth)
        have m1: "m < length (mh_items h1)" "par m < length (mh_items h1)"
          using rearranged_length [OF h1(3)] mb pm by auto
        obtain h2 where h2: "heap_swap hdl m (par m) h1 = Some h2"
          "mh_items h2 = swap_list m (par m) (mh_items h1)" "rearranged hdl h1 h2"
          using heap_swap_ok [OF rearranged_index [OF h1(3)] m1] .
        define h3 where "h3 = (if bef (?xs ! par m) (?xs ! e) then h2 else h1)"
        have r3: "rearranged hdl h h3"
          using h1(3) rearranged_trans [OF h1(3) h2(3)] by (simp add: h3_def)
        have inv3: "down_inv bef L k m (mh_items h3)"
          by (rule down_step_grandchild [OF alt top inv ke best gc lt]) (simp add: h3_def h1(2) h2(2))
        have ties3: "no_ties bef (mh_items h3)"
          using ties no_ties_mset r3 unfolding rearranged_def by metis
        have "\<exists>h'. downMax bef hdl m h3 = Some h' \<and> heap_from bef L k (mh_items h')"
          using less(1) [OF _ alt rearranged_index [OF r3] nl _ _ ties3 inv3]
            rearranged_length [OF r3] mb ke diff_less_mono2 [of e m "length ?xs"] by simp
        then show ?thesis
          using Some lt h1(1) h2(1) False p xe by (subst downMax.simps) (auto simp: Let_def h3_def)
      qed
    qed
  qed
qed

lemma upMax_heap:
  assumes "alternating L" "index_ok hdl h" "\<not> L e" "e < length (mh_items h)" "up_inv bef L e (mh_items h)"
    and "\<And>e. \<not> L e \<Longrightarrow> par e = 0 \<Longrightarrow> 0 < e \<Longrightarrow> L 0"
  shows "\<exists>h'. upMax bef hdl e h = Some h' \<and> level_heap bef L (mh_items h')"
  using assms
proof (induction e arbitrary: h rule: less_induct)
  case (less e)
  note alt = less(2) and ok = less(3) and top = less(4) and el = less(5) and inv = less(6)
    and L0 = less(7)
  show ?case
  proof (cases "0 < par e \<and> bef (mh_items h ! e) (mh_items h ! par (par e))")
    case True
    have e0: "0 < e" using True by (cases e) (simp_all add: par_def)
    have g: "par (par e) < e" using par_less [OF e0] par_less [of "par e"] True by simp
    obtain h1 where h1: "heap_swap hdl e (par (par e)) h = Some h1"
      "mh_items h1 = swap_list e (par (par e)) (mh_items h)" "rearranged hdl h h1"
      using heap_swap_ok [OF ok el order.strict_trans [OF g el]] .
    have "up_inv bef L (par (par e)) (mh_items h1)"
      using up_step [OF alt top inv el _ refl] True h1(2) by simp
    moreover have "\<not> L (par (par e))"
      using alternatingD [OF alt e0] alternatingD [OF alt, of "par e"] True top by simp
    ultimately have "\<exists>h'. upMax bef hdl (par (par e)) h1 = Some h' \<and> level_heap bef L (mh_items h')"
      using less(1) [OF g alt rearranged_index [OF h1(3)]] rearranged_length [OF h1(3)] g el L0 by simp
    then show ?thesis using True h1(1) by (subst upMax.simps) (simp add: Let_def par_fold)
  next
    case False
    have "level_heap bef L (mh_items h)"
      by (rule up_stop [OF alt top inv el]) (use False L0 [OF top] in auto)
    moreover have "upMax bef hdl e h = Some h"
      using False by (subst upMax.simps) (cases "par e = 0", simp_all add: Let_def par_fold)
    ultimately show ?thesis by blast
  qed
qed

end

abbreviation max_min_heap :: "('a \<Rightarrow> 'a \<Rightarrow> bool) \<Rightarrow> 'a list \<Rightarrow> bool" where
  "max_min_heap bef xs \<equiv> level_heap bef isMinLevel xs"

lemma down_returns:
  "index_ok hdl h \<Longrightarrow> i < length (mh_items h) \<Longrightarrow> \<exists>h'. down bef hdl i h = Some h' \<and> rearranged hdl h h'"
  using downMax_returns [of hdl h i bef] downMax_returns [of hdl h i "\<lambda>a b. bef b a"]
  by (cases "isMinLevel i") (simp_all only: down_def downMin_mirror if_True if_False)

lemma up_returns:
  assumes ok: "index_ok hdl h" and i: "i < length (mh_items h)"
  shows "\<exists>h'. up bef hdl i h = Some h' \<and> rearranged hdl h h'"
proof (cases "i = 0")
  case True
  then show ?thesis using rearranged_refl [OF ok] by (simp add: up_def)
next
  case False
  have p: "(i - 1) div 2 < length (mh_items h)" using i by simp
  obtain h1 where h1: "heap_swap hdl i ((i - 1) div 2) h = Some h1" "rearranged hdl h h1"
    using heap_swap_ok [OF ok i p] .
  have "\<exists>h'. upMax b hdl ((i - 1) div 2) h1 = Some h' \<and> rearranged hdl h h'" for b
    using upMax_returns [OF rearranged_index [OF h1(2)], of "(i - 1) div 2" b]
      rearranged_length [OF h1(2)] p rearranged_trans [OF h1(2)] by auto
  then show ?thesis
    using False h1(1) upMax_returns [OF ok i] unfolding up_def Let_def upMin_mirror by simp
qed

context strict_weak
begin

lemma down_heap:
  assumes ok: "index_ok hdl h" and i: "i < length (mh_items h)"
    and ties: "no_ties bef (mh_items h)" and inv: "heap_from bef isMinLevel (Suc i) (mh_items h)"
  shows "\<exists>h'. down bef hdl i h = Some h' \<and> rearranged hdl h h' \<and> heap_from bef isMinLevel i (mh_items h')"
proof -
  have inv': "down_inv bef isMinLevel i i (mh_items h)"
    using inv unfolding heap_inv_defs by (rule heap_on_mono) auto
  note alt = isMinLevel_alternating
  show ?thesis
  proof (cases "isMinLevel i")
    case False
    then show ?thesis
      using downMax_heap [OF alt ok False i order.refl ties inv'] downMax_returns [OF ok i, of bef]
      by (auto simp: down_def)
  next
    case True
    have "\<exists>h'. downMax (\<lambda>a b. bef b a) hdl i h = Some h' \<and>
        heap_from (\<lambda>a b. bef b a) (\<lambda>i. \<not> isMinLevel i) i (mh_items h')"
      using True ties inv' i ok
      by (intro dual.downMax_heap)
        (simp_all add: alternating_dual alt no_ties_dual [of bef] heap_inv_defs heap_on_dual)
    then show ?thesis
      using True downMax_returns [OF ok i, of "\<lambda>a b. bef b a"]
      by (auto simp: down_def downMin_mirror heap_inv_defs heap_on_dual)
  qed
qed

lemma heapify_heap:
  assumes "index_ok hdl h" "n \<le> length (mh_items h)" "no_ties bef (mh_items h)"
    "heap_from bef isMinLevel n (mh_items h)"
  shows "\<exists>h'. heapify bef hdl n h = Some h' \<and> rearranged hdl h h' \<and> max_min_heap bef (mh_items h')"
  using assms
proof (induction n arbitrary: h)
  case 0
  then show ?case by (simp add: rearranged_refl)
next
  case (Suc n)
  obtain h1 where h1: "down bef hdl n h = Some h1" "rearranged hdl h h1"
    "heap_from bef isMinLevel n (mh_items h1)"
    using down_heap [OF Suc.prems(1) _ Suc.prems(3,4)] Suc.prems(2) by auto
  have "no_ties bef (mh_items h1)" using h1(2) Suc.prems(3) no_ties_mset unfolding rearranged_def by metis
  then obtain h2 where "heapify bef hdl n h1 = Some h2" "rearranged hdl h1 h2" "max_min_heap bef (mh_items h2)"
    using Suc.IH [OF rearranged_index [OF h1(2)] _ _ h1(3)] rearranged_length [OF h1(2)] Suc.prems(2) by auto
  then show ?case using h1 rearranged_trans by auto
qed

lemma heap_from_leaves: "heap_from bef L (length xs div 2) xs"
  unfolding heap_from_def heap_on_def
proof (intro allI impI)
  fix a j assume "anc a j" "j < length xs" "length xs div 2 \<le> a"
  then have "2 * a + 1 \<le> j" using anc_left_child by blast
  with \<open>j < length xs\<close> \<open>length xs div 2 \<le> a\<close> show "above bef (L a) (xs ! a) (xs ! j)" by simp
qed

text \<open>\<open>up\<close> on the last position of an array that is a heap without it.\<close>

lemma up_heap:
  assumes ok: "index_ok hdl h" and len: "length (mh_items h) = Suc e"
    and rest: "heap_on bef isMinLevel (\<lambda>a j. j \<noteq> e) (mh_items h)"
  shows "\<exists>h'. up bef hdl e h = Some h' \<and> max_min_heap bef (mh_items h')"
proof (cases "e = 0")
  case True
  have "max_min_heap bef (mh_items h)"
    using True len unfolding heap_inv_defs heap_on_def by (auto dest: anc_pos)
  then show ?thesis using True by (simp add: up_def)
next
  case False
  note alt = isMinLevel_alternating
  have e: "e < length (mh_items h)" "0 < e" "par e < length (mh_items h)"
    using False len par_less [of e] by simp_all
  obtain h1 where h1: "heap_swap hdl e (par e) h = Some h1" "mh_items h1 = swap_list e (par e) (mh_items h)"
    "rearranged hdl h h1" using heap_swap_ok [OF ok e(1,3)] .
  have p1: "par e < length (mh_items h1)" using h1(2) e by simp
  note level = alternatingD [OF alt e(2)]
  have max_stop: "\<not> isMinLevel c \<Longrightarrow> par c = 0 \<Longrightarrow> 0 < c \<Longrightarrow> isMinLevel 0" for c
    using alternatingD [OF alt, of c] by simp
  let ?db = "\<lambda>a b. bef b a" and ?dL = "\<lambda>i. \<not> isMinLevel i"
  have dalt: "alternating ?dL" using alt by (simp add: alternating_dual)
  have drest: "heap_on ?db ?dL (\<lambda>a j. j \<noteq> e) (mh_items h)" using rest by (simp add: heap_on_dual)
  have dheap: "level_heap ?db ?dL xs = max_min_heap bef xs" for xs by (simp add: heap_inv_defs heap_on_dual)
  show ?thesis
  proof (cases "isMinLevel e")
    case True
    show ?thesis
    proof (cases "bef (mh_items h ! e) (mh_items h ! par e)")
      case sw: True
      have "up_inv bef isMinLevel (par e) (mh_items h1)"
        using dual.up_start_swap [of ?dL e "mh_items h"] True level len e(2) drest sw h1(2)
        by simp
      then have "\<exists>h'. upMax bef hdl (par e) h1 = Some h' \<and> max_min_heap bef (mh_items h')"
        using upMax_heap [OF alt rearranged_index [OF h1(3)] _ p1 _ max_stop] True level by simp
      then show ?thesis using True sw False h1(1) by (simp add: up_def Let_def par_fold)
    next
      case keep: False
      have "up_inv ?db ?dL e (mh_items h)"
        using dual.up_start_keep [OF dalt _ e(1,2) drest] True keep by simp
      then have "\<exists>h'. upMax ?db hdl e h = Some h' \<and> level_heap ?db ?dL (mh_items h')"
        using dual.upMax_heap [OF dalt ok _ e(1)] True by simp
      then show ?thesis using True keep False by (simp add: up_def Let_def par_fold upMin_mirror dheap)
    qed
  next
    case max: False
    show ?thesis
    proof (cases "bef (mh_items h ! par e) (mh_items h ! e)")
      case sw: True
      have "up_inv ?db ?dL (par e) (mh_items h1)"
        using up_start_swap [of isMinLevel e "mh_items h"] max level len e(2) rest sw h1(2) by simp
      then have "\<exists>h'. upMax ?db hdl (par e) h1 = Some h' \<and> level_heap ?db ?dL (mh_items h')"
        using dual.upMax_heap [OF dalt rearranged_index [OF h1(3)] _ p1] max level by simp
      then show ?thesis using max sw False h1(1) by (simp add: up_def Let_def par_fold upMin_mirror dheap)
    next
      case keep: False
      have "up_inv bef isMinLevel e (mh_items h)"
        using up_start_keep [OF alt max e(1,2) rest keep] .
      then have "\<exists>h'. upMax bef hdl e h = Some h' \<and> max_min_heap bef (mh_items h')"
        using upMax_heap [OF alt ok max e(1) _ max_stop] by simp
      then show ?thesis using max keep False by (simp add: up_def Let_def par_fold)
    qed
  qed
qed

end

end
