(* ===== verification/HeapQueue.thy ===== *)
theory HeapQueue
  imports MaxMinHeapProofs
begin

text \<open>
  The max-min heap as a queue: \<open>Add\<close>, \<open>Remove\<close>, \<open>Cleanup\<close> and \<open>Drain\<close> keep handles, byte count and
  contents in step (the contract of \<open>SafeQueue\<close>), \<open>Add\<close>, \<open>Remove\<close> of the head and \<open>Cleanup\<close> keep the
  heap order, and in a heap \<open>PeekHead\<close> and \<open>PeekTail\<close> return the first and the last item of the policy.
\<close>

subsection \<open>The queue operations keep handles, bytes and contents\<close>

definition heap_wf :: "Store \<Rightarrow> heap_queue \<Rightarrow> bool" where
  "heap_wf st h \<longleftrightarrow>
     index_ok (Handle st) h \<and> mh_byteSize h = wsum item_bytes (mh_items h) \<and>
     (\<forall>k i. mh_handles h k = Some i \<longrightarrow> k < st_next st \<and> st_obj st k = Some (HeapItemObj False))"

lemma heap_wf_item:
  assumes "heap_wf st h" "x \<in> set (mh_items h)"
  obtains i k where "i < length (mh_items h)" "mh_items h ! i = x" "Handle st x = Some k"
    "mh_handles h k = Some i" "k < st_next st" "st_obj st k = Some (HeapItemObj False)"
proof -
  obtain i where i: "i < length (mh_items h)" "mh_items h ! i = x" using assms(2) by (auto simp: in_set_conv_nth)
  have ok: "index_ok (Handle st) h" using assms(1) by (simp add: heap_wf_def)
  obtain k where "Handle st x = Some k" "mh_handles h k = Some i"
    using index_okD [OF ok i(1)] i(2) by metis
  then show ?thesis using that i assms(1) by (simp add: heap_wf_def)
qed

lemma heap_wf_live:
  "heap_wf st h \<Longrightarrow> x \<in> set (mh_items h) \<Longrightarrow> Handle st x = Some k \<Longrightarrow>
   k < st_next st \<and> st_obj st k = Some (HeapItemObj False)"
  by (metis heap_wf_item option.inject)

lemma heap_wf_inj:
  assumes "heap_wf st h" "x \<in> set (mh_items h)" "y \<in> set (mh_items h)" "Handle st x = Handle st y"
  shows "x = y"
  using heap_wf_item [OF assms(1,2)] heap_wf_item [OF assms(1,3)] assms(4) by (metis option.inject)

lemma heap_wf_refs:
  assumes "heap_wf st h"
  shows "distinct (map fi_ref (mh_items h))"
  unfolding distinct_map
proof
  show "distinct (mh_items h)" using assms by (auto simp: heap_wf_def index_ok_distinct)
  show "inj_on fi_ref (set (mh_items h))"
    by (rule inj_onI, rule heap_wf_inj [OF assms]) (simp_all add: Handle_def)
qed

lemma rearranged_wf:
  assumes "rearranged (Handle st) h h'" "heap_wf st h"
  shows "heap_wf st h'"
proof -
  have ok: "index_ok (Handle st) h'" and m: "mset (mh_items h') = mset (mh_items h)"
    and b: "mh_byteSize h' = mh_byteSize h" using assms(1) by (simp_all add: rearranged_def)
  have "k < st_next st \<and> st_obj st k = Some (HeapItemObj False)" if k: "mh_handles h' k = Some i" for k i
  proof -
    have i: "i < length (mh_items h')" "Handle st (mh_items h' ! i) = Some k"
      using index_ok_handle [OF ok k] by auto
    then have "mh_items h' ! i \<in> set (mh_items h)" using m by (metis nth_mem set_mset_mset)
    then show ?thesis using heap_wf_item [OF assms(2)] i(2) by (metis option.inject)
  qed
  then show ?thesis using ok b assms(2) wsum_mset [OF m, of item_bytes] by (auto simp: heap_wf_def)
qed

lemma append_index_ok:
  assumes ok: "index_ok hdl h" and new: "hdl' x = Some k" "mh_handles h k = None"
    and old: "\<And>y. y \<in> set (mh_items h) \<Longrightarrow> hdl' y = hdl y"
  shows "index_ok hdl' (h\<lparr>mh_items := mh_items h @ [x], mh_handles := (mh_handles h)(k \<mapsto> length (mh_items h))\<rparr>)"
    (is "index_ok hdl' ?h")
proof -
  have "\<exists>k. hdl' (mh_items ?h ! i) = Some k \<and> mh_handles ?h k = Some i" if "i < length (mh_items ?h)" for i
  proof (cases "i < length (mh_items h)")
    case True
    obtain k' where k': "hdl (mh_items h ! i) = Some k'" "mh_handles h k' = Some i" using index_okD [OF ok True] .
    then show ?thesis using True new old [of "mh_items h ! i"] by (auto simp: nth_append)
  next
    case False
    then have "i = length (mh_items h)" using that by simp
    then show ?thesis using new by simp
  qed
  moreover have "i < length (mh_items ?h) \<and> hdl' (mh_items ?h ! i) = Some j" if "mh_handles ?h j = Some i" for i j
    using that new index_ok_handle [OF ok, of j i] old [of "mh_items h ! i"]
    by (auto simp: nth_append split: if_splits)
  ultimately show ?thesis unfolding index_ok_def by blast
qed

text \<open>The heap right before \<open>push\<close> sifts the new item up.\<close>

definition add_store :: "FlowItem \<Rightarrow> Store \<Rightarrow> Store" where
  "add_store x st = SetHandle x (st_next st) (snd (new_obj (HeapItemObj False) st))"

definition appended :: "FlowItem \<Rightarrow> Store \<Rightarrow> heap_queue \<Rightarrow> heap_queue" where
  "appended x st h = h\<lparr>mh_items := mh_items h @ [x],
                       mh_handles := (mh_handles h)(st_next st \<mapsto> length (mh_items h))\<rparr>"

lemma add_store_Handle:
  "Handle (add_store x st) y = (if fi_ref y = fi_ref x then Some (st_next st) else Handle st y)"
  by (simp add: add_store_def store_defs)

lemma add_store_obj:
  "st_obj (add_store x st) = (st_obj st)(st_next st \<mapsto> HeapItemObj False)"
  "st_next (add_store x st) = Suc (st_next st)"
  by (simp_all add: add_store_def store_defs)

lemma push_eq:
  "push bef x st h =
     do { h3 \<leftarrow> up bef (Handle (add_store x st)) (length (mh_items h)) (appended x st h);
          Some (add_store x st, h3) }"
  by (simp add: push_def appended_def add_store_def new_obj_def Let_def)

lemma appended_index:
  assumes "heap_wf st h" "fi_ref x \<notin> fi_ref ` set (mh_items h)"
  shows "index_ok (Handle (add_store x st)) (appended x st h)"
  unfolding appended_def
proof (rule append_index_ok)
  show "index_ok (Handle st) h" using assms(1) by (simp add: heap_wf_def)
  show "Handle (add_store x st) x = Some (st_next st)" by (simp add: add_store_Handle)
  show "mh_handles h (st_next st) = None"
    using assms(1) unfolding heap_wf_def by (metis less_irrefl not_None_eq)
  show "Handle (add_store x st) y = Handle st y" if "y \<in> set (mh_items h)" for y
    using that assms(2) by (metis add_store_Handle imageI)
qed

lemma heap_Add_returns:
  assumes wf: "heap_wf st h" and fresh: "fi_ref x \<notin> fi_ref ` set (mh_items h)"
  shows "\<exists>h'. heap_Add bef x st h = Some (add_store x st, h') \<and> heap_wf (add_store x st) h' \<and>
     mset (mh_items h') = add_mset x (mset (mh_items h))"
proof -
  let ?st = "add_store x st" and ?h = "appended x st h"
  obtain h3 where u: "up bef (Handle ?st) (length (mh_items h)) ?h = Some h3" "rearranged (Handle ?st) ?h h3"
    using up_returns [OF appended_index [OF assms], of "length (mh_items h)" bef] by (auto simp: appended_def)
  let ?h' = "h3\<lparr>mh_byteSize := mh_byteSize h3 + item_bytes x\<rparr>"
  have m: "mset (mh_items h3) = add_mset x (mset (mh_items h))" and b: "mh_byteSize h3 = mh_byteSize h"
    and ok3: "index_ok (Handle ?st) h3"
    using u(2) by (simp_all add: rearranged_def appended_def)
  have hk: "k < st_next ?st \<and> st_obj ?st k = Some (HeapItemObj False)" if k: "mh_handles h3 k = Some i" for k i
  proof -
    have "Handle ?st (mh_items h3 ! i) = Some k" "mh_items h3 ! i \<in> set (mh_items h3)"
      using index_ok_handle [OF ok3 k] by auto
    moreover have "set (mh_items h3) = insert x (set (mh_items h))"
      using m by (metis set_mset_add_mset_insert set_mset_mset)
    ultimately show ?thesis
      using heap_wf_live [OF wf, of "mh_items h3 ! i" k] fresh
      by (auto simp: add_store_Handle add_store_obj split: if_splits)
  qed
  have "mh_byteSize h3 + item_bytes x = wsum item_bytes (mh_items h3)"
    using wsum_mset [of "mh_items h3" "x # mh_items h" item_bytes] m b wf
    by (simp add: heap_wf_def)
  then have "heap_wf ?st ?h'" using ok3 hk by (simp add: heap_wf_def index_ok_def)
  then show ?thesis using u(1) m by (simp add: heap_Add_def push_eq)
qed

text \<open>Cutting off the last position, where the removed item with handle \<open>k\<close> stands.\<close>

lemma cut_wf:
  assumes wf: "heap_wf st h" and h: "mh_items h = xs @ [x]" and k: "Handle st x = Some k"
  shows "heap_wf (Invalidate k st)
    (h\<lparr>mh_items := xs, mh_handles := (mh_handles h)(k := None), mh_byteSize := mh_byteSize h - item_bytes x\<rparr>)"
    (is "heap_wf ?st ?h")
proof -
  have ok: "index_ok (Handle st) h" using wf by (simp add: heap_wf_def)
  have hd: "Handle ?st = Handle st" by (rule ext) (simp add: store_defs)
  have kx: "mh_handles h k = Some (length xs)"
    using index_okD [OF ok, of "length xs"] h k by (metis length_append_singleton lessI nth_append_length option.inject)
  have "\<exists>j. Handle st (xs ! i) = Some j \<and> mh_handles ?h j = Some i" if i: "i < length xs" for i
  proof -
    obtain j where j: "Handle st (mh_items h ! i) = Some j" "mh_handles h j = Some i"
      using index_okD [OF ok, of i] i h by auto
    then have "j \<noteq> k" using kx i by auto
    then show ?thesis using j i h by (auto simp: nth_append)
  qed
  moreover have "i < length xs \<and> Handle st (xs ! i) = Some j" if j: "mh_handles ?h j = Some i" for i j
  proof -
    have j': "mh_handles h j = Some i" "j \<noteq> k" using j by (auto split: if_splits)
    have a: "i < length (mh_items h)" "Handle st (mh_items h ! i) = Some j"
      using index_ok_handle [OF ok j'(1)] by auto
    then have "i \<noteq> length xs" using j'(2) k h by auto
    then show ?thesis using a h by (auto simp: nth_append)
  qed
  ultimately have "index_ok (Handle ?st) ?h" unfolding index_ok_def hd by simp
  moreover have "mh_byteSize h - item_bytes x = wsum item_bytes xs" using wf h by (simp add: heap_wf_def)
  moreover have "j < st_next ?st \<and> st_obj ?st j = Some (HeapItemObj False)" if "mh_handles ?h j = Some i" for i j
    using that wf by (auto simp: heap_wf_def Invalidate_def split: if_splits)
  ultimately show ?thesis by (simp add: heap_wf_def)
qed

lemma rearranged_Invalidate: "rearranged (Handle (Invalidate k st)) = rearranged (Handle st)"
  by (simp add: rearranged_def [abs_def] index_ok_def Handle_def Invalidate_def)

text \<open>\<open>Remove\<close> of a queued item. Whether it is the last of the array or not, the item is cut off the
  end, and in the second case the displaced one is sifted down from its place.\<close>

definition cut_heap :: "FlowItem \<Rightarrow> nat \<Rightarrow> heap_queue \<Rightarrow> heap_queue" where
  "cut_heap x k h = h\<lparr>mh_items := butlast (mh_items h), mh_handles := (mh_handles h)(k := None),
                      mh_byteSize := mh_byteSize h - item_bytes x\<rparr>"

lemma heap_Remove_steps:
  assumes wf: "heap_wf st h" and i: "i < length (mh_items h)" "mh_items h ! i = x"
    and k: "Handle st x = Some k"
  obtains g where "mh_items g = swap_list i (length (mh_items h) - 1) (mh_items h)"
    "rearranged (Handle st) h g" "heap_wf (Invalidate k st) (cut_heap x k g)"
    "heap_Remove bef (Some k) st h =
       do { h' \<leftarrow> (if i < length (mh_items h) - 1 then down bef (Handle st) i (cut_heap x k g)
                    else Some (cut_heap x k g));
            Some (Inr x, Invalidate k st, h') }"
proof -
  let ?n = "length (mh_items h) - 1"
  have n: "?n < length (mh_items h)" using i by simp
  have ok: "index_ok (Handle st) h" using wf by (simp add: heap_wf_def)
  have ki: "mh_handles h k = Some i" using index_okD [OF ok i(1)] i(2) k by (metis option.inject)
  have ob: "st_obj st k = Some (HeapItemObj False)" using wf ki by (simp add: heap_wf_def)
  obtain g where g: "heap_swap (Handle st) i ?n h = Some g" "mh_items g = swap_list i ?n (mh_items h)"
    "rearranged (Handle st) h g" using heap_swap_ok [OF ok i(1) n] .
  have last: "mh_items g = butlast (mh_items g) @ [x]"
  proof -
    have "mh_items g \<noteq> []" "last (mh_items g) = x"
      using g(2) i n by (auto simp: last_conv_nth swap_list_nth simp flip: length_0_conv)
    then show ?thesis by (metis append_butlast_last_id)
  qed
  have cut: "heap_wf (Invalidate k st) (cut_heap x k g)"
    unfolding cut_heap_def by (rule cut_wf [OF rearranged_wf [OF g(3) wf] last k])
  have guards: "\<not> IsInvalidated k st" "is_heapItem k st"
    using ob by (simp_all add: IsInvalidated_def is_heapItem_def)
  have same: "g = h" if "\<not> i < ?n"
  proof -
    have "i = ?n" using that i(1) by simp
    then have "g = h\<lparr>mh_handles := (mh_handles h)(k \<mapsto> i)\<rparr>"
      using g(1) ki k i by (auto simp: heap_swap_def set_index_def swap_list_def Let_def)
    then show ?thesis using fun_upd_idem [of "mh_handles h" k "Some i"] ki by simp
  qed
  have len: "length (mh_items g) = length (mh_items h)" using g(2) by simp
  have "heap_Remove bef (Some k) st h =
       do { h' \<leftarrow> (if i < ?n then down bef (Handle st) i (cut_heap x k g) else Some (cut_heap x k g));
            Some (Inr x, Invalidate k st, h') }"
    using guards ki i g(1) same len
    by (auto simp: heap_Remove_def Let_def cut_heap_def minus_bytes butlast_conv_take)
  then show ?thesis using that g cut by blast
qed

lemma heap_Remove_returns:
  assumes wf: "heap_wf st h" and x: "x \<in> set (mh_items h)" and k: "Handle st x = Some k"
  shows "\<exists>h'. heap_Remove bef (Some k) st h = Some (Inr x, Invalidate k st, h') \<and>
     heap_wf (Invalidate k st) h' \<and> mset (mh_items h') = mset (mh_items h) - {#x#}"
proof -
  obtain i where i: "i < length (mh_items h)" "mh_items h ! i = x" using x by (auto simp: in_set_conv_nth)
  obtain g where g: "mh_items g = swap_list i (length (mh_items h) - 1) (mh_items h)"
    "rearranged (Handle st) h g" "heap_wf (Invalidate k st) (cut_heap x k g)"
    and eq: "heap_Remove bef (Some k) st h =
       do { h' \<leftarrow> (if i < length (mh_items h) - 1 then down bef (Handle st) i (cut_heap x k g)
                    else Some (cut_heap x k g));
            Some (Inr x, Invalidate k st, h') }"
    using heap_Remove_steps [OF wf i k, of bef] by blast
  let ?c = "cut_heap x k g"
  have len: "length (mh_items g) = length (mh_items h)" using g(1) by simp
  have "mh_items g \<noteq> []" "last (mh_items g) = x"
    using g(1) i by (auto simp: last_conv_nth swap_list_nth simp flip: length_0_conv)
  then have "mh_items g = mh_items ?c @ [x]"
    using append_butlast_last_id [of "mh_items g"] by (simp add: cut_heap_def)
  then have "mset (mh_items g) = add_mset x (mset (mh_items ?c))" by simp
  then have m: "mset (mh_items ?c) = mset (mh_items h) - {#x#}"
    using g(2) unfolding rearranged_def by (metis add_mset_remove_trivial)
  have ok: "index_ok (Handle st) ?c"
    using g(3) by (simp add: heap_wf_def index_ok_def Handle_def Invalidate_def)
  show ?thesis
  proof (cases "i < length (mh_items h) - 1")
    case True
    then have "i < length (mh_items ?c)" using len by (simp add: cut_heap_def)
    then obtain h' where d: "down bef (Handle st) i ?c = Some h'" "rearranged (Handle st) ?c h'"
      using down_returns [OF ok] by blast
    then show ?thesis
      using eq True m rearranged_wf [of "Invalidate k st" ?c h'] g(3)
      by (simp add: rearranged_Invalidate) (simp add: rearranged_def)
  next
    case False
    then show ?thesis using eq m g(3) by simp
  qed
qed

subsection \<open>Cleanup and Drain\<close>

lemma heap_forget_spec:
  "mh_items (heap_forget hdl bytes xs h) = mh_items h"
  "mh_byteSize (heap_forget hdl bytes xs h) = mh_byteSize h - wsum bytes xs"
  "mh_handles (heap_forget hdl bytes xs h) k =
     (if \<exists>x \<in> set xs. hdl x = Some k then None else mh_handles h k)"
  by (induction xs arbitrary: h) (auto simp: minus_bytes split: option.splits)

lemma set_indices_spec:
  assumes "inj_on hdl (set xs)" "distinct xs"
    and "\<And>x. x \<in> set xs \<Longrightarrow> \<exists>k. hdl x = Some k \<and> mh_handles h k \<noteq> None"
  shows "\<exists>h'. set_indices hdl i xs h = Some h' \<and> mh_items h' = mh_items h \<and> mh_byteSize h' = mh_byteSize h \<and>
     (\<forall>j < length xs. \<forall>k. hdl (xs ! j) = Some k \<longrightarrow> mh_handles h' k = Some (i + j)) \<and>
     (\<forall>k. (\<forall>x \<in> set xs. hdl x \<noteq> Some k) \<longrightarrow> mh_handles h' k = mh_handles h k)"
  using assms
proof (induction xs arbitrary: i h)
  case (Cons x xs)
  obtain k where k: "hdl x = Some k" "mh_handles h k \<noteq> None" using Cons.prems(3) [of x] by auto
  let ?h = "h\<lparr>mh_handles := (mh_handles h)(k \<mapsto> i)\<rparr>"
  have nk: "hdl y \<noteq> Some k" if "y \<in> set xs" for y
    using that Cons.prems(1,2) k(1) by (auto simp: inj_on_def)
  have "\<exists>k'. hdl y = Some k' \<and> mh_handles ?h k' \<noteq> None" if "y \<in> set xs" for y
    using Cons.prems(3) [of y] that by auto
  then obtain h' where h': "set_indices hdl (Suc i) xs ?h = Some h'" "mh_items h' = mh_items h"
    "mh_byteSize h' = mh_byteSize h"
    "\<forall>j < length xs. \<forall>k'. hdl (xs ! j) = Some k' \<longrightarrow> mh_handles h' k' = Some (Suc i + j)"
    "\<forall>k'. (\<forall>y \<in> set xs. hdl y \<noteq> Some k') \<longrightarrow> mh_handles h' k' = mh_handles ?h k'"
    using Cons.IH [of ?h "Suc i"] Cons.prems(1,2) by (auto simp: inj_on_def)
  have "set_indices hdl i (x # xs) h = Some h'" using h'(1) k by (auto simp: set_index_def)
  moreover have "mh_handles h' k = Some i" using h'(5) nk by auto
  ultimately show ?case
    using h' k(1) nk by (auto simp: nth_Cons' less_Suc_eq_0_disj)
qed simp

lemma heapify_returns:
  "index_ok hdl h \<Longrightarrow> n \<le> length (mh_items h) \<Longrightarrow> \<exists>h'. heapify bef hdl n h = Some h' \<and> rearranged hdl h h'"
proof (induction n arbitrary: h)
  case (Suc n)
  obtain h1 where h1: "down bef hdl n h = Some h1" "rearranged hdl h h1"
    using down_returns [OF Suc.prems(1), of n bef] Suc.prems(2) by auto
  then obtain h2 where "heapify bef hdl n h1 = Some h2" "rearranged hdl h1 h2"
    using Suc.IH [OF rearranged_index [OF h1(2)]] rearranged_length [OF h1(2)] Suc.prems(2) by auto
  then show ?case using h1 rearranged_trans by auto
qed (simp add: rearranged_refl)

text \<open>The state right before the rebuilding loop of \<open>Cleanup\<close>: the kept items in array order, with
  fresh indices.\<close>

lemma heap_Cleanup_steps:
  assumes wf: "heap_wf st h" and some: "filter p (mh_items h) \<noteq> []"
  obtains g where "mh_items g = filter (\<lambda>x. \<not> p x) (mh_items h)"
    "heap_wf (invalidate_all (filter p (mh_items h)) st) g"
    "heap_Cleanup bef p st h =
       do { h' \<leftarrow> heapify bef (Handle st) (length (mh_items g) div 2) g;
            Some (filter p (mh_items h), invalidate_all (filter p (mh_items h)) st, h') }"
proof -
  let ?rem = "filter p (mh_items h)" and ?keep = "filter (\<lambda>x. \<not> p x) (mh_items h)"
  let ?st = "invalidate_all ?rem st"
  let ?h1 = "heap_forget (Handle st) item_bytes ?rem h"
  have hd: "Handle ?st = Handle st" by (rule ext) simp
  have inj: "inj_on (Handle st) (set (mh_items h))"
    by (rule inj_onI) (rule heap_wf_inj [OF wf])
  have kept: "mh_handles ?h1 k = mh_handles h k" if "x \<in> set ?keep" "Handle st x = Some k" for x k
  proof -
    have "Handle st y \<noteq> Some k" if "y \<in> set ?rem" for y
      using that \<open>x \<in> set ?keep\<close> \<open>Handle st x = Some k\<close> heap_wf_inj [OF wf, of x y] by auto
    then show ?thesis by (simp add: heap_forget_spec(3))
  qed
  have "\<exists>k. Handle st x = Some k \<and> mh_handles (?h1\<lparr>mh_items := ?keep\<rparr>) k \<noteq> None" if x: "x \<in> set ?keep" for x
  proof -
    have "x \<in> set (mh_items h)" using x by simp
    then obtain i k where "Handle st x = Some k" "mh_handles h k = Some i" by (rule heap_wf_item [OF wf])
    then show ?thesis using kept [OF x] by simp
  qed
  moreover have "inj_on (Handle st) (set ?keep)" by (rule inj_on_subset [OF inj]) auto
  moreover have dk: "distinct ?keep" 
    using wf by (intro distinct_filter) (auto simp: heap_wf_def intro: index_ok_distinct)
  ultimately obtain g where g: "set_indices (Handle st) 0 ?keep (?h1\<lparr>mh_items := ?keep\<rparr>) = Some g"
    "mh_items g = ?keep" "mh_byteSize g = mh_byteSize ?h1"
    "\<And>j k. j < length ?keep \<Longrightarrow> Handle st (?keep ! j) = Some k \<Longrightarrow> mh_handles g k = Some j"
    "\<And>k. (\<And>x. x \<in> set ?keep \<Longrightarrow> Handle st x \<noteq> Some k) \<Longrightarrow> mh_handles g k = mh_handles ?h1 k"
    using set_indices_spec [of "Handle st" ?keep "?h1\<lparr>mh_items := ?keep\<rparr>" 0] by auto
  have ghd: "\<exists>x \<in> set ?keep. Handle st x = Some k" if gk: "mh_handles g k = Some i" for k i
  proof (rule ccontr)
    assume no: "\<not> ?thesis"
    then have "mh_handles ?h1 k = Some i" using g(5) gk by metis
    then have "\<not> (\<exists>x \<in> set ?rem. Handle st x = Some k)" "mh_handles h k = Some i"
      by (auto simp: heap_forget_spec split: if_splits)
    moreover have "Handle st (mh_items h ! i) = Some k" "mh_items h ! i \<in> set (mh_items h)"
      using index_ok_handle [of "Handle st" h k i] calculation(2) wf by (auto simp: heap_wf_def)
    ultimately show False using no by auto
  qed
  have "\<exists>k. Handle st (mh_items g ! i) = Some k \<and> mh_handles g k = Some i" if "i < length (mh_items g)" for i
  proof -
    have "?keep ! i \<in> set (mh_items h)" using that g(2) by (metis filter_is_subset nth_mem subsetD)
    then obtain k where "Handle st (?keep ! i) = Some k" using heap_wf_item [OF wf] by metis
    then show ?thesis using g(2,4) that by auto
  qed
  moreover have "i < length (mh_items g) \<and> Handle st (mh_items g ! i) = Some k" if gk: "mh_handles g k = Some i" for k i
  proof -
    obtain j where "j < length ?keep" "Handle st (?keep ! j) = Some k"
      using ghd [OF gk] by (metis in_set_conv_nth)
    then show ?thesis using g(2,4) gk by (metis option.inject)
  qed
  ultimately have idx: "index_ok (Handle st) g" by (simp add: index_ok_def)
  have bytes: "mh_byteSize g = wsum item_bytes (mh_items g)"
    using g(2,3) wf wsum_filter_split [where f = item_bytes and P = p and xs = "mh_items h"] by (simp add: heap_forget_spec heap_wf_def)
  have "k < st_next ?st \<and> st_obj ?st k = Some (HeapItemObj False)" if gk: "mh_handles g k = Some i" for k i
  proof -
    obtain x where x: "x \<in> set ?keep" "Handle st x = Some k" using ghd [OF gk] by blast
    then have "Handle st y \<noteq> Some k" if "y \<in> set ?rem" for y
      using that heap_wf_inj [OF wf, of x y] by auto
    then have "k \<notin> handles_of st (set ?rem)" by (auto simp: handles_of_def)
    then show ?thesis using heap_wf_live [OF wf _ x(2)] x(1) by (simp add: invalidate_all_obj)
  qed
  then have wfg: "heap_wf ?st g" using idx bytes by (simp add: heap_wf_def hd)
  have "heap_Cleanup bef p st h =
       do { h' \<leftarrow> heapify bef (Handle st) (length (mh_items g) div 2) g; Some (?rem, ?st, h') }"
    using some g(1,2) by (simp add: heap_Cleanup_def Let_def hd)
  then show ?thesis using that g(2) wfg by blast
qed

lemma heap_Cleanup_returns:
  assumes wf: "heap_wf st h"
  shows "\<exists>rem st' h'. heap_Cleanup bef p st h = Some (rem, st', h') \<and> heap_wf st' h' \<and>
     mset rem = filter_mset p (mset (mh_items h)) \<and>
     mset (mh_items h') = filter_mset (\<lambda>x. \<not> p x) (mset (mh_items h)) \<and> st' = invalidate_all rem st"
proof (cases "filter p (mh_items h) = []")
  case True
  then have "heap_Cleanup bef p st h = Some ([], st, h)" by (simp add: heap_Cleanup_def)
  moreover have "filter_mset p (mset (mh_items h)) = {#}" "filter_mset (\<lambda>x. \<not> p x) (mset (mh_items h)) = mset (mh_items h)"
    using True by (auto simp: filter_empty_conv filter_mset_eq_conv simp flip: mset_filter)
  ultimately show ?thesis using wf by simp
next
  case False
  obtain g where g: "mh_items g = filter (\<lambda>x. \<not> p x) (mh_items h)"
    "heap_wf (invalidate_all (filter p (mh_items h)) st) g"
    "heap_Cleanup bef p st h =
       do { h' \<leftarrow> heapify bef (Handle st) (length (mh_items g) div 2) g;
            Some (filter p (mh_items h), invalidate_all (filter p (mh_items h)) st, h') }"
    using heap_Cleanup_steps [OF wf False, of bef] .
  have hd: "Handle (invalidate_all (filter p (mh_items h)) st) = Handle st" by (rule ext) simp
  then have "index_ok (Handle st) g" using g(2) by (simp add: heap_wf_def)
  then obtain h' where h': "heapify bef (Handle st) (length (mh_items g) div 2) g = Some h'"
    "rearranged (Handle st) g h'" using heapify_returns [of "Handle st" g "length (mh_items g) div 2"] by auto
  moreover have "mset (mh_items h') = filter_mset (\<lambda>x. \<not> p x) (mset (mh_items h))"
    using h'(2) g(1) by (simp add: rearranged_def)
  moreover have "heap_wf (invalidate_all (filter p (mh_items h)) st) h'"
    using rearranged_wf [OF _ g(2)] h'(2) hd by metis
  ultimately show ?thesis using g(3) by (simp add: mset_filter)
qed

lemma heap_Drain_returns:
  assumes "heap_wf st h"
  shows "\<exists>rem st' h'. heap_Drain st h = (rem, st', h') \<and> heap_wf st' h' \<and>
     mset rem = mset (mh_items h) \<and> mh_items h' = [] \<and> st' = invalidate_all rem st"
  by (auto simp: heap_Drain_def heap_wf_def index_ok_def)

subsection \<open>The max-min heap is a \<open>SafeQueue\<close>\<close>

lemma index_ok_cong:
  "index_ok hdl h \<Longrightarrow> (\<And>x. x \<in> set (mh_items h) \<Longrightarrow> hdl' x = hdl x) \<Longrightarrow> index_ok hdl' h"
  unfolding index_ok_def by (metis nth_mem)

lemma heap_wf_frame:
  assumes wf: "heap_wf st h" and fr: "frame R K st st'" and R: "R \<inter> fi_ref ` set (mh_items h) = {}"
    and K: "K \<inter> handles_of st (set (mh_items h)) = {}"
  shows "heap_wf st' h"
proof -
  have ok: "index_ok (Handle st) h" using wf by (simp add: heap_wf_def)
  have "index_ok (Handle st') h"
    by (rule index_ok_cong [OF ok]) (use R frame_Handle [OF fr] in blast)
  moreover have "k < st_next st' \<and> st_obj st' k = Some (HeapItemObj False)" if k: "mh_handles h k = Some i" for k i
  proof -
    have live: "k < st_next st" "st_obj st k = Some (HeapItemObj False)" using wf k by (auto simp: heap_wf_def)
    have "k \<in> handles_of st (set (mh_items h))"
      using index_ok_handle [OF ok k] by (meson handles_of_I nth_mem)
    then show ?thesis using live K frame_obj [OF fr live(1)] frame_next [OF fr] by auto
  qed
  ultimately show ?thesis using wf by (simp add: heap_wf_def)
qed

interpretation hq: safe_queue mh_items heap_wf "heap_Add bef" "heap_Remove bef" "heap_Cleanup bef"
  heap_Drain heap_Len heap_ByteSize heap_PeekHead "heap_PeekTail bef"
  for bef :: "FlowItem \<Rightarrow> FlowItem \<Rightarrow> bool"
proof unfold_locales
  fix st st' :: Store and q :: heap_queue and x y :: FlowItem and h :: "nat option" and k R K p
  show "heap_wf st q \<Longrightarrow> heap_Len q = length (mh_items q)" by (simp add: heap_Len_def)
  show "heap_wf st q \<Longrightarrow> heap_ByteSize q = wsum item_bytes (mh_items q)" by (simp add: heap_ByteSize_def heap_wf_def)
  show "heap_PeekHead q = None \<longleftrightarrow> mh_items q = []" by (simp add: heap_PeekHead_def)
  show "heap_PeekHead q = Some x \<Longrightarrow> x \<in> set (mh_items q)" by (auto simp: heap_PeekHead_def split: if_splits)
  show "heap_PeekTail bef q = None \<longleftrightarrow> mh_items q = []" by (simp add: heap_PeekTail_def Let_def)
  show "heap_PeekTail bef q = Some x \<Longrightarrow> x \<in> set (mh_items q)"
    by (auto simp: heap_PeekTail_def Let_def split: if_splits intro!: nth_mem)
      (simp_all flip: length_greater_0_conv)
  show "heap_wf st q \<Longrightarrow> distinct (map fi_ref (mh_items q))" by (rule heap_wf_refs)
  show "heap_wf st q \<Longrightarrow> x \<in> set (mh_items q) \<Longrightarrow>
      \<exists>k. Handle st x = Some k \<and> k < st_next st \<and> st_obj st k \<noteq> None \<and> \<not> IsInvalidated k st"
    by (erule (1) heap_wf_item) (simp add: IsInvalidated_def)
  show "heap_wf st q \<Longrightarrow> x \<in> set (mh_items q) \<Longrightarrow> y \<in> set (mh_items q) \<Longrightarrow> Handle st x = Handle st y \<Longrightarrow> x = y"
    by (rule heap_wf_inj)
  show "heap_wf st q \<Longrightarrow> frame R K st st' \<Longrightarrow> R \<inter> fi_ref ` set (mh_items q) = {} \<Longrightarrow>
      K \<inter> handles_of st (set (mh_items q)) = {} \<Longrightarrow> heap_wf st' q"
    by (rule heap_wf_frame)
  show "heap_wf st q \<Longrightarrow> fi_ref x \<notin> fi_ref ` set (mh_items q) \<Longrightarrow>
      \<exists>st' q'. heap_Add bef x st q = Some (st', q') \<and> heap_wf st' q' \<and>
        mset (mh_items q') = add_mset x (mset (mh_items q)) \<and> frame {fi_ref x} {} st st' \<and>
        Handle st' x = Some (st_next st)"
    using heap_Add_returns [of st q x bef] frame_add [of x st "HeapItemObj False"]
    by (auto simp: add_store_Handle) (simp add: add_store_def)
  show "heap_wf st q \<Longrightarrow> x \<in> set (mh_items q) \<Longrightarrow> Handle st x = Some k \<Longrightarrow>
      \<exists>st' q'. heap_Remove bef (Some k) st q = Some (Inr x, st', q') \<and> heap_wf st' q' \<and>
        mset (mh_items q') = mset (mh_items q) - {#x#} \<and> frame {} {k} st st' \<and> IsInvalidated k st'"
    using heap_Remove_returns [of st q x k bef] heap_wf_live [of st q x k] frame_Invalidate [of k st]
    by (auto simp: IsInvalidated_def Invalidate_def)
  show "h = None \<or> (\<exists>k. h = Some k \<and> IsInvalidated k st) \<Longrightarrow>
      heap_Remove bef h st q = Some (Inl ErrInvalidQueueItemHandle, st, q)"
    by (auto simp: heap_Remove_def)
  show "heap_wf st q \<Longrightarrow> \<exists>rem st' q'. heap_Cleanup bef p st q = Some (rem, st', q') \<and> heap_wf st' q' \<and>
      mset rem = filter_mset p (mset (mh_items q)) \<and>
      mset (mh_items q') = filter_mset (\<lambda>x. \<not> p x) (mset (mh_items q)) \<and> st' = invalidate_all rem st"
    by (rule heap_Cleanup_returns)
  show "heap_wf st q \<Longrightarrow> \<exists>rem st' q'. heap_Drain st q = (rem, st', q') \<and> heap_wf st' q' \<and>
      mset rem = mset (mh_items q) \<and> mh_items q' = [] \<and> st' = invalidate_all rem st"
    by (rule heap_Drain_returns)
qed

subsection \<open>The queue operations keep the heap order\<close>

lemma append_rest:
  assumes "max_min_heap bef xs"
  shows "heap_on bef isMinLevel (\<lambda>a j. j \<noteq> length xs) (xs @ [x])"
  unfolding heap_on_def
proof (intro allI impI)
  fix a j assume aj: "anc a j" "j < length (xs @ [x])" "j \<noteq> length xs"
  then have j: "j < length xs" by simp
  moreover have "a < length xs" using anc_less [OF aj(1)] j by simp
  ultimately show "above bef (isMinLevel a) ((xs @ [x]) ! a) ((xs @ [x]) ! j)"
    using heap_onD [OF assms [unfolded heap_from_def] aj(1) j] by (simp add: nth_append)
qed

lemma heap_Add_heap:
  assumes "strict_weak bef" "heap_wf st h" "fi_ref x \<notin> fi_ref ` set (mh_items h)" "max_min_heap bef (mh_items h)"
  shows "\<exists>st' h'. heap_Add bef x st h = Some (st', h') \<and> max_min_heap bef (mh_items h')"
proof -
  have "\<exists>h'. up bef (Handle (add_store x st)) (length (mh_items h)) (appended x st h) = Some h' \<and>
      max_min_heap bef (mh_items h')"
    by (rule strict_weak.up_heap [OF assms(1) appended_index [OF assms(2,3)]])
      (simp_all add: appended_def append_rest [OF assms(4)])
  then show ?thesis by (auto simp: heap_Add_def push_eq)
qed

lemma heap_Remove_head_heap:
  assumes sw: "strict_weak bef" and wf: "heap_wf st h" and heap: "max_min_heap bef (mh_items h)"
    and ties: "no_ties bef (mh_items h)" and hd: "heap_PeekHead h = Some x"
  shows "\<exists>st' h'. heap_Remove bef (Handle st x) st h = Some (Inr x, st', h') \<and> max_min_heap bef (mh_items h')"
proof -
  have x: "0 < length (mh_items h)" "mh_items h ! 0 = x" using hd by (auto simp: heap_PeekHead_def split: if_splits)
  then have "x \<in> set (mh_items h)" by (metis nth_mem)
  then obtain k where k: "Handle st x = Some k" by (rule heap_wf_item [OF wf])
  let ?n = "length (mh_items h) - 1"
  obtain g where g: "mh_items g = swap_list 0 ?n (mh_items h)" "rearranged (Handle st) h g"
    "heap_wf (Invalidate k st) (cut_heap x k g)"
    and eq: "heap_Remove bef (Some k) st h =
       do { h' \<leftarrow> (if 0 < ?n then down bef (Handle st) 0 (cut_heap x k g) else Some (cut_heap x k g));
            Some (Inr x, Invalidate k st, h') }"
    using heap_Remove_steps [OF wf x k, of bef] by blast
  let ?c = "cut_heap x k g"
  have c: "mh_items ?c = butlast (swap_list 0 ?n (mh_items h))" using g(1) by (simp add: cut_heap_def)
  have ok: "index_ok (Handle st) ?c"
    using g(3) by (simp add: heap_wf_def index_ok_def Handle_def Invalidate_def)
  have tc: "no_ties bef (mh_items ?c)"
  proof -
    have "no_ties bef (mh_items g)" using ties g(2) no_ties_mset unfolding rearranged_def by metis
    then show ?thesis unfolding no_ties_def cut_heap_def by (auto simp: distinct_butlast dest: in_set_butlastD)
  qed
  have "above bef (isMinLevel a) (mh_items ?c ! a) (mh_items ?c ! j)"
    if aj: "anc a j" "j < length (mh_items ?c)" "Suc 0 \<le> a" for a j
  proof -
    have "a < j" "j < ?n" using anc_less [OF aj(1)] aj(2) by (simp_all add: c)
    then show ?thesis using heap_onD [OF heap [unfolded heap_from_def] aj(1)] aj(3) x(1)
      by (simp add: c nth_butlast swap_list_nth)
  qed
  then have inv: "heap_from bef isMinLevel (Suc 0) (mh_items ?c)" by (simp add: heap_from_def heap_on_def)
  show ?thesis
  proof (cases "0 < ?n")
    case True
    then have "0 < length (mh_items ?c)" by (simp add: c)
    from strict_weak.down_heap [OF sw ok this tc inv] show ?thesis using eq True k by auto
  next
    case False
    then have "mh_items ?c = []" by (simp add: c flip: length_0_conv)
    then show ?thesis using eq False k by (simp add: heap_from_def heap_on_def)
  qed
qed

lemma heap_Cleanup_heap:
  assumes sw: "strict_weak bef" and wf: "heap_wf st h" and heap: "max_min_heap bef (mh_items h)"
    and ties: "no_ties bef (mh_items h)"
  shows "\<exists>rem st' h'. heap_Cleanup bef p st h = Some (rem, st', h') \<and> max_min_heap bef (mh_items h')"
proof (cases "filter p (mh_items h) = []")
  case True
  then show ?thesis using heap by (simp add: heap_Cleanup_def)
next
  case False
  obtain g where g: "mh_items g = filter (\<lambda>x. \<not> p x) (mh_items h)"
    "heap_wf (invalidate_all (filter p (mh_items h)) st) g"
    "heap_Cleanup bef p st h =
       do { h' \<leftarrow> heapify bef (Handle st) (length (mh_items g) div 2) g;
            Some (filter p (mh_items h), invalidate_all (filter p (mh_items h)) st, h') }"
    using heap_Cleanup_steps [OF wf False, of bef] .
  have "Handle (invalidate_all (filter p (mh_items h)) st) = Handle st" by (rule ext) simp
  then have ok: "index_ok (Handle st) g" using g(2) by (simp add: heap_wf_def)
  have "no_ties bef (mh_items g)" using ties g(1) by (simp add: no_ties_filter)
  from strict_weak.heapify_heap [OF sw ok _ this strict_weak.heap_from_leaves [OF sw]] show ?thesis
    using g(3) by auto
qed

subsection \<open>What the peeks return\<close>

lemma anc_root: "0 < j \<Longrightarrow> anc 0 j"
proof (induction j rule: less_induct)
  case (less j)
  show ?case
  proof (cases "par j = 0")
    case True
    then show ?thesis using anc_par [OF less(2)] by simp
  next
    case False
    then show ?thesis using less(1) [of "par j"] par_less [OF less(2)] anc_step less(2) by blast
  qed
qed

lemma anc_second: "2 < j \<Longrightarrow> anc 1 j \<or> anc 2 j"
proof (induction j rule: less_induct)
  case (less j)
  have j: "0 < j" using less(2) by simp
  show ?case
  proof (cases "par j \<le> 2")
    case True
    moreover have "par j \<noteq> 0" using less(2) by (auto simp: par_def)
    ultimately have "par j = 1 \<or> par j = 2" by auto
    then show ?thesis using anc_par [OF j] by auto
  next
    case False
    then show ?thesis using less(1) [of "par j"] par_less [OF j] anc_step j by fastforce
  qed
qed

lemma isMinLevel_12: "isMinLevel 1" "isMinLevel 2"
  using isMinLevel_par [of 1] isMinLevel_par [of 2] by (simp_all add: par_def)

context strict_weak
begin

lemma head_first:
  assumes heap: "max_min_heap bef xs" and x: "x \<in> set xs"
  shows "\<not> bef x (xs ! 0)"
proof -
  obtain j where j: "j < length xs" "xs ! j = x" using x by (auto simp: in_set_conv_nth)
  show ?thesis
  proof (cases "j = 0")
    case False
    then have "anc 0 j" by (simp add: anc_root)
    from heap_onD [OF heap [unfolded heap_from_def] this j(1)] show ?thesis
      using j by (simp add: above_def less_eq_by_def)
  qed (use j in simp)
qed

lemma tail_last:
  assumes heap: "max_min_heap bef xs" and two: "2 \<le> length xs" and x: "x \<in> set xs"
  shows "\<exists>i \<in> {1, 2}. i < length xs \<and> \<not> bef (xs ! i) x"
proof -
  obtain j where j: "j < length xs" "xs ! j = x" using x by (auto simp: in_set_conv_nth)
  consider "j = 0" | "j = 1 \<or> j = 2" | "2 < j" by linarith
  then show ?thesis
  proof cases
    case 1
    have "above bef (isMinLevel 0) (xs ! 0) (xs ! 1)"
      using heap_onD [OF heap [unfolded heap_from_def] anc_root [of 1]] two by simp
    then have "\<not> bef (xs ! 1) x" using 1 j by (simp add: above_def less_eq_by_def)
    then show ?thesis using two by auto
  next
    case 2
    then show ?thesis using j by auto
  next
    case 3
    then obtain i where i: "i \<in> {1, 2}" "anc i j" using anc_second by blast
    have "i < length xs" using anc_less [OF i(2)] j by simp
    moreover have "above bef (isMinLevel i) (xs ! i) (xs ! j)"
      using heap_onD [OF heap [unfolded heap_from_def] i(2) j(1)] by simp
    ultimately show ?thesis using i(1) j isMinLevel_12 by (auto simp: above_def less_eq_by_def)
  qed
qed

end

lemma PeekHead_first:
  assumes "strict_weak bef" "max_min_heap bef (mh_items h)" "heap_PeekHead h = Some x" "y \<in> set (mh_items h)"
  shows "\<not> bef y x"
  using strict_weak.head_first [OF assms(1,2,4)] assms(3) by (auto simp: heap_PeekHead_def split: if_splits)

lemma PeekTail_last:
  assumes sw: "strict_weak bef" and heap: "max_min_heap bef (mh_items h)"
    and t: "heap_PeekTail bef h = Some x" and y: "y \<in> set (mh_items h)"
  shows "\<not> bef x y"
proof (cases "length (mh_items h) < 2")
  case True
  then have "mh_items h = [x]" using t y
    by (cases "mh_items h") (auto simp: heap_PeekTail_def Let_def split: if_splits)
  then show ?thesis using y strict_weak.irrefl [OF sw] by simp
next
  case False
  obtain i where i: "i \<in> {1, 2}" "i < length (mh_items h)" "\<not> bef (mh_items h ! i) y"
    using strict_weak.tail_last [OF sw heap _ y] False by (metis not_less)
  moreover have "\<not> bef x (mh_items h ! i)"
    using t i(1,2) False strict_weak.asym [OF sw] strict_weak.irrefl [OF sw]
    by (auto simp: heap_PeekTail_def Let_def split: if_splits)
  ultimately show ?thesis using strict_weak.neg_trans [OF sw, of x y "mh_items h ! i"] by blast
qed

subsection \<open>Histories\<close>

text \<open>The states of a heap that is only used the way the flow controller uses it: items are added,
  the head is removed, finalized items are swept, the queue is drained. No two items that are queued
  together tie.\<close>

inductive heap_reach :: "(FlowItem \<Rightarrow> FlowItem \<Rightarrow> bool) \<Rightarrow> Store \<Rightarrow> heap_queue \<Rightarrow> bool" for bef where
  init: "heap_reach bef empty_store newMaxMinHeap"
| add: "heap_reach bef st h \<Longrightarrow> fi_ref x \<notin> fi_ref ` set (mh_items h) \<Longrightarrow> no_ties bef (x # mh_items h) \<Longrightarrow>
        heap_Add bef x st h = Some (st', h') \<Longrightarrow> heap_reach bef st' h'"
| dispatch: "heap_reach bef st h \<Longrightarrow> heap_PeekHead h = Some x \<Longrightarrow>
        heap_Remove bef (Handle st x) st h = Some (r, st', h') \<Longrightarrow> heap_reach bef st' h'"
| sweep: "heap_reach bef st h \<Longrightarrow> heap_Cleanup bef p st h = Some (rem, st', h') \<Longrightarrow> heap_reach bef st' h'"
| drained: "heap_reach bef st h \<Longrightarrow> heap_Drain st h = (rem, st', h') \<Longrightarrow> heap_reach bef st' h'"

definition heap_sound :: "(FlowItem \<Rightarrow> FlowItem \<Rightarrow> bool) \<Rightarrow> Store \<Rightarrow> heap_queue \<Rightarrow> bool" where
  "heap_sound bef st h \<longleftrightarrow> heap_wf st h \<and> max_min_heap bef (mh_items h) \<and> no_ties bef (mh_items h)"

lemma heap_wf_new: "heap_wf st newMaxMinHeap"
  by (simp add: heap_wf_def newMaxMinHeap_def index_ok_def)

lemma no_ties_subset:
  assumes "no_ties bef xs" "mset ys \<subseteq># mset xs"
  shows "no_ties bef ys"
proof -
  obtain zs where "mset xs = mset (ys @ zs)"
    using assms(2) by (metis ex_mset mset_append mset_subset_eq_exists_conv)
  then have "no_ties bef (ys @ zs)" using assms(1) no_ties_mset by blast
  then show ?thesis by (auto simp: no_ties_def)
qed

lemma heap_reach_sound:
  assumes sw: "strict_weak bef"
  shows "heap_reach bef st h \<Longrightarrow> heap_sound bef st h"
proof (induction rule: heap_reach.induct)
  case init
  then show ?case by (simp add: heap_sound_def heap_wf_new) (simp add: newMaxMinHeap_def heap_from_def heap_on_def no_ties_def)
next
  case (add st h x st' h')
  then have w: "heap_wf st h" "max_min_heap bef (mh_items h)" by (simp_all add: heap_sound_def)
  have "heap_wf st' h'" "mset (mh_items h') = mset (x # mh_items h)"
    using heap_Add_returns [OF w(1) add(2), of bef] add(4) by auto
  moreover have "max_min_heap bef (mh_items h')" using heap_Add_heap [OF sw w(1) add(2) w(2)] add(4) by auto
  ultimately show ?case using add(3) no_ties_mset unfolding heap_sound_def by metis
next
  case (dispatch st h x r st' h')
  then have w: "heap_wf st h" "max_min_heap bef (mh_items h)" "no_ties bef (mh_items h)"
    by (simp_all add: heap_sound_def)
  have "heap_wf st' h'" "mset (mh_items h') = mset (mh_items h) - {#x#}"
    using hq.remove_head_spec [OF w(1) dispatch(2), of bef] dispatch(3) by auto
  moreover have "max_min_heap bef (mh_items h')"
    using heap_Remove_head_heap [OF sw w dispatch(2)] dispatch(3) by auto
  ultimately show ?case using w(3) no_ties_subset [of bef "mh_items h" "mh_items h'"] by (simp add: heap_sound_def)
next
  case (sweep st h p rem st' h')
  then have w: "heap_wf st h" "max_min_heap bef (mh_items h)" "no_ties bef (mh_items h)"
    by (simp_all add: heap_sound_def)
  have "heap_wf st' h'" "mset (mh_items h') = filter_mset (\<lambda>x. \<not> p x) (mset (mh_items h))"
    using heap_Cleanup_returns [OF w(1), of bef p] sweep(2) by auto
  moreover have "max_min_heap bef (mh_items h')"
    using heap_Cleanup_heap [OF sw w, of p] sweep(2) by auto
  ultimately show ?case using w(3) no_ties_subset [of bef "mh_items h" "mh_items h'"] by (simp add: heap_sound_def)
next
  case (drained st h rem st' h')
  then show ?case
    using heap_Drain_returns [of st h] by (auto simp: heap_sound_def heap_from_def heap_on_def no_ties_def)
qed

text \<open>Items for concrete runs: reference, enqueue time, byte size.\<close>

definition mk_item :: "nat \<Rightarrow> time \<Rightarrow> uint64 \<Rightarrow> FlowItem" where
  "mk_item r t b = \<lparr>fi_ref = r, fi_enqueueTime = t, fi_effectiveTTL = 0,
     fi_originalRequest = \<lparr>rq_ID = [], rq_FlowKey = FlowKey [] 0, rq_ByteSize = b,
       rq_ReceivedTimestamp = t, rq_InitialEffectiveTTL = 0, rq_Headers = None\<rparr>\<rparr>"

datatype heap_op = OpAdd FlowItem | OpRemove nat | OpDispatch

fun run_op :: "(FlowItem \<Rightarrow> FlowItem \<Rightarrow> bool) \<Rightarrow> heap_op \<Rightarrow> Store \<times> heap_queue \<Rightarrow> (Store \<times> heap_queue) option" where
  "run_op bef (OpAdd x) (st, h) = heap_Add bef x st h"
| "run_op bef (OpRemove k) (st, h) = map_option snd (heap_Remove bef (Some k) st h)"
| "run_op bef OpDispatch (st, h) =
     (case heap_PeekHead h of
        None \<Rightarrow> Some (st, h)
      | Some x \<Rightarrow> map_option snd (heap_Remove bef (Handle st x) st h))"

fun run_ops :: "(FlowItem \<Rightarrow> FlowItem \<Rightarrow> bool) \<Rightarrow> heap_op list \<Rightarrow> Store \<times> heap_queue \<Rightarrow> (Store \<times> heap_queue) option" where
  "run_ops bef [] s = Some s"
| "run_ops bef (a # as) s = (case run_op bef a s of None \<Rightarrow> None | Some s' \<Rightarrow> run_ops bef as s')"

definition adds :: "time list \<Rightarrow> heap_op list" where
  "adds ts = map (\<lambda>(r, t). OpAdd (mk_item r t 1)) (zip [0 ..< length ts] ts)"

text \<open>The head and the earliest queued item after a run.\<close>

definition head_vs_first :: "(Store \<times> heap_queue) option \<Rightarrow> (time option \<times> time list) option" where
  "head_vs_first s =
     map_option (\<lambda>(st, h). (map_option fi_enqueueTime (heap_PeekHead h), map fi_enqueueTime (mh_items h))) s"

text \<open>A heap with two items, reached from the empty one.\<close>

lemma heap_reach_two:
  assumes "run_ops fcfs_Less (adds [7, 3]) (empty_store, newMaxMinHeap) = Some (st, h)"
  shows "heap_reach fcfs_Less st h"
proof -
  obtain st1 h1 where a: "heap_Add fcfs_Less (mk_item 0 7 1) empty_store newMaxMinHeap = Some (st1, h1)"
    using assms by (auto simp: adds_def split: option.splits)
  then have b: "heap_Add fcfs_Less (mk_item (Suc 0) 3 1) st1 h1 = Some (st, h)"
    using assms by (simp add: adds_def split: option.splits)
  have r1: "heap_reach fcfs_Less st1 h1"
    by (rule heap_reach.add [OF heap_reach.init _ _ a]) (simp_all add: newMaxMinHeap_def no_ties_def)
  have "mset (mh_items h1) = {#mk_item 0 7 1#}"
    using heap_Add_returns [OF heap_wf_new [of empty_store], of "mk_item 0 7 1" fcfs_Less] a
    by (auto simp: newMaxMinHeap_def)
  then have h1: "mh_items h1 = [mk_item 0 7 1]" by simp
  show ?thesis
    by (rule heap_reach.add [OF r1 _ _ b]) (simp_all add: h1 no_ties_def mk_item_def fcfs_Less_def)
qed

lemma run_adds_two:
  obtains st h where "run_ops fcfs_Less (adds [7, 3]) (empty_store, newMaxMinHeap) = Some (st, h)"
    "mh_items h = [mk_item (Suc 0) 3 1, mk_item 0 7 1]"
  by (simp add: adds_def heap_Add_def push_def up_def mk_item_def newMaxMinHeap_def empty_store_def
      NewItem_def store_defs heap_swap_def set_index_def swap_list_def fcfs_Less_def isMinLevel_12 [simplified]
      upMax.simps Let_def)

subsection \<open>Properties\<close>

text \<open>C9: In every state reached by adding items, removing the head, sweeping and draining, when no
  two queued items tie, \<open>PeekHead\<close> returns an item that the policy dispatches before (or with) every
  other queued item, and \<open>PeekTail\<close> one that it dispatches after every other.\<close>

theorem heap_reach_peeks:
  assumes "strict_weak bef" "heap_reach bef st h" "heap_PeekHead h = Some x" "heap_PeekTail bef h = Some z"
    and "y \<in> set (mh_items h)"
  shows "\<not> bef y x \<and> \<not> bef z y"
proof -
  have "max_min_heap bef (mh_items h)" using heap_reach_sound [OF assms(1,2)] by (simp add: heap_sound_def)
  then show ?thesis using PeekHead_first [OF assms(1) _ assms(3,5)] PeekTail_last [OF assms(1) _ assms(4,5)] by blast
qed

theorem heap_reach_peeks_witness:
  "\<exists>st h. run_ops fcfs_Less (adds [7, 3]) (empty_store, newMaxMinHeap) = Some (st, h) \<and>
     heap_PeekHead h = Some (mk_item (Suc 0) 3 1) \<and> heap_PeekTail fcfs_Less h = Some (mk_item 0 7 1) \<and>
     \<not> fcfs_Less (mk_item 0 7 1) (mk_item (Suc 0) 3 1)"
proof -
  obtain st h where r: "run_ops fcfs_Less (adds [7, 3]) (empty_store, newMaxMinHeap) = Some (st, h)"
    "mh_items h = [mk_item (Suc 0) 3 1, mk_item 0 7 1]" by (rule run_adds_two)
  then show ?thesis
    using heap_reach_peeks [OF fcfs.strict_weak_axioms heap_reach_two [OF r(1)],
        of "mk_item (Suc 0) 3 1" "mk_item 0 7 1" "mk_item 0 7 1"]
    by (simp add: heap_PeekHead_def heap_PeekTail_def)
qed

text \<open>C26: \<open>Add\<close> keeps the max-min heap order for every policy that is a strict weak order, ties
  included, keeps every handle pointing at its item, and adds exactly the given item.\<close>

theorem heap_Add_ordered:
  assumes "strict_weak bef" "heap_wf st h" "fi_ref x \<notin> fi_ref ` set (mh_items h)" "max_min_heap bef (mh_items h)"
  shows "\<exists>st' h'. heap_Add bef x st h = Some (st', h') \<and> heap_wf st' h' \<and> max_min_heap bef (mh_items h') \<and>
     mset (mh_items h') = add_mset x (mset (mh_items h)) \<and> heap_ByteSize h' = heap_ByteSize h + item_bytes x"
proof -
  obtain h' where h': "heap_Add bef x st h = Some (add_store x st, h')" "heap_wf (add_store x st) h'"
    "mset (mh_items h') = add_mset x (mset (mh_items h))"
    using heap_Add_returns [OF assms(2,3)] by blast
  have "mset (mh_items h') = mset (x # mh_items h)" using h'(3) by simp
  from wsum_mset [OF this, of item_bytes] have "heap_ByteSize h' = heap_ByteSize h + item_bytes x"
    using hq.bytes [OF h'(2)] hq.bytes [OF assms(2)] by simp
  then show ?thesis using h' heap_Add_heap [OF assms] by auto
qed

theorem heap_Add_ordered_witness:
  "\<exists>st' h'. heap_Add edf_Less (mk_item 3 5 2) empty_store newMaxMinHeap = Some (st', h') \<and> heap_wf st' h' \<and>
     max_min_heap edf_Less (mh_items h') \<and> mset (mh_items h') = {#mk_item 3 5 2#} \<and> heap_ByteSize h' = 2"
  using heap_Add_ordered [OF edf.strict_weak_axioms heap_wf_new [of empty_store], of "mk_item 3 5 2"]
  by (simp add: newMaxMinHeap_def heap_from_def heap_on_def heap_ByteSize_def mk_item_def)

text \<open>C27: \<open>Remove\<close> with the handle of the head returns the head, leaves exactly the other items, and
  restores the heap order when no two queued items tie.\<close>

theorem heap_Remove_head_ordered:
  assumes "strict_weak bef" "heap_wf st h" "max_min_heap bef (mh_items h)" "no_ties bef (mh_items h)"
    and "heap_PeekHead h = Some x"
  shows "\<exists>st' h'. heap_Remove bef (Handle st x) st h = Some (Inr x, st', h') \<and> heap_wf st' h' \<and>
     max_min_heap bef (mh_items h') \<and> mset (mh_items h') = mset (mh_items h) - {#x#}"
  using heap_Remove_head_heap [OF assms] hq.remove_head_spec [OF assms(2,5), of bef] by auto

theorem heap_Remove_head_ordered_witness:
  "\<exists>st h st' h'. run_ops fcfs_Less (adds [7, 3]) (empty_store, newMaxMinHeap) = Some (st, h) \<and>
     heap_Remove fcfs_Less (Handle st (mk_item (Suc 0) 3 1)) st h = Some (Inr (mk_item (Suc 0) 3 1), st', h') \<and>
     max_min_heap fcfs_Less (mh_items h') \<and> mset (mh_items h') = {#mk_item 0 7 1#}"
proof -
  obtain st h where r: "run_ops fcfs_Less (adds [7, 3]) (empty_store, newMaxMinHeap) = Some (st, h)"
    "mh_items h = [mk_item (Suc 0) 3 1, mk_item 0 7 1]" by (rule run_adds_two)
  have "heap_sound fcfs_Less st h"
    by (rule heap_reach_sound [OF fcfs.strict_weak_axioms heap_reach_two [OF r(1)]])
  then show ?thesis
    using heap_Remove_head_ordered [OF fcfs.strict_weak_axioms, of st h "mk_item (Suc 0) 3 1"] r
    by (auto simp: heap_sound_def heap_PeekHead_def)
qed

text \<open>\<open>Remove\<close> of an item that is not the head only sifts the displaced item down, never up. With
  eleven items of different ages, removing one that is not the head and dispatching twice leaves a
  queue whose head was enqueued at 3 while an item enqueued at 2 still waits.\<close>

theorem heap_Remove_inner_misorders:
  "head_vs_first (run_ops fcfs_Less (adds [4, 7, 2, 8, 9, 10, 5, 3, 6, 0, 1] @ [OpRemove 1, OpDispatch, OpDispatch])
     (empty_store, newMaxMinHeap)) = Some (Some 3, [3, 9, 10, 2, 8, 4, 5, 6])"
  by code_simp

text \<open>With ties, \<open>Remove\<close> of the head does not restore the heap order: after these additions and
  dispatches, none of them of an item other than the head, the head was enqueued at 1 while an item
  enqueued at 0 still waits.\<close>

theorem heap_Remove_ties_misorder:
  "head_vs_first (run_ops fcfs_Less
      (adds [0, 0, 3, 0, 0, 1, 2] @ [OpDispatch] @
       [OpAdd (mk_item 7 3 1), OpAdd (mk_item 8 3 1), OpAdd (mk_item 9 2 1), OpDispatch,
        OpAdd (mk_item 10 2 1), OpDispatch])
     (empty_store, newMaxMinHeap)) = Some (Some 1, [1, 3, 3, 2, 2, 2, 3, 0])"
  by code_simp

end
