(* ===== verification/ListQueue.thy ===== *)
theory ListQueue
  imports SafeQueue "HOL-Library.Monad_Syntax"
begin

text \<open>
  The list queue of \<open>plugins/queue/listqueue.go\<close>: a doubly linked list of items, each with a
  \<open>listItemHandle\<close> that names its element and the owning queue. An element is named by the identity
  of the handle that wraps it, and a queue by its address \<open>lq_id\<close>.
\<close>

unbundle bit_operations_syntax

record list_queue =
  lq_id :: nat
  lq_requests :: "(nat \<times> FlowItem) list"
  lq_byteSize :: uint64

definition newListQueue :: "nat \<Rightarrow> list_queue" where
  "newListQueue i = \<lparr>lq_id = i, lq_requests = [], lq_byteSize = 0\<rparr>"

definition list_items :: "list_queue \<Rightarrow> FlowItem list" where
  "list_items q = map snd (lq_requests q)"

subsection \<open>Operations\<close>

definition list_Add :: "FlowItem \<Rightarrow> Store \<Rightarrow> list_queue \<Rightarrow> (Store \<times> list_queue) option" where
  "list_Add x st q =
     (let (k, st1) = new_obj (ListHandleObj x (lq_id q) False) st;
          q1 = q\<lparr>lq_requests := lq_requests q @ [(k, x)], lq_byteSize := lq_byteSize q + item_bytes x\<rparr>
      in Some (SetHandle x k st1, q1))"

text \<open>\<open>list.Remove\<close> unlinks the element when it is an element of this list.\<close>

definition list_unlink :: "nat \<Rightarrow> (nat \<times> FlowItem) list \<Rightarrow> (nat \<times> FlowItem) list" where
  "list_unlink k xs = filter (\<lambda>e. fst e \<noteq> k) xs"

definition list_Remove :: "nat option \<Rightarrow> Store \<Rightarrow> list_queue
    \<Rightarrow> ((fc_error + FlowItem) \<times> Store \<times> list_queue) option" where
  "list_Remove handle st q =
     (case handle of
        None \<Rightarrow> Some (Inl ErrInvalidQueueItemHandle, st, q)
      | Some k \<Rightarrow>
          if IsInvalidated k st then Some (Inl ErrInvalidQueueItemHandle, st, q)
          else (case st_obj st k of
                  Some (ListHandleObj item owner _) \<Rightarrow>
                    if owner \<noteq> lq_id q then Some (Inl ErrQueueItemNotFound, st, q)
                    else Some (Inr item, Invalidate k st,
                               q\<lparr>lq_requests := list_unlink k (lq_requests q),
                                 lq_byteSize := lq_byteSize q + (NOT (item_bytes item) + 1)\<rparr>)
                | _ \<Rightarrow> Some (Inl ErrInvalidQueueItemHandle, st, q)))"

text \<open>The loop of \<open>Cleanup\<close>, front to back; \<open>kept\<close> is the list of elements already passed.\<close>

fun cleanup_loop :: "(FlowItem \<Rightarrow> bool) \<Rightarrow> (nat \<times> FlowItem) list \<Rightarrow> Store \<Rightarrow> uint64
    \<Rightarrow> (nat \<times> FlowItem) list \<times> FlowItem list \<times> Store \<times> uint64" where
  "cleanup_loop predicate [] st bs = ([], [], st, bs)"
| "cleanup_loop predicate (e # es) st bs =
     (if predicate (snd e)
      then (let (kept, removed, st', bs') =
                  cleanup_loop predicate es (invalidate_item (snd e) st) (bs + (NOT (item_bytes (snd e)) + 1))
            in (kept, snd e # removed, st', bs'))
      else (let (kept, removed, st', bs') = cleanup_loop predicate es st bs
            in (e # kept, removed, st', bs')))"

definition list_Cleanup :: "(FlowItem \<Rightarrow> bool) \<Rightarrow> Store \<Rightarrow> list_queue
    \<Rightarrow> (FlowItem list \<times> Store \<times> list_queue) option" where
  "list_Cleanup predicate st q =
     (let (kept, removed, st', bs) = cleanup_loop predicate (lq_requests q) st (lq_byteSize q)
      in Some (removed, st', q\<lparr>lq_requests := kept, lq_byteSize := bs\<rparr>))"

definition list_Drain :: "Store \<Rightarrow> list_queue \<Rightarrow> FlowItem list \<times> Store \<times> list_queue" where
  "list_Drain st q =
     (list_items q, invalidate_all (list_items q) st, q\<lparr>lq_requests := [], lq_byteSize := 0\<rparr>)"

definition list_Len :: "list_queue \<Rightarrow> nat" where
  "list_Len q = length (lq_requests q)"

definition list_ByteSize :: "list_queue \<Rightarrow> uint64" where
  "list_ByteSize q = lq_byteSize q"

definition list_PeekHead :: "list_queue \<Rightarrow> FlowItem option" where
  "list_PeekHead q = (if length (lq_requests q) = 0 then None else Some (snd (hd (lq_requests q))))"

definition list_PeekTail :: "list_queue \<Rightarrow> FlowItem option" where
  "list_PeekTail q = (if length (lq_requests q) = 0 then None else Some (snd (last (lq_requests q))))"

subsection \<open>Well-formed list queues\<close>

definition list_wf :: "Store \<Rightarrow> list_queue \<Rightarrow> bool" where
  "list_wf st q \<longleftrightarrow>
     (\<forall>(k, x) \<in> set (lq_requests q). k < st_next st \<and> Handle st x = Some k \<and>
        st_obj st k = Some (ListHandleObj x (lq_id q) False)) \<and>
     distinct (map fst (lq_requests q)) \<and> lq_byteSize q = wsum item_bytes (list_items q)"

lemma list_wf_elem:
  "list_wf st q \<Longrightarrow> (k, x) \<in> set (lq_requests q) \<Longrightarrow>
   k < st_next st \<and> Handle st x = Some k \<and> st_obj st k = Some (ListHandleObj x (lq_id q) False)"
  by (auto simp: list_wf_def)

lemma list_wf_item:
  assumes "list_wf st q" "x \<in> set (list_items q)"
  obtains k where "(k, x) \<in> set (lq_requests q)" "Handle st x = Some k" "k < st_next st"
    "st_obj st k = Some (ListHandleObj x (lq_id q) False)"
  using assms list_wf_elem [OF assms(1)] by (fastforce simp: list_items_def)

lemma list_wf_inj:
  assumes "list_wf st q" "x \<in> set (list_items q)" "y \<in> set (list_items q)" "Handle st x = Handle st y"
  shows "x = y"
  using list_wf_item [OF assms(1,2)] list_wf_item [OF assms(1,3)] assms(4)
  by (metis HandleObj.inject(2) option.inject)

lemma list_wf_refs:
  assumes wf: "list_wf st q"
  shows "distinct (map fi_ref (list_items q))"
proof -
  have "inj_on snd (set (lq_requests q))"
    using list_wf_elem [OF wf] by (intro inj_onI) (metis option.inject prod.collapse)
  moreover have "distinct (lq_requests q)" using wf by (simp add: list_wf_def distinct_map)
  ultimately have "distinct (list_items q)" by (simp add: list_items_def distinct_map)
  moreover have "inj_on fi_ref (set (list_items q))"
    by (rule inj_onI, rule list_wf_inj [OF wf]) (simp_all add: Handle_def)
  ultimately show ?thesis by (simp add: distinct_map)
qed

lemma list_wf_frame:
  assumes wf: "list_wf st q" and fr: "frame R K st st'" and R: "R \<inter> fi_ref ` set (list_items q) = {}"
    and K: "K \<inter> handles_of st (set (list_items q)) = {}"
  shows "list_wf st' q"
proof -
  have "k < st_next st' \<and> Handle st' x = Some k \<and> st_obj st' k = Some (ListHandleObj x (lq_id q) False)"
    if e: "(k, x) \<in> set (lq_requests q)" for k x
  proof -
    have a: "k < st_next st" "Handle st x = Some k" "st_obj st k = Some (ListHandleObj x (lq_id q) False)"
      using list_wf_elem [OF wf e] by auto
    have x: "x \<in> set (list_items q)" using e by (force simp: list_items_def)
    then have "fi_ref x \<notin> R" "k \<notin> K" using R K handles_of_I [OF a(2) x] by auto
    then show ?thesis using a frame_Handle [OF fr] frame_obj [OF fr a(1)] frame_next [OF fr] by auto
  qed
  then show ?thesis using wf by (auto simp: list_wf_def)
qed

lemma cleanup_loop_spec:
  "cleanup_loop p es st bs =
     (filter (\<lambda>e. \<not> p (snd e)) es, filter p (map snd es),
      invalidate_all (filter p (map snd es)) st, bs - wsum item_bytes (filter p (map snd es)))"
  by (induction es arbitrary: st bs) (simp_all add: minus_bytes)

subsection \<open>The list queue is a \<open>SafeQueue\<close>\<close>

lemma list_Add_returns:
  assumes wf: "list_wf st q" and x: "fi_ref x \<notin> fi_ref ` set (list_items q)"
  shows "\<exists>st' q'. list_Add x st q = Some (st', q') \<and> list_wf st' q' \<and>
     list_items q' = list_items q @ [x] \<and> frame {fi_ref x} {} st st' \<and> Handle st' x = Some (st_next st)"
proof -
  let ?k = "st_next st" and ?st = "SetHandle x (st_next st) (snd (new_obj (ListHandleObj x (lq_id q) False) st))"
  let ?q = "q\<lparr>lq_requests := lq_requests q @ [(?k, x)], lq_byteSize := lq_byteSize q + item_bytes x\<rparr>"
  have fr: "frame {fi_ref x} {} st ?st" by (rule frame_add)
  have old: "list_wf ?st q" by (rule list_wf_frame [OF wf fr]) (use x in auto)
  have "?k \<notin> set (map fst (lq_requests q))" using list_wf_elem [OF wf] by fastforce
  then have "list_wf ?st ?q"
    using old by (auto simp: list_wf_def list_items_def SetHandle_def new_obj_def Handle_def)
  then show ?thesis using fr
    by (auto simp: list_Add_def new_obj_def Let_def list_items_def SetHandle_def Handle_def)
qed

lemma filter_key_remove:
  "distinct (map fst es) \<Longrightarrow> (k, x) \<in> set es \<Longrightarrow>
   mset (map snd (filter (\<lambda>e. fst e \<noteq> k) es)) = mset (map snd es) - {#x#}"
proof (induction es)
  case (Cons e es)
  show ?case
  proof (cases "fst e = k")
    case True
    then have "k \<notin> set (map fst es)" using Cons.prems by auto
    then have "filter (\<lambda>e. fst e \<noteq> k) es = es" by (auto simp: filter_id_conv image_iff)
    moreover have "snd e = x" using True Cons.prems by (cases e) (auto simp: rev_image_eqI)
    ultimately show ?thesis using True by simp
  next
    case False
    then have "(k, x) \<in> set es" using Cons.prems by auto
    then have "x \<in># mset (map snd es)" by (force simp: image_iff)
    then show ?thesis using False Cons \<open>(k, x) \<in> set es\<close> by simp
  qed
qed simp

lemma list_Remove_returns:
  assumes wf: "list_wf st q" and x: "x \<in> set (list_items q)" and k: "Handle st x = Some k"
  shows "\<exists>st' q'. list_Remove (Some k) st q = Some (Inr x, st', q') \<and> list_wf st' q' \<and>
     mset (list_items q') = mset (list_items q) - {#x#} \<and> frame {} {k} st st' \<and> IsInvalidated k st'"
proof -
  have e: "(k, x) \<in> set (lq_requests q)" and ob: "st_obj st k = Some (ListHandleObj x (lq_id q) False)"
    using list_wf_item [OF wf x] k by auto
  let ?q = "q\<lparr>lq_requests := list_unlink k (lq_requests q), lq_byteSize := lq_byteSize q - item_bytes x\<rparr>"
  have r: "list_Remove (Some k) st q = Some (Inr x, Invalidate k st, ?q)"
    using ob by (simp add: list_Remove_def IsInvalidated_def minus_bytes)
  have dk: "distinct (map fst (lq_requests q))" using wf by (simp add: list_wf_def)
  let ?ys = "map snd (list_unlink k (lq_requests q))"
  have it: "list_items ?q = ?ys" by (simp add: list_items_def)
  have m: "mset ?ys = mset (list_items q) - {#x#}"
    using filter_key_remove [OF dk e] by (simp add: list_items_def list_unlink_def)
  then have "mset (list_items q) = mset (x # ?ys)" using x by simp
  then have "wsum item_bytes (list_items q) = item_bytes x + wsum item_bytes ?ys"
    using wsum_mset [of "list_items q" "x # ?ys" item_bytes] by simp
  then have "lq_byteSize ?q = wsum item_bytes (list_items ?q)" 
    using wf unfolding it by (simp add: list_wf_def)
  moreover have "k' < st_next (Invalidate k st) \<and> Handle (Invalidate k st) y = Some k' \<and>
      st_obj (Invalidate k st) k' = Some (ListHandleObj y (lq_id q) False)"
    if "(k', y) \<in> set (lq_requests ?q)" for k' y
    using that list_wf_elem [OF wf, of k' y] by (simp add: list_unlink_def Invalidate_def Handle_def)
  moreover have "distinct (map fst (lq_requests ?q))" using dk by (simp add: list_unlink_def distinct_map_filter)
  ultimately have "list_wf (Invalidate k st) ?q" by (auto simp: list_wf_def)
  moreover have "IsInvalidated k (Invalidate k st)" using ob by (simp add: IsInvalidated_def Invalidate_def)
  ultimately show ?thesis using r m it frame_Invalidate by fastforce
qed

lemma list_Cleanup_returns:
  assumes wf: "list_wf st q"
  shows "\<exists>rem st' q'. list_Cleanup p st q = Some (rem, st', q') \<and> list_wf st' q' \<and>
     rem = filter p (list_items q) \<and> list_items q' = filter (\<lambda>x. \<not> p x) (list_items q) \<and>
     st' = invalidate_all rem st"
proof -
  let ?rem = "filter p (list_items q)" and ?kept = "filter (\<lambda>e. \<not> p (snd e)) (lq_requests q)"
  let ?st = "invalidate_all ?rem st"
  let ?q = "q\<lparr>lq_requests := ?kept, lq_byteSize := lq_byteSize q - wsum item_bytes ?rem\<rparr>"
  have eq: "list_Cleanup p st q = Some (?rem, ?st, ?q)"
    by (simp add: list_Cleanup_def cleanup_loop_spec list_items_def)
  have it: "list_items ?q = filter (\<lambda>x. \<not> p x) (list_items q)"
    by (simp add: list_items_def filter_map comp_def)
  have "k < st_next ?st \<and> Handle ?st x = Some k \<and> st_obj ?st k = Some (ListHandleObj x (lq_id q) False)"
    if e: "(k, x) \<in> set ?kept" for k x
  proof -
    have e': "(k, x) \<in> set (lq_requests q)" "\<not> p x" using e by auto
    then have x: "x \<in> set (list_items q)" by (force simp: list_items_def)
    have a: "Handle st x = Some k" using list_wf_elem [OF wf e'(1)] by simp
    have "Handle st y \<noteq> Some k" if "y \<in> set ?rem" for y
      using that list_wf_inj [OF wf x, of y] a e'(2) by auto
    then have "k \<notin> handles_of st (set ?rem)" by (auto simp: handles_of_def)
    then show ?thesis using list_wf_elem [OF wf e'(1)] by (simp add: invalidate_all_obj)
  qed
  moreover have "distinct (map fst ?kept)" using wf by (simp add: list_wf_def distinct_map_filter)
  moreover have "lq_byteSize ?q = wsum item_bytes (list_items ?q)"
    using wf wsum_filter_split [where f = item_bytes and P = p and xs = "list_items q"] it
    by (simp add: list_wf_def)
  ultimately have "list_wf ?st ?q" by (auto simp: list_wf_def)
  then show ?thesis using eq it by blast
qed

interpretation lq: safe_queue list_items list_wf list_Add list_Remove list_Cleanup list_Drain list_Len
  list_ByteSize list_PeekHead list_PeekTail
proof unfold_locales
  fix st st' :: Store and q :: list_queue and x y :: FlowItem and h :: "nat option" and k R K p
  show "list_wf st q \<Longrightarrow> list_Len q = length (list_items q)" by (simp add: list_Len_def list_items_def)
  show "list_wf st q \<Longrightarrow> list_ByteSize q = wsum item_bytes (list_items q)" by (simp add: list_ByteSize_def list_wf_def)
  show "list_PeekHead q = None \<longleftrightarrow> list_items q = []" by (simp add: list_PeekHead_def list_items_def)
  show "list_PeekHead q = Some x \<Longrightarrow> x \<in> set (list_items q)"
    by (auto simp: list_PeekHead_def list_items_def split: if_splits)
  show "list_PeekTail q = None \<longleftrightarrow> list_items q = []" by (simp add: list_PeekTail_def list_items_def)
  show "list_PeekTail q = Some x \<Longrightarrow> x \<in> set (list_items q)"
    by (auto simp: list_PeekTail_def list_items_def split: if_splits)
  show "list_wf st q \<Longrightarrow> distinct (map fi_ref (list_items q))" by (rule list_wf_refs)
  show "list_wf st q \<Longrightarrow> x \<in> set (list_items q) \<Longrightarrow>
      \<exists>k. Handle st x = Some k \<and> k < st_next st \<and> st_obj st k \<noteq> None \<and> \<not> IsInvalidated k st"
    by (erule (1) list_wf_item) (simp add: IsInvalidated_def)
  show "list_wf st q \<Longrightarrow> x \<in> set (list_items q) \<Longrightarrow> y \<in> set (list_items q) \<Longrightarrow> Handle st x = Handle st y \<Longrightarrow> x = y"
    by (rule list_wf_inj)
  show "list_wf st q \<Longrightarrow> frame R K st st' \<Longrightarrow> R \<inter> fi_ref ` set (list_items q) = {} \<Longrightarrow>
      K \<inter> handles_of st (set (list_items q)) = {} \<Longrightarrow> list_wf st' q"
    by (rule list_wf_frame)
  show "list_wf st q \<Longrightarrow> fi_ref x \<notin> fi_ref ` set (list_items q) \<Longrightarrow>
      \<exists>st' q'. list_Add x st q = Some (st', q') \<and> list_wf st' q' \<and>
        mset (list_items q') = add_mset x (mset (list_items q)) \<and> frame {fi_ref x} {} st st' \<and>
        Handle st' x = Some (st_next st)"
    using list_Add_returns [of st q x] by auto
  show "list_wf st q \<Longrightarrow> x \<in> set (list_items q) \<Longrightarrow> Handle st x = Some k \<Longrightarrow>
      \<exists>st' q'. list_Remove (Some k) st q = Some (Inr x, st', q') \<and> list_wf st' q' \<and>
        mset (list_items q') = mset (list_items q) - {#x#} \<and> frame {} {k} st st' \<and> IsInvalidated k st'"
    by (rule list_Remove_returns)
  show "h = None \<or> (\<exists>k. h = Some k \<and> IsInvalidated k st) \<Longrightarrow>
      list_Remove h st q = Some (Inl ErrInvalidQueueItemHandle, st, q)"
    by (auto simp: list_Remove_def)
  show "list_wf st q \<Longrightarrow> \<exists>rem st' q'. list_Cleanup p st q = Some (rem, st', q') \<and> list_wf st' q' \<and>
      mset rem = filter_mset p (mset (list_items q)) \<and>
      mset (list_items q') = filter_mset (\<lambda>x. \<not> p x) (mset (list_items q)) \<and> st' = invalidate_all rem st"
    using list_Cleanup_returns [of st q p] by (auto simp: mset_filter)
  show "list_wf st q \<Longrightarrow> \<exists>rem st' q'. list_Drain st q = (rem, st', q') \<and> list_wf st' q' \<and>
      mset rem = mset (list_items q) \<and> list_items q' = [] \<and> st' = invalidate_all rem st"
    by (simp add: list_Drain_def list_wf_def list_items_def)
qed

end
