(* ===== verification/ManagedQueue.thy ===== *)
theory ManagedQueue
  imports HeapQueue ListQueue
begin

text \<open>
  The queue a registry hands out (\<open>flowcontrol/registry/managedqueue.go\<close>): a \<open>SafeQueue\<close> of either
  kind behind counters of its length and bytes. Every change of the counters is also reported to the
  parent shard, as a \<open>StatsDelta\<close> in the result. The callback \<open>isDraining\<close> is an argument, and the panic
  on a negative length is \<^const>\<open>None\<close>.
\<close>

subsection \<open>A value of interface type \<open>SafeQueue\<close>\<close>

datatype QueueCapability = CapabilityFIFO | CapabilityPriorityConfigurable

datatype SafeQ = LQ list_queue | HQ "FlowItem \<Rightarrow> FlowItem \<Rightarrow> bool" heap_queue

fun q_items :: "SafeQ \<Rightarrow> FlowItem list" where
  "q_items (LQ q) = list_items q"
| "q_items (HQ bef h) = mh_items h"

fun q_wf :: "Store \<Rightarrow> SafeQ \<Rightarrow> bool" where
  "q_wf st (LQ q) = list_wf st q"
| "q_wf st (HQ bef h) = heap_wf st h"

fun q_Add :: "FlowItem \<Rightarrow> Store \<Rightarrow> SafeQ \<Rightarrow> (Store \<times> SafeQ) option" where
  "q_Add x st (LQ q) = map_option (map_prod id LQ) (list_Add x st q)"
| "q_Add x st (HQ bef h) = map_option (map_prod id (HQ bef)) (heap_Add bef x st h)"

fun q_Remove :: "nat option \<Rightarrow> Store \<Rightarrow> SafeQ \<Rightarrow> ((fc_error + FlowItem) \<times> Store \<times> SafeQ) option" where
  "q_Remove k st (LQ q) = map_option (map_prod id (map_prod id LQ)) (list_Remove k st q)"
| "q_Remove k st (HQ bef h) = map_option (map_prod id (map_prod id (HQ bef))) (heap_Remove bef k st h)"

fun q_Cleanup :: "(FlowItem \<Rightarrow> bool) \<Rightarrow> Store \<Rightarrow> SafeQ \<Rightarrow> (FlowItem list \<times> Store \<times> SafeQ) option" where
  "q_Cleanup p st (LQ q) = map_option (map_prod id (map_prod id LQ)) (list_Cleanup p st q)"
| "q_Cleanup p st (HQ bef h) = map_option (map_prod id (map_prod id (HQ bef))) (heap_Cleanup bef p st h)"

fun q_Drain :: "Store \<Rightarrow> SafeQ \<Rightarrow> FlowItem list \<times> Store \<times> SafeQ" where
  "q_Drain st (LQ q) = map_prod id (map_prod id LQ) (list_Drain st q)"
| "q_Drain st (HQ bef h) = map_prod id (map_prod id (HQ bef)) (heap_Drain st h)"

fun q_Len :: "SafeQ \<Rightarrow> nat" where
  "q_Len (LQ q) = list_Len q"
| "q_Len (HQ bef h) = heap_Len h"

fun q_ByteSize :: "SafeQ \<Rightarrow> uint64" where
  "q_ByteSize (LQ q) = list_ByteSize q"
| "q_ByteSize (HQ bef h) = heap_ByteSize h"

fun q_PeekHead :: "SafeQ \<Rightarrow> FlowItem option" where
  "q_PeekHead (LQ q) = list_PeekHead q"
| "q_PeekHead (HQ bef h) = heap_PeekHead h"

fun q_PeekTail :: "SafeQ \<Rightarrow> FlowItem option" where
  "q_PeekTail (LQ q) = list_PeekTail q"
| "q_PeekTail (HQ bef h) = heap_PeekTail bef h"

fun q_Capabilities :: "SafeQ \<Rightarrow> QueueCapability list" where
  "q_Capabilities (LQ q) = [CapabilityFIFO]"
| "q_Capabilities (HQ bef h) = [CapabilityPriorityConfigurable]"

interpretation sq: safe_queue q_items q_wf q_Add q_Remove q_Cleanup q_Drain q_Len q_ByteSize
  q_PeekHead q_PeekTail
proof unfold_locales
  fix st st' :: Store and q :: SafeQ and x y :: FlowItem and h :: "nat option" and k R K p
  show "q_wf st q \<Longrightarrow> q_Len q = length (q_items q)" by (cases q) (simp_all add: lq.len hq.len)
  show "q_wf st q \<Longrightarrow> q_ByteSize q = wsum item_bytes (q_items q)" by (cases q) (simp_all add: lq.bytes hq.bytes)
  show "q_wf st q \<Longrightarrow> (q_PeekHead q = None) = (q_items q = [])" by (cases q) (simp_all add: lq.head_None hq.head_None)
  show "q_wf st q \<Longrightarrow> q_PeekHead q = Some x \<Longrightarrow> x \<in> set (q_items q)"
    by (cases q) (auto dest: lq.head_in hq.head_in)
  show "q_wf st q \<Longrightarrow> (q_PeekTail q = None) = (q_items q = [])" by (cases q) (simp_all add: lq.tail_None hq.tail_None)
  show "q_wf st q \<Longrightarrow> q_PeekTail q = Some x \<Longrightarrow> x \<in> set (q_items q)"
    by (cases q) (auto dest: lq.tail_in hq.tail_in)
  show "q_wf st q \<Longrightarrow> distinct (map fi_ref (q_items q))" by (cases q) (simp_all add: lq.refs hq.refs)
  show "q_wf st q \<Longrightarrow> x \<in> set (q_items q) \<Longrightarrow>
      \<exists>k. Handle st x = Some k \<and> k < st_next st \<and> st_obj st k \<noteq> None \<and> \<not> IsInvalidated k st"
    by (cases q) (simp_all del: not_None_eq add: lq.handle hq.handle)
  show "q_wf st q \<Longrightarrow> x \<in> set (q_items q) \<Longrightarrow> y \<in> set (q_items q) \<Longrightarrow> Handle st x = Handle st y \<Longrightarrow> x = y"
    by (cases q) (auto dest: lq.handle_inj hq.handle_inj)
  show "q_wf st q \<Longrightarrow> frame R K st st' \<Longrightarrow> R \<inter> fi_ref ` set (q_items q) = {} \<Longrightarrow>
      K \<inter> handles_of st (set (q_items q)) = {} \<Longrightarrow> q_wf st' q"
    by (cases q) (simp_all, (erule (3) list_wf_frame heap_wf_frame)+)
  show "\<exists>st' q'. q_Add x st q = Some (st', q') \<and> q_wf st' q' \<and>
        mset (q_items q') = add_mset x (mset (q_items q)) \<and> frame {fi_ref x} {} st st' \<and>
        Handle st' x = Some (st_next st)" if "q_wf st q" "fi_ref x \<notin> fi_ref ` set (q_items q)"
  proof (cases q)
    case (LQ l)
    then show ?thesis using lq.add_spec [of st l x] that by auto
  next
    case (HQ bef h)
    then show ?thesis using hq.add_spec [of st h x bef] that by auto
  qed
  show "\<exists>st' q'. q_Remove (Some k) st q = Some (Inr x, st', q') \<and> q_wf st' q' \<and>
        mset (q_items q') = mset (q_items q) - {#x#} \<and> frame {} {k} st st' \<and> IsInvalidated k st'"
    if "q_wf st q" "x \<in> set (q_items q)" "Handle st x = Some k"
  proof (cases q)
    case (LQ l)
    then show ?thesis using lq.remove_spec [of st l x k] that by auto
  next
    case (HQ bef h)
    then show ?thesis using hq.remove_spec [of st h x k bef] that by auto
  qed
  show "h = None \<or> (\<exists>k. h = Some k \<and> IsInvalidated k st) \<Longrightarrow>
      q_Remove h st q = Some (Inl ErrInvalidQueueItemHandle, st, q)"
    by (cases q) (simp_all add: lq.remove_invalid hq.remove_invalid)
  show "\<exists>rem st' q'. q_Cleanup p st q = Some (rem, st', q') \<and> q_wf st' q' \<and>
      mset rem = filter_mset p (mset (q_items q)) \<and>
      mset (q_items q') = filter_mset (\<lambda>x. \<not> p x) (mset (q_items q)) \<and> st' = invalidate_all rem st"
    if "q_wf st q"
  proof (cases q)
    case (LQ l)
    then show ?thesis using lq.cleanup_spec [of st l p] that by auto
  next
    case (HQ bef h)
    then show ?thesis using hq.cleanup_spec [of st h bef p] that by auto
  qed
  show "\<exists>rem st' q'. q_Drain st q = (rem, st', q') \<and> q_wf st' q' \<and>
      mset rem = mset (q_items q) \<and> q_items q' = [] \<and> st' = invalidate_all rem st" if "q_wf st q"
  proof (cases q)
    case (LQ l)
    then show ?thesis using lq.drain_spec [of st l] that by auto
  next
    case (HQ bef h)
    then show ?thesis using hq.drain_spec [of st h] that by auto
  qed
qed

subsection \<open>The managed queue\<close>

text \<open>What a queue reports to its shard: priority, change of length, change of bytes.\<close>

type_synonym StatsDelta = "int \<times> int64 \<times> int64"

text \<open>A value of interface type \<open>OrderingPolicy\<close>.\<close>

record OrderingPolicy =
  op_Type :: string
  op_Less :: "FlowItem \<Rightarrow> FlowItem \<Rightarrow> bool"
  op_RequiredQueueCapabilities :: "QueueCapability list"

definition fcfs_policy :: OrderingPolicy where
  "fcfs_policy = \<lparr>op_Type = ''fcfs-ordering-policy'', op_Less = fcfs_Less, op_RequiredQueueCapabilities = []\<rparr>"

definition edf_policy :: OrderingPolicy where
  "edf_policy = \<lparr>op_Type = ''edf-ordering-policy'', op_Less = edf_Less,
                 op_RequiredQueueCapabilities = [CapabilityPriorityConfigurable]\<rparr>"

definition slo_policy :: OrderingPolicy where
  "slo_policy = \<lparr>op_Type = ''slo-deadline-ordering-policy'', op_Less = slo_Less,
                 op_RequiredQueueCapabilities = [CapabilityPriorityConfigurable]\<rparr>"

record managedQueue =
  mq_key :: FlowKey
  mq_policy :: OrderingPolicy
  mq_queue :: SafeQ
  mq_byteSize :: int64
  mq_len :: int64

definition newManagedQueue :: "SafeQ \<Rightarrow> OrderingPolicy \<Rightarrow> FlowKey \<Rightarrow> managedQueue" where
  "newManagedQueue q policy key =
     \<lparr>mq_key = key, mq_policy = policy, mq_queue = q, mq_byteSize = 0, mq_len = 0\<rparr>"

definition propagateStatsDeltaLocked :: "int64 \<Rightarrow> int64 \<Rightarrow> managedQueue \<Rightarrow> (managedQueue \<times> StatsDelta list) option" where
  "propagateStatsDeltaLocked lenDelta byteSizeDelta mq =
     (let newLen = mq_len mq + lenDelta in
      if sint newLen < 0 then None
      else Some (mq\<lparr>mq_len := newLen, mq_byteSize := mq_byteSize mq + byteSizeDelta\<rparr>,
                 [(fk_Priority (mq_key mq), lenDelta, byteSizeDelta)]))"

fun removed_deltas :: "FlowItem list \<Rightarrow> int64 \<Rightarrow> int64 \<Rightarrow> int64 \<times> int64" where
  "removed_deltas [] lenDelta byteSizeDelta = (lenDelta, byteSizeDelta)"
| "removed_deltas (x # xs) lenDelta byteSizeDelta =
     removed_deltas xs (lenDelta - 1) (byteSizeDelta - item_bytes x)"

definition propagateStatsDeltaForRemovedItemsLocked ::
    "FlowItem list \<Rightarrow> managedQueue \<Rightarrow> (managedQueue \<times> StatsDelta list) option" where
  "propagateStatsDeltaForRemovedItemsLocked items mq =
     (let (lenDelta, byteSizeDelta) = removed_deltas items 0 0
      in propagateStatsDeltaLocked lenDelta byteSizeDelta mq)"

definition mq_Add :: "bool \<Rightarrow> FlowItem \<Rightarrow> Store \<Rightarrow> managedQueue
    \<Rightarrow> (fc_error option \<times> Store \<times> managedQueue \<times> StatsDelta list) option" where
  "mq_Add isDraining x st mq =
     (if isDraining then Some (Some ErrShardDraining, st, mq, [])
      else do { (st', q') \<leftarrow> q_Add x st (mq_queue mq);
                (mq', ds) \<leftarrow> propagateStatsDeltaLocked 1 (item_bytes x) (mq\<lparr>mq_queue := q'\<rparr>);
                Some (None, st', mq', ds) })"

definition mq_Remove :: "nat option \<Rightarrow> Store \<Rightarrow> managedQueue
    \<Rightarrow> ((fc_error + FlowItem) \<times> Store \<times> managedQueue \<times> StatsDelta list) option" where
  "mq_Remove handle st mq =
     do { (r, st', q') \<leftarrow> q_Remove handle st (mq_queue mq);
          (case r of
             Inl e \<Rightarrow> Some (Inl e, st', mq\<lparr>mq_queue := q'\<rparr>, [])
           | Inr x \<Rightarrow> do { (mq', ds) \<leftarrow> propagateStatsDeltaLocked (-1) (- item_bytes x) (mq\<lparr>mq_queue := q'\<rparr>);
                          Some (Inr x, st', mq', ds) }) }"

definition mq_Cleanup :: "(FlowItem \<Rightarrow> bool) \<Rightarrow> Store \<Rightarrow> managedQueue
    \<Rightarrow> (FlowItem list \<times> Store \<times> managedQueue \<times> StatsDelta list) option" where
  "mq_Cleanup predicate st mq =
     do { (items, st', q') \<leftarrow> q_Cleanup predicate st (mq_queue mq);
          (if length items = 0 then Some ([], st', mq\<lparr>mq_queue := q'\<rparr>, [])
           else do { (mq', ds) \<leftarrow> propagateStatsDeltaForRemovedItemsLocked items (mq\<lparr>mq_queue := q'\<rparr>);
                     Some (items, st', mq', ds) }) }"

definition mq_Drain :: "Store \<Rightarrow> managedQueue
    \<Rightarrow> (FlowItem list \<times> Store \<times> managedQueue \<times> StatsDelta list) option" where
  "mq_Drain st mq =
     (let (items, st', q') = q_Drain st (mq_queue mq)
      in if length items = 0 then Some ([], st', mq\<lparr>mq_queue := q'\<rparr>, [])
         else do { (mq', ds) \<leftarrow> propagateStatsDeltaForRemovedItemsLocked items (mq\<lparr>mq_queue := q'\<rparr>);
                   Some (items, st', mq', ds) })"

definition mq_Len :: "managedQueue \<Rightarrow> int" where
  "mq_Len mq = sint (mq_len mq)"

definition mq_ByteSize :: "managedQueue \<Rightarrow> uint64" where
  "mq_ByteSize mq = mq_byteSize mq"

definition mq_PeekHead :: "managedQueue \<Rightarrow> FlowItem option" where
  "mq_PeekHead mq = q_PeekHead (mq_queue mq)"

definition mq_PeekTail :: "managedQueue \<Rightarrow> FlowItem option" where
  "mq_PeekTail mq = q_PeekTail (mq_queue mq)"

abbreviation mq_items :: "managedQueue \<Rightarrow> FlowItem list" where
  "mq_items mq \<equiv> q_items (mq_queue mq)"

subsection \<open>The counters match the contents\<close>

definition mq_inv :: "Store \<Rightarrow> managedQueue \<Rightarrow> bool" where
  "mq_inv st mq \<longleftrightarrow> q_wf st (mq_queue mq) \<and> length (mq_items mq) < 2 ^ 63 \<and>
     mq_len mq = of_nat (length (mq_items mq)) \<and> mq_byteSize mq = wsum item_bytes (mq_items mq)"

text \<open>The sum of the reported deltas.\<close>

definition delta_len :: "StatsDelta list \<Rightarrow> int64" where
  "delta_len ds = wsum (\<lambda>(p, l, b). l) ds"

definition delta_bytes :: "StatsDelta list \<Rightarrow> int64" where
  "delta_bytes ds = wsum (\<lambda>(p, l, b). b) ds"

lemma delta_simps [simp]:
  "delta_len [] = 0" "delta_len ((p, l, b) # ds) = l + delta_len ds"
  "delta_bytes [] = 0" "delta_bytes ((p, l, b) # ds) = b + delta_bytes ds"
  by (simp_all add: delta_len_def delta_bytes_def)

lemma sint_of_nat_small: "n < 2 ^ 63 \<Longrightarrow> sint (of_nat n :: int64) = int n"
  by (simp add: signed_of_nat signed_take_bit_int_eq_self)

lemma removed_deltas_eq:
  "removed_deltas xs l b = (l - of_nat (length xs), b - wsum item_bytes xs)"
  by (induction xs l b rule: removed_deltas.induct) (simp_all add: algebra_simps)

text \<open>Every operation replaces the queue and moves the counters by one reported delta.\<close>

lemma propagate_inv:
  assumes "q_wf st q'" "length (q_items q') < 2 ^ 63"
    and "mq_len mq + l = of_nat (length (q_items q'))" "mq_byteSize mq + b = wsum item_bytes (q_items q')"
  shows "\<exists>mq'. propagateStatsDeltaLocked l b (mq\<lparr>mq_queue := q'\<rparr>) = Some (mq', [(fk_Priority (mq_key mq), l, b)]) \<and>
     mq_inv st mq' \<and> mq_queue mq' = q' \<and> mq_key mq' = mq_key mq \<and>
     mq_len mq' = mq_len mq + l \<and> mq_byteSize mq' = mq_byteSize mq + b"
  using assms by (simp add: propagateStatsDeltaLocked_def mq_inv_def Let_def sint_of_nat_small)

lemma mq_Add_spec:
  assumes inv: "mq_inv st mq" and x: "fi_ref x \<notin> fi_ref ` set (mq_items mq)"
    and room: "length (mq_items mq) + 1 < 2 ^ 63"
  shows "\<exists>st' mq'. mq_Add False x st mq = Some (None, st', mq', [(fk_Priority (mq_key mq), 1, item_bytes x)]) \<and>
     mq_inv st' mq' \<and> mset (mq_items mq') = add_mset x (mset (mq_items mq)) \<and> mq_key mq' = mq_key mq \<and>
     mq_len mq' = mq_len mq + 1 \<and> mq_byteSize mq' = mq_byteSize mq + item_bytes x \<and>
     frame {fi_ref x} {} st st' \<and> Handle st' x = Some (st_next st)"
proof -
  have wf: "q_wf st (mq_queue mq)" using inv by (simp add: mq_inv_def)
  obtain st' q' where a: "q_Add x st (mq_queue mq) = Some (st', q')" "q_wf st' q'"
    "mset (q_items q') = add_mset x (mset (mq_items mq))" "frame {fi_ref x} {} st st'"
    "Handle st' x = Some (st_next st)"
    using sq.add_spec [OF wf x] by blast
  have m: "mset (q_items q') = mset (x # mq_items mq)" using a(3) by simp
  have len: "length (q_items q') = Suc (length (mq_items mq))" using mset_eq_length [OF m] by simp
  have "wsum item_bytes (q_items q') = item_bytes x + wsum item_bytes (mq_items mq)"
    using wsum_mset [OF m, of item_bytes] by simp
  then obtain mq' where "propagateStatsDeltaLocked 1 (item_bytes x) (mq\<lparr>mq_queue := q'\<rparr>) =
      Some (mq', [(fk_Priority (mq_key mq), 1, item_bytes x)])" "mq_inv st' mq'" "mq_queue mq' = q'"
    "mq_key mq' = mq_key mq" "mq_len mq' = mq_len mq + 1" "mq_byteSize mq' = mq_byteSize mq + item_bytes x"
    using propagate_inv [OF a(2), of mq 1 "item_bytes x"] len room inv by (auto simp: mq_inv_def)
  then show ?thesis using a by (simp add: mq_Add_def)
qed

lemma mq_Remove_spec:
  assumes inv: "mq_inv st mq" and x: "x \<in> set (mq_items mq)" and k: "Handle st x = Some k"
  shows "\<exists>st' mq'. mq_Remove (Some k) st mq = Some (Inr x, st', mq', [(fk_Priority (mq_key mq), -1, - item_bytes x)]) \<and>
     mq_inv st' mq' \<and> mset (mq_items mq') = mset (mq_items mq) - {#x#} \<and> mq_key mq' = mq_key mq \<and>
     mq_len mq' = mq_len mq - 1 \<and> mq_byteSize mq' = mq_byteSize mq - item_bytes x \<and> frame {} {k} st st'"
proof -
  have wf: "q_wf st (mq_queue mq)" using inv by (simp add: mq_inv_def)
  obtain st' q' where a: "q_Remove (Some k) st (mq_queue mq) = Some (Inr x, st', q')" "q_wf st' q'"
    "mset (q_items q') = mset (mq_items mq) - {#x#}" "frame {} {k} st st'"
    using sq.remove_spec [OF wf x k] by blast
  have m: "mset (mq_items mq) = mset (x # q_items q')" using a(3) x by simp
  have len: "length (mq_items mq) = Suc (length (q_items q'))" using mset_eq_length [OF m] by simp
  have "wsum item_bytes (mq_items mq) = item_bytes x + wsum item_bytes (q_items q')"
    using wsum_mset [OF m, of item_bytes] by simp
  then obtain mq' where "propagateStatsDeltaLocked (-1) (- item_bytes x) (mq\<lparr>mq_queue := q'\<rparr>) =
      Some (mq', [(fk_Priority (mq_key mq), -1, - item_bytes x)])" "mq_inv st' mq'" "mq_queue mq' = q'"
    "mq_key mq' = mq_key mq" "mq_len mq' = mq_len mq - 1" "mq_byteSize mq' = mq_byteSize mq - item_bytes x"
    using propagate_inv [OF a(2), of mq "-1" "- item_bytes x"] len inv by (auto simp: mq_inv_def)
  then show ?thesis using a by (simp add: mq_Remove_def)
qed

lemma mq_Remove_invalid:
  assumes "h = None \<or> (\<exists>k. h = Some k \<and> IsInvalidated k st)"
  shows "mq_Remove h st mq = Some (Inl ErrInvalidQueueItemHandle, st, mq, [])"
  using sq.remove_invalid [OF assms, of "mq_queue mq"] by (simp add: mq_Remove_def)

lemma removed_inv:
  assumes inv: "mq_inv st mq" and wf: "q_wf st' q'"
    and m: "mset (mq_items mq) = mset (rem @ q_items q')"
  shows "\<exists>mq' ds. (if length rem = 0 then Some (mq\<lparr>mq_queue := q'\<rparr>, [])
       else propagateStatsDeltaForRemovedItemsLocked rem (mq\<lparr>mq_queue := q'\<rparr>)) = Some (mq', ds) \<and>
     mq_inv st' mq' \<and> mq_queue mq' = q' \<and> mq_key mq' = mq_key mq \<and>
     (\<forall>d \<in> set ds. fst d = fk_Priority (mq_key mq)) \<and>
     mq_len mq' = mq_len mq + delta_len ds \<and> mq_byteSize mq' = mq_byteSize mq + delta_bytes ds"
proof -
  have len: "length (mq_items mq) = length rem + length (q_items q')" using mset_eq_length [OF m] by simp
  have bts: "wsum item_bytes (mq_items mq) = wsum item_bytes rem + wsum item_bytes (q_items q')"
    using wsum_mset [OF m, of item_bytes] by (simp add: wsum_def)
  show ?thesis
  proof (cases "rem = []")
    case True
    then show ?thesis using inv wf len bts by (simp add: mq_inv_def)
  next
    case False
    have a: "mq_len mq + - of_nat (length rem) = of_nat (length (q_items q'))"
      "mq_byteSize mq + - wsum item_bytes rem = wsum item_bytes (q_items q')"
      "length (q_items q') < 2 ^ 63"
      using len bts inv by (simp_all add: mq_inv_def)
    show ?thesis
      using propagate_inv [OF wf a(3) a(1,2)] False
      by (auto simp: propagateStatsDeltaForRemovedItemsLocked_def removed_deltas_eq)
  qed
qed

definition after_removal :: "FlowItem list \<Rightarrow> managedQueue \<Rightarrow> (managedQueue \<times> StatsDelta list) option" where
  "after_removal rem mq =
     (if length rem = 0 then Some (mq, []) else propagateStatsDeltaForRemovedItemsLocked rem mq)"

lemma mq_Cleanup_alt:
  "mq_Cleanup p st mq =
     do { (rem, st', q') \<leftarrow> q_Cleanup p st (mq_queue mq);
          (mq', ds) \<leftarrow> after_removal rem (mq\<lparr>mq_queue := q'\<rparr>);
          Some (rem, st', mq', ds) }"
  by (auto simp: mq_Cleanup_def after_removal_def split: Option.bind_splits)

lemma mq_Drain_alt:
  "mq_Drain st mq =
     (let (rem, st', q') = q_Drain st (mq_queue mq) in
      do { (mq', ds) \<leftarrow> after_removal rem (mq\<lparr>mq_queue := q'\<rparr>); Some (rem, st', mq', ds) })"
  by (auto simp: mq_Drain_def after_removal_def split: Option.bind_splits prod.splits)

lemma mq_Cleanup_spec:
  assumes inv: "mq_inv st mq"
  shows "\<exists>rem st' mq' ds. mq_Cleanup p st mq = Some (rem, st', mq', ds) \<and> mq_inv st' mq' \<and>
     mset rem = filter_mset p (mset (mq_items mq)) \<and>
     mset (mq_items mq') = filter_mset (\<lambda>x. \<not> p x) (mset (mq_items mq)) \<and> mq_key mq' = mq_key mq \<and>
     (\<forall>d \<in> set ds. fst d = fk_Priority (mq_key mq)) \<and> mq_len mq' = mq_len mq + delta_len ds \<and>
     mq_byteSize mq' = mq_byteSize mq + delta_bytes ds \<and> st' = invalidate_all rem st"
proof -
  have wf: "q_wf st (mq_queue mq)" using inv by (simp add: mq_inv_def)
  obtain rem st' q' where a: "q_Cleanup p st (mq_queue mq) = Some (rem, st', q')" "q_wf st' q'"
    "mset rem = filter_mset p (mset (mq_items mq))"
    "mset (q_items q') = filter_mset (\<lambda>x. \<not> p x) (mset (mq_items mq))" "st' = invalidate_all rem st"
    using sq.cleanup_spec [OF wf] by blast
  have "mset (mq_items mq) = mset (rem @ q_items q')" 
    using a(3,4) multiset_partition [of "mset (mq_items mq)" p] by simp
  then obtain mq' ds where "(if length rem = 0 then Some (mq\<lparr>mq_queue := q'\<rparr>, [])
       else propagateStatsDeltaForRemovedItemsLocked rem (mq\<lparr>mq_queue := q'\<rparr>)) = Some (mq', ds)"
    "mq_inv st' mq'" "mq_queue mq' = q'" "mq_key mq' = mq_key mq" "\<forall>d \<in> set ds. fst d = fk_Priority (mq_key mq)"
    "mq_len mq' = mq_len mq + delta_len ds" "mq_byteSize mq' = mq_byteSize mq + delta_bytes ds"
    using removed_inv [OF inv a(2)] by blast
  then show ?thesis using a by (simp add: mq_Cleanup_alt after_removal_def)
qed

lemma mq_Drain_spec:
  assumes inv: "mq_inv st mq"
  shows "\<exists>rem st' mq' ds. mq_Drain st mq = Some (rem, st', mq', ds) \<and> mq_inv st' mq' \<and>
     mset rem = mset (mq_items mq) \<and> mq_items mq' = [] \<and> mq_key mq' = mq_key mq \<and>
     (\<forall>d \<in> set ds. fst d = fk_Priority (mq_key mq)) \<and> mq_len mq' = mq_len mq + delta_len ds \<and>
     mq_byteSize mq' = mq_byteSize mq + delta_bytes ds \<and> st' = invalidate_all rem st"
proof -
  have wf: "q_wf st (mq_queue mq)" using inv by (simp add: mq_inv_def)
  obtain rem st' q' where a: "q_Drain st (mq_queue mq) = (rem, st', q')" "q_wf st' q'"
    "mset rem = mset (mq_items mq)" "q_items q' = []" "st' = invalidate_all rem st"
    using sq.drain_spec [OF wf] by blast
  have "mset (mq_items mq) = mset (rem @ q_items q')" using a(3,4) by simp
  then obtain mq' ds where "(if length rem = 0 then Some (mq\<lparr>mq_queue := q'\<rparr>, [])
       else propagateStatsDeltaForRemovedItemsLocked rem (mq\<lparr>mq_queue := q'\<rparr>)) = Some (mq', ds)"
    "mq_inv st' mq'" "mq_queue mq' = q'" "mq_key mq' = mq_key mq" "\<forall>d \<in> set ds. fst d = fk_Priority (mq_key mq)"
    "mq_len mq' = mq_len mq + delta_len ds" "mq_byteSize mq' = mq_byteSize mq + delta_bytes ds"
    using removed_inv [OF inv a(2)] by blast
  then show ?thesis using a by (simp add: mq_Drain_alt after_removal_def)
qed

lemma mq_inv_frame:
  assumes "mq_inv st mq" "frame R K st st'" "R \<inter> fi_ref ` set (mq_items mq) = {}"
    "K \<inter> handles_of st (set (mq_items mq)) = {}"
  shows "mq_inv st' mq"
  using assms sq.wf_frame by (auto simp: mq_inv_def)

lemma mq_inv_new: "q_wf st q \<Longrightarrow> q_items q = [] \<Longrightarrow> mq_inv st (newManagedQueue q policy key)"
  by (simp add: mq_inv_def newManagedQueue_def)

lemma mq_Len_inv: "mq_inv st mq \<Longrightarrow> mq_Len mq = int (length (mq_items mq))"
  by (simp add: mq_inv_def mq_Len_def sint_of_nat_small)

lemma mq_ByteSize_inv: "mq_inv st mq \<Longrightarrow> mq_ByteSize mq = wsum item_bytes (mq_items mq)"
  by (simp add: mq_inv_def mq_ByteSize_def)

subsection \<open>Properties\<close>





end
