(* ===== verification/GoMap.thy ===== *)
theory GoMap
  imports Prelude "HOL-Library.AList"
begin

text \<open>
  Go maps. A map that is iterated is an association list with distinct keys whose order is the order of
  the iteration; reading, writing and deleting an entry are the operations of the library theory on
  association lists.
\<close>

type_synonym ('k, 'v) gomap = "('k \<times> 'v) list"

abbreviation gm_get :: "('k, 'v) gomap \<Rightarrow> 'k \<Rightarrow> 'v option" where
  "gm_get \<equiv> map_of"

abbreviation gm_set :: "'k \<Rightarrow> 'v \<Rightarrow> ('k, 'v) gomap \<Rightarrow> ('k, 'v) gomap" where
  "gm_set \<equiv> AList.update"

abbreviation gm_del :: "'k \<Rightarrow> ('k, 'v) gomap \<Rightarrow> ('k, 'v) gomap" where
  "gm_del \<equiv> AList.delete"

abbreviation gm_ok :: "('k, 'v) gomap \<Rightarrow> bool" where
  "gm_ok m \<equiv> distinct (map fst m)"

lemmas gm_simps = update_conv' delete_conv' distinct_update distinct_delete

subsection \<open>Replacing an entry of a map\<close>

lemma gm_set_set: "gm_set k v (gm_set k w m) = gm_set k v m"
  by (induction m) auto

lemma gm_set_same: "gm_get m k = Some v \<Longrightarrow> gm_set k v m = m"
  by (induction m) (auto split: if_splits)

lemma gm_set_keys: "gm_get m k \<noteq> None \<Longrightarrow> map fst (gm_set k v m) = map fst m"
  by (induction m) (auto split: if_splits)

lemma wsum_gm_set:
  fixes f :: "'v \<Rightarrow> 'n :: len word"
  shows "gm_get m k = Some old \<Longrightarrow> wsum f (map snd (gm_set k v m)) = wsum f (map snd m) - f old + f v"
  by (induction m) (auto simp: algebra_simps split: if_splits)

lemma gm_get_in: "gm_get m k = Some v \<Longrightarrow> (k, v) \<in> set m"
  by (rule map_of_SomeD)

lemma gm_set_in:
  assumes "gm_ok m"
  shows "(k', v') \<in> set (gm_set k v m) \<longleftrightarrow> (if k' = k then v' = v else (k', v') \<in> set m)"
proof -
  have "gm_ok (gm_set k v m)" using assms by (simp add: distinct_update)
  then have "(k', v') \<in> set (gm_set k v m) \<longleftrightarrow> gm_get (gm_set k v m) k' = Some v'" by simp
  also have "\<dots> \<longleftrightarrow> (if k' = k then v' = v else gm_get m k' = Some v')" by (auto simp: update_conv')
  finally show ?thesis using assms by simp
qed

lemma gm_set_new: "gm_get m k = None \<Longrightarrow> gm_set k v m = m @ [(k, v)]"
  by (induction m) (auto split: if_splits)

lemma gm_get_None: "gm_get m k = None \<longleftrightarrow> k \<notin> fst ` set m"
  by (rule map_of_eq_None_iff)

lemma gm_set_mem: "(k', v') \<in> set (gm_set k v m) \<Longrightarrow> (k', v') = (k, v) \<or> (k', v') \<in> set m"
  by (induction m) (auto split: if_splits)

lemma map_of_map_snd: "gm_get (map (\<lambda>(k, v). (k, f k v)) m) k = map_option (f k) (gm_get m k)"
  by (induction m) auto

end
