(* ===== verification/RegistryConfig.thy ===== *)
theory RegistryConfig
  imports ManagedQueue GoMap
begin

text \<open>
  The configuration of the flow registry (\<open>flowcontrol/registry/config.go\<close>) and the queue factory
  (\<open>plugins/queue/factory.go\<close>). The plugin handle is a parameter: what it returns for a
  name. \<open>resource.Quantity\<close> is represented by its \<open>Value()\<close>.
\<close>

subsection \<open>The queue factory\<close>

definition ListQueueName :: string where "ListQueueName = ''ListQueue''"
definition MaxMinHeapName :: string where "MaxMinHeapName = ''MaxMinHeap''"

text \<open>The constructors the package's \<open>init\<close> functions register; \<open>addr\<close> is the address of the new queue.\<close>

definition RegisteredQueues :: "(string, nat \<Rightarrow> OrderingPolicy \<Rightarrow> SafeQ) gomap" where
  "RegisteredQueues =
     [(ListQueueName, \<lambda>addr policy. LQ (newListQueue addr)),
      (MaxMinHeapName, \<lambda>addr policy. HQ (op_Less policy) newMaxMinHeap)]"

definition NewQueueFromName :: "string \<Rightarrow> OrderingPolicy \<Rightarrow> nat \<Rightarrow> fc_error + SafeQ" where
  "NewQueueFromName name policy addr =
     (case gm_get RegisteredQueues name of
        None \<Rightarrow> Inl (ErrMsg ''no SafeQueue registered'')
      | Some constructor \<Rightarrow> Inr (constructor addr policy))"

subsection \<open>Policies and plugins\<close>

text \<open>The fairness policies of the repository, and what a plugin handle can return.\<close>

datatype FairnessPolicy = GlobalStrict | RoundRobin

datatype Plugin = OrderingPlugin OrderingPolicy | FairnessPlugin FairnessPolicy | OtherPlugin

definition DefaultOrderingPolicyRef :: string where "DefaultOrderingPolicyRef = ''fcfs-ordering-policy''"
definition DefaultFairnessPolicyRef :: string where "DefaultFairnessPolicyRef = ''global-strict-fairness-policy''"
definition defaultPriorityBandMaxBytes :: uint64 where "defaultPriorityBandMaxBytes = 1000000000"
definition defaultQueue :: string where "defaultQueue = ListQueueName"
definition defaultInitialShardCount :: int where "defaultInitialShardCount = 1"
definition defaultFlowGCTimeout :: duration where "defaultFlowGCTimeout = 5 * 60 * 1000000000"
definition defaultPriorityBandGCTimeout :: duration where "defaultPriorityBandGCTimeout = 2 * defaultFlowGCTimeout"

definition orderingPolicy :: "string \<Rightarrow> (string \<Rightarrow> Plugin option) \<Rightarrow> fc_error + OrderingPolicy" where
  "orderingPolicy ref handle =
     (case handle ref of
        None \<Rightarrow> Inl (ErrMsg ''no ordering policy registered'')
      | Some (OrderingPlugin p) \<Rightarrow> Inr p
      | Some _ \<Rightarrow> Inl (ErrMsg ''not an OrderingPolicy''))"

definition fairnessPolicy :: "string \<Rightarrow> (string \<Rightarrow> Plugin option) \<Rightarrow> fc_error + FairnessPolicy" where
  "fairnessPolicy ref handle =
     (case handle ref of
        None \<Rightarrow> Inl (ErrMsg ''no fairness policy registered'')
      | Some (FairnessPlugin p) \<Rightarrow> Inr p
      | Some _ \<Rightarrow> Inl (ErrMsg ''not a FairnessPolicy''))"

text \<open>The temporary queue is built only to read its capabilities, which do not depend on the policy.\<close>

definition CheckCompatibility :: "OrderingPolicy \<Rightarrow> string \<Rightarrow> fc_error option" where
  "CheckCompatibility p q =
     (case NewQueueFromName q p 0 of
        Inl e \<Rightarrow> Some (Errorf [e])
      | Inr tempQueue \<Rightarrow>
          if length (op_RequiredQueueCapabilities p) = 0 then None
          else if list_all (\<lambda>req. req \<in> set (q_Capabilities tempQueue)) (op_RequiredQueueCapabilities p)
          then None
          else Some (Errorf [ErrPolicyQueueIncompatible]))"

subsection \<open>Band and registry configuration\<close>

record PriorityBandConfig =
  pb_Priority :: int
  pb_OrderingPolicy :: "OrderingPolicy option"
  pb_FairnessPolicy :: "FairnessPolicy option"
  pb_Queue :: string
  pb_MaxBytes :: uint64
  pb_MaxRequests :: uint64

record Config =
  cf_MaxBytes :: uint64
  cf_MaxRequests :: uint64
  cf_PriorityBands :: "(int, PriorityBandConfig) gomap"
  cf_DefaultPriorityBand :: "PriorityBandConfig option"
  cf_InitialShardCount :: int
  cf_FlowGCTimeout :: duration
  cf_PriorityBandGCTimeout :: duration

type_synonym ConfigOption = "Config \<Rightarrow> fc_error + Config"
type_synonym PriorityBandConfigOption = "PriorityBandConfig \<Rightarrow> fc_error + PriorityBandConfig"

definition WithMaxBytes :: "uint64 \<Rightarrow> ConfigOption" where
  "WithMaxBytes v c = Inr (c\<lparr>cf_MaxBytes := v\<rparr>)"

definition WithMaxRequests :: "uint64 \<Rightarrow> ConfigOption" where
  "WithMaxRequests v c = Inr (c\<lparr>cf_MaxRequests := v\<rparr>)"

definition WithInitialShardCount :: "int \<Rightarrow> ConfigOption" where
  "WithInitialShardCount n c =
     (if n \<le> 0 then Inl (ErrMsg ''initialShardCount must be greater than 0'')
      else Inr (c\<lparr>cf_InitialShardCount := n\<rparr>))"

definition WithFlowGCTimeout :: "duration \<Rightarrow> ConfigOption" where
  "WithFlowGCTimeout d c =
     (if d \<le> 0 then Inl (ErrMsg ''flowGCTimeout must be positive'') else Inr (c\<lparr>cf_FlowGCTimeout := d\<rparr>))"

definition WithPriorityBandGCTimeout :: "duration \<Rightarrow> ConfigOption" where
  "WithPriorityBandGCTimeout d c =
     (if d \<le> 0 then Inl (ErrMsg ''priorityBandGCTimeout must be positive'')
      else if cf_FlowGCTimeout c > 0 \<and> d < cf_FlowGCTimeout c
      then Inl (ErrMsg ''priorityBandGCTimeout must be >= flowGCTimeout'')
      else Inr (c\<lparr>cf_PriorityBandGCTimeout := d\<rparr>))"

definition WithPriorityBand :: "PriorityBandConfig option \<Rightarrow> ConfigOption" where
  "WithPriorityBand band c =
     (case band of
        None \<Rightarrow> Inl (ErrMsg ''cannot add nil PriorityBandConfig'')
      | Some b \<Rightarrow>
          if gm_get (cf_PriorityBands c) (pb_Priority b) \<noteq> None then Inl (ErrMsg ''duplicate priority level'')
          else Inr (c\<lparr>cf_PriorityBands := gm_set (pb_Priority b) b (cf_PriorityBands c)\<rparr>))"

definition WithDefaultPriorityBand :: "PriorityBandConfig option \<Rightarrow> ConfigOption" where
  "WithDefaultPriorityBand band c = Inr (c\<lparr>cf_DefaultPriorityBand := band\<rparr>)"

definition WithOrderingPolicy :: "string \<Rightarrow> (string \<Rightarrow> Plugin option) \<Rightarrow> PriorityBandConfigOption" where
  "WithOrderingPolicy ref handle p =
     (case orderingPolicy ref handle of Inl e \<Rightarrow> Inl e | Inr pol \<Rightarrow> Inr (p\<lparr>pb_OrderingPolicy := Some pol\<rparr>))"

definition WithFairnessPolicy :: "string \<Rightarrow> (string \<Rightarrow> Plugin option) \<Rightarrow> PriorityBandConfigOption" where
  "WithFairnessPolicy ref handle p =
     (case fairnessPolicy ref handle of Inl e \<Rightarrow> Inl e | Inr pol \<Rightarrow> Inr (p\<lparr>pb_FairnessPolicy := Some pol\<rparr>))"

definition WithQueue :: "string \<Rightarrow> PriorityBandConfigOption" where
  "WithQueue name p = (if name = '''' then Inl (ErrMsg ''Queue cannot be empty'') else Inr (p\<lparr>pb_Queue := name\<rparr>))"

definition WithBandMaxBytes :: "uint64 \<Rightarrow> PriorityBandConfigOption" where
  "WithBandMaxBytes v p = Inr (p\<lparr>pb_MaxBytes := v\<rparr>)"

definition WithBandMaxRequests :: "uint64 \<Rightarrow> PriorityBandConfigOption" where
  "WithBandMaxRequests v p = Inr (p\<lparr>pb_MaxRequests := v\<rparr>)"

subsection \<open>Defaults, validation and construction\<close>

fun sum_bind :: "'e + 'a \<Rightarrow> ('a \<Rightarrow> 'e + 'b) \<Rightarrow> 'e + 'b" where
  "sum_bind (Inl e) f = Inl e"
| "sum_bind (Inr x) f = f x"

fun apply_opts :: "('c \<Rightarrow> 'e + 'c) list \<Rightarrow> 'c \<Rightarrow> 'e + 'c" where
  "apply_opts [] c = Inr c"
| "apply_opts (opt # opts) c = sum_bind (opt c) (apply_opts opts)"

definition applyDefaults :: "(string \<Rightarrow> Plugin option) \<Rightarrow> PriorityBandConfig \<Rightarrow> fc_error + PriorityBandConfig" where
  "applyDefaults handle p =
     sum_bind (case pb_OrderingPolicy p of
                 None \<Rightarrow> sum_bind (orderingPolicy DefaultOrderingPolicyRef handle)
                           (\<lambda>pol. Inr (pol, p\<lparr>pb_OrderingPolicy := Some pol\<rparr>))
               | Some pol \<Rightarrow> Inr (pol, p))
       (\<lambda>(pol, p).
          let p = (if pb_Queue p = ''''
                   then p\<lparr>pb_Queue := (if CapabilityPriorityConfigurable \<in> set (op_RequiredQueueCapabilities pol)
                                       then MaxMinHeapName else defaultQueue)\<rparr>
                   else p);
              p = (if pb_MaxBytes p = 0 then p\<lparr>pb_MaxBytes := defaultPriorityBandMaxBytes\<rparr> else p)
          in case pb_FairnessPolicy p of
               None \<Rightarrow> sum_bind (fairnessPolicy DefaultFairnessPolicyRef handle)
                         (\<lambda>fp. Inr (p\<lparr>pb_FairnessPolicy := Some fp\<rparr>))
             | Some _ \<Rightarrow> Inr p)"

definition NewPriorityBandConfig :: "(string \<Rightarrow> Plugin option) \<Rightarrow> int \<Rightarrow> PriorityBandConfigOption list
    \<Rightarrow> fc_error + PriorityBandConfig" where
  "NewPriorityBandConfig handle priority opts =
     sum_bind (apply_opts opts \<lparr>pb_Priority = priority, pb_OrderingPolicy = None, pb_FairnessPolicy = None,
                 pb_Queue = '''', pb_MaxBytes = 0, pb_MaxRequests = 0\<rparr>)
       (applyDefaults handle)"

definition band_validate :: "PriorityBandConfig \<Rightarrow> fc_error option" where
  "band_validate p =
     (case pb_OrderingPolicy p of
        None \<Rightarrow> Some (ErrMsg ''OrderingPolicy instance is missing'')
      | Some pol \<Rightarrow>
          if pb_FairnessPolicy p = None then Some (ErrMsg ''FairnessPolicy instance is missing'')
          else if pb_Queue p = '''' then Some (ErrMsg ''Queue required'')
          else map_option (\<lambda>e. Errorf [e]) (CheckCompatibility pol (pb_Queue p)))"

text \<open>The template is dereferenced before it is validated: a nil template panics.\<close>

definition config_validate :: "Config \<Rightarrow> fc_error option option" where
  "config_validate c =
     (if cf_InitialShardCount c \<le> 0 then Some (Some (ErrMsg ''initialShardCount must be greater than 0''))
      else if cf_FlowGCTimeout c \<le> 0 then Some (Some (ErrMsg ''flowGCTimeout must be positive''))
      else if cf_PriorityBandGCTimeout c \<le> 0 then Some (Some (ErrMsg ''priorityBandGCTimeout must be positive''))
      else if cf_PriorityBandGCTimeout c < cf_FlowGCTimeout c
      then Some (Some (ErrMsg ''priorityBandGCTimeout must be >= flowGCTimeout''))
      else (case cf_DefaultPriorityBand c of
              None \<Rightarrow> None
            | Some t \<Rightarrow>
                (case band_validate (t\<lparr>pb_Priority := 0\<rparr>) of
                   Some e \<Rightarrow> Some (Some (Errorf [e]))
                 | None \<Rightarrow> Some (first_some (\<lambda>(prio, band). band_validate band) (cf_PriorityBands c)))))"

fun default_all :: "(string \<Rightarrow> Plugin option) \<Rightarrow> (int, PriorityBandConfig) gomap
    \<Rightarrow> fc_error + (int, PriorityBandConfig) gomap" where
  "default_all handle [] = Inr []"
| "default_all handle ((prio, band) # bands) =
     sum_bind (applyDefaults handle band)
       (\<lambda>b. sum_bind (default_all handle bands) (\<lambda>bs. Inr ((prio, b) # bs)))"

definition NewConfig :: "(string \<Rightarrow> Plugin option) \<Rightarrow> ConfigOption list \<Rightarrow> (fc_error + Config) option" where
  "NewConfig handle opts =
     (let base = \<lparr>cf_MaxBytes = 0, cf_MaxRequests = 0, cf_PriorityBands = [], cf_DefaultPriorityBand = None,
                  cf_InitialShardCount = defaultInitialShardCount, cf_FlowGCTimeout = defaultFlowGCTimeout,
                  cf_PriorityBandGCTimeout = defaultPriorityBandGCTimeout\<rparr>;
          built = sum_bind (apply_opts opts base)
            (\<lambda>c. sum_bind (case cf_DefaultPriorityBand c of
                             None \<Rightarrow> NewPriorityBandConfig handle 0 []
                           | Some t \<Rightarrow> applyDefaults handle t)
              (\<lambda>t. sum_bind (default_all handle (cf_PriorityBands c))
                (\<lambda>bs. Inr (c\<lparr>cf_DefaultPriorityBand := Some t, cf_PriorityBands := bs\<rparr>))))
      in case built of
           Inl e \<Rightarrow> Some (Inl e)
         | Inr c \<Rightarrow> (case config_validate c of
                       None \<Rightarrow> None
                     | Some (Some e) \<Rightarrow> Some (Inl (Errorf [e]))
                     | Some None \<Rightarrow> Some (Inr c)))"

subsection \<open>The configuration of the API\<close>

record ApiBand =
  ab_Priority :: int
  ab_MaxBytes :: "int64 option"
  ab_MaxRequests :: "int64 option"
  ab_OrderingPolicyRef :: string
  ab_FairnessPolicyRef :: string

record ApiConfig =
  ac_MaxBytes :: "int64 option"
  ac_MaxRequests :: "int64 option"
  ac_DefaultPriorityBand :: "ApiBand option"
  ac_PriorityBands :: "ApiBand list"

definition resolveQuantity :: "int64 option \<Rightarrow> fc_error + uint64" where
  "resolveQuantity q =
     (case q of
        None \<Rightarrow> Inr 0
      | Some v \<Rightarrow> if sint v < 0 then Inl (ErrMsg ''must be non-negative'') else Inr v)"

definition band_opts :: "(string \<Rightarrow> Plugin option) \<Rightarrow> ApiBand \<Rightarrow> fc_error + PriorityBandConfigOption list" where
  "band_opts handle band =
     sum_bind (resolveQuantity (ab_MaxBytes band)) (\<lambda>maxBytes.
     sum_bind (resolveQuantity (ab_MaxRequests band)) (\<lambda>maxRequests.
       Inr ((if maxBytes > 0 then [WithBandMaxBytes maxBytes] else [])
            @ (if maxRequests > 0 then [WithBandMaxRequests maxRequests] else [])
            @ (if ab_OrderingPolicyRef band \<noteq> '''' then [WithOrderingPolicy (ab_OrderingPolicyRef band) handle] else [])
            @ (if ab_FairnessPolicyRef band \<noteq> '''' then [WithFairnessPolicy (ab_FairnessPolicyRef band) handle] else []))))"

fun wrap_err :: "fc_error + 'a \<Rightarrow> fc_error + 'a" where
  "wrap_err (Inl e) = Inl (Errorf [e])"
| "wrap_err (Inr x) = Inr x"

definition buildDefaultPriorityBandTemplate :: "(string \<Rightarrow> Plugin option) \<Rightarrow> ApiBand \<Rightarrow> fc_error + PriorityBandConfig" where
  "buildDefaultPriorityBandTemplate handle apiBand =
     sum_bind (band_opts handle apiBand) (\<lambda>opts. wrap_err (NewPriorityBandConfig handle 0 opts))"

definition buildPriorityBand :: "(string \<Rightarrow> Plugin option) \<Rightarrow> ApiBand \<Rightarrow> fc_error + PriorityBandConfig" where
  "buildPriorityBand handle band =
     sum_bind (band_opts handle band) (\<lambda>opts. wrap_err (NewPriorityBandConfig handle (ab_Priority band) opts))"

fun build_bands :: "(string \<Rightarrow> Plugin option) \<Rightarrow> ApiBand list \<Rightarrow> fc_error + ConfigOption list" where
  "build_bands handle [] = Inr []"
| "build_bands handle (b # bs) =
     sum_bind (buildPriorityBand handle b)
       (\<lambda>pb. sum_bind (build_bands handle bs) (\<lambda>opts. Inr (WithPriorityBand (Some pb) # opts)))"

definition NewConfigFromAPI :: "ApiConfig option \<Rightarrow> (string \<Rightarrow> Plugin option) \<Rightarrow> (fc_error + Config) option" where
  "NewConfigFromAPI apiConfig handle =
     (case apiConfig of
        None \<Rightarrow> NewConfig handle []
      | Some api \<Rightarrow>
          (let opts =
             sum_bind (resolveQuantity (ac_MaxBytes api)) (\<lambda>maxBytes.
             sum_bind (resolveQuantity (ac_MaxRequests api)) (\<lambda>maxRequests.
             sum_bind (case ac_DefaultPriorityBand api of
                         None \<Rightarrow> Inr []
                       | Some t \<Rightarrow> sum_bind (buildDefaultPriorityBandTemplate handle t)
                                     (\<lambda>b. Inr [WithDefaultPriorityBand (Some b)])) (\<lambda>template.
             sum_bind (build_bands handle (ac_PriorityBands api)) (\<lambda>bands.
               Inr ((if maxBytes > 0 then [WithMaxBytes maxBytes] else [])
                    @ (if maxRequests > 0 then [WithMaxRequests maxRequests] else []) @ template @ bands)))))
           in case opts of Inl e \<Rightarrow> Some (Inl e) | Inr os \<Rightarrow> NewConfig handle os))"

subsection \<open>Partitioning\<close>

text \<open>A division by zero panics.\<close>

definition partitionUint64 :: "uint64 \<Rightarrow> int64 \<Rightarrow> int64 \<Rightarrow> uint64 option" where
  "partitionUint64 tot partitionIndex totalPartitions =
     (if tot = 0 then Some 0
      else if totalPartitions = 0 then None
      else (let base = tot div totalPartitions; remainder = tot mod totalPartitions
            in Some (if partitionIndex < remainder then base + 1 else base)))"

record ShardConfig =
  sc_MaxBytes :: uint64
  sc_MaxRequests :: uint64
  sc_PriorityBands :: "(int, PriorityBandConfig) gomap"

fun partition_bands :: "int64 \<Rightarrow> int64 \<Rightarrow> (int, PriorityBandConfig) gomap \<Rightarrow> (int, PriorityBandConfig) gomap option" where
  "partition_bands i n [] = Some []"
| "partition_bands i n ((prio, t) # ts) =
     do { mb \<leftarrow> partitionUint64 (pb_MaxBytes t) i n;
          mr \<leftarrow> partitionUint64 (pb_MaxRequests t) i n;
          rest \<leftarrow> partition_bands i n ts;
          Some (gm_set (pb_Priority t) (t\<lparr>pb_MaxBytes := mb, pb_MaxRequests := mr\<rparr>) rest) }"

definition config_partition :: "int64 \<Rightarrow> int64 \<Rightarrow> Config \<Rightarrow> ShardConfig option" where
  "config_partition shardIndex totalShards c =
     do { mb \<leftarrow> partitionUint64 (cf_MaxBytes c) shardIndex totalShards;
          mr \<leftarrow> partitionUint64 (cf_MaxRequests c) shardIndex totalShards;
          bands \<leftarrow> partition_bands shardIndex totalShards (cf_PriorityBands c);
          Some \<lparr>sc_MaxBytes = mb, sc_MaxRequests = mr, sc_PriorityBands = bands\<rparr> }"

text \<open>Values are copied by \<open>Clone\<close>, so on values it is the identity.\<close>

definition Clone :: "Config \<Rightarrow> Config" where
  "Clone c = c\<lparr>cf_DefaultPriorityBand := map_option (\<lambda>b. b) (cf_DefaultPriorityBand c),
               cf_PriorityBands := map (\<lambda>(prio, band). (prio, band)) (cf_PriorityBands c)\<rparr>"

subsection \<open>Facts about partitioning\<close>

lemma partition_unat:
  assumes n: "0 < n" "n < 2 ^ 63" and i: "i < n"
  shows "\<exists>v. partitionUint64 tot (of_nat i) (of_nat n) = Some v \<and>
     unat v = unat tot div n + (if i < unat tot mod n then 1 else 0)"
proof -
  have un: "unat (of_nat n :: int64) = n" "unat (of_nat i :: int64) = i"
    using n i by (simp_all add: unat_of_nat take_bit_nat_eq_self)
  have nz: "(of_nat n :: int64) \<noteq> 0" using un(1) n(1) by (metis unat_0 less_irrefl)
  have d: "unat (tot div of_nat n) = unat tot div n" "unat (tot mod of_nat n) = unat tot mod n"
    using un by (simp_all add: unat_div_distrib unat_mod_distrib)
  have lt: "(of_nat i :: int64) < tot mod of_nat n \<longleftrightarrow> i < unat tot mod n"
    using un d by (simp add: word_less_nat_alt)
  have "unat (tot div of_nat n + 1) = unat tot div n + 1" if "i < unat tot mod n"
  proof -
    have "unat tot mod n + unat tot div n \<le> unat tot"
      using n(1) mod_mult_div_eq [of "unat tot" n] by (metis add_le_mono le_refl mult.commute mult_le_mono1 nat_mult_1 One_nat_def Suc_leI)
    then have "unat tot div n + 1 \<le> unat tot" using that by simp
    also have "\<dots> < 2 ^ 64" using unsigned_less [of tot] by simp
    finally show ?thesis using d(1) by (simp add: unat_word_ariths)
  qed
  then show ?thesis using lt d nz by (auto simp: partitionUint64_def Let_def)
qed

lemma partition_one: "partitionUint64 v 0 1 = Some v"
  by (simp add: partitionUint64_def)

lemma sum_first: "(\<Sum>i<n. if i < r then 1 else 0 :: nat) = min n r"
  by (induction n) auto

subsection \<open>Facts about defaults and validation\<close>

lemma sum_bind_Inr: "sum_bind x f = Inr y \<longleftrightarrow> (\<exists>z. x = Inr z \<and> f z = Inr y)"
  by (cases x) auto

lemma NewQueueFromName_Inr:
  "(\<exists>q. NewQueueFromName name policy addr = Inr q) \<longleftrightarrow> name = ListQueueName \<or> name = MaxMinHeapName"
  by (simp add: NewQueueFromName_def RegisteredQueues_def)

lemma NewQueueFromName_empty:
  "NewQueueFromName name policy addr = Inr q \<Longrightarrow> q_wf st q \<and> q_items q = []"
  by (auto simp: NewQueueFromName_def RegisteredQueues_def newListQueue_def list_wf_def list_items_def
      heap_wf_new newMaxMinHeap_def heap_wf_def index_ok_def split: if_splits)

text \<open>What a validated band gives the registry: both policies, a registered queue, and a queue that
  can order by the policy when the policy asks for it.\<close>

definition band_ok :: "PriorityBandConfig \<Rightarrow> bool" where
  "band_ok p \<longleftrightarrow> (\<exists>pol fp q. pb_OrderingPolicy p = Some pol \<and> pb_FairnessPolicy p = Some fp \<and>
     NewQueueFromName (pb_Queue p) pol 0 = Inr q \<and> set (op_RequiredQueueCapabilities pol) \<subseteq> set (q_Capabilities q))"

lemma band_validate_ok: "band_validate p = None \<Longrightarrow> band_ok p"
  by (auto simp: band_validate_def CheckCompatibility_def band_ok_def list_all_iff
      split: option.splits sum.splits if_splits)

lemma first_some_None: "first_some f xs = None \<longleftrightarrow> (\<forall>x \<in> set xs. f x = None)"
  by (induction xs) (auto split: option.splits)

definition config_ok :: "Config \<Rightarrow> bool" where
  "config_ok c \<longleftrightarrow> 0 < cf_FlowGCTimeout c \<and> cf_FlowGCTimeout c \<le> cf_PriorityBandGCTimeout c \<and>
     (\<exists>t. cf_DefaultPriorityBand c = Some t \<and> band_ok t) \<and> (\<forall>(prio, b) \<in> set (cf_PriorityBands c). band_ok b)"

lemma config_validate_ok:
  assumes "config_validate c = Some None"
  shows "config_ok c"
proof -
  obtain t where t: "cf_DefaultPriorityBand c = Some t" "band_validate (t\<lparr>pb_Priority := 0\<rparr>) = None"
    "first_some (\<lambda>(prio, band). band_validate band) (cf_PriorityBands c) = None"
    and g: "0 < cf_FlowGCTimeout c" "cf_FlowGCTimeout c \<le> cf_PriorityBandGCTimeout c"
    using assms by (auto simp: config_validate_def split: if_splits option.splits)
  have "band_ok t" using band_validate_ok [OF t(2)] by (simp add: band_ok_def)
  moreover have "band_ok b" if "(prio, b) \<in> set (cf_PriorityBands c)" for prio b
    using that t(3) band_validate_ok by (fastforce simp: first_some_None)
  ultimately show ?thesis using t(1) g by (auto simp: config_ok_def)
qed

text \<open>The defaults fill in every missing field, so building a configuration never dereferences the nil
  template, whatever the options do.\<close>

lemma NewConfig_total: "NewConfig handle opts \<noteq> None"
  by (auto simp: NewConfig_def Let_def sum_bind_Inr config_validate_def split: sum.splits option.splits if_splits)

lemma NewConfig_ok: "NewConfig handle opts = Some (Inr c) \<Longrightarrow> config_ok c"
  by (auto simp: NewConfig_def Let_def split: sum.splits option.splits intro: config_validate_ok)

lemma NewConfigFromAPI_cases:
  "\<exists>opts. NewConfigFromAPI api handle = NewConfig handle opts \<or> (\<exists>e. NewConfigFromAPI api handle = Some (Inl e))"
  by (auto simp: NewConfigFromAPI_def Let_def split: option.splits sum.splits)

subsection \<open>Properties\<close>

text \<open>C33: Partitioning a capacity over \<open>n\<close> shards hands out exactly the total, and no two shards differ
  by more than one.\<close>

theorem partition_complete:
  assumes "0 < n" "n < 2 ^ 63"
  shows "(\<Sum>i<n. unat (the (partitionUint64 tot (of_nat i) (of_nat n)))) = unat tot \<and>
     (\<forall>i<n. \<forall>j<n. unat (the (partitionUint64 tot (of_nat i) (of_nat n))) \<le>
        unat (the (partitionUint64 tot (of_nat j) (of_nat n))) + 1)"
proof -
  have v: "unat (the (partitionUint64 tot (of_nat i) (of_nat n))) =
      unat tot div n + (if i < unat tot mod n then 1 else 0)" if "i < n" for i
    using partition_unat [OF assms that, of tot] by auto
  have "(\<Sum>i<n. unat (the (partitionUint64 tot (of_nat i) (of_nat n)))) =
      (\<Sum>i<n. unat tot div n + (if i < unat tot mod n then 1 else 0))"
    by (rule sum.cong) (simp_all add: v)
  also have "\<dots> = n * (unat tot div n) + min n (unat tot mod n)"
    by (simp add: sum.distrib sum_first)
  also have "min n (unat tot mod n) = unat tot mod n"
    using assms(1) mod_less_divisor [of n "unat tot"] by (simp add: min_absorb2 del: mod_less_divisor)
  finally have "(\<Sum>i<n. unat (the (partitionUint64 tot (of_nat i) (of_nat n)))) = unat tot" by simp
  then show ?thesis by (auto simp: v)
qed

theorem partition_complete_witness:
  "(\<Sum>i<3. unat (the (partitionUint64 1000000000 (of_nat i) (of_nat 3)))) = 1000000000"
  using partition_complete [of 3 1000000000] by simp

text \<open>C34: Building a configuration never panics. When it succeeds, every configured band and the
  template for bands provisioned later have both policies and a queue that the factory can build and
  that offers every capability the ordering policy requires, and idle flows are collected no later
  than idle bands.\<close>

theorem NewConfigFromAPI_valid:
  "NewConfigFromAPI api handle \<noteq> None \<and>
   (\<forall>c. NewConfigFromAPI api handle = Some (Inr c) \<longrightarrow>
      0 < cf_FlowGCTimeout c \<and> cf_FlowGCTimeout c \<le> cf_PriorityBandGCTimeout c \<and>
      (\<forall>b \<in> insert (the (cf_DefaultPriorityBand c)) (snd ` set (cf_PriorityBands c)).
         \<exists>pol fp q. pb_OrderingPolicy b = Some pol \<and> pb_FairnessPolicy b = Some fp \<and>
           NewQueueFromName (pb_Queue b) pol 0 = Inr q \<and>
           set (op_RequiredQueueCapabilities pol) \<subseteq> set (q_Capabilities q)))"
proof -
  obtain opts where o: "NewConfigFromAPI api handle = NewConfig handle opts \<or>
      (\<exists>e. NewConfigFromAPI api handle = Some (Inl e))" using NewConfigFromAPI_cases by blast
  then have "NewConfigFromAPI api handle \<noteq> None" using NewConfig_total [of handle opts] by auto
  moreover have "config_ok c" if "NewConfigFromAPI api handle = Some (Inr c)" for c
    using that o NewConfig_ok [of handle opts c] by auto
  ultimately show ?thesis by (fastforce simp: config_ok_def band_ok_def)
qed

definition demo_handle :: "string \<Rightarrow> Plugin option" where
  "demo_handle ref =
     (if ref = ''fcfs-ordering-policy'' then Some (OrderingPlugin fcfs_policy)
      else if ref = ''edf-ordering-policy'' then Some (OrderingPlugin edf_policy)
      else if ref = ''global-strict-fairness-policy'' then Some (FairnessPlugin GlobalStrict)
      else if ref = ''round-robin-fairness-policy'' then Some (FairnessPlugin RoundRobin)
      else None)"

theorem NewConfigFromAPI_valid_witness:
  "\<exists>c t pol fp q. NewConfigFromAPI (Some \<lparr>ac_MaxBytes = Some 500, ac_MaxRequests = None, ac_DefaultPriorityBand =
         Some \<lparr>ab_Priority = 0, ab_MaxBytes = None, ab_MaxRequests = None,
               ab_OrderingPolicyRef = ''edf-ordering-policy'', ab_FairnessPolicyRef = ''''\<rparr>,
         ac_PriorityBands = []\<rparr>) demo_handle = Some (Inr c) \<and>
     cf_DefaultPriorityBand c = Some t \<and> pb_Queue t = MaxMinHeapName \<and> pb_OrderingPolicy t = Some pol \<and>
     pb_FairnessPolicy t = Some fp \<and> NewQueueFromName (pb_Queue t) pol 0 = Inr q \<and>
     CapabilityPriorityConfigurable \<in> set (q_Capabilities q)"
proof -
  let ?api = "Some \<lparr>ac_MaxBytes = Some 500, ac_MaxRequests = None, ac_DefaultPriorityBand =
         Some \<lparr>ab_Priority = 0, ab_MaxBytes = None, ab_MaxRequests = None,
               ab_OrderingPolicyRef = ''edf-ordering-policy'', ab_FairnessPolicyRef = ''''\<rparr>,
         ac_PriorityBands = []\<rparr>"
  have "\<exists>c t. NewConfigFromAPI ?api demo_handle = Some (Inr c) \<and> cf_DefaultPriorityBand c = Some t \<and>
      pb_Queue t = MaxMinHeapName \<and> pb_OrderingPolicy t = Some edf_policy"
    by (simp add: NewConfigFromAPI_def resolveQuantity_def buildDefaultPriorityBandTemplate_def band_opts_def
        NewPriorityBandConfig_def WithOrderingPolicy_def orderingPolicy_def demo_handle_def applyDefaults_def
        fairnessPolicy_def DefaultFairnessPolicyRef_def NewConfig_def WithMaxBytes_def WithDefaultPriorityBand_def
        config_validate_def band_validate_def CheckCompatibility_def NewQueueFromName_def RegisteredQueues_def
        edf_policy_def defaultPriorityBandMaxBytes_def defaultInitialShardCount_def defaultFlowGCTimeout_def
        defaultPriorityBandGCTimeout_def ListQueueName_def MaxMinHeapName_def Let_def)
  then obtain c t where c: "NewConfigFromAPI ?api demo_handle = Some (Inr c)" "cf_DefaultPriorityBand c = Some t"
    "pb_Queue t = MaxMinHeapName" "pb_OrderingPolicy t = Some edf_policy" by blast
  then show ?thesis using NewConfigFromAPI_valid [of ?api demo_handle] by (fastforce simp: edf_policy_def)
qed

end
