(* ===== verification/Shard.thy ===== *)
theory Shard
  imports RegistryConfig
begin

text \<open>
  The registry shard (\<open>flowcontrol/registry/shard.go\<close>): priority bands with their queues, the counters
  of band and shard, and the propagation of every queue's delta to both. The map of bands and the maps
  of queues are iterated, so they are association lists. A nil map entry that is dereferenced is
  \<^const>\<open>None\<close>.
\<close>

subsection \<open>State\<close>

text \<open>The opaque state a fairness policy keeps per band: nothing, or the round-robin cursor.\<close>

datatype PolicyState = NilState | RoundRobinCursor "FlowKey option"

fun NewState :: "FairnessPolicy \<Rightarrow> PolicyState" where
  "NewState GlobalStrict = NilState"
| "NewState RoundRobin = RoundRobinCursor None"

record priorityBand =
  bd_fairnessPolicy :: FairnessPolicy
  bd_policyState :: PolicyState
  bd_config :: PriorityBandConfig
  bd_queues :: "(string, managedQueue) gomap"
  bd_byteSize :: int64
  bd_len :: int64

record registryShard =
  sh_id :: string
  sh_config :: ShardConfig
  sh_orderedPriorityLevels :: "int list"
  sh_priorityBands :: "(int, priorityBand) gomap"
  sh_isDraining :: bool
  sh_totalByteSize :: int64
  sh_totalLen :: int64

subsection \<open>Bands\<close>

definition sort_desc :: "int list \<Rightarrow> int list" where
  "sort_desc xs = rev (sort xs)"

definition initPriorityBand :: "PriorityBandConfig \<Rightarrow> registryShard \<Rightarrow> registryShard option" where
  "initPriorityBand bandConfig s =
     (case pb_FairnessPolicy bandConfig of
        None \<Rightarrow> None
      | Some fp \<Rightarrow>
          Some (s\<lparr>sh_priorityBands :=
                    gm_set (pb_Priority bandConfig)
                      \<lparr>bd_fairnessPolicy = fp, bd_policyState = NewState fp, bd_config = bandConfig,
                       bd_queues = [], bd_byteSize = 0, bd_len = 0\<rparr> (sh_priorityBands s),
                  sh_orderedPriorityLevels :=
                    sort_desc (sh_orderedPriorityLevels s @ [pb_Priority bandConfig])\<rparr>))"

fun init_bands :: "(int, PriorityBandConfig) gomap \<Rightarrow> registryShard \<Rightarrow> registryShard option" where
  "init_bands [] s = Some s"
| "init_bands ((prio, cfg) # cfgs) s = do { s' \<leftarrow> initPriorityBand cfg s; init_bands cfgs s' }"

definition newShard :: "string \<Rightarrow> ShardConfig \<Rightarrow> registryShard option" where
  "newShard sid config =
     init_bands (sc_PriorityBands config)
       \<lparr>sh_id = sid, sh_config = config, sh_orderedPriorityLevels = [], sh_priorityBands = [],
        sh_isDraining = False, sh_totalByteSize = 0, sh_totalLen = 0\<rparr>"

definition addPriorityBand :: "int \<Rightarrow> registryShard \<Rightarrow> registryShard option" where
  "addPriorityBand priority s =
     (if gm_get (sh_priorityBands s) priority \<noteq> None then Some s
      else (case gm_get (sc_PriorityBands (sh_config s)) priority of
              None \<Rightarrow> None
            | Some bandConfig \<Rightarrow> initPriorityBand bandConfig s))"

definition shard_deletePriorityBand :: "int \<Rightarrow> registryShard \<Rightarrow> registryShard" where
  "shard_deletePriorityBand priority s =
     s\<lparr>sh_priorityBands := gm_del priority (sh_priorityBands s),
       sh_config := (sh_config s)\<lparr>sc_PriorityBands := gm_del priority (sc_PriorityBands (sh_config s))\<rparr>,
       sh_orderedPriorityLevels := remove1 priority (sh_orderedPriorityLevels s)\<rparr>"

subsection \<open>Accessors\<close>

definition IsActive :: "registryShard \<Rightarrow> bool" where
  "IsActive s = (\<not> sh_isDraining s)"

definition ManagedQueue_of :: "FlowKey \<Rightarrow> registryShard \<Rightarrow> fc_error + managedQueue" where
  "ManagedQueue_of key s =
     (case gm_get (sh_priorityBands s) (fk_Priority key) of
        None \<Rightarrow> Inl (Errorf [ErrPriorityBandNotFound])
      | Some band \<Rightarrow> (case gm_get (bd_queues band) (fk_ID key) of
                        None \<Rightarrow> Inl (Errorf [ErrFlowInstanceNotFound])
                      | Some mq \<Rightarrow> Inr mq))"

definition FairnessPolicy_of :: "int \<Rightarrow> registryShard \<Rightarrow> fc_error + FairnessPolicy" where
  "FairnessPolicy_of priority s =
     (case gm_get (sh_priorityBands s) priority of
        None \<Rightarrow> Inl (Errorf [ErrPriorityBandNotFound])
      | Some band \<Rightarrow> Inr (bd_fairnessPolicy band))"

definition PriorityBandAccessor :: "int \<Rightarrow> registryShard \<Rightarrow> fc_error + priorityBand" where
  "PriorityBandAccessor priority s =
     (case gm_get (sh_priorityBands s) priority of
        None \<Rightarrow> Inl (Errorf [ErrPriorityBandNotFound])
      | Some band \<Rightarrow> Inr band)"

definition AllOrderedPriorityLevels :: "registryShard \<Rightarrow> int list" where
  "AllOrderedPriorityLevels s = sh_orderedPriorityLevels s"

definition FlowKeys :: "priorityBand \<Rightarrow> FlowKey list" where
  "FlowKeys band = map (\<lambda>(fid, mq). FlowKey fid (pb_Priority (bd_config band))) (bd_queues band)"

definition band_Queue :: "string \<Rightarrow> priorityBand \<Rightarrow> managedQueue option" where
  "band_Queue fid band = gm_get (bd_queues band) fid"

text \<open>\<open>IterateQueues\<close> runs the callback over a snapshot of the queues until it returns false.\<close>

fun iterate_queues :: "('s \<Rightarrow> managedQueue \<Rightarrow> 's \<times> bool) \<Rightarrow> managedQueue list \<Rightarrow> 's \<Rightarrow> 's" where
  "iterate_queues callback [] a = a"
| "iterate_queues callback (mq # mqs) a =
     (let (a', keep) = callback a mq in if keep then iterate_queues callback mqs a' else a')"

definition IterateQueues :: "('s \<Rightarrow> managedQueue \<Rightarrow> 's \<times> bool) \<Rightarrow> priorityBand \<Rightarrow> 's \<Rightarrow> 's" where
  "IterateQueues callback band a = iterate_queues callback (map snd (bd_queues band)) a"

record PriorityBandStats =
  bs_Priority :: int
  bs_CapacityBytes :: uint64
  bs_CapacityRequests :: uint64
  bs_ByteSize :: uint64
  bs_Len :: uint64

record ShardStats =
  ss_ID :: string
  ss_IsActive :: bool
  ss_TotalCapacityBytes :: uint64
  ss_TotalCapacityRequests :: uint64
  ss_TotalByteSize :: uint64
  ss_TotalLen :: uint64
  ss_PerPriorityBandStats :: "(int, PriorityBandStats) gomap"

definition shard_Stats :: "registryShard \<Rightarrow> ShardStats" where
  "shard_Stats s =
     \<lparr>ss_ID = sh_id s, ss_IsActive = IsActive s,
      ss_TotalCapacityBytes = sc_MaxBytes (sh_config s), ss_TotalCapacityRequests = sc_MaxRequests (sh_config s),
      ss_TotalByteSize = sh_totalByteSize s, ss_TotalLen = sh_totalLen s,
      ss_PerPriorityBandStats =
        map (\<lambda>(priority, band).
               (priority, \<lparr>bs_Priority = priority, bs_CapacityBytes = pb_MaxBytes (bd_config band),
                           bs_CapacityRequests = pb_MaxRequests (bd_config band),
                           bs_ByteSize = bd_byteSize band, bs_Len = bd_len band\<rparr>))
          (sh_priorityBands s)\<rparr>"

subsection \<open>Flows and configuration\<close>

definition synchronizeFlow :: "FlowKey \<Rightarrow> OrderingPolicy \<Rightarrow> SafeQ \<Rightarrow> registryShard \<Rightarrow> registryShard option" where
  "synchronizeFlow key policy q s =
     (case gm_get (sh_priorityBands s) (fk_Priority key) of
        None \<Rightarrow> None
      | Some band \<Rightarrow>
          if gm_get (bd_queues band) (fk_ID key) \<noteq> None then Some s
          else Some (s\<lparr>sh_priorityBands := gm_set (fk_Priority key)
                       (band\<lparr>bd_queues := gm_set (fk_ID key) (newManagedQueue q policy key) (bd_queues band)\<rparr>)
                       (sh_priorityBands s)\<rparr>))"

definition deleteFlow :: "FlowKey \<Rightarrow> registryShard \<Rightarrow> registryShard" where
  "deleteFlow key s =
     (case gm_get (sh_priorityBands s) (fk_Priority key) of
        None \<Rightarrow> s
      | Some band \<Rightarrow> s\<lparr>sh_priorityBands := gm_set (fk_Priority key)
                          (band\<lparr>bd_queues := gm_del (fk_ID key) (bd_queues band)\<rparr>) (sh_priorityBands s)\<rparr>)"

definition markAsDraining :: "registryShard \<Rightarrow> registryShard" where
  "markAsDraining s = s\<lparr>sh_isDraining := True\<rparr>"

fun update_bands :: "(int, PriorityBandConfig) gomap \<Rightarrow> (int, priorityBand) gomap \<Rightarrow> (int, priorityBand) gomap option" where
  "update_bands cfg [] = Some []"
| "update_bands cfg ((priority, band) # bands) =
     do { c \<leftarrow> gm_get cfg priority;
          bs \<leftarrow> update_bands cfg bands;
          Some ((priority, band\<lparr>bd_config := c\<rparr>) # bs) }"

definition updateConfig :: "ShardConfig \<Rightarrow> registryShard \<Rightarrow> registryShard option" where
  "updateConfig newConfig s =
     do { bs \<leftarrow> update_bands (sc_PriorityBands newConfig) (sh_priorityBands s);
          Some (s\<lparr>sh_config := newConfig, sh_priorityBands := bs\<rparr>) }"

subsection \<open>Statistics\<close>

fun shard_propagateStatsDelta :: "StatsDelta \<Rightarrow> registryShard \<Rightarrow> registryShard option" where
  "shard_propagateStatsDelta (priority, lenDelta, byteSizeDelta) s =
     (case gm_get (sh_priorityBands s) priority of
        None \<Rightarrow> None
      | Some band \<Rightarrow>
          Some (s\<lparr>sh_priorityBands := gm_set priority
                    (band\<lparr>bd_len := bd_len band + lenDelta, bd_byteSize := bd_byteSize band + byteSizeDelta\<rparr>)
                    (sh_priorityBands s),
                  sh_totalLen := sh_totalLen s + lenDelta,
                  sh_totalByteSize := sh_totalByteSize s + byteSizeDelta\<rparr>))"

fun shard_propagate :: "StatsDelta list \<Rightarrow> registryShard \<Rightarrow> registryShard option" where
  "shard_propagate [] s = Some s"
| "shard_propagate (d # ds) s = do { s' \<leftarrow> shard_propagateStatsDelta d s; shard_propagate ds s' }"

text \<open>The managed queues are shared objects: an operation on one of them is an operation on the shard
  that stores the queue back and propagates its deltas. The deltas are returned for the registry.\<close>

definition put_queue :: "FlowKey \<Rightarrow> managedQueue \<Rightarrow> registryShard \<Rightarrow> registryShard" where
  "put_queue key mq s =
     (case gm_get (sh_priorityBands s) (fk_Priority key) of
        None \<Rightarrow> s
      | Some band \<Rightarrow> s\<lparr>sh_priorityBands := gm_set (fk_Priority key)
                          (band\<lparr>bd_queues := gm_set (fk_ID key) mq (bd_queues band)\<rparr>) (sh_priorityBands s)\<rparr>)"

definition put_back :: "FlowKey \<Rightarrow> managedQueue \<Rightarrow> StatsDelta list \<Rightarrow> registryShard \<Rightarrow> registryShard option" where
  "put_back key mq ds s = shard_propagate ds (put_queue key mq s)"

subsection \<open>Well-formed shards\<close>

definition shard_queues :: "registryShard \<Rightarrow> managedQueue list" where
  "shard_queues s = concat (map (\<lambda>(p, b). map snd (bd_queues b)) (sh_priorityBands s))"

definition shard_items :: "registryShard \<Rightarrow> FlowItem list" where
  "shard_items s = concat (map mq_items (shard_queues s))"

definition queue_in :: "registryShard \<Rightarrow> FlowKey \<Rightarrow> managedQueue \<Rightarrow> bool" where
  "queue_in s key mq \<longleftrightarrow> (\<exists>b. (fk_Priority key, b) \<in> set (sh_priorityBands s) \<and> (fk_ID key, mq) \<in> set (bd_queues b))"

text \<open>Every band stands under its priority and every queue under its key, holds only items of that
  flow, and no item is in two places.\<close>

definition shard_wf :: "Store \<Rightarrow> registryShard \<Rightarrow> bool" where
  "shard_wf st s \<longleftrightarrow>
     gm_ok (sh_priorityBands s) \<and>
     (\<forall>(p, b) \<in> set (sh_priorityBands s). gm_ok (bd_queues b) \<and> pb_Priority (bd_config b) = p) \<and>
     (\<forall>key mq. queue_in s key mq \<longrightarrow> mq_key mq = key \<and> mq_inv st mq \<and> (\<forall>x \<in> set (mq_items mq). item_key x = key)) \<and>
     (\<forall>key mq key' mq' x y. queue_in s key mq \<longrightarrow> queue_in s key' mq' \<longrightarrow> x \<in> set (mq_items mq) \<longrightarrow>
        y \<in> set (mq_items mq') \<longrightarrow> fi_ref x = fi_ref y \<or> Handle st x = Handle st y \<longrightarrow> key = key' \<and> x = y)"

definition stats_exact :: "registryShard \<Rightarrow> bool" where
  "stats_exact s \<longleftrightarrow>
     (\<forall>(p, b) \<in> set (sh_priorityBands s).
        bd_len b = wsum mq_len (map snd (bd_queues b)) \<and> bd_byteSize b = wsum mq_byteSize (map snd (bd_queues b))) \<and>
     sh_totalLen s = wsum bd_len (map snd (sh_priorityBands s)) \<and>
     sh_totalByteSize s = wsum bd_byteSize (map snd (sh_priorityBands s))"

lemma ManagedQueue_in:
  "ManagedQueue_of key s = Inr mq \<Longrightarrow> queue_in s key mq"
  by (auto simp: ManagedQueue_of_def queue_in_def split: option.splits dest!: gm_get_in)

lemma queue_in_ManagedQueue:
  assumes "shard_wf st s" "queue_in s key mq"
  shows "ManagedQueue_of key s = Inr mq"
proof -
  obtain b where b: "(fk_Priority key, b) \<in> set (sh_priorityBands s)" "(fk_ID key, mq) \<in> set (bd_queues b)"
    using assms(2) by (auto simp: queue_in_def)
  then have "gm_get (sh_priorityBands s) (fk_Priority key) = Some b" "gm_get (bd_queues b) (fk_ID key) = Some mq"
    using assms(1) by (auto simp: shard_wf_def)
  then show ?thesis by (simp add: ManagedQueue_of_def)
qed

lemma shard_wfD:
  assumes "shard_wf st s" "queue_in s key mq"
  shows "mq_key mq = key" "mq_inv st mq" "x \<in> set (mq_items mq) \<Longrightarrow> item_key x = key"
    "queue_in s key' mq' \<Longrightarrow> x \<in> set (mq_items mq) \<Longrightarrow> y \<in> set (mq_items mq') \<Longrightarrow>
       fi_ref x = fi_ref y \<or> Handle st x = Handle st y \<Longrightarrow> key = key' \<and> x = y"
  using assms unfolding shard_wf_def by blast+

lemma queue_in_unique:
  "shard_wf st s \<Longrightarrow> queue_in s key mq \<Longrightarrow> queue_in s key mq' \<Longrightarrow> mq = mq'"
  by (metis queue_in_ManagedQueue sum.inject(2))

text \<open>What storing a queue back does to the shard when its deltas carry the priority of its band.\<close>

definition put_result :: "FlowKey \<Rightarrow> managedQueue \<Rightarrow> StatsDelta list \<Rightarrow> priorityBand \<Rightarrow> registryShard \<Rightarrow> registryShard" where
  "put_result key mq ds b s =
     s\<lparr>sh_priorityBands := gm_set (fk_Priority key)
          (b\<lparr>bd_queues := gm_set (fk_ID key) mq (bd_queues b), bd_len := bd_len b + delta_len ds,
             bd_byteSize := bd_byteSize b + delta_bytes ds\<rparr>) (sh_priorityBands s),
       sh_totalLen := sh_totalLen s + delta_len ds, sh_totalByteSize := sh_totalByteSize s + delta_bytes ds\<rparr>"

lemma shard_propagate_eq:
  assumes "\<forall>d \<in> set ds. fst d = p" "gm_get (sh_priorityBands s) p = Some b"
  shows "shard_propagate ds s = Some
     (s\<lparr>sh_priorityBands := gm_set p (b\<lparr>bd_len := bd_len b + delta_len ds, bd_byteSize := bd_byteSize b + delta_bytes ds\<rparr>)
          (sh_priorityBands s),
        sh_totalLen := sh_totalLen s + delta_len ds, sh_totalByteSize := sh_totalByteSize s + delta_bytes ds\<rparr>)"
  using assms
proof (induction ds arbitrary: s b)
  case Nil
  then show ?case by (simp add: gm_set_same)
next
  case (Cons d ds)
  obtain l z where d: "d = (p, l, z)" using Cons.prems(1) by (cases d) auto
  let ?b = "b\<lparr>bd_len := bd_len b + l, bd_byteSize := bd_byteSize b + z\<rparr>"
  let ?s = "s\<lparr>sh_priorityBands := gm_set p ?b (sh_priorityBands s), sh_totalLen := sh_totalLen s + l,
             sh_totalByteSize := sh_totalByteSize s + z\<rparr>"
  have "gm_get (sh_priorityBands ?s) p = Some ?b" by (simp add: update_conv')
  then show ?case using Cons.IH [of ?s ?b] Cons.prems d by (simp add: gm_set_set add.assoc)
qed

lemma put_back_eq:
  assumes "gm_get (sh_priorityBands s) (fk_Priority key) = Some b" "\<forall>d \<in> set ds. fst d = fk_Priority key"
  shows "put_back key mq ds s = Some (put_result key mq ds b s)"
proof -
  let ?b = "b\<lparr>bd_queues := gm_set (fk_ID key) mq (bd_queues b)\<rparr>"
  let ?s = "s\<lparr>sh_priorityBands := gm_set (fk_Priority key) ?b (sh_priorityBands s)\<rparr>"
  have "put_queue key mq s = ?s" using assms(1) by (simp add: put_queue_def)
  moreover have "gm_get (sh_priorityBands ?s) (fk_Priority key) = Some ?b" by (simp add: update_conv')
  ultimately show ?thesis
    using shard_propagate_eq [OF assms(2)] by (simp add: put_back_def put_result_def gm_set_set)
qed

lemma put_result_queue_in:
  assumes wf: "shard_wf st s" and b: "gm_get (sh_priorityBands s) (fk_Priority key) = Some b"
  shows "queue_in (put_result key mq ds b s) key' mq' \<longleftrightarrow> (if key' = key then mq' = mq else queue_in s key' mq')"
proof -
  have ok: "gm_ok (sh_priorityBands s)" "gm_ok (bd_queues b)"
    using wf gm_get_in [OF b] by (auto simp: shard_wf_def)
  have eq: "key' = key \<longleftrightarrow> fk_Priority key' = fk_Priority key \<and> fk_ID key' = fk_ID key"
    by (cases key; cases key') auto
  have "queue_in s key' mq' \<longleftrightarrow> (fk_ID key', mq') \<in> set (bd_queues b)" if "fk_Priority key' = fk_Priority key"
    using that b map_of_is_SomeI [OF ok(1)] by (fastforce simp: queue_in_def dest: gm_get_in)
  then show ?thesis
    unfolding queue_in_def put_result_def eq
    by (cases "fk_Priority key' = fk_Priority key") (auto simp: gm_set_in [OF ok(1)] gm_set_in [OF ok(2)])
qed

text \<open>The heart of the shard: after any operation on one queue that keeps that queue's invariant,
  touches only its own handles and at most adds one item the shard does not hold, the shard is
  well-formed again and its counters are exact again.\<close>

lemma put_back_wf:
  assumes wf: "shard_wf st s" and found: "ManagedQueue_of key s = Inr mq"
    and inv: "mq_inv st' mq'" and k: "mq_key mq' = mq_key mq" and ds: "\<forall>d \<in> set ds. fst d = fk_Priority key"
    and fr: "frame R K st st'" and K: "K \<subseteq> handles_of st (set (mq_items mq))"
    and R: "\<And>key' m x. queue_in s key' m \<Longrightarrow> key' \<noteq> key \<Longrightarrow> x \<in> set (mq_items m) \<Longrightarrow> fi_ref x \<notin> R"
    and items: "\<And>x. x \<in> set (mq_items mq') \<Longrightarrow> x \<in> set (mq_items mq) \<and> fi_ref x \<notin> R \<or>
       item_key x = key \<and> Handle st' x = Some (st_next st) \<and>
       (\<forall>key' m y. queue_in s key' m \<longrightarrow> y \<in> set (mq_items m) \<longrightarrow> fi_ref y \<noteq> fi_ref x)"
  shows "\<exists>s'. put_back key mq' ds s = Some s' \<and> shard_wf st' s' \<and>
     (\<forall>key' m. queue_in s' key' m \<longleftrightarrow> (if key' = key then m = mq' else queue_in s key' m))"
proof -
  obtain b where b: "gm_get (sh_priorityBands s) (fk_Priority key) = Some b"
    using found by (auto simp: ManagedQueue_of_def split: option.splits)
  let ?s = "put_result key mq' ds b s"
  have q: "queue_in ?s key' m \<longleftrightarrow> (if key' = key then m = mq' else queue_in s key' m)" for key' m
    by (rule put_result_queue_in [OF wf b])
  have in_mq: "queue_in s key mq" by (rule ManagedQueue_in [OF found])
  have bands: "gm_ok (sh_priorityBands ?s)" "(p, b') \<in> set (sh_priorityBands ?s) \<Longrightarrow>
      gm_ok (bd_queues b') \<and> pb_Priority (bd_config b') = p" for p b'
    using wf gm_get_in [OF b] by (auto simp: shard_wf_def put_result_def distinct_update gm_set_in split: if_splits)
  have other: "mq_inv st' m \<and> (\<forall>x \<in> set (mq_items m). Handle st' x = Handle st x)"
    if m: "queue_in s key' m" "key' \<noteq> key" for key' m
  proof -
    have "R \<inter> fi_ref ` set (mq_items m) = {}" using R [OF m] by auto
    moreover have "K \<inter> handles_of st (set (mq_items m)) = {}"
      using K shard_wfD(4) [OF wf in_mq m(1)] m(2) by (fastforce simp: handles_of_def)
    ultimately show ?thesis
      using mq_inv_frame [OF shard_wfD(2) [OF wf m(1)] fr] frame_Handle [OF fr] R [OF m] by auto
  qed
  have old: "Handle st' x = Handle st x" if "x \<in> set (mq_items mq)" "fi_ref x \<notin> R" for x
    using frame_Handle [OF fr that(2)] .
  have lt: "Handle st x \<noteq> Some (st_next st)" if "queue_in s key' m" "x \<in> set (mq_items m)" for key' m x
    using sq.handle [of st "mq_queue m" x] shard_wfD(2) [OF wf that(1)] that(2) by (auto simp: mq_inv_def)
  have cross: "key1 = key2 \<and> x = y"
    if q1: "queue_in ?s key1 m1" and q2: "queue_in ?s key2 m2" and x: "x \<in> set (mq_items m1)" and y: "y \<in> set (mq_items m2)"
      and e: "fi_ref x = fi_ref y \<or> Handle st' x = Handle st' y" for key1 m1 key2 m2 x y
  proof -
    have src: "(\<exists>m. queue_in s k m \<and> z \<in> set (mq_items m) \<and> Handle st' z = Handle st z) \<or>
        k = key \<and> z \<in> set (mq_items mq') \<and> Handle st' z = Some (st_next st) \<and>
        (\<forall>key' m y. queue_in s key' m \<longrightarrow> y \<in> set (mq_items m) \<longrightarrow> fi_ref y \<noteq> fi_ref z)"
      if "queue_in ?s k m" "z \<in> set (mq_items m)" for k m z
    proof (cases "k = key")
      case True
      then have z: "z \<in> set (mq_items mq')" using that q by simp
      show ?thesis using items [OF z] old [of z] in_mq z True by blast
    next
      case False
      then have "queue_in s k m" using that q by simp
      then show ?thesis using other [OF _ False] that(2) by blast
    qed
    have new: "\<not> (fi_ref u = fi_ref w \<or> Handle st' u = Handle st' w)"
      if "queue_in s k m" "u \<in> set (mq_items m)" "Handle st' u = Handle st u" "Handle st' w = Some (st_next st)"
        "\<forall>key' m y. queue_in s key' m \<longrightarrow> y \<in> set (mq_items m) \<longrightarrow> fi_ref y \<noteq> fi_ref w" for k m u w
      using that lt by auto
    have both: "x = y" if "x \<in> set (mq_items mq')" "y \<in> set (mq_items mq')"
      using sq.handle_inj [OF _ that] inv e by (auto simp: mq_inv_def Handle_def)
    from src [OF q1 x] src [OF q2 y] show ?thesis
      using e shard_wfD(4) [OF wf] new [of _ _ x y] new [of _ _ y x] both by metis
  qed
  have per: "mq_key m = key' \<and> mq_inv st' m \<and> (\<forall>x \<in> set (mq_items m). item_key x = key')"
    if m: "queue_in ?s key' m" for key' m
  proof (cases "key' = key")
    case True
    then have "m = mq'" using m q by simp
    moreover have "item_key x = key" if "x \<in> set (mq_items mq')" for x
      using items [OF that] shard_wfD(3) [OF wf in_mq] by blast
    ultimately show ?thesis using True inv k shard_wfD(1) [OF wf in_mq] by simp
  next
    case False
    then have m': "queue_in s key' m" using m q by simp
    then show ?thesis using other [OF m' False] shard_wfD(1,3) [OF wf m'] by blast
  qed
  have "shard_wf st' ?s"
    unfolding shard_wf_def
  proof (intro conjI allI impI)
    show "gm_ok (sh_priorityBands ?s)" by (rule bands(1))
    show "\<forall>(p, b) \<in> set (sh_priorityBands ?s). gm_ok (bd_queues b) \<and> pb_Priority (bd_config b) = p"
      using bands(2) by blast
  qed (use per cross in blast)+
  then show ?thesis using put_back_eq [OF b ds, of mq'] q by blast
qed

end
