(* ===== verification/ShardOps.thy ===== *)
theory ShardOps
  imports Shard
begin

text \<open>
  The shard under every operation. An operation on a managed queue of the shard stores the queue back
  and propagates its deltas; the topology operations add and remove bands and flows. Each keeps the
  shard well-formed, its counters exact and its priority levels in descending order.
\<close>

subsection \<open>Queue operations through the shard\<close>

definition with_queue :: "FlowKey \<Rightarrow> (managedQueue \<Rightarrow> ('r \<times> Store \<times> managedQueue \<times> StatsDelta list) option)
    \<Rightarrow> registryShard \<Rightarrow> ('r \<times> Store \<times> registryShard \<times> StatsDelta list) option" where
  "with_queue key f s =
     (case ManagedQueue_of key s of
        Inl e \<Rightarrow> None
      | Inr mq \<Rightarrow> do { (r, st', mq', ds) \<leftarrow> f mq; s' \<leftarrow> put_back key mq' ds s; Some (r, st', s', ds) })"

definition queue_Add :: "FlowKey \<Rightarrow> FlowItem \<Rightarrow> Store \<Rightarrow> registryShard
    \<Rightarrow> (fc_error option \<times> Store \<times> registryShard \<times> StatsDelta list) option" where
  "queue_Add key x st s = with_queue key (mq_Add (sh_isDraining s) x st) s"

definition queue_Remove :: "FlowKey \<Rightarrow> nat option \<Rightarrow> Store \<Rightarrow> registryShard
    \<Rightarrow> ((fc_error + FlowItem) \<times> Store \<times> registryShard \<times> StatsDelta list) option" where
  "queue_Remove key h st s = with_queue key (mq_Remove h st) s"

definition queue_Cleanup :: "FlowKey \<Rightarrow> (FlowItem \<Rightarrow> bool) \<Rightarrow> Store \<Rightarrow> registryShard
    \<Rightarrow> (FlowItem list \<times> Store \<times> registryShard \<times> StatsDelta list) option" where
  "queue_Cleanup key p st s = with_queue key (mq_Cleanup p st) s"

definition queue_Drain :: "FlowKey \<Rightarrow> Store \<Rightarrow> registryShard
    \<Rightarrow> (FlowItem list \<times> Store \<times> registryShard \<times> StatsDelta list) option" where
  "queue_Drain key st s = with_queue key (mq_Drain st) s"

text \<open>The items the shard holds.\<close>

definition held :: "registryShard \<Rightarrow> FlowItem set" where
  "held s = {x. \<exists>key mq. queue_in s key mq \<and> x \<in> set (mq_items mq)}"

lemma shard_items_held: "set (shard_items s) = held s"
proof -
  have "mq \<in> set (shard_queues s) \<longleftrightarrow> (\<exists>key. queue_in s key mq)" for mq
  proof
    assume "mq \<in> set (shard_queues s)"
    then obtain p b i where "(p, b) \<in> set (sh_priorityBands s)" "(i, mq) \<in> set (bd_queues b)"
      by (auto simp: shard_queues_def)
    then have "queue_in s (FlowKey i p) mq" by (auto simp: queue_in_def)
    then show "\<exists>key. queue_in s key mq" ..
  qed (force simp: shard_queues_def queue_in_def)
  then show ?thesis by (simp add: shard_items_def held_def) blast
qed

text \<open>What an operation on one queue leaves of the rest of the shard.\<close>

lemma put_result_fields [simp]:
  "sh_id (put_result key mq ds b s) = sh_id s"
  "sh_config (put_result key mq ds b s) = sh_config s"
  "sh_orderedPriorityLevels (put_result key mq ds b s) = sh_orderedPriorityLevels s"
  "sh_isDraining (put_result key mq ds b s) = sh_isDraining s"
  "sh_totalLen (put_result key mq ds b s) = sh_totalLen s + delta_len ds"
  "sh_totalByteSize (put_result key mq ds b s) = sh_totalByteSize s + delta_bytes ds"
  by (simp_all add: put_result_def)

lemma put_result_band:
  "gm_get (sh_priorityBands (put_result key mq ds b s)) p =
     (if p = fk_Priority key
      then Some (b\<lparr>bd_queues := gm_set (fk_ID key) mq (bd_queues b), bd_len := bd_len b + delta_len ds,
                   bd_byteSize := bd_byteSize b + delta_bytes ds\<rparr>)
      else gm_get (sh_priorityBands s) p)"
  by (simp add: put_result_def update_conv')

lemma put_result_keys:
  "gm_get (sh_priorityBands s) (fk_Priority key) = Some b \<Longrightarrow>
   map fst (sh_priorityBands (put_result key mq ds b s)) = map fst (sh_priorityBands s)"
  by (simp add: put_result_def gm_set_keys)

lemma stats_exactD:
  assumes "stats_exact s"
  shows "(p, b) \<in> set (sh_priorityBands s) \<Longrightarrow> bd_len b = wsum mq_len (map snd (bd_queues b))"
    "(p, b) \<in> set (sh_priorityBands s) \<Longrightarrow> bd_byteSize b = wsum mq_byteSize (map snd (bd_queues b))"
    "sh_totalLen s = wsum bd_len (map snd (sh_priorityBands s))"
    "sh_totalByteSize s = wsum bd_byteSize (map snd (sh_priorityBands s))"
  using assms unfolding stats_exact_def by blast+

lemma stats_exactI:
  assumes "\<And>p b. (p, b) \<in> set (sh_priorityBands s) \<Longrightarrow>
      bd_len b = wsum mq_len (map snd (bd_queues b)) \<and> bd_byteSize b = wsum mq_byteSize (map snd (bd_queues b))"
    "sh_totalLen s = wsum bd_len (map snd (sh_priorityBands s))"
    "sh_totalByteSize s = wsum bd_byteSize (map snd (sh_priorityBands s))"
  shows "stats_exact s"
  using assms unfolding stats_exact_def by blast

lemma put_result_exact:
  assumes ex: "stats_exact s" and b: "gm_get (sh_priorityBands s) (fk_Priority key) = Some b"
    and old: "gm_get (bd_queues b) (fk_ID key) = Some mq"
    and l: "mq_len mq' = mq_len mq + delta_len ds" and z: "mq_byteSize mq' = mq_byteSize mq + delta_bytes ds"
    and ok: "gm_ok (sh_priorityBands s)"
  shows "stats_exact (put_result key mq' ds b s)"
proof -
  let ?b = "b\<lparr>bd_queues := gm_set (fk_ID key) mq' (bd_queues b), bd_len := bd_len b + delta_len ds,
             bd_byteSize := bd_byteSize b + delta_bytes ds\<rparr>"
  have q: "wsum mq_len (map snd (gm_set (fk_ID key) mq' (bd_queues b))) = wsum mq_len (map snd (bd_queues b)) + delta_len ds"
    "wsum mq_byteSize (map snd (gm_set (fk_ID key) mq' (bd_queues b))) = wsum mq_byteSize (map snd (bd_queues b)) + delta_bytes ds"
    using wsum_gm_set [OF old, of mq_len mq'] wsum_gm_set [OF old, of mq_byteSize mq'] l z by simp_all
  have t: "wsum bd_len (map snd (gm_set (fk_Priority key) ?b (sh_priorityBands s))) =
      wsum bd_len (map snd (sh_priorityBands s)) + delta_len ds"
    "wsum bd_byteSize (map snd (gm_set (fk_Priority key) ?b (sh_priorityBands s))) =
      wsum bd_byteSize (map snd (sh_priorityBands s)) + delta_bytes ds"
    using wsum_gm_set [OF b, of bd_len ?b] wsum_gm_set [OF b, of bd_byteSize ?b] by simp_all
  have band: "bd_len b' = wsum mq_len (map snd (bd_queues b')) \<and> bd_byteSize b' = wsum mq_byteSize (map snd (bd_queues b'))"
    if "(p, b') \<in> set (gm_set (fk_Priority key) ?b (sh_priorityBands s))" for p b'
  proof (cases "p = fk_Priority key")
    case True
    then have "b' = ?b" using that by (simp add: gm_set_in [OF ok])
    moreover have "bd_len b = wsum mq_len (map snd (bd_queues b)) \<and> bd_byteSize b = wsum mq_byteSize (map snd (bd_queues b))"
      using ex gm_get_in [OF b] unfolding stats_exact_def by blast
    ultimately show ?thesis by (simp add: q)
  next
    case False
    then have "(p, b') \<in> set (sh_priorityBands s)" using that by (simp add: gm_set_in [OF ok])
    then show ?thesis using ex unfolding stats_exact_def by blast
  qed
  have tot: "sh_totalLen s = wsum bd_len (map snd (sh_priorityBands s))"
    "sh_totalByteSize s = wsum bd_byteSize (map snd (sh_priorityBands s))"
    using ex by (simp_all add: stats_exact_def)
  have bands: "sh_priorityBands (put_result key mq' ds b s) = gm_set (fk_Priority key) ?b (sh_priorityBands s)"
    by (simp add: put_result_def)
  show ?thesis
    unfolding stats_exact_def
  proof (intro conjI)
    show "\<forall>(p, b') \<in> set (sh_priorityBands (put_result key mq' ds b s)).
        bd_len b' = wsum mq_len (map snd (bd_queues b')) \<and> bd_byteSize b' = wsum mq_byteSize (map snd (bd_queues b'))"
      unfolding bands using band by blast
  qed (simp_all only: put_result_fields bands t tot)
qed

lemma queue_in_band:
  assumes "ManagedQueue_of key s = Inr mq"
  obtains b where "gm_get (sh_priorityBands s) (fk_Priority key) = Some b" "gm_get (bd_queues b) (fk_ID key) = Some mq"
  using assms by (auto simp: ManagedQueue_of_def split: option.splits)

text \<open>One lemma for all four operations: what the shard is after a queue operation with the usual
  effect.\<close>

lemma with_queue_spec:
  assumes wf: "shard_wf st s" and found: "ManagedQueue_of key s = Inr mq"
    and f: "f mq = Some (r, st', mq', ds)" and inv: "mq_inv st' mq'" and k: "mq_key mq' = mq_key mq"
    and ds: "\<forall>d \<in> set ds. fst d = fk_Priority key"
    and l: "mq_len mq' = mq_len mq + delta_len ds" and z: "mq_byteSize mq' = mq_byteSize mq + delta_bytes ds"
    and fr: "frame R K st st'" and K: "K \<subseteq> handles_of st (set (mq_items mq))"
    and R: "\<And>x. x \<in> held s \<Longrightarrow> fi_ref x \<notin> R"
    and items: "\<And>x. x \<in> set (mq_items mq') \<Longrightarrow> x \<in> set (mq_items mq) \<or>
       item_key x = key \<and> Handle st' x = Some (st_next st) \<and> (\<forall>y \<in> held s. fi_ref y \<noteq> fi_ref x)"
  shows "\<exists>b. gm_get (sh_priorityBands s) (fk_Priority key) = Some b \<and>
     with_queue key f s = Some (r, st', put_result key mq' ds b s, ds) \<and> shard_wf st' (put_result key mq' ds b s) \<and>
     (stats_exact s \<longrightarrow> stats_exact (put_result key mq' ds b s)) \<and>
     held (put_result key mq' ds b s) = held s - set (mq_items mq) \<union> set (mq_items mq')"
proof -
  obtain b where b: "gm_get (sh_priorityBands s) (fk_Priority key) = Some b" "gm_get (bd_queues b) (fk_ID key) = Some mq"
    using queue_in_band [OF found] .
  have put: "put_back key mq' ds s = Some (put_result key mq' ds b s)" by (rule put_back_eq [OF b(1) ds])
  have in_mq: "queue_in s key mq" by (rule ManagedQueue_in [OF found])
  have "\<exists>s'. put_back key mq' ds s = Some s' \<and> shard_wf st' s' \<and>
     (\<forall>key' m. queue_in s' key' m \<longleftrightarrow> (if key' = key then m = mq' else queue_in s key' m))"
  proof (rule put_back_wf [OF wf found inv k ds fr K])
    show "fi_ref x \<notin> R" if "queue_in s key' m" "key' \<noteq> key" "x \<in> set (mq_items m)" for key' m x
      using R that unfolding held_def by blast
    show "x \<in> set (mq_items mq) \<and> fi_ref x \<notin> R \<or> item_key x = key \<and> Handle st' x = Some (st_next st) \<and>
       (\<forall>key' m y. queue_in s key' m \<longrightarrow> y \<in> set (mq_items m) \<longrightarrow> fi_ref y \<noteq> fi_ref x)"
      if "x \<in> set (mq_items mq')" for x
      using items [OF that] R in_mq unfolding held_def by blast
  qed
  then have wf': "shard_wf st' (put_result key mq' ds b s)" using put by auto
  have q: "queue_in (put_result key mq' ds b s) key' m \<longleftrightarrow> (if key' = key then m = mq' else queue_in s key' m)" for key' m
    by (rule put_result_queue_in [OF wf b(1)])
  have cross: "x \<notin> set (mq_items mq)" if "queue_in s key' m" "key' \<noteq> key" "x \<in> set (mq_items m)" for key' m x
    using shard_wfD(4) [OF wf in_mq that(1) _ that(3)] that(2) by blast
  have held: "held (put_result key mq' ds b s) = held s - set (mq_items mq) \<union> set (mq_items mq')" (is "?L = ?R")
  proof (intro set_eqI iffI)
    fix x assume "x \<in> ?L"
    then obtain key' m where m: "if key' = key then m = mq' else queue_in s key' m" "x \<in> set (mq_items m)"
      unfolding held_def q by blast
    show "x \<in> ?R"
    proof (cases "key' = key")
      case False
      then show ?thesis using m cross [of key' m x] unfolding held_def by auto
    qed (use m in auto)
  next
    fix x assume "x \<in> ?R"
    then consider "x \<in> set (mq_items mq')" | key' m where "queue_in s key' m" "x \<in> set (mq_items m)" "x \<notin> set (mq_items mq)"
      unfolding held_def by blast
    then show "x \<in> ?L"
    proof cases
      case 1
      then show ?thesis unfolding held_def using q [of key mq'] by auto
    next
      case (2 key' m)
      then have "key' \<noteq> key" using queue_in_unique [OF wf in_mq] by blast
      then show ?thesis unfolding held_def using q [of key' m] 2 by auto
    qed
  qed
  have "gm_ok (sh_priorityBands s)" using wf by (simp add: shard_wf_def)
  from put_result_exact [OF _ b l z this]
  show ?thesis using b(1) put wf' held found f by (auto simp: with_queue_def)
qed

subsection \<open>The four queue operations\<close>

text \<open>The shape of every queue operation on the shard: one existing queue replaced, its deltas added up.\<close>

definition queue_op :: "registryShard \<Rightarrow> StatsDelta list \<Rightarrow> registryShard \<Rightarrow> bool" where
  "queue_op s ds s' \<longleftrightarrow> (\<exists>key mq b. gm_get (sh_priorityBands s) (fk_Priority key) = Some b \<and>
     gm_get (bd_queues b) (fk_ID key) \<noteq> None \<and> (\<forall>d \<in> set ds. fst d = fk_Priority key) \<and> mq_key mq = key \<and>
     s' = put_result key mq ds b s)"

definition shard_step :: "Store \<Rightarrow> registryShard \<Rightarrow> StatsDelta list \<Rightarrow> Store \<Rightarrow> registryShard \<Rightarrow> bool" where
  "shard_step st s ds st' s' \<longleftrightarrow> queue_op s ds s' \<and> shard_wf st' s' \<and> (stats_exact s \<longrightarrow> stats_exact s')"

lemma held_ref: "shard_wf st s \<Longrightarrow> x \<in> held s \<Longrightarrow> y \<in> held s \<Longrightarrow> fi_ref x = fi_ref y \<Longrightarrow> x = y"
  using shard_wfD(4) unfolding held_def by blast

lemma held_key: "shard_wf st s \<Longrightarrow> x \<in> held s \<Longrightarrow> \<exists>mq. ManagedQueue_of (item_key x) s = Inr mq \<and> x \<in> set (mq_items mq)"
  using shard_wfD(3) queue_in_ManagedQueue unfolding held_def by blast

lemma held_Handle: "shard_wf st s \<Longrightarrow> x \<in> held s \<Longrightarrow> \<exists>k. Handle st x = Some k \<and> \<not> IsInvalidated k st"
  using shard_wfD(2) sq.handle unfolding held_def mq_inv_def by blast

lemma in_held: "ManagedQueue_of key s = Inr mq \<Longrightarrow> set (mq_items mq) \<subseteq> held s"
  using ManagedQueue_in unfolding held_def by blast

lemma put_step:
  assumes wf: "shard_wf st s" and found: "ManagedQueue_of key s = Inr mq" and k: "mq_key mq' = mq_key mq"
    and b: "gm_get (sh_priorityBands s) (fk_Priority key) = Some b" and ds: "\<forall>d \<in> set ds. fst d = fk_Priority key"
    and res: "shard_wf st' (put_result key mq' ds b s)" "stats_exact s \<longrightarrow> stats_exact (put_result key mq' ds b s)"
  shows "shard_step st s ds st' (put_result key mq' ds b s)"
proof -
  have "gm_get (bd_queues b) (fk_ID key) \<noteq> None" using queue_in_band [OF found] b by auto
  moreover have "mq_key mq' = key" using k shard_wfD(1) [OF wf ManagedQueue_in [OF found]] by simp
  ultimately have "queue_op s ds (put_result key mq' ds b s)" unfolding queue_op_def using b ds by blast
  then show ?thesis using res by (simp add: shard_step_def)
qed

lemma queue_Add_spec:
  assumes wf: "shard_wf st s" and found: "ManagedQueue_of key s = Inr mq" and "\<not> sh_isDraining s"
    and x: "item_key x = key" "\<forall>y \<in> held s. fi_ref y \<noteq> fi_ref x" and room: "length (mq_items mq) + 1 < 2 ^ 63"
  shows "\<exists>st' s'. queue_Add key x st s = Some (None, st', s', [(fk_Priority key, 1, item_bytes x)]) \<and>
     shard_step st s [(fk_Priority key, 1, item_bytes x)] st' s' \<and> held s' = insert x (held s) \<and>
     frame {fi_ref x} {} st st' \<and> Handle st' x = Some (st_next st)"
proof -
  have mq: "mq_inv st mq" "mq_key mq = key" using shard_wfD(1,2) [OF wf ManagedQueue_in [OF found]] by simp_all
  have nx: "fi_ref x \<notin> fi_ref ` set (mq_items mq)" using x(2) in_held [OF found] by fastforce
  obtain st' mq' where a: "mq_Add False x st mq = Some (None, st', mq', [(fk_Priority key, 1, item_bytes x)])"
    "mq_inv st' mq'" "mset (mq_items mq') = add_mset x (mset (mq_items mq))" "mq_key mq' = mq_key mq"
    "mq_len mq' = mq_len mq + 1" "mq_byteSize mq' = mq_byteSize mq + item_bytes x"
    "frame {fi_ref x} {} st st'" "Handle st' x = Some (st_next st)"
    using mq_Add_spec [OF mq(1) nx room] mq(2) by auto
  have set: "set (mq_items mq') = insert x (set (mq_items mq))"
    using a(3) by (metis set_mset_add_mset_insert set_mset_mset)
  have f: "mq_Add (sh_isDraining s) x st mq = Some (None, st', mq', [(fk_Priority key, 1, item_bytes x)])"
    using a(1) assms(3) by simp
  let ?ds = "[(fk_Priority key, 1, item_bytes x)]"
  have "\<exists>b. gm_get (sh_priorityBands s) (fk_Priority key) = Some b \<and>
     with_queue key (mq_Add (sh_isDraining s) x st) s = Some (None, st', put_result key mq' ?ds b s, ?ds) \<and>
     shard_wf st' (put_result key mq' ?ds b s) \<and> (stats_exact s \<longrightarrow> stats_exact (put_result key mq' ?ds b s)) \<and>
     held (put_result key mq' ?ds b s) = held s - set (mq_items mq) \<union> set (mq_items mq')"
    by (rule with_queue_spec [where f = "mq_Add (sh_isDraining s) x st", OF wf found f a(2,4) _ _ _ a(7)]) (use a x set in auto)
  then obtain b where b: "gm_get (sh_priorityBands s) (fk_Priority key) = Some b"
    "with_queue key (mq_Add (sh_isDraining s) x st) s = Some (None, st', put_result key mq' ?ds b s, ?ds)"
    "shard_wf st' (put_result key mq' ?ds b s)" "stats_exact s \<longrightarrow> stats_exact (put_result key mq' ?ds b s)"
    "held (put_result key mq' ?ds b s) = held s - set (mq_items mq) \<union> set (mq_items mq')" by blast
  have "held (put_result key mq' ?ds b s) = insert x (held s)" using b(5) set in_held [OF found] by auto
  moreover have "shard_step st s ?ds st' (put_result key mq' ?ds b s)"
    by (rule put_step [OF wf found a(4) b(1) _ b(3,4)]) simp
  ultimately show ?thesis using b(2) a(7,8) unfolding queue_Add_def by blast
qed

lemma queue_Remove_spec:
  assumes wf: "shard_wf st s" and found: "ManagedQueue_of key s = Inr mq" and x: "x \<in> set (mq_items mq)"
  shows "\<exists>st' s'. queue_Remove key (Handle st x) st s = Some (Inr x, st', s', [(fk_Priority key, -1, - item_bytes x)]) \<and>
     shard_step st s [(fk_Priority key, -1, - item_bytes x)] st' s' \<and> held s' = held s - {x} \<and> frame {} (handles_of st {x}) st st'"
proof -
  have mq: "mq_inv st mq" "mq_key mq = key" using shard_wfD(1,2) [OF wf ManagedQueue_in [OF found]] by simp_all
  obtain k where k: "Handle st x = Some k" using sq.handle [of st "mq_queue mq" x] mq(1) x by (auto simp: mq_inv_def)
  let ?ds = "[(fk_Priority key, -1, - item_bytes x)]"
  obtain st' mq' where a: "mq_Remove (Some k) st mq = Some (Inr x, st', mq', ?ds)"
    "mq_inv st' mq'" "mset (mq_items mq') = mset (mq_items mq) - {#x#}" "mq_key mq' = mq_key mq"
    "mq_len mq' = mq_len mq - 1" "mq_byteSize mq' = mq_byteSize mq - item_bytes x" "frame {} {k} st st'"
    using mq_Remove_spec [OF mq(1) x k] mq(2) by auto
  have dist: "distinct (mq_items mq)"
    using sq.refs [of st "mq_queue mq"] mq(1) distinct_map by (auto simp: mq_inv_def)
  have "mset (mq_items mq') = mset (remove1 x (mq_items mq))" using a(3) by simp
  then have set: "set (mq_items mq') = set (mq_items mq) - {x}"
    using mset_eq_setD set_remove1_eq [OF dist] by metis
  have "\<exists>b. gm_get (sh_priorityBands s) (fk_Priority key) = Some b \<and>
     with_queue key (mq_Remove (Some k) st) s = Some (Inr x, st', put_result key mq' ?ds b s, ?ds) \<and>
     shard_wf st' (put_result key mq' ?ds b s) \<and> (stats_exact s \<longrightarrow> stats_exact (put_result key mq' ?ds b s)) \<and>
     held (put_result key mq' ?ds b s) = held s - set (mq_items mq) \<union> set (mq_items mq')"
    by (rule with_queue_spec [where f = "mq_Remove (Some k) st", OF wf found a(1,2,4) _ _ _ a(7)]) (use a set k x in \<open>auto intro: handles_of_I\<close>)
  then obtain b where b: "gm_get (sh_priorityBands s) (fk_Priority key) = Some b"
    "with_queue key (mq_Remove (Some k) st) s = Some (Inr x, st', put_result key mq' ?ds b s, ?ds)"
    "shard_wf st' (put_result key mq' ?ds b s)" "stats_exact s \<longrightarrow> stats_exact (put_result key mq' ?ds b s)"
    "held (put_result key mq' ?ds b s) = held s - set (mq_items mq) \<union> set (mq_items mq')" by blast
  have "held (put_result key mq' ?ds b s) = held s - {x}" using b(5) set in_held [OF found] x by auto
  moreover have "shard_step st s ?ds st' (put_result key mq' ?ds b s)"
    by (rule put_step [OF wf found a(4) b(1) _ b(3,4)]) simp
  moreover have "handles_of st {x} = {k}" using k by simp
  ultimately show ?thesis using b(2) a(7) k unfolding queue_Remove_def by metis
qed

lemma queue_Remove_invalid:
  assumes wf: "shard_wf st s" and found: "ManagedQueue_of key s = Inr mq"
    and h: "h = None \<or> (\<exists>k. h = Some k \<and> IsInvalidated k st)"
  shows "queue_Remove key h st s = Some (Inl ErrInvalidQueueItemHandle, st, s, [])"
proof -
  obtain b where b: "gm_get (sh_priorityBands s) (fk_Priority key) = Some b" "gm_get (bd_queues b) (fk_ID key) = Some mq"
    using queue_in_band [OF found] .
  have "put_queue key mq s = s" using b by (simp add: put_queue_def gm_set_same)
  then show ?thesis
    using found mq_Remove_invalid [OF h, of mq] by (simp add: queue_Remove_def with_queue_def put_back_def)
qed

text \<open>Sweeping and draining take out a multiset of the queue's items and invalidate their handles.\<close>

lemma removal_spec:
  assumes wf: "shard_wf st s" and found: "ManagedQueue_of key s = Inr mq"
    and f: "f mq = Some (rem, st', mq', ds)" and inv: "mq_inv st' mq'"
    and rem: "mset rem = filter_mset p (mset (mq_items mq))"
    and rest: "mset (mq_items mq') = filter_mset (\<lambda>x. \<not> p x) (mset (mq_items mq))"
    and k: "mq_key mq' = mq_key mq" and ds: "\<forall>d \<in> set ds. fst d = fk_Priority (mq_key mq)"
    and l: "mq_len mq' = mq_len mq + delta_len ds" and z: "mq_byteSize mq' = mq_byteSize mq + delta_bytes ds"
    and st': "st' = invalidate_all rem st"
  shows "\<exists>s'. with_queue key f s = Some (rem, st', s', ds) \<and> shard_step st s ds st' s' \<and> distinct rem \<and>
     set rem = {x \<in> set (mq_items mq). p x} \<and> held s' = held s - set rem"
proof -
  have mq: "mq_inv st mq" "mq_key mq = key" using shard_wfD(1,2) [OF wf ManagedQueue_in [OF found]] by simp_all
  have dist: "distinct (mq_items mq)"
    using sq.refs [of st "mq_queue mq"] mq(1) distinct_map by (auto simp: mq_inv_def)
  have "mset rem = mset (filter p (mq_items mq))" using rem by simp
  then have srem: "set rem = {x \<in> set (mq_items mq). p x}" "distinct rem"
    using mset_eq_setD [of rem "filter p (mq_items mq)"] mset_eq_imp_distinct_iff [of rem "filter p (mq_items mq)"] dist
    by auto
  have "mset (mq_items mq') = mset (filter (\<lambda>x. \<not> p x) (mq_items mq))" using rest by simp
  then have srest: "set (mq_items mq') = {x \<in> set (mq_items mq). \<not> p x}"
    using mset_eq_setD [of "mq_items mq'" "filter (\<lambda>x. \<not> p x) (mq_items mq)"] by auto
  have fr: "frame {} (handles_of st (set rem)) st st'" unfolding st' by (rule frame_invalidate_all)
  have "\<exists>b. gm_get (sh_priorityBands s) (fk_Priority key) = Some b \<and>
     with_queue key f s = Some (rem, st', put_result key mq' ds b s, ds) \<and>
     shard_wf st' (put_result key mq' ds b s) \<and> (stats_exact s \<longrightarrow> stats_exact (put_result key mq' ds b s)) \<and>
     held (put_result key mq' ds b s) = held s - set (mq_items mq) \<union> set (mq_items mq')"
    by (rule with_queue_spec [where f = f, OF wf found f inv k _ l z fr]) (use ds mq srem srest in \<open>auto simp: handles_of_def\<close>)
  then obtain b where b: "gm_get (sh_priorityBands s) (fk_Priority key) = Some b"
    "with_queue key f s = Some (rem, st', put_result key mq' ds b s, ds)"
    "shard_wf st' (put_result key mq' ds b s)" "stats_exact s \<longrightarrow> stats_exact (put_result key mq' ds b s)"
    "held (put_result key mq' ds b s) = held s - set (mq_items mq) \<union> set (mq_items mq')" by blast
  have "held (put_result key mq' ds b s) = held s - set rem" using b(5) srem srest in_held [OF found] by auto
  moreover have "shard_step st s ds st' (put_result key mq' ds b s)"
    by (rule put_step [OF wf found k b(1) _ b(3,4)]) (use ds mq in simp)
  ultimately show ?thesis using b(2) srem by blast
qed

lemma queue_Cleanup_spec:
  assumes wf: "shard_wf st s" and found: "ManagedQueue_of key s = Inr mq"
  shows "\<exists>rem s' ds. queue_Cleanup key p st s = Some (rem, invalidate_all rem st, s', ds) \<and>
     shard_step st s ds (invalidate_all rem st) s' \<and> distinct rem \<and> set rem = {x \<in> set (mq_items mq). p x} \<and>
     held s' = held s - set rem"
proof -
  have "mq_inv st mq" using shard_wfD(2) [OF wf ManagedQueue_in [OF found]] .
  from mq_Cleanup_spec [OF this, of p] obtain rem st' mq' ds where a: "mq_Cleanup p st mq = Some (rem, st', mq', ds)"
    "mq_inv st' mq'" "mset rem = filter_mset p (mset (mq_items mq))"
    "mset (mq_items mq') = filter_mset (\<lambda>x. \<not> p x) (mset (mq_items mq))" "mq_key mq' = mq_key mq"
    "\<forall>d \<in> set ds. fst d = fk_Priority (mq_key mq)" "mq_len mq' = mq_len mq + delta_len ds"
    "mq_byteSize mq' = mq_byteSize mq + delta_bytes ds" "st' = invalidate_all rem st" by blast
  show ?thesis
    using removal_spec [where f = "mq_Cleanup p st", OF wf found a(1-8) a(9)] a(9) unfolding queue_Cleanup_def by blast
qed

lemma queue_Drain_spec:
  assumes wf: "shard_wf st s" and found: "ManagedQueue_of key s = Inr mq"
  shows "\<exists>rem s' ds. queue_Drain key st s = Some (rem, invalidate_all rem st, s', ds) \<and>
     shard_step st s ds (invalidate_all rem st) s' \<and> distinct rem \<and> set rem = set (mq_items mq) \<and>
     held s' = held s - set rem"
proof -
  have "mq_inv st mq" using shard_wfD(2) [OF wf ManagedQueue_in [OF found]] .
  from mq_Drain_spec [OF this] obtain rem st' mq' ds where a: "mq_Drain st mq = Some (rem, st', mq', ds)"
    "mq_inv st' mq'" "mset rem = mset (mq_items mq)" "mq_items mq' = []" "mq_key mq' = mq_key mq"
    "\<forall>d \<in> set ds. fst d = fk_Priority (mq_key mq)" "mq_len mq' = mq_len mq + delta_len ds"
    "mq_byteSize mq' = mq_byteSize mq + delta_bytes ds" "st' = invalidate_all rem st" by blast
  have "mset rem = filter_mset (\<lambda>_. True) (mset (mq_items mq))"
    "mset (mq_items mq') = filter_mset (\<lambda>x. \<not> True) (mset (mq_items mq))" using a(3,4) by simp_all
  from removal_spec [where f = "mq_Drain st", OF wf found a(1,2) this a(5-9)]
  show ?thesis using a(9) unfolding queue_Drain_def by simp blast
qed

subsection \<open>Bands and flows\<close>

text \<open>The levels the dispatcher walks: every band once, highest priority first.\<close>

definition levels_ok :: "registryShard \<Rightarrow> bool" where
  "levels_ok s \<longleftrightarrow> sorted_wrt (>) (sh_orderedPriorityLevels s) \<and>
     set (sh_orderedPriorityLevels s) = fst ` set (sh_priorityBands s)"

lemma sort_desc_sorted: "distinct xs \<Longrightarrow> sorted_wrt (>) (sort_desc xs)"
  using strict_sorted_iff [of "sort xs"] by (simp add: sort_desc_def sorted_wrt_rev)

lemma sort_desc_set [simp]: "set (sort_desc xs) = set xs"
  by (simp add: sort_desc_def)

lemma sorted_desc_distinct: "sorted_wrt (>) (xs :: int list) \<Longrightarrow> distinct xs"
  by (induction xs) auto

text \<open>Two ways a topology operation keeps the shard well-formed: it drops queues, or adds an empty one.\<close>

lemma shard_wf_drop:
  assumes wf: "shard_wf st s" and ok: "gm_ok (sh_priorityBands s')"
    and bands: "\<And>p b. (p, b) \<in> set (sh_priorityBands s') \<Longrightarrow> gm_ok (bd_queues b) \<and> pb_Priority (bd_config b) = p"
    and sub: "\<And>key mq. queue_in s' key mq \<Longrightarrow> queue_in s key mq"
  shows "shard_wf st s'"
  unfolding shard_wf_def
proof (intro conjI allI impI)
  show "gm_ok (sh_priorityBands s')" by (rule ok)
  show "\<forall>(p, b) \<in> set (sh_priorityBands s'). gm_ok (bd_queues b) \<and> pb_Priority (bd_config b) = p" using bands by blast
  show "mq_key mq = key" "mq_inv st mq" "\<forall>x \<in> set (mq_items mq). item_key x = key"
    if "queue_in s' key mq" for key mq using shard_wfD [OF wf sub [OF that]] by blast+
  show "key = key'" "x = y" if "queue_in s' key mq" "queue_in s' key' mq'" "x \<in> set (mq_items mq)" "y \<in> set (mq_items mq')"
      "fi_ref x = fi_ref y \<or> Handle st x = Handle st y" for key mq key' mq' x y
    using shard_wfD(4) [OF wf sub [OF that(1)] sub [OF that(2)] that(3-5)] by simp_all
qed

lemma shard_wf_grow:
  assumes wf: "shard_wf st s" and ok: "gm_ok (sh_priorityBands s')"
    and bands: "\<And>p b. (p, b) \<in> set (sh_priorityBands s') \<Longrightarrow> gm_ok (bd_queues b) \<and> pb_Priority (bd_config b) = p"
    and sub: "\<And>key mq. queue_in s' key mq \<Longrightarrow> queue_in s key mq \<or> mq_key mq = key \<and> mq_inv st mq \<and> mq_items mq = []"
  shows "shard_wf st s'"
  unfolding shard_wf_def
proof (intro conjI allI impI)
  show "gm_ok (sh_priorityBands s')" by (rule ok)
  show "\<forall>(p, b) \<in> set (sh_priorityBands s'). gm_ok (bd_queues b) \<and> pb_Priority (bd_config b) = p" using bands by blast
  show "mq_key mq = key" "mq_inv st mq" "\<forall>x \<in> set (mq_items mq). item_key x = key"
    if "queue_in s' key mq" for key mq using sub [OF that] shard_wfD(1-3) [OF wf, of key mq] by auto
  show "key = key'" "x = y" if "queue_in s' key mq" "queue_in s' key' mq'" "x \<in> set (mq_items mq)" "y \<in> set (mq_items mq')"
      "fi_ref x = fi_ref y \<or> Handle st x = Handle st y" for key mq key' mq' x y
    using shard_wfD(4) [OF wf _ _ that(3-5)] sub [OF that(1)] sub [OF that(2)] that(3,4) by auto
qed

definition new_band :: "FairnessPolicy \<Rightarrow> PriorityBandConfig \<Rightarrow> priorityBand" where
  "new_band fp c = \<lparr>bd_fairnessPolicy = fp, bd_policyState = NewState fp, bd_config = c, bd_queues = [],
                    bd_byteSize = 0, bd_len = 0\<rparr>"

lemma new_band_fields [simp]:
  "bd_queues (new_band fp c) = []" "bd_config (new_band fp c) = c" "bd_byteSize (new_band fp c) = 0"
  "bd_len (new_band fp c) = 0" "bd_fairnessPolicy (new_band fp c) = fp" "bd_policyState (new_band fp c) = NewState fp"
  by (simp_all add: new_band_def)

lemma initPriorityBand_eq:
  assumes "pb_FairnessPolicy c = Some fp" "gm_get (sh_priorityBands s) (pb_Priority c) = None"
  shows "initPriorityBand c s = Some (s\<lparr>sh_priorityBands := sh_priorityBands s @ [(pb_Priority c, new_band fp c)],
     sh_orderedPriorityLevels := sort_desc (sh_orderedPriorityLevels s @ [pb_Priority c])\<rparr>)"
  using assms by (simp add: initPriorityBand_def gm_set_new new_band_def)

lemma initPriorityBand_spec:
  assumes c: "pb_FairnessPolicy c = Some fp" "gm_get (sh_priorityBands s) (pb_Priority c) = None"
  shows "\<exists>s'. initPriorityBand c s = Some s' \<and> sh_priorityBands s' = sh_priorityBands s @ [(pb_Priority c, new_band fp c)] \<and>
     (shard_wf st s \<longrightarrow> shard_wf st s') \<and> (stats_exact s \<longrightarrow> stats_exact s') \<and> (levels_ok s \<longrightarrow> levels_ok s') \<and>
     queue_in s' = queue_in s \<and> sh_totalLen s' = sh_totalLen s \<and> sh_totalByteSize s' = sh_totalByteSize s \<and>
     sh_config s' = sh_config s \<and> sh_isDraining s' = sh_isDraining s"
proof -
  let ?s = "s\<lparr>sh_priorityBands := sh_priorityBands s @ [(pb_Priority c, new_band fp c)],
     sh_orderedPriorityLevels := sort_desc (sh_orderedPriorityLevels s @ [pb_Priority c])\<rparr>"
  have q: "queue_in ?s = queue_in s" by (intro ext) (auto simp: queue_in_def)
  have "shard_wf st ?s" if "shard_wf st s"
    by (rule shard_wf_drop [OF that])
      (use that c in \<open>auto simp: q shard_wf_def gm_get_None\<close>)
  moreover have "stats_exact ?s" if "stats_exact s"
    using that unfolding stats_exact_def by auto
  moreover have "levels_ok ?s" if "levels_ok s"
    using that c sorted_desc_distinct [of "sh_orderedPriorityLevels s"]
    by (auto simp: levels_ok_def gm_get_None intro!: sort_desc_sorted)
  ultimately show ?thesis using initPriorityBand_eq [OF c] q by simp
qed

lemma replace_band_queue_in:
  assumes "gm_ok (sh_priorityBands s)"
  shows "queue_in (s\<lparr>sh_priorityBands := gm_set p b' (sh_priorityBands s)\<rparr>) key mq \<longleftrightarrow>
     (if fk_Priority key = p then (fk_ID key, mq) \<in> set (bd_queues b') else queue_in s key mq)"
  by (auto simp: queue_in_def gm_set_in [OF assms])

lemma queue_in_get:
  assumes "gm_ok (sh_priorityBands s)" "gm_get (sh_priorityBands s) (fk_Priority key) = Some b"
  shows "queue_in s key mq \<longleftrightarrow> (fk_ID key, mq) \<in> set (bd_queues b)"
  unfolding queue_in_def by (metis assms gm_get_in map_of_is_SomeI option.inject)

lemma FlowKey_eq: "key' = key \<longleftrightarrow> fk_Priority key' = fk_Priority key \<and> fk_ID key' = fk_ID key"
  by (cases key; cases key') auto

text \<open>The sums over a band's queues and over the bands when one entry is deleted.\<close>

lemma wsum_gm_del:
  fixes f :: "'v \<Rightarrow> 'n :: len word"
  shows "gm_ok m \<Longrightarrow> gm_get m k = Some v \<Longrightarrow> wsum f (map snd (gm_del k m)) = wsum f (map snd m) - f v"
proof (induction m)
  case (Cons e m)
  obtain k' v' where e: "e = (k', v')" by (cases e)
  show ?case
  proof (cases "k' = k")
    case True
    then have "gm_del k m = m" using Cons.prems e by (simp add: delete_notin_dom)
    then show ?thesis using True Cons.prems e by simp
  next
    case False
    then show ?thesis using Cons e by (simp add: algebra_simps)
  qed
qed simp

lemma gm_del_in: "(k', v) \<in> set (gm_del k m) \<longleftrightarrow> k' \<noteq> k \<and> (k', v) \<in> set m"
  by (induction m) auto

lemma gm_del_ok: "gm_ok m \<Longrightarrow> gm_ok (gm_del k m)"
  by (rule distinct_delete)

lemma replace_band_exact:
  assumes ex: "stats_exact s" and ok: "gm_ok (sh_priorityBands s)" and b: "gm_get (sh_priorityBands s) p = Some b"
    and q: "wsum mq_len (map snd qs) = wsum mq_len (map snd (bd_queues b))"
      "wsum mq_byteSize (map snd qs) = wsum mq_byteSize (map snd (bd_queues b))"
  shows "stats_exact (s\<lparr>sh_priorityBands := gm_set p (b\<lparr>bd_queues := qs\<rparr>) (sh_priorityBands s)\<rparr>)"
proof -
  have bq: "bd_len b = wsum mq_len (map snd (bd_queues b))" "bd_byteSize b = wsum mq_byteSize (map snd (bd_queues b))"
    using ex gm_get_in [OF b] unfolding stats_exact_def by blast+
  have "bd_len b' = wsum mq_len (map snd (bd_queues b')) \<and> bd_byteSize b' = wsum mq_byteSize (map snd (bd_queues b'))"
    if "(p', b') \<in> set (gm_set p (b\<lparr>bd_queues := qs\<rparr>) (sh_priorityBands s))" for p' b'
  proof (cases "p' = p")
    case True
    then have "b' = b\<lparr>bd_queues := qs\<rparr>" using that by (simp add: gm_set_in [OF ok])
    then show ?thesis using bq q by simp
  next
    case False
    then have "(p', b') \<in> set (sh_priorityBands s)" using that by (simp add: gm_set_in [OF ok])
    then show ?thesis using ex unfolding stats_exact_def by blast
  qed
  then show ?thesis
    using ex wsum_gm_set [OF b, of bd_len "b\<lparr>bd_queues := qs\<rparr>"] wsum_gm_set [OF b, of bd_byteSize "b\<lparr>bd_queues := qs\<rparr>"]
    unfolding stats_exact_def by auto
qed

text \<open>What the two flow operations leave alone.\<close>

definition same_topology :: "registryShard \<Rightarrow> registryShard \<Rightarrow> bool" where
  "same_topology s s' \<longleftrightarrow> map fst (sh_priorityBands s') = map fst (sh_priorityBands s) \<and> sh_config s' = sh_config s \<and>
     sh_orderedPriorityLevels s' = sh_orderedPriorityLevels s \<and> sh_isDraining s' = sh_isDraining s \<and>
     sh_totalLen s' = sh_totalLen s \<and> sh_totalByteSize s' = sh_totalByteSize s \<and>
     (\<forall>p. map_option bd_config (gm_get (sh_priorityBands s') p) = map_option bd_config (gm_get (sh_priorityBands s) p) \<and>
          map_option bd_len (gm_get (sh_priorityBands s') p) = map_option bd_len (gm_get (sh_priorityBands s) p) \<and>
          map_option bd_byteSize (gm_get (sh_priorityBands s') p) = map_option bd_byteSize (gm_get (sh_priorityBands s) p))"

lemma replace_queues_topology:
  "gm_get (sh_priorityBands s) p = Some b \<Longrightarrow>
   same_topology s (s\<lparr>sh_priorityBands := gm_set p (b\<lparr>bd_queues := qs\<rparr>) (sh_priorityBands s)\<rparr>)"
  by (auto simp: same_topology_def gm_set_keys update_conv')

lemma synchronizeFlow_spec:
  assumes wf: "shard_wf st s" and b: "gm_get (sh_priorityBands s) (fk_Priority key) \<noteq> None"
    and q: "q_wf st q" "q_items q = []"
  shows "\<exists>s'. synchronizeFlow key policy q s = Some s' \<and> shard_wf st s' \<and> (stats_exact s \<longrightarrow> stats_exact s') \<and>
     same_topology s s' \<and> held s' = held s \<and>
     (\<forall>key' m. queue_in s' key' m \<longleftrightarrow> queue_in s key' m \<or>
        key' = key \<and> (\<forall>m. \<not> queue_in s key m) \<and> m = newManagedQueue q policy key)"
proof -
  obtain b where b: "gm_get (sh_priorityBands s) (fk_Priority key) = Some b" using b by blast
  have ok: "gm_ok (sh_priorityBands s)" "gm_ok (bd_queues b)" "pb_Priority (bd_config b) = fk_Priority key"
    using wf gm_get_in [OF b] by (auto simp: shard_wf_def)
  have qb: "queue_in s key' m \<longleftrightarrow> (fk_ID key', m) \<in> set (bd_queues b)" if "fk_Priority key' = fk_Priority key" for key' m
    using queue_in_get [OF ok(1), of key' b m] b that by simp
  show ?thesis
  proof (cases "gm_get (bd_queues b) (fk_ID key)")
    case (Some m)
    then have "queue_in s key m" using qb [of key m] gm_get_in by fastforce
    then show ?thesis using wf b Some by (auto simp: synchronizeFlow_def same_topology_def)
  next
    case None
    let ?mq = "newManagedQueue q policy key"
    let ?s = "s\<lparr>sh_priorityBands := gm_set (fk_Priority key) (b\<lparr>bd_queues := gm_set (fk_ID key) ?mq (bd_queues b)\<rparr>) (sh_priorityBands s)\<rparr>"
    have none: "\<not> queue_in s key m" for m using None qb [of key m] by (force simp: gm_get_None)
    have qi: "queue_in ?s key' m \<longleftrightarrow> queue_in s key' m \<or> key' = key \<and> m = ?mq" for key' m
      using none [of m] qb [of key' m] FlowKey_eq [of key' key] unfolding replace_band_queue_in [OF ok(1)]
      by (cases "key' = key") (auto simp: gm_set_in [OF ok(2)])
    have new: "mq_inv st ?mq" "mq_items ?mq = []" "mq_key ?mq = key" "mq_len ?mq = 0" "mq_byteSize ?mq = 0"
      using mq_inv_new [OF q] q(2) by (simp_all add: newManagedQueue_def)
    have "shard_wf st ?s"
    proof (rule shard_wf_grow [OF wf])
      show "gm_ok (sh_priorityBands ?s)" using ok(1) by (simp add: distinct_update)
      show "gm_ok (bd_queues b') \<and> pb_Priority (bd_config b') = p" if "(p, b') \<in> set (sh_priorityBands ?s)" for p b'
        using that ok wf by (auto simp: gm_set_in [OF ok(1)] distinct_update shard_wf_def split: if_splits)
      show "queue_in s key' m \<or> mq_key m = key' \<and> mq_inv st m \<and> mq_items m = []" if "queue_in ?s key' m" for key' m
        using that new unfolding qi by blast
    qed
    moreover have "stats_exact ?s" if "stats_exact s"
      using replace_band_exact [OF that ok(1) b] None new by (simp add: gm_set_new)
    moreover have "held ?s = held s" unfolding held_def qi using new(2) by auto
    moreover have "synchronizeFlow key policy q s = Some ?s" using b None by (simp add: synchronizeFlow_def)
    ultimately show ?thesis using replace_queues_topology [OF b] qi none by blast
  qed
qed

lemma deleteFlow_spec:
  assumes wf: "shard_wf st s"
  shows "shard_wf st (deleteFlow key s)" "same_topology s (deleteFlow key s)"
    "queue_in (deleteFlow key s) key' m \<longleftrightarrow> key' \<noteq> key \<and> queue_in s key' m"
    "stats_exact s \<Longrightarrow> (\<And>m. queue_in s key m \<Longrightarrow> mq_items m = []) \<Longrightarrow> stats_exact (deleteFlow key s)"
proof -
  have ok: "gm_ok (sh_priorityBands s)" using wf by (simp add: shard_wf_def)
  have qi: "queue_in (deleteFlow key s) key' m \<longleftrightarrow> key' \<noteq> key \<and> queue_in s key' m" for key' m
  proof (cases "gm_get (sh_priorityBands s) (fk_Priority key)")
    case None
    then have "\<not> queue_in s key m" by (force simp: queue_in_def gm_get_None)
    then show ?thesis using None by (auto simp: deleteFlow_def)
  next
    case (Some b)
    then have "queue_in s key' m \<longleftrightarrow> (fk_ID key', m) \<in> set (bd_queues b)" if "fk_Priority key' = fk_Priority key"
      using queue_in_get [OF ok, of key' b m] that by simp
    then show ?thesis
      using Some by (auto simp: deleteFlow_def replace_band_queue_in [OF ok] gm_del_in FlowKey_eq [of key' key])
  qed
  then show "queue_in (deleteFlow key s) key' m \<longleftrightarrow> key' \<noteq> key \<and> queue_in s key' m" .
  show "same_topology s (deleteFlow key s)"
  proof (cases "gm_get (sh_priorityBands s) (fk_Priority key)")
    case (Some b)
    then show ?thesis using replace_queues_topology [OF Some] by (simp add: deleteFlow_def)
  qed (simp add: deleteFlow_def same_topology_def)
  show "shard_wf st (deleteFlow key s)"
  proof (rule shard_wf_drop [OF wf])
    show "gm_ok (sh_priorityBands (deleteFlow key s))"
      using ok by (simp add: deleteFlow_def distinct_update split: option.split)
    show "gm_ok (bd_queues b) \<and> pb_Priority (bd_config b) = p" if "(p, b) \<in> set (sh_priorityBands (deleteFlow key s))" for p b
      using that wf
      by (auto simp: deleteFlow_def shard_wf_def gm_set_in [OF ok] gm_del_ok split: option.splits if_splits dest!: gm_get_in)
  qed (simp add: qi)
  show "stats_exact (deleteFlow key s)" if ex: "stats_exact s" and e: "\<And>m. queue_in s key m \<Longrightarrow> mq_items m = []"
  proof (cases "gm_get (sh_priorityBands s) (fk_Priority key)")
    case (Some b)
    have okb: "gm_ok (bd_queues b)" using wf gm_get_in [OF Some] by (auto simp: shard_wf_def)
    show ?thesis
    proof (cases "gm_get (bd_queues b) (fk_ID key)")
      case None
      then have "gm_del (fk_ID key) (bd_queues b) = bd_queues b" by (simp add: gm_get_None)
      then show ?thesis using ex Some by (simp add: deleteFlow_def gm_set_same)
    next
      case (Some m)
      have "queue_in s key m" using queue_in_get [OF ok \<open>gm_get (sh_priorityBands s) (fk_Priority key) = Some b\<close>] gm_get_in [OF Some] by simp
      then have "mq_len m = 0" "mq_byteSize m = 0" using e [of m] shard_wfD(2) [OF wf, of key m] by (simp_all add: mq_inv_def)
      then show ?thesis
        using replace_band_exact [OF ex ok \<open>gm_get (sh_priorityBands s) (fk_Priority key) = Some b\<close>, of "gm_del (fk_ID key) (bd_queues b)"]
          wsum_gm_del [OF okb Some, of mq_len] wsum_gm_del [OF okb Some, of mq_byteSize] \<open>gm_get (sh_priorityBands s) (fk_Priority key) = Some b\<close> by (simp add: deleteFlow_def)
    qed
  qed (use ex in \<open>simp add: deleteFlow_def\<close>)
qed

lemma deletePriorityBand_spec:
  assumes wf: "shard_wf st s"
  shows "shard_wf st (shard_deletePriorityBand p s)"
    "queue_in (shard_deletePriorityBand p s) key m \<longleftrightarrow> fk_Priority key \<noteq> p \<and> queue_in s key m"
    "levels_ok s \<Longrightarrow> levels_ok (shard_deletePriorityBand p s)"
    "gm_get (sh_priorityBands (shard_deletePriorityBand p s)) q = (if q = p then None else gm_get (sh_priorityBands s) q)"
proof -
  have ok: "gm_ok (sh_priorityBands s)" using wf by (simp add: shard_wf_def)
  have qi: "queue_in (shard_deletePriorityBand p s) key m \<longleftrightarrow> fk_Priority key \<noteq> p \<and> queue_in s key m" for key m
    by (auto simp: queue_in_def shard_deletePriorityBand_def gm_del_in)
  then show "queue_in (shard_deletePriorityBand p s) key m \<longleftrightarrow> fk_Priority key \<noteq> p \<and> queue_in s key m" .
  show "shard_wf st (shard_deletePriorityBand p s)"
    by (rule shard_wf_drop [OF wf])
      (use wf qi in \<open>auto simp: shard_deletePriorityBand_def gm_del_ok gm_del_in shard_wf_def\<close>)
  show "gm_get (sh_priorityBands (shard_deletePriorityBand p s)) q = (if q = p then None else gm_get (sh_priorityBands s) q)"
    by (simp add: shard_deletePriorityBand_def delete_conv')
  show "levels_ok (shard_deletePriorityBand p s)" if lv: "levels_ok s"
  proof -
    have d: "distinct (sh_orderedPriorityLevels s)" "sorted_wrt (>) (sh_orderedPriorityLevels s)"
      using lv sorted_desc_distinct by (auto simp: levels_ok_def)
    have "sorted_wrt (>) (filter ((\<noteq>) p) (sh_orderedPriorityLevels s))" by (rule sorted_wrt_filter [OF d(2)])
    moreover have "fst ` set (gm_del p (sh_priorityBands s)) = fst ` set (sh_priorityBands s) - {p}" by (force simp: gm_del_in)
    ultimately show ?thesis
      using lv d(1) by (auto simp: levels_ok_def shard_deletePriorityBand_def distinct_remove1_removeAll removeAll_filter_not_eq)
  qed
qed

lemma update_bands_eq:
  "(\<And>p b. (p, b) \<in> set bands \<Longrightarrow> gm_get cfg p \<noteq> None) \<Longrightarrow>
   update_bands cfg bands = Some (map (\<lambda>(p, b). (p, b\<lparr>bd_config := the (gm_get cfg p)\<rparr>)) bands)"
proof (induction bands)
  case (Cons e bands)
  obtain p b where e: "e = (p, b)" by (cases e)
  obtain c where "gm_get cfg p = Some c" using Cons.prems [of p b] e by auto
  moreover have "update_bands cfg bands = Some (map (\<lambda>(p, b). (p, b\<lparr>bd_config := the (gm_get cfg p)\<rparr>)) bands)"
    by (rule Cons.IH) (use Cons.prems in auto)
  ultimately show ?case using e by simp
qed simp

lemma updateConfig_spec:
  assumes wf: "shard_wf st s"
    and cfg: "\<And>p. p \<in> fst ` set (sh_priorityBands s) \<Longrightarrow> \<exists>c. gm_get (sc_PriorityBands new) p = Some c \<and> pb_Priority c = p"
  shows "\<exists>s'. updateConfig new s = Some s' \<and> shard_wf st s' \<and> (stats_exact s \<longrightarrow> stats_exact s') \<and>
     (levels_ok s \<longrightarrow> levels_ok s') \<and> sh_config s' = new \<and> queue_in s' = queue_in s \<and> sh_isDraining s' = sh_isDraining s \<and>
     sh_totalLen s' = sh_totalLen s \<and> sh_totalByteSize s' = sh_totalByteSize s \<and>
     (\<forall>p. gm_get (sh_priorityBands s') p =
        map_option (\<lambda>b. b\<lparr>bd_config := the (gm_get (sc_PriorityBands new) p)\<rparr>) (gm_get (sh_priorityBands s) p))"
proof -
  let ?f = "\<lambda>p b. b\<lparr>bd_config := the (gm_get (sc_PriorityBands new) p)\<rparr>"
  let ?s = "s\<lparr>sh_config := new, sh_priorityBands := map (\<lambda>(p, b). (p, ?f p b)) (sh_priorityBands s)\<rparr>"
  have up: "updateConfig new s = Some ?s"
    using update_bands_eq [of "sh_priorityBands s" "sc_PriorityBands new"] cfg by (force simp: updateConfig_def)
  have q: "queue_in ?s = queue_in s" by (intro ext) (force simp: queue_in_def)
  have fst: "map fst (sh_priorityBands ?s) = map fst (sh_priorityBands s)" by (simp add: comp_def split_def)
  have keys: "gm_ok (sh_priorityBands ?s)" unfolding fst using wf by (simp add: shard_wf_def)
  have "set (map fst (sh_priorityBands ?s)) = set (map fst (sh_priorityBands s))" unfolding fst ..
  then have keys: "gm_ok (sh_priorityBands ?s)" "fst ` set (sh_priorityBands ?s) = fst ` set (sh_priorityBands s)"
    using keys by (simp_all only: set_map)
  have wf': "shard_wf st ?s"
  proof (rule shard_wf_drop [OF wf keys(1)])
    show "gm_ok (bd_queues b) \<and> pb_Priority (bd_config b) = p" if b: "(p, b) \<in> set (sh_priorityBands ?s)" for p b
    proof -
      obtain b0 where b0: "(p, b0) \<in> set (sh_priorityBands s)" "b = ?f p b0" using b by auto
      have "gm_ok (bd_queues b0)" using wf b0(1) unfolding shard_wf_def by blast
      moreover obtain c where "gm_get (sc_PriorityBands new) p = Some c" "pb_Priority c = p"
        using cfg [of p] image_eqI [OF _ b0(1), of p fst] by auto
      ultimately show ?thesis using b0(2) by simp
    qed
  qed (simp add: q)
  have ex': "stats_exact ?s" if ex: "stats_exact s"
  proof (rule stats_exactI)
    show "sh_totalLen ?s = wsum bd_len (map snd (sh_priorityBands ?s))"
      "sh_totalByteSize ?s = wsum bd_byteSize (map snd (sh_priorityBands ?s))"
      using stats_exactD(3,4) [OF ex] by (simp_all add: wsum_def comp_def split_def)
    show "bd_len b = wsum mq_len (map snd (bd_queues b)) \<and> bd_byteSize b = wsum mq_byteSize (map snd (bd_queues b))"
      if b: "(p, b) \<in> set (sh_priorityBands ?s)" for p b
    proof -
      obtain b0 where b0: "(p, b0) \<in> set (sh_priorityBands s)" "b = ?f p b0" using b by auto
      then show ?thesis using stats_exactD(1,2) [OF ex b0(1)] by simp
    qed
  qed
  have lv': "levels_ok ?s" if "levels_ok s" using that keys(2) unfolding levels_ok_def by simp
  have get': "gm_get (sh_priorityBands ?s) p = map_option (?f p) (gm_get (sh_priorityBands s) p)" for p
    by (simp add: map_of_map_snd [of ?f])
  show ?thesis
    by (intro exI [of _ ?s] conjI impI allI, rule up, rule wf', erule ex', erule lv', simp, rule q, simp, simp, simp, rule get')
qed

text \<open>A new shard has one empty band per configured priority.\<close>

lemma init_bands_spec:
  assumes "\<And>p c. (p, c) \<in> set cfgs \<Longrightarrow> pb_FairnessPolicy c \<noteq> None \<and> pb_Priority c = p" "gm_ok cfgs"
    "\<And>p. p \<in> fst ` set cfgs \<Longrightarrow> gm_get (sh_priorityBands s) p = None"
    "shard_wf st s" "stats_exact s" "levels_ok s" "\<And>key m. \<not> queue_in s key m"
  shows "\<exists>s'. init_bands cfgs s = Some s' \<and> shard_wf st s' \<and> stats_exact s' \<and> levels_ok s' \<and>
     (\<forall>key m. \<not> queue_in s' key m) \<and> sh_totalLen s' = sh_totalLen s \<and> sh_totalByteSize s' = sh_totalByteSize s \<and>
     sh_config s' = sh_config s \<and> sh_isDraining s' = sh_isDraining s \<and>
     (\<forall>p. gm_get (sh_priorityBands s') p = (case gm_get cfgs p of
        None \<Rightarrow> gm_get (sh_priorityBands s) p | Some c \<Rightarrow> Some (new_band (the (pb_FairnessPolicy c)) c)))"
  using assms
proof (induction cfgs arbitrary: s)
  case (Cons e cfgs)
  obtain p c where e': "e = (p, c)" by (cases e)
  then have c: "pb_FairnessPolicy c \<noteq> None" "p = pb_Priority c" using Cons.prems(1) [of p c] by simp_all
  then have e: "e = (pb_Priority c, c)" using e' by simp
  obtain fp where fp: "pb_FairnessPolicy c = Some fp" using c(1) by blast
  have none: "gm_get (sh_priorityBands s) (pb_Priority c) = None" using Cons.prems(3) [of "pb_Priority c"] e by simp
  obtain s1 where s1: "initPriorityBand c s = Some s1" "sh_priorityBands s1 = sh_priorityBands s @ [(pb_Priority c, new_band fp c)]"
    "shard_wf st s1" "stats_exact s1" "levels_ok s1" "queue_in s1 = queue_in s" "sh_totalLen s1 = sh_totalLen s"
    "sh_totalByteSize s1 = sh_totalByteSize s" "sh_config s1 = sh_config s" "sh_isDraining s1 = sh_isDraining s"
    using initPriorityBand_spec [OF fp none, of st] Cons.prems(4-6) by blast
  have get1: "gm_get (sh_priorityBands s1) p = (if p = pb_Priority c then Some (new_band fp c) else gm_get (sh_priorityBands s) p)" for p
    using s1(2) none by (auto simp: map_add_def split: option.split)
  have nin: "pb_Priority c \<notin> fst ` set cfgs" using Cons.prems(2) e by simp
  have "\<exists>s'. init_bands cfgs s1 = Some s' \<and> shard_wf st s' \<and> stats_exact s' \<and> levels_ok s' \<and>
     (\<forall>key m. \<not> queue_in s' key m) \<and> sh_totalLen s' = sh_totalLen s1 \<and> sh_totalByteSize s' = sh_totalByteSize s1 \<and>
     sh_config s' = sh_config s1 \<and> sh_isDraining s' = sh_isDraining s1 \<and>
     (\<forall>p. gm_get (sh_priorityBands s') p = (case gm_get cfgs p of
        None \<Rightarrow> gm_get (sh_priorityBands s1) p | Some c \<Rightarrow> Some (new_band (the (pb_FairnessPolicy c)) c)))"
  proof (rule Cons.IH)
    show "pb_FairnessPolicy c \<noteq> None \<and> pb_Priority c = p" if "(p, c) \<in> set cfgs" for p c
      using Cons.prems(1) [of p c] that by simp
    show "gm_get (sh_priorityBands s1) p = None" if "p \<in> fst ` set cfgs" for p
    proof -
      have "p \<noteq> pb_Priority c" using nin that by blast
      then show ?thesis using Cons.prems(3) [of p] that get1 [of p] by simp
    qed
    show "\<not> queue_in s1 key m" for key m using Cons.prems(7) [of key m] s1(6) by simp
  qed (use Cons.prems(2) s1(3-5) in simp_all)
  then obtain s' where s': "init_bands cfgs s1 = Some s'" "shard_wf st s'" "stats_exact s'" "levels_ok s'"
    "\<forall>key m. \<not> queue_in s' key m" "sh_totalLen s' = sh_totalLen s1" "sh_totalByteSize s' = sh_totalByteSize s1"
    "sh_config s' = sh_config s1" "sh_isDraining s' = sh_isDraining s1"
    "\<forall>p. gm_get (sh_priorityBands s') p = (case gm_get cfgs p of
        None \<Rightarrow> gm_get (sh_priorityBands s1) p | Some c \<Rightarrow> Some (new_band (the (pb_FairnessPolicy c)) c))" by blast
  have "gm_get cfgs (pb_Priority c) = None" using nin by (simp add: gm_get_None)
  then have "gm_get (sh_priorityBands s') p = (case gm_get (e # cfgs) p of
      None \<Rightarrow> gm_get (sh_priorityBands s) p | Some c \<Rightarrow> Some (new_band (the (pb_FairnessPolicy c)) c))" for p
    using s'(10) e fp get1 [of p] by (cases "p = pb_Priority c") (auto split: option.split)
  then show ?case using s' e s1(1,7-10) by simp
qed simp

text \<open>The configurations a shard is built from: every band stands under its priority and has a fairness
  policy.\<close>

definition shard_cfg_ok :: "ShardConfig \<Rightarrow> bool" where
  "shard_cfg_ok c \<longleftrightarrow> gm_ok (sc_PriorityBands c) \<and>
     (\<forall>(p, b) \<in> set (sc_PriorityBands c). pb_FairnessPolicy b \<noteq> None \<and> pb_Priority b = p)"

lemma newShard_spec:
  assumes "shard_cfg_ok c"
  shows "\<exists>s. newShard sid c = Some s \<and> shard_wf st s \<and> stats_exact s \<and> levels_ok s \<and> (\<forall>key m. \<not> queue_in s key m) \<and>
     sh_totalLen s = 0 \<and> sh_totalByteSize s = 0 \<and> sh_config s = c \<and> \<not> sh_isDraining s \<and>
     (\<forall>p. gm_get (sh_priorityBands s) p = map_option (\<lambda>b. new_band (the (pb_FairnessPolicy b)) b) (gm_get (sc_PriorityBands c) p))"
proof -
  let ?s = "\<lparr>sh_id = sid, sh_config = c, sh_orderedPriorityLevels = [], sh_priorityBands = [],
        sh_isDraining = False, sh_totalByteSize = 0, sh_totalLen = 0\<rparr>"
  have 0: "shard_wf st ?s" "stats_exact ?s" "levels_ok ?s" "\<And>key m. \<not> queue_in ?s key m"
    by (auto simp: shard_wf_def stats_exact_def levels_ok_def queue_in_def)
  have "\<exists>s'. init_bands (sc_PriorityBands c) ?s = Some s' \<and> shard_wf st s' \<and> stats_exact s' \<and> levels_ok s' \<and>
     (\<forall>key m. \<not> queue_in s' key m) \<and> sh_totalLen s' = sh_totalLen ?s \<and> sh_totalByteSize s' = sh_totalByteSize ?s \<and>
     sh_config s' = sh_config ?s \<and> sh_isDraining s' = sh_isDraining ?s \<and>
     (\<forall>p. gm_get (sh_priorityBands s') p = (case gm_get (sc_PriorityBands c) p of
        None \<Rightarrow> gm_get (sh_priorityBands ?s) p | Some c \<Rightarrow> Some (new_band (the (pb_FairnessPolicy c)) c)))"
    by (rule init_bands_spec [OF _ _ _ 0]) (use assms in \<open>auto simp: shard_cfg_ok_def\<close>)
  then show ?thesis unfolding newShard_def by (fastforce split: option.splits)
qed

text \<open>What every queue operation leaves of the topology.\<close>

lemma queue_op_facts:
  assumes "queue_op s ds s'" "gm_ok (sh_priorityBands s)"
  shows "map fst (sh_priorityBands s') = map fst (sh_priorityBands s)" "sh_config s' = sh_config s"
    "sh_orderedPriorityLevels s' = sh_orderedPriorityLevels s" "sh_isDraining s' = sh_isDraining s"
    "sh_totalLen s' = sh_totalLen s + delta_len ds" "sh_totalByteSize s' = sh_totalByteSize s + delta_bytes ds"
    "levels_ok s \<Longrightarrow> levels_ok s'" "(\<exists>m. queue_in s' key m) \<longleftrightarrow> (\<exists>m. queue_in s key m)"
    "map_option bd_config (gm_get (sh_priorityBands s') p) = map_option bd_config (gm_get (sh_priorityBands s) p)"
proof -
  obtain k mq b where o: "gm_get (sh_priorityBands s) (fk_Priority k) = Some b" "gm_get (bd_queues b) (fk_ID k) \<noteq> None"
    and s': "s' = put_result k mq ds b s"
    using assms(1) unfolding queue_op_def by blast
  show keys: "map fst (sh_priorityBands s') = map fst (sh_priorityBands s)" unfolding s' by (rule put_result_keys [OF o(1)])
  show "sh_config s' = sh_config s" "sh_orderedPriorityLevels s' = sh_orderedPriorityLevels s"
    "sh_isDraining s' = sh_isDraining s" "sh_totalLen s' = sh_totalLen s + delta_len ds"
    "sh_totalByteSize s' = sh_totalByteSize s + delta_bytes ds" unfolding s' by simp_all
  have "fst ` set (sh_priorityBands s') = fst ` set (sh_priorityBands s)" using keys by (metis set_map)
  then show "levels_ok s \<Longrightarrow> levels_ok s'" unfolding levels_ok_def s' by simp
  show "map_option bd_config (gm_get (sh_priorityBands s') p) = map_option bd_config (gm_get (sh_priorityBands s) p)"
    unfolding s' put_result_band using o(1) by simp
  obtain m0 where m0: "gm_get (bd_queues b) (fk_ID k) = Some m0" using o(2) by blast
  have fst: "fst ` set (gm_set (fk_ID k) mq (bd_queues b)) = fst ` set (bd_queues b)"
    using gm_set_keys [OF o(2), of mq] by (metis set_map)
  have dom: "(\<exists>m. queue_in t key m) \<longleftrightarrow> (\<exists>b'. gm_get (sh_priorityBands t) (fk_Priority key) = Some b' \<and> fk_ID key \<in> fst ` set (bd_queues b'))"
    if "gm_ok (sh_priorityBands t)" for t
    using that map_of_eq_Some_iff [OF that] unfolding queue_in_def by (force simp: image_iff)
  have ok': "gm_ok (sh_priorityBands s')" using assms(2) keys by simp
  show "(\<exists>m. queue_in s' key m) \<longleftrightarrow> (\<exists>m. queue_in s key m)"
    unfolding dom [OF assms(2)] dom [OF ok'] unfolding s' put_result_band using o(1) fst by auto
qed

text \<open>Only handles and handle objects of the store matter to the queues, so finalizing items does not
  disturb them.\<close>

lemma q_wf_store:
  assumes "q_wf st q" "\<And>x. Handle st' x = Handle st x" "st_obj st' = st_obj st" "st_next st' = st_next st"
  shows "q_wf st' q"
  using assms(1)
proof (cases q)
  case (LQ lq)
  then show ?thesis using assms by (simp add: list_wf_def)
next
  case (HQ bef h)
  have "Handle st' = Handle st" using assms(2) by auto
  then show ?thesis using HQ assms by (simp add: heap_wf_def)
qed

lemma shard_wf_store:
  assumes wf: "shard_wf st s" and st: "\<And>x. Handle st' x = Handle st x" "st_obj st' = st_obj st" "st_next st' = st_next st"
  shows "shard_wf st' s"
proof -
  have "mq_inv st' m" if "mq_inv st m" for m using that q_wf_store [OF _ st] by (simp add: mq_inv_def)
  then show ?thesis using wf unfolding shard_wf_def st(1) by blast
qed

lemma shard_wf_finalized: "shard_wf st s \<Longrightarrow> shard_wf (finalized_with x fs st) s"
  by (rule shard_wf_store) simp_all

lemma once_finalize_store:
  assumes "once_finalize x f st = Some st'" "\<And>im im'. f im = Some im' \<Longrightarrow> im_handle im' = im_handle im"
  shows "Handle st' y = Handle st y" "st_obj st' = st_obj st" "st_next st' = st_next st"
  using assms by (fastforce simp: once_finalize_def Handle_def Let_def split: if_splits option.splits)+

lemma Finalize_store:
  assumes "Finalize x cause st = Some st'"
  shows "Handle st' y = Handle st y" "st_obj st' = st_obj st" "st_next st' = st_next st"
  by (rule once_finalize_store [OF assms [unfolded Finalize_def]],
      auto simp: finalizeInternal_def Let_def split: if_splits prod.splits)+

subsection \<open>Every reachable shard\<close>

text \<open>Everything that is done to a shard: its flows and bands come and go, its queues are used in any
  order, items are finalized. A flow is deleted when its queue is empty and a band when it has no flow.\<close>

inductive shard_reach :: "Store \<Rightarrow> registryShard \<Rightarrow> bool" where
  Created: "shard_cfg_ok c \<Longrightarrow> newShard sid c = Some s \<Longrightarrow> shard_reach empty_store s"
| BandAdded: "shard_reach st s \<Longrightarrow> addPriorityBand p s = Some s' \<Longrightarrow> shard_reach st s'"
| ConfigUpdated: "shard_reach st s \<Longrightarrow> shard_cfg_ok new \<Longrightarrow>
    fst ` set (sh_priorityBands s) \<subseteq> fst ` set (sc_PriorityBands new) \<Longrightarrow>
    updateConfig new s = Some s' \<Longrightarrow> shard_reach st s'"
| FlowSynced: "shard_reach st s \<Longrightarrow> NewQueueFromName name policy addr = Inr q \<Longrightarrow>
    synchronizeFlow key policy q s = Some s' \<Longrightarrow> shard_reach st s'"
| Added: "shard_reach st s \<Longrightarrow> item_key x = key \<Longrightarrow> \<forall>y \<in> held s. fi_ref y \<noteq> fi_ref x \<Longrightarrow>
    length (shard_items s) + 1 < 2 ^ 63 \<Longrightarrow> queue_Add key x st s = Some (r, st', s', ds) \<Longrightarrow> shard_reach st' s'"
| Removed: "shard_reach st s \<Longrightarrow> x \<in> held s \<Longrightarrow>
    queue_Remove (item_key x) (Handle st x) st s = Some (r, st', s', ds) \<Longrightarrow> shard_reach st' s'"
| Swept: "shard_reach st s \<Longrightarrow> queue_Cleanup key p st s = Some (rem, st', s', ds) \<Longrightarrow> shard_reach st' s'"
| Drained: "shard_reach st s \<Longrightarrow> queue_Drain key st s = Some (rem, st', s', ds) \<Longrightarrow> shard_reach st' s'"
| Finalized: "shard_reach st s \<Longrightarrow> Finalize x cause st = Some st' \<Longrightarrow> shard_reach st' s"
| FlowDeleted: "shard_reach st s \<Longrightarrow> (\<And>m. queue_in s key m \<Longrightarrow> mq_items m = []) \<Longrightarrow> shard_reach st (deleteFlow key s)"
| BandDeleted: "shard_reach st s \<Longrightarrow> gm_get (sh_priorityBands s) p = Some b \<Longrightarrow> bd_queues b = [] \<Longrightarrow>
    shard_reach st (shard_deletePriorityBand p s)"
| MarkedDraining: "shard_reach st s \<Longrightarrow> shard_reach st (markAsDraining s)"

definition shard_inv :: "Store \<Rightarrow> registryShard \<Rightarrow> bool" where
  "shard_inv st s \<longleftrightarrow> shard_wf st s \<and> stats_exact s \<and> levels_ok s \<and> shard_cfg_ok (sh_config s)"

lemma shard_inv_step:
  assumes "shard_inv st s" "shard_step st s ds st' s'"
  shows "shard_inv st' s'"
proof -
  have "gm_ok (sh_priorityBands s)" using assms(1) by (simp add: shard_inv_def shard_wf_def)
  then show ?thesis
    using assms queue_op_facts [of s ds s'] by (simp add: shard_inv_def shard_step_def)
qed

lemma shard_inv_same: "shard_inv st s \<Longrightarrow> shard_wf st' s' \<Longrightarrow> stats_exact s' \<Longrightarrow> same_topology s s' \<Longrightarrow> shard_inv st' s'"
  unfolding shard_inv_def levels_ok_def same_topology_def by (metis list.set_map)

lemma addPriorityBand_inv:
  assumes inv: "shard_inv st s" and a: "addPriorityBand p s = Some s'"
  shows "shard_inv st s'"
proof (cases "gm_get (sh_priorityBands s) p")
  case None
  then obtain c where c: "gm_get (sc_PriorityBands (sh_config s)) p = Some c" "initPriorityBand c s = Some s'"
    using a by (auto simp: addPriorityBand_def split: option.splits)
  then obtain fp where fp: "pb_FairnessPolicy c = Some fp" "pb_Priority c = p"
    using inv gm_get_in [OF c(1)] by (fastforce simp: shard_inv_def shard_cfg_ok_def)
  from initPriorityBand_spec [OF fp(1), of s st] None fp(2) c(2) inv show ?thesis by (auto simp: shard_inv_def)
qed (use assms in \<open>simp add: addPriorityBand_def\<close>)

lemma queue_room:
  assumes "ManagedQueue_of key s = Inr mq" "length (shard_items s) + 1 < 2 ^ 63"
  shows "length (mq_items mq) + 1 < 2 ^ 63"
proof -
  have "mq \<in> set (shard_queues s)" using ManagedQueue_in [OF assms(1)] by (force simp: shard_queues_def queue_in_def)
  then have "length (mq_items mq) \<le> length (shard_items s)"
    using member_le_sum_list [of "length (mq_items mq)" "map (length \<circ> mq_items) (shard_queues s)"]
    by (force simp: shard_items_def length_concat comp_def)
  then show ?thesis using assms(2) by simp
qed

lemma shard_inv_Add:
  assumes inv: "shard_inv st s" and x: "item_key x = key" "\<forall>y \<in> held s. fi_ref y \<noteq> fi_ref x"
    and room: "length (shard_items s) + 1 < 2 ^ 63" and a: "queue_Add key x st s = Some (r, st', s', ds)"
  shows "shard_inv st' s'"
proof -
  have wf: "shard_wf st s" using inv by (simp add: shard_inv_def)
  obtain mq where mq: "ManagedQueue_of key s = Inr mq" using a by (auto simp: queue_Add_def with_queue_def split: sum.splits)
  show ?thesis
  proof (cases "sh_isDraining s")
    case True
    obtain b where "gm_get (sh_priorityBands s) (fk_Priority key) = Some b" "gm_get (bd_queues b) (fk_ID key) = Some mq"
      using queue_in_band [OF mq] .
    then have "put_queue key mq s = s" by (simp add: put_queue_def gm_set_same)
    then show ?thesis using True a mq inv by (simp add: queue_Add_def with_queue_def mq_Add_def put_back_def)
  next
    case False
    from queue_Add_spec [OF wf mq False x queue_room [OF mq room]] a inv show ?thesis using shard_inv_step by fastforce
  qed
qed

lemma deletePriorityBand_inv:
  assumes inv: "shard_inv st s" and b: "gm_get (sh_priorityBands s) p = Some b" "bd_queues b = []"
  shows "shard_inv st (shard_deletePriorityBand p s)"
proof -
  have wf: "shard_wf st s" and ex: "stats_exact s" using inv by (simp_all add: shard_inv_def)
  have ok: "gm_ok (sh_priorityBands s)" using wf by (simp add: shard_wf_def)
  have 0: "bd_len b = 0" "bd_byteSize b = 0" using stats_exactD(1,2) [OF ex gm_get_in [OF b(1)]] b(2) by simp_all
  have "stats_exact (shard_deletePriorityBand p s)"
  proof (rule stats_exactI)
    show "sh_totalLen (shard_deletePriorityBand p s) = wsum bd_len (map snd (sh_priorityBands (shard_deletePriorityBand p s)))"
      "sh_totalByteSize (shard_deletePriorityBand p s) = wsum bd_byteSize (map snd (sh_priorityBands (shard_deletePriorityBand p s)))"
      using stats_exactD(3,4) [OF ex] wsum_gm_del [OF ok b(1), of bd_len] wsum_gm_del [OF ok b(1), of bd_byteSize] 0
      by (simp_all add: shard_deletePriorityBand_def)
    show "bd_len b' = wsum mq_len (map snd (bd_queues b')) \<and> bd_byteSize b' = wsum mq_byteSize (map snd (bd_queues b'))"
      if "(q, b') \<in> set (sh_priorityBands (shard_deletePriorityBand p s))" for q b'
      using that stats_exactD(1,2) [OF ex, of q b'] by (simp add: shard_deletePriorityBand_def gm_del_in)
  qed
  moreover have "shard_cfg_ok (sh_config (shard_deletePriorityBand p s))"
    using inv by (auto simp: shard_inv_def shard_cfg_ok_def shard_deletePriorityBand_def gm_del_ok gm_del_in)
  ultimately show ?thesis using deletePriorityBand_spec [OF wf] inv by (simp add: shard_inv_def)
qed

lemma shard_reach_inv: "shard_reach st s \<Longrightarrow> shard_inv st s"
proof (induction rule: shard_reach.induct)
  case (Created c sid s)
  then show ?case using newShard_spec [of c sid empty_store] by (auto simp: shard_inv_def)
next
  case (ConfigUpdated st s new s')
  have "\<exists>c. gm_get (sc_PriorityBands new) p = Some c \<and> pb_Priority c = p" if "p \<in> fst ` set (sh_priorityBands s)" for p
  proof -
    obtain c where "(p, c) \<in> set (sc_PriorityBands new)" using ConfigUpdated.hyps(3) \<open>p \<in> _\<close> by fastforce
    then show ?thesis using ConfigUpdated.hyps(2) by (auto simp: shard_cfg_ok_def)
  qed
  with updateConfig_spec [of st s new] ConfigUpdated show ?case by (auto simp: shard_inv_def)
next
  case (FlowSynced st s name policy addr q key s')
  have "gm_get (sh_priorityBands s) (fk_Priority key) \<noteq> None"
    using FlowSynced.hyps(3) by (auto simp: synchronizeFlow_def split: option.splits)
  moreover have "shard_wf st s" "stats_exact s" using FlowSynced.IH by (simp_all add: shard_inv_def)
  ultimately show ?case
    using synchronizeFlow_spec [of st s key q policy] NewQueueFromName_empty [OF FlowSynced.hyps(2), of st] FlowSynced.hyps(3)
      shard_inv_same [OF FlowSynced.IH] by auto
next
  case (Removed st s x r st' s' ds)
  have wf: "shard_wf st s" using Removed.IH by (simp add: shard_inv_def)
  obtain mq where "ManagedQueue_of (item_key x) s = Inr mq" "x \<in> set (mq_items mq)"
    using held_key [OF wf Removed.hyps(2)] by blast
  from queue_Remove_spec [OF wf this] Removed.hyps(3) show ?case using shard_inv_step [OF Removed.IH] by fastforce
next
  case (Swept st s key p rem st' s' ds)
  have wf: "shard_wf st s" using Swept.IH by (simp add: shard_inv_def)
  obtain mq where "ManagedQueue_of key s = Inr mq"
    using Swept.hyps(2) by (auto simp: queue_Cleanup_def with_queue_def split: sum.splits)
  from queue_Cleanup_spec [OF wf this, of p] Swept.hyps(2) show ?case using shard_inv_step [OF Swept.IH] by fastforce
next
  case (Drained st s key rem st' s' ds)
  have wf: "shard_wf st s" using Drained.IH by (simp add: shard_inv_def)
  obtain mq where "ManagedQueue_of key s = Inr mq"
    using Drained.hyps(2) by (auto simp: queue_Drain_def with_queue_def split: sum.splits)
  from queue_Drain_spec [OF wf this] Drained.hyps(2) show ?case using shard_inv_step [OF Drained.IH] by fastforce
next
  case (Finalized st s x cause st')
  then show ?case using shard_wf_store [OF _ Finalize_store [OF Finalized.hyps(2)], of s] by (simp add: shard_inv_def)
next
  case (FlowDeleted st s key)
  then show ?case using deleteFlow_spec [of st s key] shard_inv_same [OF FlowDeleted.IH] by (simp add: shard_inv_def)
next
  case (BandDeleted st s p b)
  then show ?case using deletePriorityBand_inv by blast
next
  case (MarkedDraining st s)
  then show ?case by (simp add: shard_inv_def shard_wf_def stats_exact_def levels_ok_def markAsDraining_def queue_in_def)
qed (blast intro: addPriorityBand_inv shard_inv_Add)+

subsection \<open>Properties\<close>

definition band_items :: "priorityBand \<Rightarrow> FlowItem list" where
  "band_items b = concat (map (\<lambda>(i, mq). mq_items mq) (bd_queues b))"

lemma wsum_queues:
  assumes "\<forall>e \<in> set qs. mq_inv st (snd e)"
  shows "wsum mq_len (map snd qs) = of_nat (length (concat (map (\<lambda>(i, mq). mq_items mq) qs)))"
    "wsum mq_byteSize (map snd qs) = wsum item_bytes (concat (map (\<lambda>(i, mq). mq_items mq) qs))"
  using assms by (induction qs) (auto simp: mq_inv_def)

lemma wsum_bands:
  assumes "\<forall>e \<in> set bs. bd_len (snd e) = of_nat (length (band_items (snd e))) \<and>
     bd_byteSize (snd e) = wsum item_bytes (band_items (snd e))"
  shows "wsum bd_len (map snd bs) = of_nat (length (concat (map (\<lambda>(p, b). band_items b) bs)))"
    "wsum bd_byteSize (map snd bs) = wsum item_bytes (concat (map (\<lambda>(p, b). band_items b) bs))"
  using assms by (induction bs) auto

lemma shard_items_bands: "shard_items s = concat (map (\<lambda>(p, b). band_items b) (sh_priorityBands s))"
proof -
  have "concat (map mq_items (concat (map (\<lambda>(p, b). map snd (bd_queues b)) bs))) =
      concat (map (\<lambda>(p, b). concat (map (\<lambda>(i, mq). mq_items mq) (bd_queues b))) bs)" for bs :: "(int \<times> priorityBand) list"
    by (induction bs) (auto simp: comp_def split_def)
  then show ?thesis by (simp add: shard_items_def shard_queues_def band_items_def)
qed

lemma shard_inv_stats:
  assumes inv: "shard_wf st s" "stats_exact s"
  shows "(p, b) \<in> set (sh_priorityBands s) \<Longrightarrow> bd_len b = of_nat (length (band_items b))"
    "(p, b) \<in> set (sh_priorityBands s) \<Longrightarrow> bd_byteSize b = wsum item_bytes (band_items b)"
    "sh_totalLen s = of_nat (length (shard_items s))" "sh_totalByteSize s = wsum item_bytes (shard_items s)"
proof -
  have b: "bd_len b = of_nat (length (band_items b))" "bd_byteSize b = wsum item_bytes (band_items b)"
    if "(p, b) \<in> set (sh_priorityBands s)" for p b
  proof -
    have "mq_inv st m" if "(i, m) \<in> set (bd_queues b)" for i m
      using shard_wfD(2) [OF inv(1), of "FlowKey i p" m] that \<open>(p, b) \<in> _\<close> by (auto simp: queue_in_def)
    then have "\<forall>e \<in> set (bd_queues b). mq_inv st (snd e)" by auto
    then show "bd_len b = of_nat (length (band_items b))" "bd_byteSize b = wsum item_bytes (band_items b)"
      using stats_exactD(1,2) [OF inv(2) that] wsum_queues [of "bd_queues b" st] by (simp_all add: band_items_def)
  qed
  show "(p, b) \<in> set (sh_priorityBands s) \<Longrightarrow> bd_len b = of_nat (length (band_items b))"
    "(p, b) \<in> set (sh_priorityBands s) \<Longrightarrow> bd_byteSize b = wsum item_bytes (band_items b)" by (fact b)+
  have "\<forall>e \<in> set (sh_priorityBands s). bd_len (snd e) = of_nat (length (band_items (snd e))) \<and>
     bd_byteSize (snd e) = wsum item_bytes (band_items (snd e))" using b by auto
  then show "sh_totalLen s = of_nat (length (shard_items s))" "sh_totalByteSize s = wsum item_bytes (shard_items s)"
    using stats_exactD(3,4) [OF inv(2)] wsum_bands [of "sh_priorityBands s"] by (simp_all add: shard_items_bands)
qed

text \<open>No item is listed twice, so counting the lists is counting the sets.\<close>

lemma distinct_concat_entries:
  "distinct (map fst m) \<Longrightarrow> (\<forall>e \<in> set m. distinct (f (snd e))) \<Longrightarrow>
   (\<forall>e \<in> set m. \<forall>e' \<in> set m. fst e \<noteq> fst e' \<longrightarrow> set (f (snd e)) \<inter> set (f (snd e')) = {}) \<Longrightarrow>
   distinct (concat (map (\<lambda>(k, v). f v) m))"
proof (induction m)
  case (Cons e m)
  have "fst e \<notin> fst ` set m" using Cons.prems(1) by simp
  then have disj: "set (f (snd e)) \<inter> set (f (snd e')) = {}" if "e' \<in> set m" for e'
    using Cons.prems(3) that by (metis image_eqI list.set_intros(1,2))
  have "distinct (concat (map (\<lambda>(k, v). f v) m))"
    by (rule Cons.IH) (use Cons.prems in simp_all)
  moreover have "set (f (snd e)) \<inter> set (concat (map (\<lambda>(k, v). f v) m)) = {}"
    using disj by (auto simp: split_def)
  moreover have "distinct (f (snd e))" using Cons.prems(2) by simp
  ultimately show ?case by (simp add: split_def)
qed simp

lemma band_items_held:
  assumes wf: "shard_wf st s" and b: "(p, b) \<in> set (sh_priorityBands s)"
  shows "distinct (band_items b)" "set (band_items b) = {x \<in> held s. fk_Priority (item_key x) = p}"
proof -
  have q: "queue_in s (FlowKey i p) m" if "(i, m) \<in> set (bd_queues b)" for i m
    using that b by (auto simp: queue_in_def)
  have d: "distinct (mq_items m)" if "(i, m) \<in> set (bd_queues b)" for i m
    using shard_wfD(2) [OF wf q [OF that]] sq.refs [of st "mq_queue m"] distinct_map by (auto simp: mq_inv_def)
  show "distinct (band_items b)"
    unfolding band_items_def
  proof (rule distinct_concat_entries)
    show "distinct (map fst (bd_queues b))" using wf b by (fastforce simp: shard_wf_def)
    show "\<forall>e \<in> set (bd_queues b). \<forall>e' \<in> set (bd_queues b). fst e \<noteq> fst e' \<longrightarrow>
        set (mq_items (snd e)) \<inter> set (mq_items (snd e')) = {}"
    proof (intro ballI impI equals0I)
      fix e e' x assume e: "e \<in> set (bd_queues b)" "e' \<in> set (bd_queues b)" "fst e \<noteq> fst e'"
        "x \<in> set (mq_items (snd e)) \<inter> set (mq_items (snd e'))"
      then show False
        using shard_wfD(3) [OF wf q [of "fst e" "snd e"], of x] shard_wfD(3) [OF wf q [of "fst e'" "snd e'"], of x] by auto
    qed
  qed (use d in auto)
  show "set (band_items b) = {x \<in> held s. fk_Priority (item_key x) = p}"
  proof (intro equalityI subsetI)
    fix x assume "x \<in> set (band_items b)"
    then obtain i m where "(i, m) \<in> set (bd_queues b)" "x \<in> set (mq_items m)" by (auto simp: band_items_def)
    then show "x \<in> {x \<in> held s. fk_Priority (item_key x) = p}"
      using q [of i m] shard_wfD(3) [OF wf q [of i m], of x] by (auto simp: held_def)
  next
    fix x assume "x \<in> {x \<in> held s. fk_Priority (item_key x) = p}"
    then obtain key m where x: "queue_in s key m" "x \<in> set (mq_items m)" "fk_Priority (item_key x) = p"
      by (auto simp: held_def)
    then have "fk_Priority key = p" using shard_wfD(3) [OF wf x(1,2)] by simp
    then obtain b' where b': "(p, b') \<in> set (sh_priorityBands s)" "(fk_ID key, m) \<in> set (bd_queues b')"
      using x(1) by (auto simp: queue_in_def)
    have "b' = b" using wf b b'(1) by (metis eq_key_imp_eq_value shard_wf_def)
    then show "x \<in> set (band_items b)" using b'(2) x(2) by (force simp: band_items_def)
  qed
qed

lemma shard_items_distinct:
  assumes wf: "shard_wf st s"
  shows "distinct (shard_items s)"
  unfolding shard_items_bands
proof (rule distinct_concat_entries)
  show "distinct (map fst (sh_priorityBands s))" using wf by (simp add: shard_wf_def)
  show "\<forall>e \<in> set (sh_priorityBands s). distinct (band_items (snd e))" using band_items_held(1) [OF wf] by auto
  have "set (band_items (snd e)) = {x \<in> held s. fk_Priority (item_key x) = fst e}" if "e \<in> set (sh_priorityBands s)" for e
    using band_items_held(2) [OF wf, of "fst e" "snd e"] that by simp
  then show "\<forall>e \<in> set (sh_priorityBands s). \<forall>e' \<in> set (sh_priorityBands s). fst e \<noteq> fst e' \<longrightarrow>
      set (band_items (snd e)) \<inter> set (band_items (snd e')) = {}" by auto
qed


definition demo_band :: PriorityBandConfig where
  "demo_band = \<lparr>pb_Priority = 0, pb_OrderingPolicy = Some fcfs_policy, pb_FairnessPolicy = Some GlobalStrict,
                pb_Queue = ListQueueName, pb_MaxBytes = 1000, pb_MaxRequests = 0\<rparr>"

definition demo_shard_cfg :: ShardConfig where
  "demo_shard_cfg = \<lparr>sc_MaxBytes = 1000, sc_MaxRequests = 0,
     sc_PriorityBands = [(0, demo_band), (5, demo_band\<lparr>pb_Priority := 5, pb_FairnessPolicy := Some RoundRobin\<rparr>)]\<rparr>"

definition demo_run :: "(Store \<times> registryShard) option" where
  "demo_run =
     do { s0 \<leftarrow> newShard ''shard-0'' demo_shard_cfg;
          s1 \<leftarrow> synchronizeFlow (FlowKey [] 0) fcfs_policy (LQ (newListQueue 0)) s0;
          (r, st, s2, ds) \<leftarrow> queue_Add (FlowKey [] 0) (mk_item 4 9 100) empty_store s1;
          Some (st, s2) }"

lemma demo_run_value:
  "map_option (\<lambda>(st, s). (map fi_ref (shard_items s), AllOrderedPriorityLevels s, ss_TotalByteSize (shard_Stats s))) demo_run =
   Some ([4], [5, 0], 100)"
  by code_simp

lemma demo_run_reach: "demo_run = Some (st, s) \<Longrightarrow> shard_reach st s"
proof -
  assume "demo_run = Some (st, s)"
  then obtain s0 s1 r ds where a: "newShard ''shard-0'' demo_shard_cfg = Some s0"
    "synchronizeFlow (FlowKey [] 0) fcfs_policy (LQ (newListQueue 0)) s0 = Some s1"
    "queue_Add (FlowKey [] 0) (mk_item 4 9 100) empty_store s1 = Some (r, st, s, ds)"
    by (auto simp: demo_run_def split: Option.bind_splits)
  have "map_option shard_items (do { s0 \<leftarrow> newShard ''shard-0'' demo_shard_cfg;
      synchronizeFlow (FlowKey [] 0) fcfs_policy (LQ (newListQueue 0)) s0 }) = Some []" by code_simp
  then have none: "shard_items s1 = []" using a(1,2) by simp
  have "shard_cfg_ok demo_shard_cfg" by (simp add: shard_cfg_ok_def demo_shard_cfg_def demo_band_def)
  then have "shard_reach empty_store s0" using a(1) by (rule shard_reach.Created)
  then have "shard_reach empty_store s1"
    using shard_reach.FlowSynced [of _ _ ListQueueName fcfs_policy 0] a(2) by (simp add: NewQueueFromName_def RegisteredQueues_def)
  moreover have "item_key (mk_item 4 9 100) = FlowKey [] 0" by (simp add: mk_item_def)
  moreover have "\<forall>y \<in> held s1. fi_ref y \<noteq> fi_ref (mk_item 4 9 100)" using none by (simp flip: shard_items_held)
  moreover have "length (shard_items s1) + 1 < 2 ^ 63" using none by simp
  ultimately show ?thesis using a(3) by (rule shard_reach.Added)
qed


end
