(* ===== verification/Leasing.thy ===== *)
theory Leasing
  imports RegistryConfig
begin

text \<open>
  Reference-counted leases and their garbage collection (\<open>flowcontrol/registry/leasing.go\<close>). A type
  that embeds \<open>leasedState\<close> is an extension of the record, so the methods apply to it unchanged. The
  zero time of \<open>becameIdleAt\<close> is \<^const>\<open>None\<close>. The first part gives the methods and the two generic helpers
  run without interference; the second runs \<open>pinLeasedResource\<close> by many goroutines against the
  collector, one atomic operation per step.
\<close>

record leasedState =
  ls_leaseCount :: int
  ls_becameIdleAt :: "time option"
  ls_markedForDeletion :: bool

definition tryPin :: "'z leasedState_scheme \<Rightarrow> bool \<times> 'z leasedState_scheme" where
  "tryPin ls =
     (if ls_markedForDeletion ls then (False, ls)
      else (True, ls\<lparr>ls_leaseCount := ls_leaseCount ls + 1, ls_becameIdleAt := None\<rparr>))"

definition unpin :: "time \<Rightarrow> 'z leasedState_scheme \<Rightarrow> 'z leasedState_scheme" where
  "unpin now ls =
     (let ls = ls\<lparr>ls_leaseCount := ls_leaseCount ls - 1\<rparr> in
      if ls_leaseCount ls = 0 then ls\<lparr>ls_becameIdleAt := Some now\<rparr> else ls)"

definition isActive :: "'z leasedState_scheme \<Rightarrow> bool" where
  "isActive ls = (ls_leaseCount ls > 0)"

definition checkAndMarkForDeletion :: "duration \<Rightarrow> time \<Rightarrow> 'z leasedState_scheme \<Rightarrow> bool \<times> 'z leasedState_scheme" where
  "checkAndMarkForDeletion timeout now ls =
     (if ls_leaseCount ls > 0
      then (False, if ls_becameIdleAt ls \<noteq> None then ls\<lparr>ls_becameIdleAt := None\<rparr> else ls)
      else (case ls_becameIdleAt ls of
              None \<Rightarrow> (False, ls\<lparr>ls_becameIdleAt := Some now\<rparr>)
            | Some t \<Rightarrow> if now - t < timeout then (False, ls)
                        else (True, ls\<lparr>ls_markedForDeletion := True\<rparr>)))"

fun collectLeasedResources :: "duration \<Rightarrow> time \<Rightarrow> ('k, 'z leasedState_scheme) gomap
    \<Rightarrow> 'z leasedState_scheme list \<times> ('k, 'z leasedState_scheme) gomap" where
  "collectLeasedResources timeout now [] = ([], [])"
| "collectLeasedResources timeout now ((k, v) # m) =
     (let (del, v') = checkAndMarkForDeletion timeout now v;
          (rs, m') = collectLeasedResources timeout now m
      in if del then (v' # rs, m') else (rs, (k, v') # m'))"

text \<open>Without interference the value is in the map when it is pinned. A value that is marked stays so
  until the collector deletes it; the caller spins, which is \<^const>\<open>None\<close>.\<close>

definition pinLeasedResource :: "'k \<Rightarrow> 'z leasedState_scheme \<Rightarrow> ('k, 'z leasedState_scheme) gomap
    \<Rightarrow> (bool \<times> ('k, 'z leasedState_scheme) gomap) option" where
  "pinLeasedResource key new m =
     (let (v, isNew) = (case gm_get m key of Some v \<Rightarrow> (v, False) | None \<Rightarrow> (new, True))
      in case tryPin v of
           (True, v') \<Rightarrow> Some (isNew, gm_set key v' m)
         | (False, v') \<Rightarrow> None)"

subsection \<open>What the collector deletes\<close>

lemma check_deletes:
  "checkAndMarkForDeletion timeout now ls = (True, ls') \<Longrightarrow>
   ls_leaseCount ls \<le> 0 \<and> (\<exists>t. ls_becameIdleAt ls = Some t \<and> timeout \<le> now - t) \<and>
   ls' = ls\<lparr>ls_markedForDeletion := True\<rparr>"
  by (auto simp: checkAndMarkForDeletion_def split: if_splits option.splits)

lemma check_keeps:
  "checkAndMarkForDeletion timeout now ls = (False, ls') \<Longrightarrow>
   ls_leaseCount ls' = ls_leaseCount ls \<and> ls_markedForDeletion ls' = ls_markedForDeletion ls"
  by (auto simp: checkAndMarkForDeletion_def split: if_splits option.splits)

lemma collect_Cons:
  "fst (collectLeasedResources timeout now ((k, v) # m)) =
     (if fst (checkAndMarkForDeletion timeout now v)
      then snd (checkAndMarkForDeletion timeout now v) # fst (collectLeasedResources timeout now m)
      else fst (collectLeasedResources timeout now m))"
  "snd (collectLeasedResources timeout now ((k, v) # m)) =
     (if fst (checkAndMarkForDeletion timeout now v) then snd (collectLeasedResources timeout now m)
      else (k, snd (checkAndMarkForDeletion timeout now v)) # snd (collectLeasedResources timeout now m))"
  by (simp_all add: split_beta Let_def)

declare collectLeasedResources.simps(2) [simp del]

lemma collect_keys: "fst ` set (snd (collectLeasedResources timeout now m)) \<subseteq> fst ` set m"
proof (induction m)
  case (Cons e m)
  then show ?case
    by (cases e; cases "fst (checkAndMarkForDeletion timeout now (snd e))") (simp_all add: collect_Cons subset_insertI2)
qed simp

lemma collect_ok: "gm_ok m \<Longrightarrow> gm_ok (snd (collectLeasedResources timeout now m))"
proof (induction m)
  case (Cons e m)
  then show ?case using collect_keys [of timeout now m] by (cases e) (auto simp: collect_Cons)
qed simp

lemma collect_get:
  "gm_ok m \<Longrightarrow>
   gm_get (snd (collectLeasedResources timeout now m)) k =
     (case gm_get m k of
        None \<Rightarrow> None
      | Some v \<Rightarrow> (if fst (checkAndMarkForDeletion timeout now v) then None
                   else Some (snd (checkAndMarkForDeletion timeout now v))))"
proof (induction m)
  case (Cons e m)
  obtain k' v where e: "e = (k', v)" by (cases e)
  have "gm_get (snd (collectLeasedResources timeout now m)) k' = None"
    using collect_keys [of timeout now m] Cons(2) e by (auto simp: map_of_eq_None_iff)
  then show ?case using Cons e by (auto simp: collect_Cons)
qed simp

lemma collect_deleted:
  "mset (fst (collectLeasedResources timeout now m)) =
     image_mset (\<lambda>(k, v). snd (checkAndMarkForDeletion timeout now v))
       (filter_mset (\<lambda>(k, v). fst (checkAndMarkForDeletion timeout now v)) (mset m))"
  by (induction m) (auto simp: collect_Cons)

subsection \<open>Many goroutines against the collector\<close>

text \<open>Where a goroutine stands in \<open>pinLeasedResource\<close> and after it: it has loaded an object, pinned it
  and not yet checked that the map still holds it, or holds a validated lease.\<close>

datatype 'k phase = Idle | Loaded 'k nat | Pinned 'k nat | Holding 'k nat

record 'k pool =
  po_map :: "'k \<Rightarrow> nat option"
  po_obj :: "nat \<Rightarrow> leasedState"
  po_next :: nat
  po_thread :: "nat \<Rightarrow> 'k phase"
  po_gc :: "'k option"

definition fresh_lease :: leasedState where
  "fresh_lease = \<lparr>ls_leaseCount = 0, ls_becameIdleAt = None, ls_markedForDeletion = False\<rparr>"

definition pool_init :: "'k pool" where
  "pool_init = \<lparr>po_map = (\<lambda>_. None), po_obj = (\<lambda>_. fresh_lease), po_next = 0, po_thread = (\<lambda>_. Idle), po_gc = None\<rparr>"

inductive pool_step :: "duration \<Rightarrow> 'k pool \<Rightarrow> 'k pool \<Rightarrow> bool" for timeout where
  load: "po_thread s t = Idle \<Longrightarrow> po_map s k = Some ob \<Longrightarrow>
    pool_step timeout s (s\<lparr>po_thread := (po_thread s)(t := Loaded k ob)\<rparr>)"
| store: "po_thread s t = Idle \<Longrightarrow> po_map s k = None \<Longrightarrow>
    pool_step timeout s (s\<lparr>po_map := (po_map s)(k \<mapsto> po_next s), po_obj := (po_obj s)(po_next s := fresh_lease),
       po_next := Suc (po_next s), po_thread := (po_thread s)(t := Loaded k (po_next s))\<rparr>)"
| pin: "po_thread s t = Loaded k ob \<Longrightarrow> tryPin (po_obj s ob) = (True, v) \<Longrightarrow>
    pool_step timeout s (s\<lparr>po_obj := (po_obj s)(ob := v), po_thread := (po_thread s)(t := Pinned k ob)\<rparr>)"
| back_off: "po_thread s t = Loaded k ob \<Longrightarrow> tryPin (po_obj s ob) = (False, v) \<Longrightarrow>
    pool_step timeout s (s\<lparr>po_thread := (po_thread s)(t := Idle)\<rparr>)"
| verify: "po_thread s t = Pinned k ob \<Longrightarrow> po_map s k = Some ob \<Longrightarrow>
    pool_step timeout s (s\<lparr>po_thread := (po_thread s)(t := Holding k ob)\<rparr>)"
| stale: "po_thread s t = Pinned k ob \<Longrightarrow> po_map s k \<noteq> Some ob \<Longrightarrow>
    pool_step timeout s (s\<lparr>po_obj := (po_obj s)(ob := unpin now (po_obj s ob)), po_thread := (po_thread s)(t := Idle)\<rparr>)"
| release: "po_thread s t = Holding k ob \<Longrightarrow>
    pool_step timeout s (s\<lparr>po_obj := (po_obj s)(ob := unpin now (po_obj s ob)), po_thread := (po_thread s)(t := Idle)\<rparr>)"
| gc_mark: "po_gc s = None \<Longrightarrow> po_map s k = Some ob \<Longrightarrow>
    checkAndMarkForDeletion timeout now (po_obj s ob) = (True, v) \<Longrightarrow>
    pool_step timeout s (s\<lparr>po_obj := (po_obj s)(ob := v), po_gc := Some k\<rparr>)"
| gc_skip: "po_gc s = None \<Longrightarrow> po_map s k = Some ob \<Longrightarrow>
    checkAndMarkForDeletion timeout now (po_obj s ob) = (False, v) \<Longrightarrow>
    pool_step timeout s (s\<lparr>po_obj := (po_obj s)(ob := v)\<rparr>)"
| gc_delete: "po_gc s = Some k \<Longrightarrow>
    pool_step timeout s (s\<lparr>po_map := (po_map s)(k := None), po_gc := None\<rparr>)"

inductive pool_reach :: "duration \<Rightarrow> 'k pool \<Rightarrow> bool" for timeout where
  init: "pool_reach timeout pool_init"
| step: "pool_reach timeout s \<Longrightarrow> pool_step timeout s s' \<Longrightarrow> pool_reach timeout s'"

fun pins :: "nat \<Rightarrow> 'k phase \<Rightarrow> bool" where
  "pins ob (Pinned k ob') = (ob' = ob)"
| "pins ob (Holding k ob') = (ob' = ob)"
| "pins ob _ = False"

fun target :: "'k phase \<Rightarrow> ('k \<times> nat) option" where
  "target Idle = None"
| "target (Loaded k ob) = Some (k, ob)"
| "target (Pinned k ob) = Some (k, ob)"
| "target (Holding k ob) = Some (k, ob)"

definition pinners :: "'k pool \<Rightarrow> nat \<Rightarrow> nat set" where
  "pinners s ob = {t. pins ob (po_thread s t)}"

definition pool_inv :: "'k pool \<Rightarrow> bool" where
  "pool_inv s \<longleftrightarrow>
     finite {t. po_thread s t \<noteq> Idle} \<and>
     (\<forall>ob. ls_leaseCount (po_obj s ob) = int (card (pinners s ob))) \<and>
     (\<forall>k ob. po_map s k = Some ob \<longrightarrow> ob < po_next s) \<and>
     (\<forall>t k ob. target (po_thread s t) = Some (k, ob) \<longrightarrow> ob < po_next s) \<and>
     (\<forall>k k' ob. po_map s k = Some ob \<longrightarrow> po_map s k' = Some ob \<longrightarrow> k = k') \<and>
     (\<forall>t k k' ob. target (po_thread s t) = Some (k, ob) \<longrightarrow> po_map s k' = Some ob \<longrightarrow> k = k') \<and>
     (\<forall>t k ob. po_thread s t = Holding k ob \<longrightarrow> po_map s k = Some ob) \<and>
     (\<forall>ob. ls_markedForDeletion (po_obj s ob) \<longrightarrow> pinners s ob = {}) \<and>
     (\<forall>k ob. po_map s k = Some ob \<longrightarrow> ls_markedForDeletion (po_obj s ob) \<longrightarrow> po_gc s = Some k) \<and>
     (\<forall>k. po_gc s = Some k \<longrightarrow> (\<exists>ob. po_map s k = Some ob \<and> ls_markedForDeletion (po_obj s ob)))"

lemma pool_invD:
  assumes "pool_inv s"
  shows "finite {t. po_thread s t \<noteq> Idle}"
    "ls_leaseCount (po_obj s ob) = int (card (pinners s ob))"
    "po_map s k = Some ob \<Longrightarrow> ob < po_next s"
    "target (po_thread s t) = Some (k, ob) \<Longrightarrow> ob < po_next s"
    "po_map s k = Some ob \<Longrightarrow> po_map s k' = Some ob \<Longrightarrow> k = k'"
    "target (po_thread s t) = Some (k, ob) \<Longrightarrow> po_map s k' = Some ob \<Longrightarrow> k = k'"
    "po_thread s t = Holding k ob \<Longrightarrow> po_map s k = Some ob"
    "ls_markedForDeletion (po_obj s ob) \<Longrightarrow> pinners s ob = {}"
    "po_map s k = Some ob \<Longrightarrow> ls_markedForDeletion (po_obj s ob) \<Longrightarrow> po_gc s = Some k"
    "po_gc s = Some k \<Longrightarrow> \<exists>ob. po_map s k = Some ob \<and> ls_markedForDeletion (po_obj s ob)"
  using assms unfolding pool_inv_def by metis+

lemma pinners_finite: "pool_inv s \<Longrightarrow> finite (pinners s ob)"
  by (rule finite_subset [OF _ pool_invD(1)]) (auto simp: pinners_def)

lemma pinners_upd:
  "pinners (s\<lparr>po_thread := (po_thread s)(t := ph)\<rparr>) ob =
     (if pins ob ph then insert t (pinners s ob) else pinners s ob - {t})"
  by (auto simp: pinners_def)

lemma pinners_other [simp]:
  "pinners (s\<lparr>po_map := m\<rparr>) = pinners s" "pinners (s\<lparr>po_obj := f\<rparr>) = pinners s"
  "pinners (s\<lparr>po_next := n\<rparr>) = pinners s" "pinners (s\<lparr>po_gc := g\<rparr>) = pinners s"
  by (simp_all add: pinners_def [abs_def])

lemma not_pinner: "\<not> pins ob (po_thread s t) \<Longrightarrow> pinners s ob - {t} = pinners s ob"
  by (auto simp: pinners_def)

text \<open>Each step changes one goroutine or one object; the invariant is shown by cases on the step.\<close>

lemma card_pinners_insert:
  "pool_inv s \<Longrightarrow> \<not> pins ob (po_thread s t) \<Longrightarrow> card (insert t (pinners s ob)) = Suc (card (pinners s ob))"
  using pinners_finite [of s ob] by (simp add: pinners_def)

lemma card_pinners_remove:
  assumes "pool_inv s" "pins ob (po_thread s t)"
  shows "card (pinners s ob) = Suc (card (pinners s ob - {t}))"
proof -
  have "t \<in> pinners s ob" using assms(2) by (simp add: pinners_def)
  then show ?thesis using pinners_finite [OF assms(1), of ob] by (metis card.remove)
qed

lemma finite_threads: "pool_inv s \<Longrightarrow> finite {t'. ((po_thread s)(t := ph)) t' \<noteq> Idle}"
  by (rule finite_subset [where B = "insert t {t. po_thread s t \<noteq> Idle}"]) (auto dest: pool_invD(1))

lemma pool_inv_init: "pool_inv pool_init"
  by (simp add: pool_inv_def pool_init_def pinners_def fresh_lease_def)

lemma pool_inv_load:
  assumes inv: "pool_inv s" and s: "po_thread s t = Idle" "po_map s k = Some ob"
  shows "pool_inv (s\<lparr>po_thread := (po_thread s)(t := Loaded k ob)\<rparr>)"
  unfolding pool_inv_def pinners_upd
  using finite_threads [OF inv, of t "Loaded k ob"] pool_invD [OF inv] s by (auto simp: not_pinner)

lemma pool_inv_store:
  assumes inv: "pool_inv s" and s: "po_thread s t = Idle" "po_map s k = None"
  shows "pool_inv (s\<lparr>po_map := (po_map s)(k \<mapsto> po_next s), po_obj := (po_obj s)(po_next s := fresh_lease),
       po_next := Suc (po_next s), po_thread := (po_thread s)(t := Loaded k (po_next s))\<rparr>)" (is "pool_inv ?s")
proof -
  have p: "pinners ?s ob = pinners s ob" for ob using s by (auto simp: pinners_def)
  have tn: "target (po_thread s u) \<noteq> Some (k', po_next s)" for u k'
    using pool_invD(4) [OF inv, of u k' "po_next s"] by auto
  have none: "pinners s (po_next s) = {}"
  proof -
    have "\<not> pins (po_next s) (po_thread s u)" for u using tn [of u] by (cases "po_thread s u") auto
    then show ?thesis by (auto simp: pinners_def)
  qed
  have mn: "po_map s k' \<noteq> Some (po_next s)" for k' using pool_invD(3) [OF inv] by auto
  note d = pool_invD [OF inv]
  show ?thesis unfolding pool_inv_def p
  proof (intro conjI allI impI)
    show "finite {u. po_thread ?s u \<noteq> Idle}" using finite_threads [OF inv, of t "Loaded k (po_next s)"] by simp
    show "ls_leaseCount (po_obj ?s ob) = int (card (pinners s ob))" for ob
      using d(2) none by (simp add: fresh_lease_def)
    show "po_map ?s k' = Some ob \<Longrightarrow> ob < po_next ?s" for k' ob using d(3) by (fastforce split: if_splits)
    show "target (po_thread ?s u) = Some (k', ob) \<Longrightarrow> ob < po_next ?s" for u k' ob
      using d(4) by (fastforce split: if_splits)
    show "po_map ?s k1 = Some ob \<Longrightarrow> po_map ?s k2 = Some ob \<Longrightarrow> k1 = k2" for k1 k2 ob
      using d(5) mn by (auto split: if_splits)
    show "target (po_thread ?s u) = Some (k1, ob) \<Longrightarrow> po_map ?s k2 = Some ob \<Longrightarrow> k1 = k2" for u k1 k2 ob
      using d(6) mn tn by (auto split: if_splits)
    show "po_thread ?s u = Holding k1 ob \<Longrightarrow> po_map ?s k1 = Some ob" for u k1 ob
      using d(7) [of u k1 ob] s by (auto split: if_splits)
    show "ls_markedForDeletion (po_obj ?s ob) \<Longrightarrow> pinners s ob = {}" for ob
      using d(8) none by (auto simp: fresh_lease_def split: if_splits)
    show "po_map ?s k1 = Some ob \<Longrightarrow> ls_markedForDeletion (po_obj ?s ob) \<Longrightarrow> po_gc ?s = Some k1" for k1 ob
      using d(9) by (auto simp: fresh_lease_def split: if_splits)
    show "po_gc ?s = Some k1 \<Longrightarrow> \<exists>ob. po_map ?s k1 = Some ob \<and> ls_markedForDeletion (po_obj ?s ob)" for k1
      using d(10) [of k1] s mn [of k1] by auto
  qed
qed

lemma pool_inv_pin:
  assumes inv: "pool_inv s" and s: "po_thread s t = Loaded k ob" "tryPin (po_obj s ob) = (True, v)"
  shows "pool_inv (s\<lparr>po_obj := (po_obj s)(ob := v), po_thread := (po_thread s)(t := Pinned k ob)\<rparr>)" (is "pool_inv ?s")
proof -
  have v: "ls_leaseCount v = ls_leaseCount (po_obj s ob) + 1" "\<not> ls_markedForDeletion v"
    "\<not> ls_markedForDeletion (po_obj s ob)"
    using s(2) by (auto simp: tryPin_def split: if_splits)
  have p: "pinners ?s o' = (if o' = ob then insert t (pinners s ob) else pinners s o')" for o'
    using s(1) by (auto simp: pinners_def)
  have c: "card (insert t (pinners s ob)) = Suc (card (pinners s ob))"
    by (rule card_pinners_insert [OF inv]) (simp add: s)
  note d = pool_invD [OF inv]
  show ?thesis unfolding pool_inv_def p
  proof (intro conjI allI impI)
    show "finite {u. po_thread ?s u \<noteq> Idle}" using finite_threads [OF inv, of t "Pinned k ob"] by simp
    show "ls_leaseCount (po_obj ?s o') = int (card (if o' = ob then insert t (pinners s ob) else pinners s o'))" for o'
      using d(2) v c by simp
    show "po_map ?s k' = Some o' \<Longrightarrow> o' < po_next ?s" for k' o' using d(3) by simp
    show "target (po_thread ?s u) = Some (k', o') \<Longrightarrow> o' < po_next ?s" for u k' o'
      using d(4) [of u k' o'] d(4) [of t k ob] s(1) by (auto split: if_splits)
    show "po_map ?s k1 = Some o' \<Longrightarrow> po_map ?s k2 = Some o' \<Longrightarrow> k1 = k2" for k1 k2 o' using d(5) by simp
    show "target (po_thread ?s u) = Some (k1, o') \<Longrightarrow> po_map ?s k2 = Some o' \<Longrightarrow> k1 = k2" for u k1 k2 o'
      using d(6) [of u k1 o' k2] d(6) [of t k1 o' k2] s(1) by (auto split: if_splits)
    show "po_thread ?s u = Holding k1 o' \<Longrightarrow> po_map ?s k1 = Some o'" for u k1 o'
      using d(7) [of u k1 o'] by (auto split: if_splits)
    show "ls_markedForDeletion (po_obj ?s o') \<Longrightarrow> (if o' = ob then insert t (pinners s ob) else pinners s o') = {}" for o'
      using d(8) v by (auto split: if_splits)
    show "po_map ?s k1 = Some o' \<Longrightarrow> ls_markedForDeletion (po_obj ?s o') \<Longrightarrow> po_gc ?s = Some k1" for k1 o'
      using d(9) v by (auto split: if_splits)
    show "po_gc ?s = Some k1 \<Longrightarrow> \<exists>o'. po_map ?s k1 = Some o' \<and> ls_markedForDeletion (po_obj ?s o')" for k1
      using d(10) [of k1] v by auto
  qed
qed

text \<open>Dropping a lease, by \<open>release\<close> or because the pinned object turned out stale.\<close>

lemma pool_inv_unpin:
  assumes inv: "pool_inv s" and s: "po_thread s t = Pinned k ob \<or> po_thread s t = Holding k ob"
  shows "pool_inv (s\<lparr>po_obj := (po_obj s)(ob := unpin now (po_obj s ob)), po_thread := (po_thread s)(t := Idle)\<rparr>)"
    (is "pool_inv ?s")
proof -
  let ?v = "unpin now (po_obj s ob)"
  have v: "ls_leaseCount ?v = ls_leaseCount (po_obj s ob) - 1"
    "ls_markedForDeletion ?v = ls_markedForDeletion (po_obj s ob)"
    by (simp_all add: unpin_def Let_def)
  have p: "pinners ?s o' = (if o' = ob then pinners s ob - {t} else pinners s o')" for o'
    using s by (auto simp: pinners_def)
  have c: "card (pinners s ob) = Suc (card (pinners s ob - {t}))"
    by (rule card_pinners_remove [OF inv]) (use s in auto)
  note d = pool_invD [OF inv]
  show ?thesis unfolding pool_inv_def p
  proof (intro conjI allI impI)
    show "finite {u. po_thread ?s u \<noteq> Idle}" using finite_threads [OF inv, of t Idle] by simp
    show "ls_leaseCount (po_obj ?s o') = int (card (if o' = ob then pinners s ob - {t} else pinners s o'))" for o'
      using d(2) v c by simp
    show "po_map ?s k' = Some o' \<Longrightarrow> o' < po_next ?s" for k' o' using d(3) by simp
    show "target (po_thread ?s u) = Some (k', o') \<Longrightarrow> o' < po_next ?s" for u k' o'
      using d(4) [of u k' o'] by (auto split: if_splits)
    show "po_map ?s k1 = Some o' \<Longrightarrow> po_map ?s k2 = Some o' \<Longrightarrow> k1 = k2" for k1 k2 o' using d(5) by simp
    show "target (po_thread ?s u) = Some (k1, o') \<Longrightarrow> po_map ?s k2 = Some o' \<Longrightarrow> k1 = k2" for u k1 k2 o'
      using d(6) [of u k1 o' k2] by (auto split: if_splits)
    show "po_thread ?s u = Holding k1 o' \<Longrightarrow> po_map ?s k1 = Some o'" for u k1 o'
      using d(7) [of u k1 o'] by (auto split: if_splits)
    show "ls_markedForDeletion (po_obj ?s o') \<Longrightarrow> (if o' = ob then pinners s ob - {t} else pinners s o') = {}" for o'
      using d(8) v by (auto split: if_splits)
    show "po_map ?s k1 = Some o' \<Longrightarrow> ls_markedForDeletion (po_obj ?s o') \<Longrightarrow> po_gc ?s = Some k1" for k1 o'
      using d(9) v by (auto split: if_splits)
    show "po_gc ?s = Some k1 \<Longrightarrow> \<exists>o'. po_map ?s k1 = Some o' \<and> ls_markedForDeletion (po_obj ?s o')" for k1
      using d(10) [of k1] v by auto
  qed
qed

lemma pool_inv_idle:
  assumes inv: "pool_inv s" and s: "po_thread s t = Loaded k ob"
  shows "pool_inv (s\<lparr>po_thread := (po_thread s)(t := Idle)\<rparr>)"
  unfolding pool_inv_def pinners_upd
  using finite_threads [OF inv, of t Idle] pool_invD [OF inv] s by (auto simp: not_pinner)

lemma pool_inv_verify:
  assumes inv: "pool_inv s" and s: "po_thread s t = Pinned k ob" "po_map s k = Some ob"
  shows "pool_inv (s\<lparr>po_thread := (po_thread s)(t := Holding k ob)\<rparr>)"
proof -
  have p: "pinners (s\<lparr>po_thread := (po_thread s)(t := Holding k ob)\<rparr>) = pinners s"
    using s by (intro ext) (auto simp: pinners_def)
  show ?thesis unfolding pool_inv_def p
    using finite_threads [OF inv, of t "Holding k ob"] pool_invD [OF inv] s by auto
qed

text \<open>The collector's visit to an object in the map.\<close>

lemma pool_inv_gc_visit:
  assumes inv: "pool_inv s" and s: "po_map s k = Some ob" "po_gc s = None"
    and v: "ls_leaseCount v = ls_leaseCount (po_obj s ob)" "ls_markedForDeletion v \<Longrightarrow> pinners s ob = {}"
    and g: "g = (if ls_markedForDeletion v then Some k else None)"
  shows "pool_inv (s\<lparr>po_obj := (po_obj s)(ob := v), po_gc := g\<rparr>)" (is "pool_inv ?s")
proof -
  note d = pool_invD [OF inv]
  have none: "\<not> ls_markedForDeletion (po_obj s o')" if "po_map s k' = Some o'" for k' o'
    using d(9) [OF that] s(2) by auto
  have p: "pinners ?s = pinners s" by (intro ext) (simp add: pinners_def)
  show ?thesis unfolding pool_inv_def p
  proof (intro conjI allI impI)
    show "finite {u. po_thread ?s u \<noteq> Idle}" using d(1) by simp
    show "ls_leaseCount (po_obj ?s o') = int (card (pinners s o'))" for o' using d(2) v(1) by simp
    show "po_map ?s k' = Some o' \<Longrightarrow> o' < po_next ?s" for k' o' using d(3) by simp
    show "target (po_thread ?s u) = Some (k', o') \<Longrightarrow> o' < po_next ?s" for u k' o' using d(4) by simp
    show "po_map ?s k1 = Some o' \<Longrightarrow> po_map ?s k2 = Some o' \<Longrightarrow> k1 = k2" for k1 k2 o' using d(5) by simp
    show "target (po_thread ?s u) = Some (k1, o') \<Longrightarrow> po_map ?s k2 = Some o' \<Longrightarrow> k1 = k2" for u k1 k2 o'
      using d(6) by simp
    show "po_thread ?s u = Holding k1 o' \<Longrightarrow> po_map ?s k1 = Some o'" for u k1 o' using d(7) by simp
    show "ls_markedForDeletion (po_obj ?s o') \<Longrightarrow> pinners s o' = {}" for o' using d(8) v(2) by (simp split: if_splits)
    show "po_map ?s k1 = Some o' \<Longrightarrow> ls_markedForDeletion (po_obj ?s o') \<Longrightarrow> po_gc ?s = Some k1" for k1 o'
      using none [of k1 o'] d(5) [OF s(1), of k1] g by (simp split: if_splits)
    show "po_gc ?s = Some k1 \<Longrightarrow> \<exists>o'. po_map ?s k1 = Some o' \<and> ls_markedForDeletion (po_obj ?s o')" for k1
      using s(1) g by (simp split: if_splits)
  qed
qed

lemma pool_inv_gc_mark:
  assumes inv: "pool_inv s" and s: "po_gc s = None" "po_map s k = Some ob"
    "checkAndMarkForDeletion timeout now (po_obj s ob) = (True, v)"
  shows "pool_inv (s\<lparr>po_obj := (po_obj s)(ob := v), po_gc := Some k\<rparr>)"
proof -
  have v: "ls_leaseCount v = ls_leaseCount (po_obj s ob)" "ls_leaseCount (po_obj s ob) \<le> 0" "ls_markedForDeletion v"
    using check_deletes [OF s(3)] by auto
  have "card (pinners s ob) = 0" using v(2) pool_invD(2) [OF inv, of ob] by simp
  then have "pinners s ob = {}" using pinners_finite [OF inv] by simp
  then show ?thesis using pool_inv_gc_visit [OF inv s(2,1) v(1), of "Some k"] v(3) by simp
qed

lemma pool_inv_gc_skip:
  assumes inv: "pool_inv s" and s: "po_gc s = None" "po_map s k = Some ob"
    "checkAndMarkForDeletion timeout now (po_obj s ob) = (False, v)"
  shows "pool_inv (s\<lparr>po_obj := (po_obj s)(ob := v)\<rparr>)"
proof -
  have v: "ls_leaseCount v = ls_leaseCount (po_obj s ob)" "\<not> ls_markedForDeletion v"
    using check_keeps [OF s(3)] pool_invD(9) [OF inv s(2)] s(1) by auto
  have "s\<lparr>po_obj := (po_obj s)(ob := v)\<rparr> = s\<lparr>po_obj := (po_obj s)(ob := v), po_gc := None\<rparr>" using s(1) by simp
  then show ?thesis using pool_inv_gc_visit [OF inv s(2,1) v(1), of None] v(2) by simp
qed

lemma pool_inv_gc_delete:
  assumes inv: "pool_inv s" and s: "po_gc s = Some k"
  shows "pool_inv (s\<lparr>po_map := (po_map s)(k := None), po_gc := None\<rparr>)"
proof -
  obtain ob where ob: "po_map s k = Some ob" "ls_markedForDeletion (po_obj s ob)" using pool_invD(10) [OF inv s] by blast
  have nh: "po_thread s t \<noteq> Holding k o'" for t o'
  proof
    assume h: "po_thread s t = Holding k o'"
    then have "o' = ob" using pool_invD(7) [OF inv h] ob(1) by simp
    then have "t \<in> pinners s ob" using h by (simp add: pinners_def)
    then show False using pool_invD(8) [OF inv ob(2)] by simp
  qed
  note d = pool_invD [OF inv]
  let ?s = "s\<lparr>po_map := (po_map s)(k := None), po_gc := None\<rparr>"
  have p: "pinners ?s = pinners s" by (intro ext) (simp add: pinners_def)
  show ?thesis unfolding pool_inv_def p
  proof (intro conjI allI impI)
    show "finite {u. po_thread ?s u \<noteq> Idle}" using d(1) by simp
    show "ls_leaseCount (po_obj ?s o') = int (card (pinners s o'))" for o' using d(2) by simp
    show "po_map ?s k' = Some o' \<Longrightarrow> o' < po_next ?s" for k' o' using d(3) by (simp split: if_splits)
    show "target (po_thread ?s u) = Some (k', o') \<Longrightarrow> o' < po_next ?s" for u k' o' using d(4) by simp
    show "po_map ?s k1 = Some o' \<Longrightarrow> po_map ?s k2 = Some o' \<Longrightarrow> k1 = k2" for k1 k2 o'
      using d(5) by (simp split: if_splits)
    show "target (po_thread ?s u) = Some (k1, o') \<Longrightarrow> po_map ?s k2 = Some o' \<Longrightarrow> k1 = k2" for u k1 k2 o'
      using d(6) by (simp split: if_splits)
    show "po_thread ?s u = Holding k1 o' \<Longrightarrow> po_map ?s k1 = Some o'" for u k1 o'
      using d(7) [of u k1 o'] nh [of u o'] by auto
    show "ls_markedForDeletion (po_obj ?s o') \<Longrightarrow> pinners s o' = {}" for o' using d(8) by simp
    show "po_map ?s k1 = Some o' \<Longrightarrow> ls_markedForDeletion (po_obj ?s o') \<Longrightarrow> po_gc ?s = Some k1" for k1 o'
      using d(9) [of k1 o'] s by (simp split: if_splits)
    show "po_gc ?s = Some k1 \<Longrightarrow> \<exists>o'. po_map ?s k1 = Some o' \<and> ls_markedForDeletion (po_obj ?s o')" for k1 by simp
  qed
qed

lemma pool_step_inv: "pool_step timeout s s' \<Longrightarrow> pool_inv s \<Longrightarrow> pool_inv s'"
  by (induction rule: pool_step.induct)
    (auto intro: pool_inv_load pool_inv_store pool_inv_pin pool_inv_unpin pool_inv_idle pool_inv_verify
      pool_inv_gc_mark pool_inv_gc_skip pool_inv_gc_delete)

lemma pool_reach_inv: "pool_reach timeout s \<Longrightarrow> pool_inv s"
  by (induction rule: pool_reach.induct) (auto intro: pool_inv_init pool_step_inv)

subsection \<open>Properties\<close>

text \<open>C22: However the goroutines of \<open>pinLeasedResource\<close> and the garbage collector interleave, a resource
  on which a goroutine holds a lease stays in the map under its key, is counted as active and is not
  marked for deletion, so the collector never deletes it; and the collector has chosen every marked
  resource that is still in the map for deletion, so a goroutine that backs off does not spin for
  ever on it.\<close>

theorem held_lease_not_collected:
  assumes "pool_reach timeout s"
  shows "(\<forall>t k ob. po_thread s t = Holding k ob \<longrightarrow>
      po_map s k = Some ob \<and> isActive (po_obj s ob) \<and> \<not> ls_markedForDeletion (po_obj s ob) \<and> po_gc s \<noteq> Some k) \<and>
    (\<forall>k ob. po_map s k = Some ob \<longrightarrow> ls_markedForDeletion (po_obj s ob) \<longrightarrow>
      pool_step timeout s (s\<lparr>po_map := (po_map s)(k := None), po_gc := None\<rparr>))"
proof -
  have inv: "pool_inv s" by (rule pool_reach_inv [OF assms])
  have "po_map s k = Some ob \<and> isActive (po_obj s ob) \<and> \<not> ls_markedForDeletion (po_obj s ob) \<and> po_gc s \<noteq> Some k"
    if h: "po_thread s t = Holding k ob" for t k ob
  proof -
    have t: "t \<in> pinners s ob" using h by (simp add: pinners_def)
    then have "card (pinners s ob) > 0" using pinners_finite [OF inv] by (auto simp: card_gt_0_iff)
    then have "isActive (po_obj s ob)" using pool_invD(2) [OF inv, of ob] by (simp add: isActive_def)
    moreover have nm: "\<not> ls_markedForDeletion (po_obj s ob)" using t pool_invD(8) [OF inv] by blast
    moreover have m: "po_map s k = Some ob" by (rule pool_invD(7) [OF inv h])
    moreover have "po_gc s \<noteq> Some k"
      using pool_invD(10) [OF inv, of k] m nm by auto
    ultimately show ?thesis by blast
  qed
  moreover have "pool_step timeout s (s\<lparr>po_map := (po_map s)(k := None), po_gc := None\<rparr>)"
    if "po_map s k = Some ob" "ls_markedForDeletion (po_obj s ob)" for k ob
    by (rule pool_step.gc_delete) (rule pool_invD(9) [OF inv that])
  ultimately show ?thesis by blast
qed

theorem held_lease_not_collected_witness:
  "\<exists>s. pool_reach 5 (s :: nat pool) \<and> po_thread s 0 = Holding 7 0 \<and> po_map s 7 = Some 0 \<and> po_gc s \<noteq> Some 7"
proof -
  let ?i = "pool_init :: nat pool"
  let ?s1 = "?i\<lparr>po_map := (po_map ?i)(7 \<mapsto> 0), po_obj := (po_obj ?i)(0 := fresh_lease),
       po_next := Suc 0, po_thread := (po_thread ?i)(0 := Loaded 7 0)\<rparr>"
  have "pool_step 5 ?i ?s1"
    using pool_step.store [of ?i 0 7 5] by (simp add: pool_init_def)
  then have r1: "pool_reach 5 ?s1" by (rule pool_reach.step [OF pool_reach.init])
  let ?v = "snd (tryPin fresh_lease)"
  let ?s2 = "?s1\<lparr>po_obj := (po_obj ?s1)(0 := ?v), po_thread := (po_thread ?s1)(0 := Pinned 7 0)\<rparr>"
  have "pool_step 5 ?s1 ?s2"
    by (rule pool_step.pin) (simp_all add: tryPin_def fresh_lease_def)
  then have r2: "pool_reach 5 ?s2" by (rule pool_reach.step [OF r1])
  let ?s3 = "?s2\<lparr>po_thread := (po_thread ?s2)(0 := Holding 7 0)\<rparr>"
  have "pool_step 5 ?s2 ?s3" by (rule pool_step.verify) simp_all
  then have r3: "pool_reach 5 ?s3" by (rule pool_reach.step [OF r2])
  have "po_thread ?s3 0 = Holding 7 0" by simp
  then show ?thesis using held_lease_not_collected [OF r3] r3 by blast
qed

end
