(* ===== verification/Registry.thy ===== *)
theory Registry
  imports ShardOps Leasing
begin

text \<open>
  The flow registry (\<open>flowcontrol/registry/registry.go\<close>, \<open>connection.go\<close>): just-in-time provisioning of
  flows and bands, leases, garbage collection and the global statistics. The state is one record; each
  method is a function on it that returns \<^const>\<open>None\<close> where the code would panic (a nil pointer or a failed
  type assertion). Methods run one at a time here; the races of pinning against the collector are the
  subject of \<open>Leasing\<close>. One method call reads one instant \<open>now\<close> of the clock.
\<close>

subsection \<open>State\<close>

record flowState = leasedState +
  fl_key :: FlowKey
  fl_initialized :: bool
  fl_initErr :: "fc_error option"

record priorityBandState = leasedState +
  ps_priority :: int

record bandStats =
  bst_byteSize :: int64
  bst_len :: int64

text \<open>\<open>fr_nextQueue\<close> stands for the allocator: the identity of the next list queue.\<close>

record FlowRegistry =
  fr_config :: Config
  fr_flowStates :: "(FlowKey, flowState) gomap"
  fr_priorityBandStates :: "(int, priorityBandState) gomap"
  fr_totalByteSize :: int64
  fr_totalLen :: int64
  fr_perPriorityBandStats :: "(int, bandStats) gomap"
  fr_shard :: registryShard
  fr_nextQueue :: nat

definition new_flowState :: "FlowKey \<Rightarrow> flowState" where
  "new_flowState key = \<lparr>ls_leaseCount = 0, ls_becameIdleAt = None, ls_markedForDeletion = False,
     fl_key = key, fl_initialized = False, fl_initErr = None\<rparr>"

definition new_priorityBandState :: "int \<Rightarrow> priorityBandState" where
  "new_priorityBandState priority = \<lparr>ls_leaseCount = 0, ls_becameIdleAt = None, ls_markedForDeletion = False,
     ps_priority = priority\<rparr>"

definition new_bandStats :: bandStats where
  "new_bandStats = \<lparr>bst_byteSize = 0, bst_len = 0\<rparr>"

text \<open>\<open>sync.Map.LoadOrStore\<close> with the result unused.\<close>

definition load_or_store :: "'k \<Rightarrow> 'v \<Rightarrow> ('k, 'v) gomap \<Rightarrow> ('k, 'v) gomap" where
  "load_or_store k v m = (case gm_get m k of None \<Rightarrow> gm_set k v m | Some _ \<Rightarrow> m)"

subsection \<open>Building flows and bands\<close>

record flowComponents =
  fc_policy :: OrderingPolicy
  fc_queue :: SafeQ

fun build_instances :: "nat \<Rightarrow> nat \<Rightarrow> string \<Rightarrow> OrderingPolicy \<Rightarrow> fc_error + flowComponents list" where
  "build_instances 0 addr name policy = Inr []"
| "build_instances (Suc n) addr name policy =
     (case NewQueueFromName name policy addr of
        Inl e \<Rightarrow> Inl (Errorf [e])
      | Inr q \<Rightarrow> (case build_instances n (Suc addr) name policy of
                    Inl e \<Rightarrow> Inl e
                  | Inr cs \<Rightarrow> Inr (\<lparr>fc_policy = policy, fc_queue = q\<rparr> # cs)))"

text \<open>A validated band has an ordering policy; a queue built from a nil one panics when it orders items,
  which is \<^const>\<open>None\<close> here.\<close>

definition buildFlowComponents :: "FlowKey \<Rightarrow> nat \<Rightarrow> FlowRegistry
    \<Rightarrow> ((fc_error + flowComponents list) \<times> FlowRegistry) option" where
  "buildFlowComponents key numInstances fr =
     (case gm_get (cf_PriorityBands (fr_config fr)) (fk_Priority key) of
        None \<Rightarrow> Some (Inl (Errorf [ErrPriorityBandNotFound]), fr)
      | Some bandConfig \<Rightarrow>
          do { policy \<leftarrow> pb_OrderingPolicy bandConfig;
               Some (build_instances numInstances (fr_nextQueue fr) (pb_Queue bandConfig) policy,
                     fr\<lparr>fr_nextQueue := fr_nextQueue fr + numInstances\<rparr>) })"

definition repartitionShardConfigsLocked :: "FlowRegistry \<Rightarrow> FlowRegistry option" where
  "repartitionShardConfigsLocked fr =
     do { newPartitionedConfig \<leftarrow> config_partition 0 1 (fr_config fr);
          shard \<leftarrow> updateConfig newPartitionedConfig (fr_shard fr);
          Some (fr\<lparr>fr_shard := shard\<rparr>) }"

definition ensurePriorityBand :: "int \<Rightarrow> FlowRegistry \<Rightarrow> (fc_error option \<times> FlowRegistry) option" where
  "ensurePriorityBand priority fr =
     (if gm_get (cf_PriorityBands (fr_config fr)) priority \<noteq> None then Some (None, fr)
      else do { t \<leftarrow> cf_DefaultPriorityBand (fr_config fr);
                (let newBand = t\<lparr>pb_Priority := priority\<rparr>;
                     cfg = (fr_config fr)\<lparr>cf_PriorityBands := gm_set priority newBand (cf_PriorityBands (fr_config fr))\<rparr>;
                     fr1 = fr\<lparr>fr_config := cfg,
                              fr_perPriorityBandStats := load_or_store priority new_bandStats (fr_perPriorityBandStats fr),
                              fr_priorityBandStates :=
                                load_or_store priority (new_priorityBandState priority) (fr_priorityBandStates fr)\<rparr>
                 in do { fr2 \<leftarrow> repartitionShardConfigsLocked fr1;
                         shard \<leftarrow> addPriorityBand priority (fr_shard fr2);
                         Some (None, fr2\<lparr>fr_shard := shard\<rparr>) }) })"

definition ensureFlowInfrastructure :: "FlowKey \<Rightarrow> FlowRegistry \<Rightarrow> (fc_error option \<times> FlowRegistry) option" where
  "ensureFlowInfrastructure key fr =
     do { (err, fr1) \<leftarrow> (if gm_get (cf_PriorityBands (fr_config fr)) (fk_Priority key) = None
                          then ensurePriorityBand (fk_Priority key) fr else Some (None, fr));
          (case err of
             Some e \<Rightarrow> Some (Some e, fr1)
           | None \<Rightarrow>
               do { (r, fr2) \<leftarrow> buildFlowComponents key 1 fr1;
                    (case r of
                       Inl e \<Rightarrow> Some (Some e, fr2)
                     | Inr [] \<Rightarrow> None
                     | Inr (c # cs) \<Rightarrow>
                         do { shard \<leftarrow> synchronizeFlow key (fc_policy c) (fc_queue c) (fr_shard fr2);
                              Some (None, fr2\<lparr>fr_shard := shard\<rparr>) }) }) }"

subsection \<open>Connections\<close>

text \<open>Releasing the lease on a band, when the band's state is still there.\<close>

definition release_band :: "time \<Rightarrow> int \<Rightarrow> FlowRegistry \<Rightarrow> FlowRegistry" where
  "release_band now priority fr =
     (case gm_get (fr_priorityBandStates fr) priority of
        None \<Rightarrow> fr
      | Some b \<Rightarrow> fr\<lparr>fr_priorityBandStates := gm_set priority (unpin now b) (fr_priorityBandStates fr)\<rparr>)"

text \<open>\<open>WithConnection\<close> up to the callback: pin the flow, pin the band of a new flow, provision.\<close>

definition acquire :: "time \<Rightarrow> FlowKey \<Rightarrow> FlowRegistry \<Rightarrow> (fc_error option \<times> FlowRegistry) option" where
  "acquire now key fr =
     (if fk_ID key = '''' then Some (Some ErrFlowIDEmpty, fr)
      else do {
        (isNewFlow, flows) \<leftarrow> pinLeasedResource key (new_flowState key) (fr_flowStates fr);
        bands \<leftarrow> (if isNewFlow
                   then do { (_, bands) \<leftarrow> pinLeasedResource (fk_Priority key) (new_priorityBandState (fk_Priority key))
                                             (fr_priorityBandStates fr);
                             Some bands }
                   else Some (fr_priorityBandStates fr));
        state \<leftarrow> gm_get flows key;
        (let fr1 = fr\<lparr>fr_flowStates := flows, fr_priorityBandStates := bands\<rparr> in
         do { (initErr, fr2) \<leftarrow>
                (if fl_initialized state then Some (fl_initErr state, fr1)
                 else do { (err, fr2) \<leftarrow> ensureFlowInfrastructure key fr1;
                           Some (err, fr2\<lparr>fr_flowStates :=
                             gm_set key (state\<lparr>fl_initialized := True, fl_initErr := err\<rparr>) (fr_flowStates fr2)\<rparr>) });
              (case initErr of
                 Some e \<Rightarrow>
                   (let fr3 = fr2\<lparr>fr_flowStates := gm_del key (fr_flowStates fr2)\<rparr> in
                    Some (Some (Errorf [e]), if isNewFlow then release_band now (fk_Priority key) fr3 else fr3))
               | None \<Rightarrow> Some (None, fr2)) }) })"

text \<open>The deferred \<open>state.unpin\<close>; its argument was evaluated when the \<open>defer\<close> statement ran, before the
  callback. While the lease is held the map keeps the pinned object.\<close>

definition release :: "time \<Rightarrow> FlowKey \<Rightarrow> FlowRegistry \<Rightarrow> FlowRegistry" where
  "release now key fr =
     (case gm_get (fr_flowStates fr) key of
        None \<Rightarrow> fr
      | Some state \<Rightarrow> fr\<lparr>fr_flowStates := gm_set key (unpin now state) (fr_flowStates fr)\<rparr>)"

definition WithConnection :: "time \<Rightarrow> FlowKey \<Rightarrow> (FlowRegistry \<Rightarrow> (fc_error option \<times> FlowRegistry) option)
    \<Rightarrow> FlowRegistry \<Rightarrow> (fc_error option \<times> FlowRegistry) option" where
  "WithConnection now key fn fr =
     do { (err, fr1) \<leftarrow> acquire now key fr;
          (case err of
             Some e \<Rightarrow> Some (Some e, fr1)
           | None \<Rightarrow> do { (r, fr2) \<leftarrow> fn fr1; Some (r, release now key fr2) }) }"

definition ActiveShards :: "FlowRegistry \<Rightarrow> registryShard list" where
  "ActiveShards fr = [fr_shard fr]"

subsection \<open>Garbage collection\<close>

definition cleanupFlowResources :: "FlowKey list \<Rightarrow> FlowRegistry \<Rightarrow> FlowRegistry" where
  "cleanupFlowResources keys fr =
     fold (\<lambda>key fr. if gm_get (fr_flowStates fr) key \<noteq> None then fr
                    else fr\<lparr>fr_shard := deleteFlow key (fr_shard fr)\<rparr>) keys fr"

definition gcFlows :: "time \<Rightarrow> FlowRegistry \<Rightarrow> FlowRegistry" where
  "gcFlows now fr =
     (let (deletedFlows, flows) = collectLeasedResources (cf_FlowGCTimeout (fr_config fr)) now (fr_flowStates fr);
          fr1 = fr\<lparr>fr_flowStates := flows\<rparr>
      in if length deletedFlows > 0
         then cleanupFlowResources (map fl_key deletedFlows)
                (fold (\<lambda>v fr. release_band now (fk_Priority (fl_key v)) fr) deletedFlows fr1)
         else fr1)"

definition cleanupPriorityBandResources :: "int list \<Rightarrow> FlowRegistry \<Rightarrow> FlowRegistry" where
  "cleanupPriorityBandResources priorities fr =
     fold (\<lambda>priority fr.
             if gm_get (fr_priorityBandStates fr) priority \<noteq> None then fr
             else fr\<lparr>fr_config := (fr_config fr)\<lparr>cf_PriorityBands := gm_del priority (cf_PriorityBands (fr_config fr))\<rparr>,
                     fr_perPriorityBandStats := gm_del priority (fr_perPriorityBandStats fr),
                     fr_shard := shard_deletePriorityBand priority (fr_shard fr)\<rparr>) priorities fr"

definition gcPriorityBands :: "time \<Rightarrow> FlowRegistry \<Rightarrow> FlowRegistry" where
  "gcPriorityBands now fr =
     (let (deletedBands, bands) = collectLeasedResources (cf_PriorityBandGCTimeout (fr_config fr)) now (fr_priorityBandStates fr);
          fr1 = fr\<lparr>fr_priorityBandStates := bands\<rparr>
      in if length deletedBands > 0 then cleanupPriorityBandResources (map ps_priority deletedBands) fr1 else fr1)"

definition executeGCCycle :: "time \<Rightarrow> FlowRegistry \<Rightarrow> FlowRegistry" where
  "executeGCCycle now fr = gcPriorityBands now (gcFlows now fr)"

definition deletePriorityBand :: "int \<Rightarrow> FlowRegistry \<Rightarrow> FlowRegistry" where
  "deletePriorityBand priority fr =
     cleanupPriorityBandResources [priority] (fr\<lparr>fr_priorityBandStates := gm_del priority (fr_priorityBandStates fr)\<rparr>)"

subsection \<open>Construction\<close>

text \<open>The components of every existing flow are built before the first one is installed.\<close>

fun prepare_flows :: "FlowKey list \<Rightarrow> FlowRegistry
    \<Rightarrow> ((fc_error + (FlowKey \<times> flowComponents list) list) \<times> FlowRegistry) option" where
  "prepare_flows [] fr = Some (Inr [], fr)"
| "prepare_flows (key # keys) fr =
     do { (r, fr1) \<leftarrow> buildFlowComponents key 1 fr;
          (case r of
             Inl e \<Rightarrow> Some (Inl (Errorf [e]), fr1)
           | Inr cs \<Rightarrow> do { (r', fr2) \<leftarrow> prepare_flows keys fr1;
                           (case r' of
                              Inl e \<Rightarrow> Some (Inl e, fr2)
                            | Inr rest \<Rightarrow> Some (Inr ((key, cs) # rest), fr2)) }) }"

fun install_flows :: "(FlowKey \<times> flowComponents list) list \<Rightarrow> registryShard \<Rightarrow> registryShard option" where
  "install_flows [] s = Some s"
| "install_flows ((key, cs) # rest) s =
     (case cs of
        [] \<Rightarrow> None
      | c # _ \<Rightarrow> do { s' \<leftarrow> synchronizeFlow key (fc_policy c) (fc_queue c) s; install_flows rest s' })"

definition createShard :: "FlowRegistry \<Rightarrow> (fc_error option \<times> FlowRegistry) option" where
  "createShard fr =
     do { partitionedConfig \<leftarrow> config_partition 0 1 (fr_config fr);
          shard \<leftarrow> newShard ''shard-0'' partitionedConfig;
          (r, fr1) \<leftarrow> prepare_flows (map fst (fr_flowStates fr)) fr;
          (case r of
             Inl e \<Rightarrow> Some (Some e, fr1)
           | Inr allComponents \<Rightarrow>
               do { shard' \<leftarrow> install_flows allComponents shard;
                    fr2 \<leftarrow> repartitionShardConfigsLocked (fr1\<lparr>fr_shard := shard'\<rparr>);
                    Some (None, fr2) }) }"

text \<open>The registry before \<open>createShard\<close> has no shard; \<open>nil_shard\<close> holds its place and is never read.\<close>

definition nil_shard :: registryShard where
  "nil_shard = \<lparr>sh_id = '''', sh_config = \<lparr>sc_MaxBytes = 0, sc_MaxRequests = 0, sc_PriorityBands = []\<rparr>,
     sh_orderedPriorityLevels = [], sh_priorityBands = [], sh_isDraining = False, sh_totalByteSize = 0, sh_totalLen = 0\<rparr>"

definition NewFlowRegistry :: "Config \<Rightarrow> (fc_error + FlowRegistry) option" where
  "NewFlowRegistry config =
     (let cfg = Clone config in
      do { (err, fr) \<leftarrow> createShard
             \<lparr>fr_config = cfg, fr_flowStates = [], fr_priorityBandStates = [], fr_totalByteSize = 0, fr_totalLen = 0,
              fr_perPriorityBandStats = map (\<lambda>(prio, _). (prio, new_bandStats)) (cf_PriorityBands cfg),
              fr_shard = nil_shard, fr_nextQueue = 0\<rparr>;
           (case err of Some e \<Rightarrow> Some (Inl (Errorf [e])) | None \<Rightarrow> Some (Inr fr)) })"

subsection \<open>Statistics\<close>

record AggregateStats =
  as_TotalCapacityBytes :: uint64
  as_TotalCapacityRequests :: uint64
  as_TotalByteSize :: uint64
  as_TotalLen :: uint64
  as_PerPriorityBandStats :: "(int, PriorityBandStats) gomap"

fun band_stats :: "Config \<Rightarrow> (int, bandStats) gomap \<Rightarrow> (int, PriorityBandStats) gomap option" where
  "band_stats cfg [] = Some []"
| "band_stats cfg ((priority, b) # bs) =
     do { bandCfg \<leftarrow> gm_get (cf_PriorityBands cfg) priority;
          rest \<leftarrow> band_stats cfg bs;
          Some ((priority, \<lparr>bs_Priority = priority, bs_CapacityBytes = pb_MaxBytes bandCfg,
                           bs_CapacityRequests = pb_MaxRequests bandCfg,
                           bs_ByteSize = bst_byteSize b, bs_Len = bst_len b\<rparr>) # rest) }"

definition Stats :: "FlowRegistry \<Rightarrow> AggregateStats option" where
  "Stats fr =
     do { per \<leftarrow> band_stats (fr_config fr) (fr_perPriorityBandStats fr);
          Some \<lparr>as_TotalCapacityBytes = cf_MaxBytes (fr_config fr), as_TotalCapacityRequests = cf_MaxRequests (fr_config fr),
                as_TotalByteSize = fr_totalByteSize fr, as_TotalLen = fr_totalLen fr, as_PerPriorityBandStats = per\<rparr> }"

definition registry_ShardStats :: "FlowRegistry \<Rightarrow> ShardStats list" where
  "registry_ShardStats fr = [shard_Stats (fr_shard fr)]"

fun registry_propagateStatsDelta :: "StatsDelta \<Rightarrow> FlowRegistry \<Rightarrow> FlowRegistry option" where
  "registry_propagateStatsDelta (priority, lenDelta, byteSizeDelta) fr =
     (case gm_get (fr_perPriorityBandStats fr) priority of
        None \<Rightarrow> None
      | Some stats \<Rightarrow>
          Some (fr\<lparr>fr_perPriorityBandStats := gm_set priority
                     (stats\<lparr>bst_len := bst_len stats + lenDelta, bst_byteSize := bst_byteSize stats + byteSizeDelta\<rparr>)
                     (fr_perPriorityBandStats fr),
                   fr_totalLen := fr_totalLen fr + lenDelta,
                   fr_totalByteSize := fr_totalByteSize fr + byteSizeDelta\<rparr>))"

fun registry_propagate :: "StatsDelta list \<Rightarrow> FlowRegistry \<Rightarrow> FlowRegistry option" where
  "registry_propagate [] fr = Some fr"
| "registry_propagate (d # ds) fr = do { fr' \<leftarrow> registry_propagateStatsDelta d fr; registry_propagate ds fr' }"

text \<open>An operation on a queue of the registry's shard: what the shard does, then the same deltas again at
  the registry.\<close>

definition on_shard :: "(registryShard \<Rightarrow> ('r \<times> Store \<times> registryShard \<times> StatsDelta list) option) \<Rightarrow> FlowRegistry
    \<Rightarrow> ('r \<times> Store \<times> FlowRegistry) option" where
  "on_shard f fr =
     do { (r, st', s', ds) \<leftarrow> f (fr_shard fr);
          fr' \<leftarrow> registry_propagate ds (fr\<lparr>fr_shard := s'\<rparr>);
          Some (r, st', fr') }"

end
