(* ===== verification/Fairness.thy ===== *)
theory Fairness
  imports ShardOps
begin

text \<open>
  The fairness policies that choose which flow of a band is served next
  (\<open>framework/plugins/flowcontrol/fairness\<close>): \<open>globalstrict/global_strict.go\<close> takes the queue with the best
  head, \<open>roundrobin/roundrobin.go\<close> takes the queues in turn and keeps a cursor in the band's policy state.
  A policy gets the band it picks from (the accessor is a view of it) and returns the queue and the band
  with its policy state updated.
\<close>

subsection \<open>Global strict\<close>

text \<open>What the callback of \<open>IterateQueues\<close> updates: best queue, best item, error.\<close>

type_synonym strict_acc = "managedQueue option \<times> FlowItem option \<times> fc_error option"

definition strict_callback :: "strict_acc \<Rightarrow> managedQueue \<Rightarrow> strict_acc \<times> bool" where
  "strict_callback acc queue =
     (case acc of (bestQueue, bestItem, iterationErr) \<Rightarrow>
        if mq_Len queue = 0 then (acc, True)
        else (case mq_PeekHead queue of
                None \<Rightarrow> (acc, True)
              | Some item \<Rightarrow>
                  (case (bestQueue, bestItem) of
                     (Some bq, Some bi) \<Rightarrow>
                       if op_Type (mq_policy queue) \<noteq> op_Type (mq_policy bq)
                       then ((bestQueue, bestItem, Some (Errorf [ErrIncompatiblePriorityType])), False)
                       else if op_Less (mq_policy bq) item bi then ((Some queue, Some item, iterationErr), True)
                       else (acc, True)
                   | _ \<Rightarrow> ((Some queue, Some item, iterationErr), True))))"

definition globalStrict_Pick :: "priorityBand option \<Rightarrow> (fc_error + managedQueue option) \<times> priorityBand option" where
  "globalStrict_Pick flowGroup =
     (case flowGroup of
        None \<Rightarrow> (Inr None, None)
      | Some band \<Rightarrow>
          (case IterateQueues strict_callback band (None, None, None) of
             (bestQueue, bestItem, iterationErr) \<Rightarrow>
               ((case iterationErr of Some e \<Rightarrow> Inl e | None \<Rightarrow> Inr bestQueue), Some band)))"

subsection \<open>Round robin\<close>

definition slices_Index :: "'a list \<Rightarrow> 'a \<Rightarrow> int" where
  "slices_Index xs x = (case find (\<lambda>i. xs ! i = x) [0 ..< length xs] of None \<Rightarrow> -1 | Some i \<Rightarrow> int i)"

definition rr_start :: "FlowKey list \<Rightarrow> FlowKey option \<Rightarrow> nat" where
  "rr_start keys lastSelected =
     (case lastSelected of
        None \<Rightarrow> 0
      | Some k \<Rightarrow> (let idx = slices_Index keys k in if idx \<noteq> -1 then nat ((idx + 1) mod int (length keys)) else 0))"

text \<open>The loop over \<open>i\<close>: the first flow from \<open>startIndex\<close> on, around the end, with a non-empty queue.\<close>

fun rr_loop :: "priorityBand \<Rightarrow> FlowKey list \<Rightarrow> nat \<Rightarrow> nat list \<Rightarrow> (FlowKey \<times> managedQueue) option" where
  "rr_loop band keys startIndex [] = None"
| "rr_loop band keys startIndex (i # is) =
     (let currentKey = keys ! ((startIndex + i) mod length keys) in
      case band_Queue (fk_ID currentKey) band of
        Some queue \<Rightarrow> if mq_Len queue > 0 then Some (currentKey, queue) else rr_loop band keys startIndex is
      | None \<Rightarrow> rr_loop band keys startIndex is)"

definition roundRobin_Pick :: "priorityBand option \<Rightarrow> (fc_error + managedQueue option) \<times> priorityBand option" where
  "roundRobin_Pick flowGroup =
     (case flowGroup of
        None \<Rightarrow> (Inr None, None)
      | Some band \<Rightarrow>
          (case bd_policyState band of
             NilState \<Rightarrow> (Inl (ErrMsg ''invalid state type for RoundRobin policy''), Some band)
           | RoundRobinCursor lastSelected \<Rightarrow>
               (let keys = FlowKeys band in
                if length keys = 0 then (Inr None, Some (band\<lparr>bd_policyState := RoundRobinCursor None\<rparr>))
                else
                  (let keys = sort keys;
                       startIndex = rr_start keys lastSelected
                   in case rr_loop band keys startIndex [0 ..< length keys] of
                        Some (currentKey, queue) \<Rightarrow>
                          (Inr (Some queue), Some (band\<lparr>bd_policyState := RoundRobinCursor (Some currentKey)\<rparr>))
                      | None \<Rightarrow> (Inr None, Some (band\<lparr>bd_policyState := RoundRobinCursor None\<rparr>))))))"

fun Pick :: "FairnessPolicy \<Rightarrow> priorityBand option \<Rightarrow> (fc_error + managedQueue option) \<times> priorityBand option" where
  "Pick GlobalStrict = globalStrict_Pick"
| "Pick RoundRobin = roundRobin_Pick"

subsection \<open>Facts\<close>

definition queue_of :: "priorityBand \<Rightarrow> managedQueue set" where
  "queue_of band = snd ` set (bd_queues band)"

definition waiting :: "managedQueue \<Rightarrow> bool" where
  "waiting mq \<longleftrightarrow> mq_Len mq \<noteq> 0 \<and> mq_PeekHead mq \<noteq> None"

text \<open>A band is consistent when length and head of every queue agree, all its queues follow one strict weak order,
  and the policy state is the one its fairness policy made.\<close>

definition band_consistent :: "priorityBand \<Rightarrow> bool" where
  "band_consistent band \<longleftrightarrow> gm_ok (bd_queues band) \<and>
     (\<forall>mq \<in> queue_of band. 0 \<le> mq_Len mq \<and> (mq_Len mq = 0 \<longleftrightarrow> mq_PeekHead mq = None)) \<and>
     (\<forall>mq \<in> queue_of band. \<forall>mq' \<in> queue_of band. mq_policy mq = mq_policy mq') \<and>
     (\<forall>mq \<in> queue_of band. strict_weak (op_Less (mq_policy mq))) \<and>
     (bd_fairnessPolicy band = RoundRobin \<longrightarrow> bd_policyState band \<noteq> NilState)"

lemma band_consistentD:
  assumes "band_consistent band" "mq \<in> queue_of band"
  shows "0 \<le> mq_Len mq" "mq_Len mq = 0 \<longleftrightarrow> mq_PeekHead mq = None" "strict_weak (op_Less (mq_policy mq))"
    "mq' \<in> queue_of band \<Longrightarrow> mq_policy mq' = mq_policy mq"
  using assms unfolding band_consistent_def by blast+

lemma band_consistent_keys: "band_consistent band \<Longrightarrow> gm_ok (bd_queues band)"
  and band_consistent_cursor: "band_consistent band \<Longrightarrow> bd_fairnessPolicy band = RoundRobin \<Longrightarrow> bd_policyState band \<noteq> NilState"
  unfolding band_consistent_def by blast+

lemma queue_of_state [simp]: "queue_of (band\<lparr>bd_policyState := s\<rparr>) = queue_of band"
  by (simp add: queue_of_def)

lemma band_consistent_state:
  assumes "band_consistent band" "bd_fairnessPolicy band = RoundRobin \<longrightarrow> s \<noteq> NilState"
  shows "band_consistent (band\<lparr>bd_policyState := s\<rparr>)"
proof -
  have "(\<forall>mq \<in> queue_of band. 0 \<le> mq_Len mq \<and> (mq_Len mq = 0 \<longleftrightarrow> mq_PeekHead mq = None)) \<and>
     (\<forall>mq \<in> queue_of band. \<forall>mq' \<in> queue_of band. mq_policy mq = mq_policy mq') \<and>
     (\<forall>mq \<in> queue_of band. strict_weak (op_Less (mq_policy mq)))" "gm_ok (bd_queues band)"
    using assms(1) unfolding band_consistent_def by blast+
  then show ?thesis using assms(2) unfolding band_consistent_def queue_of_state by (simp (no_asm)) blast
qed

subsection \<open>Global strict picks the best head\<close>

text \<open>The loop invariant: after the queues \<open>seen\<close>, the accumulator holds nothing if none of them waits, and
  otherwise a waiting one whose head no head of \<open>seen\<close> goes before.\<close>

definition best_of :: "OrderingPolicy \<Rightarrow> managedQueue set \<Rightarrow> strict_acc \<Rightarrow> bool" where
  "best_of P seen acc \<longleftrightarrow>
     (acc = (None, None, None) \<and> (\<forall>q \<in> seen. \<not> waiting q)) \<or>
     (\<exists>bq bi. acc = (Some bq, Some bi, None) \<and> bq \<in> seen \<and> waiting bq \<and> mq_PeekHead bq = Some bi \<and> mq_policy bq = P \<and>
        (\<forall>q \<in> seen. waiting q \<longrightarrow> \<not> op_Less P (the (mq_PeekHead q)) bi))"

lemma strict_callback_step:
  assumes sw: "strict_weak (op_Less P)" and acc: "best_of P seen acc" and P: "mq_policy q = P"
  shows "snd (strict_callback acc q) \<and> best_of P (insert q seen) (fst (strict_callback acc q))"
proof (cases "waiting q")
  case False
  then have "strict_callback acc q = (acc, True)"
    by (auto simp: waiting_def strict_callback_def split: prod.splits option.splits)
  then show ?thesis using False acc unfolding best_of_def by auto
next
  case True
  then obtain x where x: "mq_PeekHead q = Some x" "mq_Len q \<noteq> 0" by (auto simp: waiting_def)
  from acc consider "acc = (None, None, None)" "\<forall>q \<in> seen. \<not> waiting q"
    | bq bi where "acc = (Some bq, Some bi, None)" "bq \<in> seen" "waiting bq" "mq_PeekHead bq = Some bi" "mq_policy bq = P"
      "\<forall>q \<in> seen. waiting q \<longrightarrow> \<not> op_Less P (the (mq_PeekHead q)) bi"
    unfolding best_of_def by blast
  then show ?thesis
  proof cases
    case 1
    then show ?thesis using x True P strict_weak.irrefl [OF sw] by (auto simp: strict_callback_def best_of_def)
  next
    case 2
    have "\<not> op_Less P (the (mq_PeekHead q')) x" if "q' \<in> seen" "waiting q'" "op_Less P x bi" for q'
      using 2(6) that strict_weak.less_trans [OF sw _ that(3)] by blast
    then show ?thesis using 2 x True P strict_weak.irrefl [OF sw] by (auto simp: strict_callback_def best_of_def)
  qed
qed

lemma strict_loop:
  assumes "strict_weak (op_Less P)" "\<forall>q \<in> set qs. mq_policy q = P" "best_of P seen acc"
  shows "best_of P (seen \<union> set qs) (iterate_queues strict_callback qs acc)"
  using assms
proof (induction qs arbitrary: acc seen)
  case (Cons q qs)
  have "snd (strict_callback acc q)" "best_of P (insert q seen) (fst (strict_callback acc q))"
    using strict_callback_step [OF Cons.prems(1,3), of q] Cons.prems(2) by simp_all
  then show ?case using Cons.IH [of "insert q seen" "fst (strict_callback acc q)"] Cons.prems by (simp add: split_beta Let_def)
qed simp

lemma globalStrict_result:
  assumes "band_consistent band"
  shows "\<exists>r. globalStrict_Pick (Some band) = (Inr r, Some band) \<and>
     (case r of None \<Rightarrow> (\<forall>mq \<in> queue_of band. mq_Len mq = 0)
      | Some q \<Rightarrow> q \<in> queue_of band \<and> mq_Len q \<noteq> 0 \<and>
          (\<exists>x. mq_PeekHead q = Some x \<and> (\<forall>mq \<in> queue_of band. \<forall>y. mq_PeekHead mq = Some y \<longrightarrow> \<not> op_Less (mq_policy q) y x)))"
proof (cases "bd_queues band")
  case Nil
  then show ?thesis by (simp add: globalStrict_Pick_def IterateQueues_def queue_of_def)
next
  case (Cons e es)
  let ?qs = "map snd (bd_queues band)"
  let ?P = "mq_policy (snd e)"
  have e: "snd e \<in> queue_of band" using Cons by (simp add: queue_of_def)
  have qs: "set ?qs = queue_of band" by (simp add: queue_of_def)
  have P: "\<forall>q \<in> set ?qs. mq_policy q = ?P" "strict_weak (op_Less ?P)"
    unfolding qs using band_consistentD(3,4) [OF assms e] by blast+
  have "best_of ?P ({} \<union> set ?qs) (iterate_queues strict_callback ?qs (None, None, None))"
    by (rule strict_loop [OF P(2,1)]) (simp add: best_of_def)
  then consider "iterate_queues strict_callback ?qs (None, None, None) = (None, None, None)" "\<forall>q \<in> queue_of band. \<not> waiting q"
    | bq bi where "iterate_queues strict_callback ?qs (None, None, None) = (Some bq, Some bi, None)" "bq \<in> queue_of band"
      "waiting bq" "mq_PeekHead bq = Some bi" "mq_policy bq = ?P"
      "\<forall>q \<in> queue_of band. waiting q \<longrightarrow> \<not> op_Less ?P (the (mq_PeekHead q)) bi"
    unfolding best_of_def qs by auto
  then show ?thesis
  proof cases
    case 1
    have "mq_Len mq = 0" if "mq \<in> queue_of band" for mq
      using 1(2) band_consistentD(2) [OF assms that] that unfolding waiting_def by blast
    then show ?thesis using 1(1) by (simp add: globalStrict_Pick_def IterateQueues_def)
  next
    case 2
    have "\<not> op_Less (mq_policy bq) y bi" if "mq \<in> queue_of band" "mq_PeekHead mq = Some y" for mq y
      using 2(5,6) that band_consistentD(2) [OF assms that(1)] unfolding waiting_def by (metis option.discI option.sel)
    then show ?thesis using 2 by (auto simp: globalStrict_Pick_def IterateQueues_def waiting_def)
  qed
qed

subsection \<open>Round robin walks the ring\<close>

lemma slices_Index_nth:
  assumes "distinct xs" "i < length xs"
  shows "slices_Index xs (xs ! i) = int i"
proof -
  have "find (\<lambda>j. xs ! j = xs ! i) [0 ..< length xs] = Some i"
    unfolding find_Some_iff
    by (rule exI [of _ i]) (use assms nth_eq_iff_index_eq in fastforce)
  then show ?thesis by (simp add: slices_Index_def)
qed

lemma rr_start_lt: "keys \<noteq> [] \<Longrightarrow> rr_start keys c < length keys"
  by (auto simp: rr_start_def Let_def nat_less_iff split: option.splits)

lemma rr_start_next:
  assumes "distinct keys" "i < length keys"
  shows "rr_start keys (Some (keys ! i)) = Suc i mod length keys"
proof -
  have "(int i + 1) mod int (length keys) = int (Suc i mod length keys)" by (simp add: zmod_int add.commute)
  then show ?thesis using assms by (simp add: rr_start_def slices_Index_nth Let_def)
qed

definition ready :: "priorityBand \<Rightarrow> FlowKey \<Rightarrow> managedQueue \<Rightarrow> bool" where
  "ready band key mq \<longleftrightarrow> band_Queue (fk_ID key) band = Some mq \<and> mq_Len mq > 0"

lemma rr_loop_first:
  assumes "j < m" "ready band (keys ! ((start + (a + j)) mod length keys)) mq"
  shows "\<exists>i \<le> j. \<exists>mq'. rr_loop band keys start (map (\<lambda>i. a + i) [0 ..< m]) = Some (keys ! ((start + (a + i)) mod length keys), mq') \<and>
     ready band (keys ! ((start + (a + i)) mod length keys)) mq'"
  using assms
proof (induction m arbitrary: a j)
  case (Suc m)
  let ?k = "keys ! ((start + a) mod length keys)"
  have split: "map (\<lambda>i. a + i) [0 ..< Suc m] = a # map (\<lambda>i. Suc a + i) [0 ..< m]"
    by (simp add: upt_conv_Cons map_Suc_upt [symmetric] comp_def del: upt_Suc)
  show ?case
  proof (cases "\<exists>q. ready band ?k q")
    case True
    then obtain q where "ready band ?k q" ..
    then show ?thesis unfolding split by (intro exI [of _ 0] conjI exI [of _ q]) (simp_all add: ready_def Let_def)
  next
    case False
    have "rr_loop band keys start (a # is) = rr_loop band keys start is" for "is"
      using False by (auto simp: ready_def Let_def split: option.splits)
    moreover obtain j' where j': "j = Suc j'" using False Suc.prems(2) by (cases j) auto
    ultimately show ?thesis
      using Suc.IH [of j' "Suc a"] Suc.prems unfolding split by fastforce
  qed
qed simp

lemma roundRobin_step:
  assumes st: "bd_policyState band = RoundRobinCursor c" and keys: "sort (FlowKeys band) = keys" "distinct keys"
    and pos: "pos < length keys" "ready band (keys ! pos) mq"
    and d: "d < length keys" "(rr_start keys c + d) mod length keys = pos"
  shows "\<exists>key' q. roundRobin_Pick (Some band) = (Inr (Some q), Some (band\<lparr>bd_policyState := RoundRobinCursor (Some key')\<rparr>)) \<and>
     ready band key' q \<and> (key' = keys ! pos \<or> (\<exists>d' < d. (rr_start keys (Some key') + d') mod length keys = pos))"
proof -
  let ?n = "length keys" and ?s = "rr_start keys c"
  have ne: "length (FlowKeys band) \<noteq> 0" using pos(1) keys(1) by (metis length_sort not_less_zero)
  have "ready band (keys ! ((?s + (0 + d)) mod ?n)) mq" using pos(2) d(2) by simp
  from rr_loop_first [OF d(1) this] obtain i q where i: "i \<le> d"
    "rr_loop band keys ?s [0 ..< ?n] = Some (keys ! ((?s + i) mod ?n), q)" "ready band (keys ! ((?s + i) mod ?n)) q"
    by auto
  let ?k = "keys ! ((?s + i) mod ?n)"
  have pick: "roundRobin_Pick (Some band) = (Inr (Some q), Some (band\<lparr>bd_policyState := RoundRobinCursor (Some ?k)\<rparr>))"
    using st keys(1) ne i(2) by (simp add: roundRobin_Pick_def Let_def)
  have "?k = keys ! pos \<or> (\<exists>d' < d. (rr_start keys (Some ?k) + d') mod ?n = pos)"
  proof (cases "i = d")
    case True
    then show ?thesis using d(2) by simp
  next
    case False
    then have "d - Suc i < d" "Suc (?s + i) + (d - Suc i) = ?s + d" using i(1) by simp_all
    moreover have "(?s + i) mod ?n < ?n" using pos(1) by (metis mod_less_divisor not_less_zero neq0_conv)
    moreover have "(Suc ((?s + i) mod ?n) mod ?n + (d - Suc i)) mod ?n = (Suc (?s + i) + (d - Suc i)) mod ?n"
      by (simp add: mod_simps)
    ultimately show ?thesis using rr_start_next [OF keys(2)] d(2) by metis
  qed
  then show ?thesis using pick i(3) by blast
qed

text \<open>The picks of one band over time: the cursor is carried from one pick to the next, everything else of the
  band may change in between.\<close>

fun rr_run :: "priorityBand list \<Rightarrow> PolicyState \<Rightarrow> (fc_error + managedQueue option) list" where
  "rr_run [] s = []"
| "rr_run (band # bands) s =
     (let (r, b') = roundRobin_Pick (Some (band\<lparr>bd_policyState := s\<rparr>))
      in r # rr_run bands (case b' of None \<Rightarrow> s | Some b \<Rightarrow> bd_policyState b))"

lemma FlowKeys_state [simp]: "FlowKeys (band\<lparr>bd_policyState := s\<rparr>) = FlowKeys band"
  by (simp add: FlowKeys_def)

lemma ready_state [simp]: "ready (band\<lparr>bd_policyState := s\<rparr>) = ready band"
  by (intro ext) (simp add: ready_def band_Queue_def)

lemma rr_run_reaches:
  assumes "distinct keys" "pos < length keys" "\<forall>band \<in> set bands. sort (FlowKeys band) = keys \<and> (\<exists>mq. ready band (keys ! pos) mq)"
    and "d < length keys" "(rr_start keys c + d) mod length keys = pos" "d < length bands"
  shows "\<exists>i \<le> d. \<exists>mq. ready (bands ! i) (keys ! pos) mq \<and> rr_run bands (RoundRobinCursor c) ! i = Inr (Some mq)"
  using assms(3-6)
proof (induction bands arbitrary: d c)
  case (Cons band bands)
  let ?b = "band\<lparr>bd_policyState := RoundRobinCursor c\<rparr>"
  obtain mq where mq: "ready band (keys ! pos) mq" using Cons.prems(1) by auto
  have k: "sort (FlowKeys ?b) = keys" using Cons.prems(1) by simp
  have "bd_policyState ?b = RoundRobinCursor c" "ready ?b (keys ! pos) mq" using mq by simp_all
  from roundRobin_step [OF this(1) k assms(1,2) this(2) Cons.prems(2,3)] obtain key' q where
    p: "roundRobin_Pick (Some ?b) = (Inr (Some q), Some (?b\<lparr>bd_policyState := RoundRobinCursor (Some key')\<rparr>))"
    "ready band key' q" "key' = keys ! pos \<or> (\<exists>d' < d. (rr_start keys (Some key') + d') mod length keys = pos)" by auto
  have run: "rr_run (band # bands) (RoundRobinCursor c) = Inr (Some q) # rr_run bands (RoundRobinCursor (Some key'))"
    using p(1) by simp
  show ?case
  proof (cases "key' = keys ! pos")
    case True
    then show ?thesis using p(2) run by (intro exI [of _ 0]) auto
  next
    case False
    then obtain d' where d': "d' < d" "(rr_start keys (Some key') + d') mod length keys = pos" using p(3) by blast
    then have "d' < length keys" "d' < length bands" using Cons.prems(2,4) by simp_all
    from Cons.IH [OF _ this(1) d'(2) this(2)] Cons.prems(1) obtain i m where
      i: "i \<le> d'" "ready (bands ! i) (keys ! pos) m" "rr_run bands (RoundRobinCursor (Some key')) ! i = Inr (Some m)" by auto
    then show ?thesis using d'(1) run by (intro exI [of _ "Suc i"]) auto
  qed
qed simp

subsection \<open>The contract of a fairness policy\<close>

text \<open>What the dispatcher relies on: a policy never fails on a consistent band, changes nothing but its own state
  there, and finds a waiting queue whenever there is one.\<close>

locale fairness_policy =
  fixes pick :: "priorityBand option \<Rightarrow> (fc_error + managedQueue option) \<times> priorityBand option"
    and policy :: FairnessPolicy
  assumes pick_nil: "pick None = (Inr None, None)"
    and pick_spec: "band_consistent band \<Longrightarrow> bd_fairnessPolicy band = policy \<Longrightarrow>
          \<exists>r s. pick (Some band) = (Inr r, Some (band\<lparr>bd_policyState := s\<rparr>)) \<and> (policy = RoundRobin \<longrightarrow> s \<noteq> NilState) \<and>
            (r = None \<longleftrightarrow> (\<forall>mq \<in> queue_of band. mq_Len mq = 0)) \<and>
            (\<forall>q. r = Some q \<longrightarrow> q \<in> queue_of band \<and> mq_Len q \<noteq> 0)"
begin

lemma pick_head:
  assumes "band_consistent band" "bd_fairnessPolicy band = policy" "mq \<in> queue_of band" "mq_Len mq \<noteq> 0"
  shows "\<exists>q s x. pick (Some band) = (Inr (Some q), Some (band\<lparr>bd_policyState := s\<rparr>)) \<and> q \<in> queue_of band \<and>
     mq_PeekHead q = Some x \<and> band_consistent (band\<lparr>bd_policyState := s\<rparr>)"
proof -
  obtain r s where r: "pick (Some band) = (Inr r, Some (band\<lparr>bd_policyState := s\<rparr>))" "policy = RoundRobin \<longrightarrow> s \<noteq> NilState"
    "r = None \<longleftrightarrow> (\<forall>mq \<in> queue_of band. mq_Len mq = 0)" "\<forall>q. r = Some q \<longrightarrow> q \<in> queue_of band \<and> mq_Len q \<noteq> 0"
    using pick_spec [OF assms(1,2)] by blast
  have "r \<noteq> None" using r(3) assms(3,4) by blast
  then obtain q where q: "r = Some q" "q \<in> queue_of band" "mq_Len q \<noteq> 0" using r(4) by blast
  then obtain x where "mq_PeekHead q = Some x" using band_consistentD(2) [OF assms(1) q(2)] by auto
  moreover have "band_consistent (band\<lparr>bd_policyState := s\<rparr>)"
    using band_consistent_state [OF assms(1)] assms(2) r(2) by simp
  ultimately show ?thesis using r(1) q by blast
qed

end

interpretation gs: fairness_policy globalStrict_Pick GlobalStrict
proof
  fix band assume a: "band_consistent band" "bd_fairnessPolicy band = GlobalStrict"
  obtain r where "globalStrict_Pick (Some band) = (Inr r, Some band)"
    "case r of None \<Rightarrow> (\<forall>mq \<in> queue_of band. mq_Len mq = 0)
      | Some q \<Rightarrow> q \<in> queue_of band \<and> mq_Len q \<noteq> 0 \<and>
          (\<exists>x. mq_PeekHead q = Some x \<and> (\<forall>mq \<in> queue_of band. \<forall>y. mq_PeekHead mq = Some y \<longrightarrow> \<not> op_Less (mq_policy q) y x))"
    using globalStrict_result [OF a(1)] by blast
  then show "\<exists>r s. globalStrict_Pick (Some band) = (Inr r, Some (band\<lparr>bd_policyState := s\<rparr>)) \<and> (GlobalStrict = RoundRobin \<longrightarrow> s \<noteq> NilState) \<and>
      (r = None \<longleftrightarrow> (\<forall>mq \<in> queue_of band. mq_Len mq = 0)) \<and> (\<forall>q. r = Some q \<longrightarrow> q \<in> queue_of band \<and> mq_Len q \<noteq> 0)"
    by (intro exI [of _ r] exI [of _ "bd_policyState band"]) (auto split: option.splits)
qed (simp add: globalStrict_Pick_def)

lemma distinct_FlowKeys:
  assumes "gm_ok (bd_queues band)"
  shows "distinct (FlowKeys band)"
proof -
  have "FlowKeys band = map (\<lambda>i. FlowKey i (pb_Priority (bd_config band))) (map fst (bd_queues band))"
    by (simp add: FlowKeys_def split_def)
  moreover have "inj (\<lambda>i. FlowKey i (pb_Priority (bd_config band)))" by (simp add: inj_def)
  ultimately show ?thesis using assms by (metis distinct_map inj_on_subset subset_UNIV)
qed

lemma rr_loop_ready: "rr_loop band keys start is = Some (key, q) \<Longrightarrow> ready band key q"
  by (induction "is") (auto simp: Let_def ready_def split: option.splits if_splits)

lemma ready_queue_of: "ready band key q \<Longrightarrow> q \<in> queue_of band \<and> mq_Len q \<noteq> 0"
  by (force simp: ready_def band_Queue_def queue_of_def dest: gm_get_in)

interpretation rr: fairness_policy roundRobin_Pick RoundRobin
proof
  fix band assume a: "band_consistent band" "bd_fairnessPolicy band = RoundRobin"
  obtain c where c: "bd_policyState band = RoundRobinCursor c"
    using band_consistent_cursor [OF a] by (cases "bd_policyState band") simp_all
  let ?keys = "sort (FlowKeys band)"
  show "\<exists>r s. roundRobin_Pick (Some band) = (Inr r, Some (band\<lparr>bd_policyState := s\<rparr>)) \<and> (RoundRobin = RoundRobin \<longrightarrow> s \<noteq> NilState) \<and>
      (r = None \<longleftrightarrow> (\<forall>mq \<in> queue_of band. mq_Len mq = 0)) \<and> (\<forall>q. r = Some q \<longrightarrow> q \<in> queue_of band \<and> mq_Len q \<noteq> 0)"
  proof (cases "\<exists>mq \<in> queue_of band. mq_Len mq \<noteq> 0")
    case True
    then obtain i mq where i: "(i, mq) \<in> set (bd_queues band)" "mq_Len mq \<noteq> 0" by (auto simp: queue_of_def)
    let ?key = "FlowKey i (pb_Priority (bd_config band))"
    have dist: "distinct ?keys" using distinct_FlowKeys [OF band_consistent_keys [OF a(1)]] by simp
    have "?key \<in> set ?keys" using i(1) by (force simp: FlowKeys_def)
    then obtain pos where pos: "pos < length ?keys" "?keys ! pos = ?key" by (metis in_set_conv_nth)
    have rdy: "ready band ?key mq"
      using i band_consistentD(1) [OF a(1), of mq] band_consistent_keys [OF a(1)]
      by (force simp: ready_def band_Queue_def queue_of_def)
    let ?n = "length ?keys"
    let ?d = "(pos + ?n - rr_start ?keys c) mod ?n"
    have s: "rr_start ?keys c < ?n" using pos(1) by (intro rr_start_lt) (metis length_greater_0_conv not_less_zero neq0_conv)
    have "(rr_start ?keys c + ?d) mod ?n = (rr_start ?keys c + (pos + ?n - rr_start ?keys c)) mod ?n" by (simp add: mod_simps)
    then have dp: "(rr_start ?keys c + ?d) mod ?n = pos" using s pos(1) by simp
    have d: "?d < ?n" using pos(1) by (intro mod_less_divisor) linarith
    obtain key' q where "roundRobin_Pick (Some band) = (Inr (Some q), Some (band\<lparr>bd_policyState := RoundRobinCursor (Some key')\<rparr>))"
      "ready band key' q"
      using roundRobin_step [OF c refl dist pos(1) rdy [folded pos(2)] d dp] by blast
    then show ?thesis using True ready_queue_of
      by (intro exI [of _ "Some q"] exI [of _ "RoundRobinCursor (Some key')"]) auto
  next
    case False
    then have none: "rr_loop band ?keys s is = None" for s "is"
      using rr_loop_ready ready_queue_of by (cases "rr_loop band ?keys s is") fastforce+
    have "roundRobin_Pick (Some band) = (Inr None, Some (band\<lparr>bd_policyState := RoundRobinCursor None\<rparr>))"
      using c none by (simp add: roundRobin_Pick_def Let_def)
    then show ?thesis using False by (intro exI [of _ None] exI [of _ "RoundRobinCursor None"]) auto
  qed
qed (simp add: roundRobin_Pick_def)

interpretation fp: fairness_policy "Pick policy" policy for policy
  by (cases policy) (simp_all add: gs.fairness_policy_axioms rr.fairness_policy_axioms)

subsection \<open>Properties\<close>


text \<open>C12: Round robin never starves a flow. However full the other queues are and whatever the cursor was, a flow
  of a band of \<open>n\<close> flows that keeps a non-empty queue is picked at one of the next \<open>n\<close> picks, provided no flow
  comes or goes meanwhile.\<close>

theorem round_robin_bounded_waiting:
  assumes "\<forall>band \<in> set bands. gm_ok (bd_queues band) \<and> set (FlowKeys band) = K \<and>
       (\<exists>mq. band_Queue (fk_ID key) band = Some mq \<and> 0 < mq_Len mq)"
    and "key \<in> K" and fin: "finite K" and "length bands = card K"
  shows "\<exists>i < card K. \<exists>mq. band_Queue (fk_ID key) (bands ! i) = Some mq \<and> rr_run bands (RoundRobinCursor c) ! i = Inr (Some mq)"
proof -
  have dist: "distinct (FlowKeys band)" if "gm_ok (bd_queues band)" for band
    using that by (simp add: FlowKeys_def distinct_map split_def inj_on_def)
  let ?keys = "sorted_list_of_set K"
  have keys: "sort (FlowKeys band) = ?keys" if "band \<in> set bands" for band
    using assms(1) that dist by (metis distinct_sort set_sort sorted_list_of_set_sort_remdups distinct_remdups_id)
  obtain pos where pos: "pos < length ?keys" "?keys ! pos = key"
    using assms(2) fin by (metis in_set_conv_nth set_sorted_list_of_set)
  let ?n = "length ?keys"
  have n: "?n = card K" by simp
  have s: "rr_start ?keys c < ?n" by (rule rr_start_lt) (use assms(2) fin in auto)
  let ?d = "(pos + ?n - rr_start ?keys c) mod ?n"
  have d: "?d < ?n" using pos(1) by (metis mod_less_divisor not_less_zero neq0_conv)
  have "(rr_start ?keys c + ?d) mod ?n = (rr_start ?keys c + (pos + ?n - rr_start ?keys c)) mod ?n" by (simp add: mod_simps)
  also have "\<dots> = pos" using s pos(1) by simp
  finally have dp: "(rr_start ?keys c + ?d) mod ?n = pos" .
  have all: "\<forall>band \<in> set bands. sort (FlowKeys band) = ?keys \<and> (\<exists>mq. ready band (?keys ! pos) mq)"
    using keys assms(1) pos(2) by (auto simp: ready_def)
  have "?d < length bands" using d n assms(4) by simp
  from rr_run_reaches [OF _ pos(1) all d dp this] obtain i mq where
    "i \<le> ?d" "ready (bands ! i) key mq" "rr_run bands (RoundRobinCursor c) ! i = Inr (Some mq)" using pos(2) by auto
  then show ?thesis using d n by (intro exI [of _ i]) (auto simp: ready_def)
qed

definition demo_queue :: "string \<Rightarrow> int64 \<Rightarrow> string \<times> managedQueue" where
  "demo_queue fid n = (fid, \<lparr>mq_key = FlowKey fid 0, mq_policy = fcfs_policy, mq_queue = LQ (newListQueue 0),
                            mq_byteSize = 0, mq_len = n\<rparr>)"

definition demo_rr_band :: priorityBand where
  "demo_rr_band = \<lparr>bd_fairnessPolicy = RoundRobin, bd_policyState = RoundRobinCursor None, bd_config = demo_band,
     bd_queues = [demo_queue ''b'' 9, demo_queue ''a'' 1], bd_byteSize = 0, bd_len = 10\<rparr>"

theorem round_robin_bounded_waiting_witness:
  "\<exists>i < 2. \<exists>mq. band_Queue ''a'' demo_rr_band = Some mq \<and>
     rr_run [demo_rr_band, demo_rr_band] (RoundRobinCursor (Some (FlowKey ''a'' 0))) ! i = Inr (Some mq)"
proof -
  let ?K = "{FlowKey ''a'' 0, FlowKey ''b'' 0}"
  have K: "length [demo_rr_band, demo_rr_band] = card ?K" "finite ?K" by simp_all
  have "gm_ok (bd_queues demo_rr_band) \<and> set (FlowKeys demo_rr_band) = ?K \<and>
      (\<exists>mq. band_Queue ''a'' demo_rr_band = Some mq \<and> 0 < mq_Len mq)"
    by (auto simp: demo_rr_band_def demo_queue_def FlowKeys_def demo_band_def band_Queue_def mq_Len_def)
  then have band: "\<forall>band \<in> set [demo_rr_band, demo_rr_band]. gm_ok (bd_queues band) \<and> set (FlowKeys band) = ?K \<and>
      (\<exists>mq. band_Queue (fk_ID (FlowKey ''a'' 0)) band = Some mq \<and> 0 < mq_Len mq)" by simp
  obtain i mq where i: "i < card ?K" "band_Queue (fk_ID (FlowKey ''a'' 0)) ([demo_rr_band, demo_rr_band] ! i) = Some mq"
    "rr_run [demo_rr_band, demo_rr_band] (RoundRobinCursor (Some (FlowKey ''a'' 0))) ! i = Inr (Some mq)"
    using round_robin_bounded_waiting [OF band _ K(2,1), of "Some (FlowKey ''a'' 0)"] by blast
  then have "i < 2" by simp
  then have "[demo_rr_band, demo_rr_band] ! i = demo_rr_band" by (auto simp: less_Suc_eq numeral_2_eq_2)
  then show ?thesis using i \<open>i < 2\<close> by auto
qed

text \<open>C24: Global strict serves the best item of the whole band. On a band whose queues share one strict weak
  order it never fails; it returns no queue exactly when all are empty, and otherwise a queue whose head no head
  of any queue of the band goes before.\<close>

theorem global_strict_picks_best:
  assumes "band_consistent band"
  shows "\<exists>r. fst (Pick GlobalStrict (Some band)) = Inr r \<and>
     (r = None \<longleftrightarrow> (\<forall>mq \<in> queue_of band. mq_Len mq = 0)) \<and>
     (\<forall>q. r = Some q \<longrightarrow> q \<in> queue_of band \<and>
        (\<exists>x. mq_PeekHead q = Some x \<and> (\<forall>mq \<in> queue_of band. \<forall>y. mq_PeekHead mq = Some y \<longrightarrow> \<not> op_Less (mq_policy q) y x)))"
proof -
  obtain r where "globalStrict_Pick (Some band) = (Inr r, Some band)"
    "case r of None \<Rightarrow> (\<forall>mq \<in> queue_of band. mq_Len mq = 0)
      | Some q \<Rightarrow> q \<in> queue_of band \<and> mq_Len q \<noteq> 0 \<and>
          (\<exists>x. mq_PeekHead q = Some x \<and> (\<forall>mq \<in> queue_of band. \<forall>y. mq_PeekHead mq = Some y \<longrightarrow> \<not> op_Less (mq_policy q) y x))"
    using globalStrict_result [OF assms] by blast
  then show ?thesis by (intro exI [of _ r]) (auto split: option.splits)
qed

theorem global_strict_picks_best_witness:
  "let band = \<lparr>bd_fairnessPolicy = GlobalStrict, bd_policyState = NilState, bd_config = demo_band,
               bd_queues = [(''a'', newManagedQueue (LQ (newListQueue 0)) fcfs_policy (FlowKey ''a'' 0))], bd_byteSize = 0, bd_len = 0\<rparr>
   in band_consistent band \<and> fst (Pick GlobalStrict (Some band)) = Inr None"
proof -
  let ?band = "\<lparr>bd_fairnessPolicy = GlobalStrict, bd_policyState = NilState, bd_config = demo_band,
               bd_queues = [(''a'', newManagedQueue (LQ (newListQueue 0)) fcfs_policy (FlowKey ''a'' 0))], bd_byteSize = 0, bd_len = 0\<rparr>"
  have "strict_weak fcfs_Less" by unfold_locales
  then have c: "band_consistent ?band"
    by (simp add: band_consistent_def queue_of_def newManagedQueue_def mq_Len_def mq_PeekHead_def newListQueue_def
        fcfs_policy_def list_PeekHead_def)
  have "\<forall>mq \<in> queue_of ?band. mq_Len mq = 0" by (simp add: queue_of_def newManagedQueue_def mq_Len_def)
  then show ?thesis using global_strict_picks_best [OF c] c by (auto simp: Let_def)
qed

end
