(* ===== verification/Processor.thy ===== *)
theory Processor
  imports Complex_Main Fairness
begin

text \<open>
  The shard processor (\<open>flowcontrol/controller/internal/processor.go\<close>): the actor that admits the items
  submitted to it, dispatches them in priority order, sweeps what was finalized elsewhere and evicts everything
  on shutdown. Its state is the shard it owns, the store of items, the buffered channel and the life-cycle flags;
  \<open>sp_reported\<close> collects the deltas its queue operations hand to the registry. A \<open>select\<close> with several
  ready cases takes any of them, so the two submit operations return the list of possible results. The
  saturation of the pool and the usage-limit policy come from plugins and are arguments of the dispatch cycle.
  Metrics and logging are left out.
\<close>

subsection \<open>State\<close>

record ShardProcessor =
  sp_shard :: registryShard
  sp_store :: Store
  sp_enqueueChan :: "FlowItem option list"
  sp_bufferSize :: nat
  sp_running :: bool
  sp_lifecycleDone :: bool
  sp_isShuttingDown :: bool
  sp_shutdownOnce :: bool
  sp_reported :: "StatsDelta list"

definition NewShardProcessor :: "registryShard \<Rightarrow> Store \<Rightarrow> nat \<Rightarrow> ShardProcessor" where
  "NewShardProcessor shard st enqueueChannelBufferSize =
     \<lparr>sp_shard = shard, sp_store = st, sp_enqueueChan = [], sp_bufferSize = enqueueChannelBufferSize,
      sp_running = False, sp_lifecycleDone = False, sp_isShuttingDown = False, sp_shutdownOnce = False,
      sp_reported = []\<rparr>"

subsection \<open>Submission\<close>

text \<open>A send proceeds when the buffer has room, or when the run loop waits at its \<open>select\<close> on an empty
  channel and takes the item over directly.\<close>

definition chan_ready :: "ShardProcessor \<Rightarrow> bool" where
  "chan_ready sp \<longleftrightarrow> length (sp_enqueueChan sp) < sp_bufferSize sp \<or> (sp_running sp \<and> sp_enqueueChan sp = [])"

definition send_item :: "FlowItem option \<Rightarrow> ShardProcessor \<Rightarrow> ShardProcessor" where
  "send_item item sp = sp\<lparr>sp_enqueueChan := sp_enqueueChan sp @ [item]\<rparr>"

definition submit_select :: "FlowItem option \<Rightarrow> ShardProcessor \<Rightarrow> (fc_error option \<times> ShardProcessor) list" where
  "submit_select item sp =
     (let cases = (if chan_ready sp then [(None, send_item item sp)] else []) @
                  (if sp_lifecycleDone sp then [(Some ErrFlowControllerNotRunning, sp)] else [])
      in if cases = [] then [(Some ErrProcessorBusy, sp)] else cases)"

definition Submit :: "FlowItem option \<Rightarrow> ShardProcessor \<Rightarrow> (fc_error option \<times> ShardProcessor) list" where
  "Submit item sp =
     (if sp_isShuttingDown sp then [(Some ErrFlowControllerNotRunning, sp)] else submit_select item sp)"

text \<open>\<open>ctxErr\<close> is the error of the caller's context once it is done. No possible result means that the call
  blocks.\<close>

definition submitOrBlock_select ::
    "fc_error option \<Rightarrow> FlowItem option \<Rightarrow> ShardProcessor \<Rightarrow> (fc_error option \<times> ShardProcessor) list" where
  "submitOrBlock_select ctxErr item sp =
     (if chan_ready sp then [(None, send_item item sp)] else []) @
     (case ctxErr of None \<Rightarrow> [] | Some e \<Rightarrow> [(Some e, sp)]) @
     (if sp_lifecycleDone sp then [(Some ErrFlowControllerNotRunning, sp)] else [])"

definition SubmitOrBlock ::
    "fc_error option \<Rightarrow> FlowItem option \<Rightarrow> ShardProcessor \<Rightarrow> (fc_error option \<times> ShardProcessor) list" where
  "SubmitOrBlock ctxErr item sp =
     (if sp_isShuttingDown sp then [(Some ErrFlowControllerNotRunning, sp)] else submitOrBlock_select ctxErr item sp)"

subsection \<open>Admission\<close>

text \<open>The effect of a finished queue operation, and of finalizing an item, on the processor.\<close>

definition with_result :: "Store \<Rightarrow> registryShard \<Rightarrow> StatsDelta list \<Rightarrow> ShardProcessor \<Rightarrow> ShardProcessor" where
  "with_result st s ds sp = sp\<lparr>sp_store := st, sp_shard := s, sp_reported := sp_reported sp @ ds\<rparr>"

definition finalize_in :: "FlowItem \<Rightarrow> QueueOutcome \<Rightarrow> fc_error option \<Rightarrow> ShardProcessor \<Rightarrow> ShardProcessor option" where
  "finalize_in item outcome err sp =
     do { st \<leftarrow> FinalizeWithOutcome item outcome err (sp_store sp); Some (sp\<lparr>sp_store := st\<rparr>) }"

definition hasCapacity :: "int \<Rightarrow> uint64 \<Rightarrow> ShardProcessor \<Rightarrow> bool" where
  "hasCapacity priority itemByteSize sp =
     (let stats = shard_Stats (sp_shard sp) in
      if ss_TotalCapacityBytes stats > 0 \<and> ss_TotalByteSize stats + itemByteSize > ss_TotalCapacityBytes stats then False
      else if ss_TotalCapacityRequests stats > 0 \<and> ss_TotalLen stats + 1 > ss_TotalCapacityRequests stats then False
      else (case gm_get (ss_PerPriorityBandStats stats) priority of
              None \<Rightarrow> False
            | Some bandStats \<Rightarrow>
                if bs_CapacityBytes bandStats > 0 \<and> bs_ByteSize bandStats + itemByteSize > bs_CapacityBytes bandStats then False
                else if bs_CapacityRequests bandStats > 0 \<and> bs_Len bandStats + 1 > bs_CapacityRequests bandStats then False
                else True))"

definition enqueue :: "FlowItem \<Rightarrow> ShardProcessor \<Rightarrow> ShardProcessor option" where
  "enqueue item sp =
     (let key = item_key item in
      if FinalState_of (sp_store sp) item \<noteq> None then Some sp
      else (case ManagedQueue_of key (sp_shard sp) of
              Inl err \<Rightarrow> finalize_in item QueueOutcomeRejectedOther (Some (Errorf [ErrRejected, Errorf [err]])) sp
            | Inr managedQ \<Rightarrow>
                (case PriorityBandAccessor (fk_Priority key) (sp_shard sp) of
                   Inl err \<Rightarrow> finalize_in item QueueOutcomeRejectedOther (Some (Errorf [ErrRejected, Errorf [err]])) sp
                 | Inr _ \<Rightarrow>
                     if \<not> hasCapacity (fk_Priority key) (item_bytes item) sp
                     then finalize_in item QueueOutcomeRejectedCapacity (Some (Errorf [ErrRejected, ErrQueueAtCapacity])) sp
                     else do { (err, st, s, ds) \<leftarrow> queue_Add key item (sp_store sp) (sp_shard sp);
                               (case err of
                                  Some e \<Rightarrow> finalize_in item QueueOutcomeRejectedOther
                                              (Some (Errorf [ErrRejected, Errorf [e]])) (with_result st s ds sp)
                                | None \<Rightarrow> Some (with_result st s ds sp)) })))"

subsection \<open>Dispatch\<close>

text \<open>A pick may move the policy state of its band.\<close>

definition put_policyState :: "int \<Rightarrow> priorityBand option \<Rightarrow> registryShard \<Rightarrow> registryShard" where
  "put_policyState priority band' s =
     (case (band', gm_get (sh_priorityBands s) priority) of
        (Some b', Some b) \<Rightarrow> s\<lparr>sh_priorityBands := gm_set priority (b\<lparr>bd_policyState := bd_policyState b'\<rparr>) (sh_priorityBands s)\<rparr>
      | _ \<Rightarrow> s)"

definition selectItem :: "priorityBand \<Rightarrow> registryShard \<Rightarrow> (fc_error + FlowItem option) \<times> registryShard" where
  "selectItem flowGroup s =
     (let priority = pb_Priority (bd_config flowGroup) in
      case FairnessPolicy_of priority s of
        Inl err \<Rightarrow> (Inl (Errorf [err]), s)
      | Inr fairnessP \<Rightarrow>
          (let (r, band') = Pick fairnessP (Some flowGroup); s' = put_policyState priority band' s
           in case r of
                Inl err \<Rightarrow> (Inl (Errorf [err]), s')
              | Inr None \<Rightarrow> (Inr None, s')
              | Inr (Some queue) \<Rightarrow> (Inr (mq_PeekHead queue), s')))"

definition dispatchItem :: "FlowItem \<Rightarrow> ShardProcessor \<Rightarrow> (fc_error option \<times> ShardProcessor) option" where
  "dispatchItem itemAcc sp =
     (let key = item_key itemAcc in
      case ManagedQueue_of key (sp_shard sp) of
        Inl err \<Rightarrow> Some (Some (Errorf [err]), sp)
      | Inr managedQ \<Rightarrow>
          do { (r, st, s, ds) \<leftarrow> queue_Remove key (Handle (sp_store sp) itemAcc) (sp_store sp) (sp_shard sp);
               (case r of
                  Inl err \<Rightarrow> Some (None, with_result st s ds sp)
                | Inr removedItem \<Rightarrow>
                    do { sp' \<leftarrow> finalize_in removedItem QueueOutcomeDispatched None (with_result st s ds sp);
                         Some (None, sp') }) })"

text \<open>The loop over the priorities, with the ceilings beside them: reading a ceiling that is not there
  panics.\<close>

fun dispatch_loop :: "real \<Rightarrow> int list \<Rightarrow> real list \<Rightarrow> ShardProcessor \<Rightarrow> (bool \<times> ShardProcessor) option" where
  "dispatch_loop saturation [] ceilings sp = Some (False, sp)"
| "dispatch_loop saturation (priority # priorities) [] sp = None"
| "dispatch_loop saturation (priority # priorities) (usageLimit # ceilings) sp =
     (if saturation \<ge> usageLimit then Some (False, sp)
      else (case PriorityBandAccessor priority (sp_shard sp) of
              Inl err \<Rightarrow> dispatch_loop saturation priorities ceilings sp
            | Inr originalBand \<Rightarrow>
                (let (r, s) = selectItem originalBand (sp_shard sp); sp' = sp\<lparr>sp_shard := s\<rparr>
                 in case r of
                      Inl err \<Rightarrow> dispatch_loop saturation priorities ceilings sp'
                    | Inr None \<Rightarrow> dispatch_loop saturation priorities ceilings sp'
                    | Inr (Some item) \<Rightarrow>
                        do { (err, sp'') \<leftarrow> dispatchItem item sp';
                             (case err of
                                Some e \<Rightarrow> dispatch_loop saturation priorities ceilings sp''
                              | None \<Rightarrow> Some (True, sp'')) })))"

definition dispatchCycle :: "real \<Rightarrow> (real \<Rightarrow> int list \<Rightarrow> real list) \<Rightarrow> ShardProcessor \<Rightarrow> (bool \<times> ShardProcessor) option" where
  "dispatchCycle saturation ComputeLimit sp =
     (let priorities = AllOrderedPriorityLevels (sp_shard sp);
          ceilings = ComputeLimit saturation priorities
      in dispatch_loop saturation priorities ceilings sp)"

text \<open>The usage-limit policy of \<open>usagelimits/usagelimitpolicy.go\<close>: one threshold for all priorities, \<open>1\<close>
  by default.\<close>

definition NewConstPolicy :: "real \<Rightarrow> real \<Rightarrow> int list \<Rightarrow> real list" where
  "NewConstPolicy threshold = (\<lambda>_ priorities. map (\<lambda>_. threshold) priorities)"

definition DefaultPolicy :: "real \<Rightarrow> int list \<Rightarrow> real list" where
  "DefaultPolicy = NewConstPolicy 1"

subsection \<open>Sweep and shutdown\<close>

text \<open>Phase one of \<open>processAllQueuesConcurrently\<close>: the keys of all queues, by descending priority.\<close>

definition queuesToProcess :: "registryShard \<Rightarrow> FlowKey list" where
  "queuesToProcess s =
     concat (map (\<lambda>priority. case PriorityBandAccessor priority s of
                               Inl err \<Rightarrow> []
                             | Inr band \<Rightarrow> IterateQueues (\<lambda>acc queue. (acc @ [mq_key queue], True)) band [])
               (AllOrderedPriorityLevels s))"

text \<open>The workers: every key once, in some order, each queue looked up again and processed under its lock.\<close>

fun process_queues :: "(FlowKey \<Rightarrow> ShardProcessor \<Rightarrow> ShardProcessor option) \<Rightarrow> FlowKey list \<Rightarrow> ShardProcessor
    \<Rightarrow> ShardProcessor option" where
  "process_queues processFn [] sp = Some sp"
| "process_queues processFn (key # keys) sp =
     (case ManagedQueue_of key (sp_shard sp) of
        Inl err \<Rightarrow> process_queues processFn keys sp
      | Inr managedQ \<Rightarrow> do { sp' \<leftarrow> processFn key sp; process_queues processFn keys sp' })"

definition processAllQueuesConcurrently ::
    "(FlowKey \<Rightarrow> ShardProcessor \<Rightarrow> ShardProcessor option) \<Rightarrow> ShardProcessor \<Rightarrow> ShardProcessor option" where
  "processAllQueuesConcurrently processFn sp = process_queues processFn (queuesToProcess (sp_shard sp)) sp"

definition sweep_queue :: "FlowKey \<Rightarrow> ShardProcessor \<Rightarrow> ShardProcessor option" where
  "sweep_queue key sp =
     do { (removedItems, st, s, ds) \<leftarrow>
            queue_Cleanup key (\<lambda>item. FinalState_of (sp_store sp) item \<noteq> None) (sp_store sp) (sp_shard sp);
          Some (with_result st s ds sp) }"

definition sweepFinalizedItems :: "ShardProcessor \<Rightarrow> ShardProcessor option" where
  "sweepFinalizedItems sp = processAllQueuesConcurrently sweep_queue sp"

fun finalize_each :: "FlowItem list \<Rightarrow> QueueOutcome \<Rightarrow> fc_error option \<Rightarrow> ShardProcessor \<Rightarrow> ShardProcessor option" where
  "finalize_each [] outcome err sp = Some sp"
| "finalize_each (item # items) outcome err sp =
     do { sp' \<leftarrow> finalize_in item outcome err sp; finalize_each items outcome err sp' }"

definition evict_queue :: "FlowKey \<Rightarrow> ShardProcessor \<Rightarrow> ShardProcessor option" where
  "evict_queue key sp =
     do { (removedItems, st, s, ds) \<leftarrow> queue_Drain key (sp_store sp) (sp_shard sp);
          finalize_each removedItems QueueOutcomeEvictedOther (Some (Errorf [ErrEvicted, ErrFlowControllerNotRunning]))
            (with_result st s ds sp) }"

definition evictAll :: "ShardProcessor \<Rightarrow> ShardProcessor option" where
  "evictAll sp = processAllQueuesConcurrently evict_queue sp"

text \<open>The drain loop of \<open>shutdown\<close> skips nil entries.\<close>

fun drain_loop :: "FlowItem option list \<Rightarrow> ShardProcessor \<Rightarrow> ShardProcessor option" where
  "drain_loop [] sp = Some (sp\<lparr>sp_enqueueChan := []\<rparr>)"
| "drain_loop (None # items) sp = drain_loop items sp"
| "drain_loop (Some item # items) sp =
     do { sp' \<leftarrow> finalize_in item QueueOutcomeRejectedOther
                   (Some (Errorf [ErrRejected, ErrFlowControllerNotRunning])) sp;
          drain_loop items sp' }"

definition shutdown :: "ShardProcessor \<Rightarrow> ShardProcessor option" where
  "shutdown sp =
     (if sp_shutdownOnce sp then Some sp
      else (let sp1 = sp\<lparr>sp_shutdownOnce := True, sp_isShuttingDown := True\<rparr>
            in do { sp2 \<leftarrow> drain_loop (sp_enqueueChan sp1) sp1; evictAll sp2 }))"

subsection \<open>The run loop\<close>

text \<open>One iteration of \<open>Run\<close> for each case of its \<open>select\<close>. \<open>run_receive\<close> is not enabled on an empty
  channel.\<close>

definition run_receive :: "real \<Rightarrow> (real \<Rightarrow> int list \<Rightarrow> real list) \<Rightarrow> ShardProcessor \<Rightarrow> ShardProcessor option" where
  "run_receive saturation ComputeLimit sp =
     (case sp_enqueueChan sp of
        [] \<Rightarrow> None
      | None # rest \<Rightarrow> Some (sp\<lparr>sp_enqueueChan := rest\<rparr>)
      | Some item # rest \<Rightarrow>
          do { sp' \<leftarrow> enqueue item (sp\<lparr>sp_enqueueChan := rest\<rparr>);
               (dispatched, sp'') \<leftarrow> dispatchCycle saturation ComputeLimit sp';
               Some sp'' })"

definition run_tick :: "real \<Rightarrow> (real \<Rightarrow> int list \<Rightarrow> real list) \<Rightarrow> ShardProcessor \<Rightarrow> ShardProcessor option" where
  "run_tick saturation ComputeLimit sp =
     do { (dispatched, sp') \<leftarrow> dispatchCycle saturation ComputeLimit sp; Some sp' }"

definition run_stop :: "ShardProcessor \<Rightarrow> ShardProcessor option" where
  "run_stop sp = do { sp' \<leftarrow> shutdown sp; Some (sp'\<lparr>sp_running := False\<rparr>) }"

end
