(* ===== verification/Outcomes.thy ===== *)
theory Outcomes
  imports FlowTypes
begin

text \<open>
  The contract of \<open>flowcontrol/types/outcomes.go\<close> between the outcome of a request and the error returned with it,
  and the life cycle of an item (\<open>controller/internal/item.go\<close>): whatever is called in whatever order, the first
  call decides.
\<close>

definition err_is :: "fc_error option \<Rightarrow> fc_error \<Rightarrow> bool" where
  "err_is err target = (case err of None \<Rightarrow> False | Some e \<Rightarrow> errors_Is e target)"

fun outcome_ok :: "QueueOutcome \<Rightarrow> fc_error option \<Rightarrow> bool" where
  "outcome_ok QueueOutcomeNotYetFinalized err = False"
| "outcome_ok QueueOutcomeDispatched err = (err = None)"
| "outcome_ok QueueOutcomeRejectedCapacity err = err_is err ErrRejected"
| "outcome_ok QueueOutcomeRejectedOther err = err_is err ErrRejected"
| "outcome_ok QueueOutcomeEvictedTTL err = (err_is err ErrEvicted \<and> err_is err ErrTTLExpired)"
| "outcome_ok QueueOutcomeEvictedContextCancelled err = (err_is err ErrEvicted \<and> err_is err ErrContextCancelled)"
| "outcome_ok QueueOutcomeEvictedOther err = err_is err ErrEvicted"

abbreviation classified :: "FinalState \<Rightarrow> bool" where
  "classified fs \<equiv> outcome_ok (fs_Outcome fs) (fs_Err fs)"

definition outcome_String :: "QueueOutcome \<Rightarrow> string" where
  "outcome_String oc =
     (case oc of
        QueueOutcomeNotYetFinalized \<Rightarrow> ''NotYetFinalized''
      | QueueOutcomeDispatched \<Rightarrow> ''Dispatched''
      | QueueOutcomeRejectedCapacity \<Rightarrow> ''RejectedCapacity''
      | QueueOutcomeRejectedOther \<Rightarrow> ''RejectedOther''
      | QueueOutcomeEvictedTTL \<Rightarrow> ''EvictedTTL''
      | QueueOutcomeEvictedContextCancelled \<Rightarrow> ''EvictedContextCancelled''
      | QueueOutcomeEvictedOther \<Rightarrow> ''EvictedOther'')"

lemma inferOutcome_classified:
  "inferOutcome cause isQueued = (oc, e) \<Longrightarrow> outcome_ok oc (Some e)"
  by (auto simp: inferOutcome_def err_is_def Let_def split: if_splits)

lemma Finalize_result:
  assumes "store_ok st"
  shows "\<exists>fs. classified fs \<and> Finalize x cause st = Some (finalized_with x fs st)"
proof -
  obtain oc e where "inferOutcome cause (Handle st x \<noteq> None) = (oc, e)" by fastforce
  then show ?thesis
    using Finalize_eq [OF assms, of x cause] inferOutcome_classified
    by (intro exI [of _ "\<lparr>fs_Outcome = oc, fs_Err = Some e\<rparr>"]) auto
qed

subsection \<open>The life of an item\<close>

datatype finalization = ByError fc_error | ByOutcome QueueOutcome "fc_error option"

fun finalize_step :: "FlowItem \<Rightarrow> finalization \<Rightarrow> Store \<Rightarrow> Store option" where
  "finalize_step x (ByError cause) st = Finalize x cause st"
| "finalize_step x (ByOutcome oc err) st = FinalizeWithOutcome x oc err st"

fun finalize_run :: "FlowItem \<Rightarrow> finalization list \<Rightarrow> Store \<Rightarrow> Store option" where
  "finalize_run x [] st = Some st"
| "finalize_run x (f # fs) st = Option.bind (finalize_step x f st) (finalize_run x fs)"

fun first_state :: "FlowItem \<Rightarrow> finalization \<Rightarrow> Store \<Rightarrow> FinalState" where
  "first_state x (ByError cause) st =
     (case inferOutcome cause (Handle st x \<noteq> None) of (oc, e) \<Rightarrow> \<lparr>fs_Outcome = oc, fs_Err = Some e\<rparr>)"
| "first_state x (ByOutcome oc err) st = \<lparr>fs_Outcome = oc, fs_Err = err\<rparr>"

lemma finalize_step_eq: "store_ok st \<Longrightarrow> finalize_step x f st = Some (finalized_with x (first_state x f st) st)"
  by (cases f) (simp_all add: Finalize_eq FinalizeWithOutcome_eq)

lemma finalize_run_final:
  "store_ok st \<Longrightarrow> FinalState_of st x \<noteq> None \<Longrightarrow> finalize_run x fs st = Some st"
proof (induction fs)
  case (Cons f fs)
  have "finalized_with x (first_state x f st) st = st" using Cons.prems(2) by (auto simp: finalized_with_def)
  then show ?case using Cons finalize_step_eq [OF Cons.prems(1), of x f] by simp
qed simp

subsection \<open>Properties\<close>

text \<open>C25: Finalization happens exactly once: any sequence of \<open>Finalize\<close> and \<open>FinalizeWithOutcome\<close> calls on an item that is
  not final returns without panicking, the first call alone decides the final state, the done channel is sent exactly
  that state and closed, and no other item is touched.\<close>

theorem finalize_exactly_once:
  assumes "store_ok st" "FinalState_of st x = None"
  shows "\<exists>st'. finalize_run x (f # fs) st = Some st' \<and>
     FinalState_of st' x = Some (first_state x f st) \<and>
     im_done (st_item st' (fi_ref x)) = [first_state x f st] \<and> im_doneClosed (st_item st' (fi_ref x)) \<and>
     (\<forall>r. r \<noteq> fi_ref x \<longrightarrow> st_item st' r = st_item st r)"
proof -
  let ?st = "finalized_with x (first_state x f st) st"
  have ok: "store_ok ?st" and final: "FinalState_of ?st x = Some (first_state x f st)" using assms by simp_all
  have "finalize_run x (f # fs) st = Some ?st"
    using finalize_step_eq [OF assms(1), of x f] finalize_run_final [OF ok, of x fs] final by simp
  moreover have "im_done (st_item ?st (fi_ref x)) = [first_state x f st] \<and> im_doneClosed (st_item ?st (fi_ref x))"
    using assms(2) by (simp add: finalized_with_def)
  moreover have "\<forall>r. r \<noteq> fi_ref x \<longrightarrow> st_item ?st r = st_item st r" by (simp add: finalized_with_def)
  ultimately show ?thesis using final by blast
qed

theorem finalize_exactly_once_witness:
  "\<exists>st' x. finalize_run x [ByError ErrTTLExpired, ByOutcome QueueOutcomeDispatched None] empty_store = Some st' \<and>
     map_option fs_Outcome (FinalState_of st' x) = Some QueueOutcomeRejectedOther"
proof -
  let ?x = "\<lparr>fi_ref = 0, fi_enqueueTime = 0, fi_effectiveTTL = 0, fi_originalRequest =
    \<lparr>rq_ID = [], rq_FlowKey = FlowKey [] 0, rq_ByteSize = 1, rq_ReceivedTimestamp = 0, rq_InitialEffectiveTTL = 0, rq_Headers = None\<rparr>\<rparr>"
  have "FinalState_of empty_store ?x = None" "Handle empty_store ?x = None"
    by (simp_all add: FinalState_of_def Handle_def empty_store_def NewItem_def)
  then obtain st' where "finalize_run ?x [ByError ErrTTLExpired, ByOutcome QueueOutcomeDispatched None] empty_store = Some st'"
    "FinalState_of st' ?x = Some \<lparr>fs_Outcome = QueueOutcomeRejectedOther, fs_Err = Some (Errorf [ErrRejected, ErrTTLExpired])\<rparr>"
    using finalize_exactly_once [OF store_ok_empty, of ?x "ByError ErrTTLExpired" "[ByOutcome QueueOutcomeDispatched None]"]
    by (auto simp: inferOutcome_def Let_def)
  then show ?thesis by (intro exI [of _ st'] exI [of _ ?x]) simp
qed

end
