(* ===== verification/ProcessorProofs.thy ===== *)
theory ProcessorProofs
  imports Processor Outcomes
begin

text \<open>
  What each handler of the shard processor does to the items: which it admits, dispatches, sweeps and
  evicts, what it finalizes, and that none of them fails in a well-formed state.
\<close>

subsection \<open>Policies survive the queue operations\<close>

text \<open>What the fairness policies see of a shard apart from the contents of its queues.\<close>

type_synonym band_policies =
  "FairnessPolicy \<times> PolicyState \<times> OrderingPolicy option \<times> (string \<times> OrderingPolicy) list"

definition band_view :: "priorityBand \<Rightarrow> band_policies" where
  "band_view b = (bd_fairnessPolicy b, bd_policyState b, pb_OrderingPolicy (bd_config b),
                  map (\<lambda>(i, mq). (i, mq_policy mq)) (bd_queues b))"

definition policy_view :: "registryShard \<Rightarrow> (int \<times> band_policies) list" where
  "policy_view s = map (\<lambda>(p, b). (p, band_view b)) (sh_priorityBands s)"

text \<open>Every queue of a band follows the ordering policy of the band, a strict weak order, and a round-robin band
  has its cursor.\<close>

fun band_policies_ok :: "band_policies \<Rightarrow> bool" where
  "band_policies_ok (fp, ps, op, qs) \<longleftrightarrow>
     (\<forall>(i, Q) \<in> set qs. op = Some Q) \<and> (\<forall>Q. op = Some Q \<longrightarrow> strict_weak (op_Less Q)) \<and>
     (fp = RoundRobin \<longrightarrow> ps \<noteq> NilState)"

definition policies_ok :: "registryShard \<Rightarrow> bool" where
  "policies_ok s \<longleftrightarrow> (\<forall>(p, v) \<in> set (policy_view s). band_policies_ok v)"

lemma gm_set_view:
  assumes "gm_get m k = Some v" "f v' = f v"
  shows "map (\<lambda>(k, v). (k, f v)) (gm_set k v' m) = map (\<lambda>(k, v). (k, f v)) m"
  using assms by (induction m) (auto split: if_splits)

lemma put_queue_view:
  assumes "ManagedQueue_of key s = Inr mq" "mq_policy mq' = mq_policy mq"
  shows "policy_view (put_queue key mq' s) = policy_view s"
proof -
  obtain b where b: "gm_get (sh_priorityBands s) (fk_Priority key) = Some b" "gm_get (bd_queues b) (fk_ID key) = Some mq"
    using queue_in_band [OF assms(1)] .
  have "band_view (b\<lparr>bd_queues := gm_set (fk_ID key) mq' (bd_queues b)\<rparr>) = band_view b"
    using gm_set_view [where f = mq_policy, OF b(2) assms(2)] by (simp add: band_view_def)
  then show ?thesis using gm_set_view [where f = band_view, OF b(1)] b(1) by (simp add: policy_view_def put_queue_def)
qed

lemma propagate_view: "shard_propagate ds s = Some s' \<Longrightarrow> policy_view s' = policy_view s"
proof (induction ds arbitrary: s)
  case (Cons d ds)
  obtain p l z where d: "d = (p, l, z)" by (cases d)
  obtain s1 where s1: "shard_propagateStatsDelta d s = Some s1" "shard_propagate ds s1 = Some s'"
    using Cons.prems by (auto split: Option.bind_splits)
  then obtain b where b: "gm_get (sh_priorityBands s) p = Some b"
    "s1 = s\<lparr>sh_priorityBands := gm_set p (b\<lparr>bd_len := bd_len b + l, bd_byteSize := bd_byteSize b + z\<rparr>) (sh_priorityBands s),
             sh_totalLen := sh_totalLen s + l, sh_totalByteSize := sh_totalByteSize s + z\<rparr>"
    by (auto simp: d split: option.splits)
  have "band_view (b\<lparr>bd_len := bd_len b + l, bd_byteSize := bd_byteSize b + z\<rparr>) = band_view b"
    by (simp add: band_view_def)
  then have "policy_view s1 = policy_view s"
    unfolding b(2) using gm_set_view [where f = band_view, OF b(1)] by (simp add: policy_view_def)
  then show ?case using Cons.IH [OF s1(2)] by simp
qed simp

lemma with_queue_view:
  assumes "with_queue key f s = Some (r, st', s', ds)"
    and "\<And>mq r st' mq' ds. f mq = Some (r, st', mq', ds) \<Longrightarrow> mq_policy mq' = mq_policy mq"
  shows "policy_view s' = policy_view s"
  using assms(1) put_queue_view [OF _ assms(2)] propagate_view
  by (force simp: with_queue_def put_back_def split: sum.splits Option.bind_splits)

lemma propagateLocked_policy:
  "propagateStatsDeltaLocked l z mq = Some (mq', ds) \<Longrightarrow> mq_policy mq' = mq_policy mq"
  "propagateStatsDeltaForRemovedItemsLocked xs mq = Some (mq', ds) \<Longrightarrow> mq_policy mq' = mq_policy mq"
  by (auto simp: propagateStatsDeltaLocked_def propagateStatsDeltaForRemovedItemsLocked_def Let_def
      split: if_splits prod.splits)

lemma queue_ops_view:
  "queue_Add key x st s = Some (r, st', s', ds) \<Longrightarrow> policy_view s' = policy_view s"
  "queue_Remove key h st s = Some (rr, st', s', ds) \<Longrightarrow> policy_view s' = policy_view s"
  "queue_Cleanup key p st s = Some (xs, st', s', ds) \<Longrightarrow> policy_view s' = policy_view s"
  "queue_Drain key st s = Some (xs, st', s', ds) \<Longrightarrow> policy_view s' = policy_view s"
  unfolding queue_Add_def queue_Remove_def queue_Cleanup_def queue_Drain_def
  by (erule with_queue_view, fastforce simp: mq_Add_def mq_Remove_def mq_Cleanup_def mq_Drain_def Let_def
      dest: propagateLocked_policy split: if_splits Option.bind_splits sum.splits prod.splits)+

subsection \<open>Moving the cursor of a band\<close>

definition moved :: "int \<Rightarrow> PolicyState \<Rightarrow> priorityBand \<Rightarrow> registryShard \<Rightarrow> registryShard" where
  "moved p ps b s = s\<lparr>sh_priorityBands := gm_set p (b\<lparr>bd_policyState := ps\<rparr>) (sh_priorityBands s)\<rparr>"

lemma moved_fields [simp]:
  "sh_config (moved p ps b s) = sh_config s" "sh_isDraining (moved p ps b s) = sh_isDraining s"
  "sh_orderedPriorityLevels (moved p ps b s) = sh_orderedPriorityLevels s"
  "sh_totalLen (moved p ps b s) = sh_totalLen s" "sh_totalByteSize (moved p ps b s) = sh_totalByteSize s"
  by (simp_all add: moved_def)

lemma moved_band:
  "gm_get (sh_priorityBands (moved p ps b s)) q =
     (if q = p then Some (b\<lparr>bd_policyState := ps\<rparr>) else gm_get (sh_priorityBands s) q)"
  by (simp add: moved_def update_conv')

lemma moved_queue_in:
  assumes "gm_ok (sh_priorityBands s)" "gm_get (sh_priorityBands s) p = Some b"
  shows "queue_in (moved p ps b s) key mq \<longleftrightarrow> queue_in s key mq"
  unfolding moved_def replace_band_queue_in [OF assms(1)] using queue_in_get [OF assms(1), of key b] assms(2) by auto

lemma moved_ManagedQueue:
  "gm_get (sh_priorityBands s) p = Some b \<Longrightarrow> ManagedQueue_of key (moved p ps b s) = ManagedQueue_of key s"
  by (simp add: ManagedQueue_of_def moved_band)

lemma moved_items:
  assumes "gm_get (sh_priorityBands s) p = Some b"
  shows "shard_items (moved p ps b s) = shard_items s"
proof -
  have "map (\<lambda>(k, v). (k, bd_queues v)) (sh_priorityBands (moved p ps b s)) = map (\<lambda>(k, v). (k, bd_queues v)) (sh_priorityBands s)"
    unfolding moved_def using gm_set_view [where f = bd_queues, OF assms] by simp
  then have "map (\<lambda>(k, q). map snd q) (map (\<lambda>(k, v). (k, bd_queues v)) (sh_priorityBands (moved p ps b s))) =
    map (\<lambda>(k, q). map snd q) (map (\<lambda>(k, v). (k, bd_queues v)) (sh_priorityBands s))" by simp
  then show ?thesis by (simp add: shard_items_def shard_queues_def split_def comp_def)
qed

lemma moved_held: "gm_get (sh_priorityBands s) p = Some b \<Longrightarrow> held (moved p ps b s) = held s"
  using moved_items by (metis shard_items_held)

lemma moved_inv:
  assumes inv: "shard_inv st s" and b: "gm_get (sh_priorityBands s) p = Some b"
  shows "shard_inv st (moved p ps b s)"
proof -
  have wf: "shard_wf st s" and ok: "gm_ok (sh_priorityBands s)" and ex: "stats_exact s"
    using inv by (auto simp: shard_inv_def shard_wf_def)
  have keys: "map fst (sh_priorityBands (moved p ps b s)) = map fst (sh_priorityBands s)"
    using b by (simp add: moved_def gm_set_keys)
  have old: "\<exists>b0. (q, b0) \<in> set (sh_priorityBands s) \<and> bd_queues b' = bd_queues b0 \<and> bd_config b' = bd_config b0 \<and>
      bd_len b' = bd_len b0 \<and> bd_byteSize b' = bd_byteSize b0"
    if "(q, b') \<in> set (sh_priorityBands (moved p ps b s))" for q b'
    using that gm_get_in [OF b] by (cases "q = p") (auto simp: moved_def gm_set_in [OF ok])
  have "gm_ok (sh_priorityBands (moved p ps b s))" using keys ok by simp
  moreover have "gm_ok (bd_queues b') \<and> pb_Priority (bd_config b') = q"
    if "(q, b') \<in> set (sh_priorityBands (moved p ps b s))" for q b'
    using old [OF that] wf by (fastforce simp: shard_wf_def)
  ultimately have "shard_wf st (moved p ps b s)"
    by (rule shard_wf_drop [OF wf]) (simp_all add: moved_queue_in [OF ok b])
  moreover have "stats_exact (moved p ps b s)"
  proof (rule stats_exactI)
    show "sh_totalLen (moved p ps b s) = wsum bd_len (map snd (sh_priorityBands (moved p ps b s)))"
      "sh_totalByteSize (moved p ps b s) = wsum bd_byteSize (map snd (sh_priorityBands (moved p ps b s)))"
      using stats_exactD(3,4) [OF ex] wsum_gm_set [OF b, of bd_len "b\<lparr>bd_policyState := ps\<rparr>"]
        wsum_gm_set [OF b, of bd_byteSize "b\<lparr>bd_policyState := ps\<rparr>"] by (simp_all add: moved_def)
    show "bd_len b' = wsum mq_len (map snd (bd_queues b')) \<and> bd_byteSize b' = wsum mq_byteSize (map snd (bd_queues b'))"
      if "(q, b') \<in> set (sh_priorityBands (moved p ps b s))" for q b'
      using old [OF that] stats_exactD(1,2) [OF ex] by metis
  qed
  moreover have "levels_ok (moved p ps b s)"
    using inv keys by (simp add: shard_inv_def levels_ok_def) (metis set_map)
  ultimately show ?thesis using inv by (simp add: shard_inv_def)
qed

lemma moved_policies:
  assumes pol: "policies_ok s" and b: "gm_get (sh_priorityBands s) p = Some b"
    and ps: "bd_fairnessPolicy b = RoundRobin \<longrightarrow> ps \<noteq> NilState"
  shows "policies_ok (moved p ps b s)"
proof -
  have pb: "band_policies_ok (band_view b)" using pol gm_get_in [OF b] by (fastforce simp: policies_ok_def policy_view_def)
  have "band_policies_ok (band_view b')" if "(q, b') \<in> set (gm_set p (b\<lparr>bd_policyState := ps\<rparr>) (sh_priorityBands s))" for q b'
  proof -
    have "b' = b\<lparr>bd_policyState := ps\<rparr> \<or> (q, b') \<in> set (sh_priorityBands s)"
      using gm_set_mem [OF that] by auto
    then show ?thesis using pb ps pol by (fastforce simp: band_view_def policies_ok_def policy_view_def)
  qed
  then show ?thesis by (fastforce simp: policies_ok_def policy_view_def moved_def)
qed

subsection \<open>Selecting an item\<close>

definition band_waiting :: "registryShard \<Rightarrow> int \<Rightarrow> bool" where
  "band_waiting s p \<longleftrightarrow> list_ex (\<lambda>x. fk_Priority (item_key x) = p) (shard_items s)"

lemma band_waiting_held: "band_waiting s p \<longleftrightarrow> (\<exists>x \<in> held s. fk_Priority (item_key x) = p)"
  by (simp add: band_waiting_def list_ex_iff shard_items_held)

lemma queue_of_in:
  assumes "gm_get (sh_priorityBands s) p = Some b" "mq \<in> queue_of b"
  obtains i where "queue_in s (FlowKey i p) mq"
  using assms gm_get_in by (force simp: queue_of_def queue_in_def)

lemma band_consistent_of:
  assumes inv: "shard_inv st s" and pol: "policies_ok s" and b: "gm_get (sh_priorityBands s) p = Some b"
  shows "band_consistent b"
proof -
  have wf: "shard_wf st s" using inv by (simp add: shard_inv_def)
  have "band_policies_ok (band_view b)" using pol gm_get_in [OF b] by (fastforce simp: policies_ok_def policy_view_def)
  then have P: "\<forall>mq \<in> queue_of b. pb_OrderingPolicy (bd_config b) = Some (mq_policy mq)"
      "\<forall>Q. pb_OrderingPolicy (bd_config b) = Some Q \<longrightarrow> strict_weak (op_Less Q)"
    and rr: "bd_fairnessPolicy b = RoundRobin \<longrightarrow> bd_policyState b \<noteq> NilState"
    by (force simp: band_view_def queue_of_def)+
  have "0 \<le> mq_Len mq \<and> (mq_Len mq = 0 \<longleftrightarrow> mq_PeekHead mq = None)" if mq: "mq \<in> queue_of b" for mq
  proof -
    obtain i where "queue_in s (FlowKey i p) mq" using queue_of_in [OF b mq] .
    then have "mq_inv st mq" by (rule shard_wfD(2) [OF wf])
    then show ?thesis using mq_Len_inv [of st mq] sq.head_None [of st "mq_queue mq"] by (simp add: mq_inv_def mq_PeekHead_def)
  qed
  moreover have "gm_ok (bd_queues b)" using wf gm_get_in [OF b] by (fastforce simp: shard_wf_def)
  moreover have "mq_policy mq = mq_policy mq'" if "mq \<in> queue_of b" "mq' \<in> queue_of b" for mq mq'
    using P(1) that by (metis option.inject)
  moreover have "strict_weak (op_Less (mq_policy mq))" if "mq \<in> queue_of b" for mq using P that by blast
  ultimately show ?thesis unfolding band_consistent_def using rr by blast
qed

lemma band_waiting_queue:
  assumes inv: "shard_inv st s" and b: "gm_get (sh_priorityBands s) p = Some b"
  shows "band_waiting s p \<longleftrightarrow> (\<exists>mq \<in> queue_of b. mq_Len mq \<noteq> 0)"
proof -
  have wf: "shard_wf st s" and ok: "gm_ok (sh_priorityBands s)" using inv by (auto simp: shard_inv_def shard_wf_def)
  have len: "mq_Len mq \<noteq> 0 \<longleftrightarrow> mq_items mq \<noteq> []" if "queue_in s key mq" for key mq
    using mq_Len_inv [OF shard_wfD(2) [OF wf that]] by simp
  show ?thesis unfolding band_waiting_held
  proof
    assume "\<exists>x \<in> held s. fk_Priority (item_key x) = p"
    then obtain x key mq where x: "queue_in s key mq" "x \<in> set (mq_items mq)" "fk_Priority (item_key x) = p"
      unfolding held_def by blast
    have "(fk_ID key, mq) \<in> set (bd_queues b)"
      using queue_in_get [OF ok, of key b] x shard_wfD(3) [OF wf x(1,2)] b by auto
    then show "\<exists>mq \<in> queue_of b. mq_Len mq \<noteq> 0" using len [OF x(1)] x(2) by (force simp: queue_of_def)
  next
    assume "\<exists>mq \<in> queue_of b. mq_Len mq \<noteq> 0"
    then obtain mq where mq: "mq \<in> queue_of b" "mq_Len mq \<noteq> 0" by blast
    obtain i where i: "queue_in s (FlowKey i p) mq" using queue_of_in [OF b mq(1)] .
    then obtain x where x: "x \<in> set (mq_items mq)" using len mq(2) by (cases "mq_items mq") auto
    then show "\<exists>x \<in> held s. fk_Priority (item_key x) = p" using shard_wfD(3) [OF wf i x] i unfolding held_def by force
  qed
qed

lemma selectItem_spec:
  assumes inv: "shard_inv st s" and pol: "policies_ok s" and b: "gm_get (sh_priorityBands s) p = Some b"
  shows "\<exists>r ps. selectItem b s = (Inr r, moved p ps b s) \<and> (bd_fairnessPolicy b = RoundRobin \<longrightarrow> ps \<noteq> NilState) \<and>
     (r = None \<longleftrightarrow> \<not> band_waiting s p) \<and>
     (\<forall>x. r = Some x \<longrightarrow> x \<in> held s \<and> fk_Priority (item_key x) = p \<and>
        (\<exists>mq. ManagedQueue_of (item_key x) s = Inr mq \<and> mq_PeekHead mq = Some x))"
proof -
  have wf: "shard_wf st s" using inv by (simp add: shard_inv_def)
  have bc: "band_consistent b" by (rule band_consistent_of [OF inv pol b])
  have prio: "pb_Priority (bd_config b) = p" using wf gm_get_in [OF b] by (fastforce simp: shard_wf_def)
  obtain r ps where r: "Pick (bd_fairnessPolicy b) (Some b) = (Inr r, Some (b\<lparr>bd_policyState := ps\<rparr>))"
    "bd_fairnessPolicy b = RoundRobin \<longrightarrow> ps \<noteq> NilState" "r = None \<longleftrightarrow> (\<forall>mq \<in> queue_of b. mq_Len mq = 0)"
    "\<forall>q. r = Some q \<longrightarrow> q \<in> queue_of b \<and> mq_Len q \<noteq> 0"
    using fp.pick_spec [OF bc refl] by blast
  have put: "put_policyState p (Some (b\<lparr>bd_policyState := ps\<rparr>)) s = moved p ps b s"
    using b by (simp add: put_policyState_def moved_def)
  have fair: "FairnessPolicy_of p s = Inr (bd_fairnessPolicy b)" using b by (simp add: FairnessPolicy_of_def)
  show ?thesis
  proof (cases r)
    case None
    then have "selectItem b s = (Inr None, moved p ps b s)" using r(1) put fair prio by (simp add: selectItem_def)
    moreover have "\<not> band_waiting s p" using None r(3) band_waiting_queue [OF inv b] by simp
    ultimately show ?thesis using r(2) by blast
  next
    case (Some q)
    then have q: "q \<in> queue_of b" "mq_Len q \<noteq> 0" using r(4) by simp_all
    obtain i where i: "queue_in s (FlowKey i p) q" using queue_of_in [OF b q(1)] .
    obtain x where x: "mq_PeekHead q = Some x" using band_consistentD(2) [OF bc q(1)] q(2) by auto
    have "q_wf st (mq_queue q)" using shard_wfD(2) [OF wf i] by (simp add: mq_inv_def)
    then have xq: "x \<in> set (mq_items q)" using sq.head_in x by (simp add: mq_PeekHead_def)
    have key: "item_key x = FlowKey i p" by (rule shard_wfD(3) [OF wf i xq])
    have "selectItem b s = (Inr (Some x), moved p ps b s)" using Some r(1) put fair prio x by (simp add: selectItem_def)
    moreover have "band_waiting s p" using q band_waiting_queue [OF inv b] by blast
    moreover have "x \<in> held s" using i xq unfolding held_def by blast
    ultimately show ?thesis using r(2) key x queue_in_ManagedQueue [OF wf i] by auto
  qed
qed

subsection \<open>The invariant of a processor\<close>

definition proc_inv :: "ShardProcessor \<Rightarrow> bool" where
  "proc_inv sp \<longleftrightarrow> shard_inv (sp_store sp) (sp_shard sp) \<and> store_ok (sp_store sp) \<and> policies_ok (sp_shard sp)"

lemma proc_invD:
  assumes "proc_inv sp"
  shows "shard_inv (sp_store sp) (sp_shard sp)" "shard_wf (sp_store sp) (sp_shard sp)" "store_ok (sp_store sp)"
    "policies_ok (sp_shard sp)"
  using assms by (simp_all add: proc_inv_def shard_inv_def)

abbreviation proc_held :: "ShardProcessor \<Rightarrow> FlowItem set" where
  "proc_held sp \<equiv> held (sp_shard sp)"

abbreviation final_of :: "ShardProcessor \<Rightarrow> FlowItem \<Rightarrow> FinalState option" where
  "final_of sp x \<equiv> FinalState_of (sp_store sp) x"

text \<open>What a handler leaves alone: the channel and the life-cycle flags.\<close>

definition same_control :: "ShardProcessor \<Rightarrow> ShardProcessor \<Rightarrow> bool" where
  "same_control sp sp' \<longleftrightarrow> sp_enqueueChan sp' = sp_enqueueChan sp \<and> sp_bufferSize sp' = sp_bufferSize sp \<and>
     sp_running sp' = sp_running sp \<and> sp_lifecycleDone sp' = sp_lifecycleDone sp \<and>
     sp_isShuttingDown sp' = sp_isShuttingDown sp \<and> sp_shutdownOnce sp' = sp_shutdownOnce sp"

text \<open>The items of \<open>X\<close> that were not final yet become final with \<open>fs\<close>; every other item keeps its state.\<close>

definition finalizes :: "FlowItem set \<Rightarrow> FinalState \<Rightarrow> ShardProcessor \<Rightarrow> ShardProcessor \<Rightarrow> bool" where
  "finalizes X fs sp sp' \<longleftrightarrow>
     (\<forall>y. final_of sp' y = (if final_of sp y = None \<and> fi_ref y \<in> fi_ref ` X then Some fs else final_of sp y))"

lemma same_control_refl [simp]: "same_control sp sp"
  by (simp add: same_control_def)

lemma same_control_trans: "same_control a b \<Longrightarrow> same_control b c \<Longrightarrow> same_control a c"
  by (simp add: same_control_def)

lemma finalizes_trans: "finalizes X fs a b \<Longrightarrow> finalizes Y fs b c \<Longrightarrow> finalizes (X \<union> Y) fs a c"
  by (simp add: finalizes_def image_Un)

lemma finalizes_none: "finalizes {} fs sp sp' \<longleftrightarrow> (\<forall>y. final_of sp' y = final_of sp y)"
  by (auto simp: finalizes_def)

text \<open>The capacity limits of shard and bands stay.\<close>

definition same_limits :: "registryShard \<Rightarrow> registryShard \<Rightarrow> bool" where
  "same_limits s s' \<longleftrightarrow> sh_config s' = sh_config s \<and>
     (\<forall>p. map_option bd_config (gm_get (sh_priorityBands s') p) = map_option bd_config (gm_get (sh_priorityBands s) p))"

lemma same_limits_refl [simp]: "same_limits s s"
  by (simp add: same_limits_def)

lemma same_limits_trans: "same_limits a b \<Longrightarrow> same_limits b c \<Longrightarrow> same_limits a c"
  by (simp add: same_limits_def)

lemma same_limits_moved: "gm_get (sh_priorityBands s) p = Some b \<Longrightarrow> same_limits s (moved p ps b s)"
  by (simp add: same_limits_def moved_band)

lemma same_limits_step: "shard_wf st s \<Longrightarrow> shard_step st s ds st' s' \<Longrightarrow> same_limits s s'"
  using queue_op_facts(2,9) [of s ds s'] by (simp add: shard_step_def shard_wf_def same_limits_def)

lemma with_result_fields [simp]:
  "sp_store (with_result st s ds sp) = st" "sp_shard (with_result st s ds sp) = s"
  "same_control sp (with_result st s ds sp)"
  by (simp_all add: with_result_def same_control_def)

lemma finalize_in_spec:
  assumes "proc_inv sp"
  shows "\<exists>sp'. finalize_in x oc err sp = Some sp' \<and> proc_inv sp' \<and> sp_shard sp' = sp_shard sp \<and>
     same_control sp sp' \<and> finalizes {x} \<lparr>fs_Outcome = oc, fs_Err = err\<rparr> sp sp' \<and>
     sp_reported sp' = sp_reported sp"
proof -
  let ?fs = "\<lparr>fs_Outcome = oc, fs_Err = err\<rparr>"
  let ?sp = "sp\<lparr>sp_store := finalized_with x ?fs (sp_store sp)\<rparr>"
  have "finalize_in x oc err sp = Some ?sp"
    using FinalizeWithOutcome_eq [OF proc_invD(3) [OF assms], of x oc err] by (simp add: finalize_in_def)
  moreover have "proc_inv ?sp" using assms shard_wf_finalized by (simp add: proc_inv_def shard_inv_def)
  moreover have "finalizes {x} ?fs sp ?sp"
    by (auto simp: finalizes_def FinalState_of_def finalized_with_def)
  ultimately show ?thesis by (auto simp: same_control_def)
qed

lemma queue_step_inv:
  assumes "proc_inv sp" "shard_step (sp_store sp) (sp_shard sp) ds st s" "policy_view s = policy_view (sp_shard sp)"
    and "frame R K (sp_store sp) st"
  shows "proc_inv (with_result st s ds sp)" "finalizes {} fs sp (with_result st s ds sp)"
proof -
  show "proc_inv (with_result st s ds sp)"
    using assms shard_inv_step [OF proc_invD(1) [OF assms(1)] assms(2)] frame_store_ok [OF assms(4)]
    by (simp add: proc_inv_def policies_ok_def)
  show "finalizes {} fs sp (with_result st s ds sp)"
    using frame_final [OF assms(4)] by (simp add: finalizes_none)
qed

subsection \<open>Dispatching\<close>

definition dispatched_state :: FinalState where
  "dispatched_state = \<lparr>fs_Outcome = QueueOutcomeDispatched, fs_Err = None\<rparr>"

lemma dispatched_classified [simp]: "classified dispatched_state"
  by (simp add: dispatched_state_def)

lemma dispatchItem_spec:
  assumes inv: "proc_inv sp" and x: "x \<in> proc_held sp"
  shows "\<exists>sp'. dispatchItem x sp = Some (None, sp') \<and> proc_inv sp' \<and> proc_held sp' = proc_held sp - {x} \<and>
     same_control sp sp' \<and> finalizes {x} dispatched_state sp sp' \<and> same_limits (sp_shard sp) (sp_shard sp')"
proof -
  note wf = proc_invD(2) [OF inv]
  obtain mq where mq: "ManagedQueue_of (item_key x) (sp_shard sp) = Inr mq" "x \<in> set (mq_items mq)"
    using held_key [OF wf x] by blast
  let ?ds = "[(fk_Priority (item_key x), -1, - item_bytes x)]"
  obtain st s where s: "queue_Remove (item_key x) (Handle (sp_store sp) x) (sp_store sp) (sp_shard sp) = Some (Inr x, st, s, ?ds)"
    "shard_step (sp_store sp) (sp_shard sp) ?ds st s" "held s = proc_held sp - {x}"
    "frame {} (handles_of (sp_store sp) {x}) (sp_store sp) st"
    using queue_Remove_spec [OF wf mq] by blast
  let ?sp = "with_result st s ?ds sp"
  have 1: "proc_inv ?sp" "finalizes {} dispatched_state sp ?sp"
    using queue_step_inv [OF inv s(2) queue_ops_view(2) [OF s(1)] s(4)] by blast+
  obtain sp' where sp': "finalize_in x QueueOutcomeDispatched None ?sp = Some sp'" "proc_inv sp'"
    "sp_shard sp' = s" "same_control ?sp sp'" "finalizes {x} dispatched_state ?sp sp'"
    using finalize_in_spec [OF 1(1), of x QueueOutcomeDispatched None] by (auto simp: dispatched_state_def)
  have "dispatchItem x sp = Some (None, sp')" using mq(1) s(1) sp'(1) by (simp add: dispatchItem_def)
  moreover have "finalizes {x} dispatched_state sp sp'" using finalizes_trans [OF 1(2) sp'(5)] by simp
  moreover have "same_control sp sp'" using same_control_trans [OF with_result_fields(3) sp'(4)] .
  moreover have "same_limits (sp_shard sp) s" by (rule same_limits_step [OF wf s(2)])
  ultimately show ?thesis using sp' s(3) by auto
qed

text \<open>A stale selection: the item was swept between selection and dispatch. Nothing changes.\<close>

lemma dispatchItem_stale:
  assumes inv: "proc_inv sp" and mq: "ManagedQueue_of (item_key x) (sp_shard sp) = Inr mq"
    and h: "Handle (sp_store sp) x = None \<or> (\<exists>k. Handle (sp_store sp) x = Some k \<and> IsInvalidated k (sp_store sp))"
  shows "dispatchItem x sp = Some (None, sp)"
  using queue_Remove_invalid [OF proc_invD(2) [OF inv] mq h] mq
  by (simp add: dispatchItem_def with_result_def)

text \<open>The dispatcher's decision as a function of what waits: the highest band with work, unless the ceiling of
  that band or of one above it is reached.\<close>

fun next_band :: "real \<Rightarrow> (int \<Rightarrow> bool) \<Rightarrow> int list \<Rightarrow> real list \<Rightarrow> int option" where
  "next_band saturation w (p # ps) (c # cs) =
     (if saturation \<ge> c then None else if w p then Some p else next_band saturation w ps cs)"
| "next_band saturation w ps cs = None"

text \<open>What a dispatch cycle that serves band \<open>p\<close> does: the head of one of its queues leaves and is
  dispatched.\<close>

definition serves :: "int option \<Rightarrow> bool \<Rightarrow> ShardProcessor \<Rightarrow> ShardProcessor \<Rightarrow> bool" where
  "serves band dispatched sp sp' \<longleftrightarrow>
     (case band of
        None \<Rightarrow> \<not> dispatched \<and> proc_held sp' = proc_held sp \<and> finalizes {} dispatched_state sp sp'
      | Some p \<Rightarrow> dispatched \<and> (\<exists>x mq. x \<in> proc_held sp \<and> fk_Priority (item_key x) = p \<and>
          ManagedQueue_of (item_key x) (sp_shard sp) = Inr mq \<and> mq_PeekHead mq = Some x \<and>
          proc_held sp' = proc_held sp - {x} \<and> finalizes {x} dispatched_state sp sp'))"

lemma serves_shard:
  assumes "serves r b sp1 sp'" "held (sp_shard sp1) = proc_held sp" "sp_store sp1 = sp_store sp"
    "\<And>key. ManagedQueue_of key (sp_shard sp1) = ManagedQueue_of key (sp_shard sp)"
  shows "serves r b sp sp'"
proof -
  have "finalizes X fs sp1 sp' = finalizes X fs sp sp'" for X fs using assms(3) by (simp add: finalizes_def)
  then have "serves r b sp1 sp' = serves r b sp sp'"
    unfolding serves_def assms(2,4) by (cases r) simp_all
  then show ?thesis using assms(1) by simp
qed

lemma dispatch_loop_spec:
  assumes "proc_inv sp" "set ps \<subseteq> fst ` set (sh_priorityBands (sp_shard sp))" "length ps \<le> length cs"
  shows "\<exists>b sp'. dispatch_loop saturation ps cs sp = Some (b, sp') \<and> proc_inv sp' \<and> same_control sp sp' \<and>
     same_limits (sp_shard sp) (sp_shard sp') \<and>
     serves (next_band saturation (band_waiting (sp_shard sp)) ps cs) b sp sp'"
  using assms
proof (induction ps arbitrary: cs sp)
  case Nil
  then show ?case by (intro exI [of _ False] exI [of _ sp]) (simp add: serves_def finalizes_none)
next
  case (Cons p ps)
  obtain c cs' where cs: "cs = c # cs'" using Cons.prems(3) by (cases cs) auto
  note inv = proc_invD [OF Cons.prems(1)]
  show ?case
  proof (cases "saturation \<ge> c")
    case True
    then show ?thesis
      using Cons.prems(1) by (intro exI [of _ False] exI [of _ sp]) (simp add: cs serves_def finalizes_none)
  next
    case False
    have "p \<in> fst ` set (sh_priorityBands (sp_shard sp))" using Cons.prems(2) by simp
    then obtain b where b: "gm_get (sh_priorityBands (sp_shard sp)) p = Some b"
      using gm_get_None [of "sh_priorityBands (sp_shard sp)" p] by (cases "gm_get (sh_priorityBands (sp_shard sp)) p") auto
    obtain r st where r: "selectItem b (sp_shard sp) = (Inr r, moved p st b (sp_shard sp))"
      "bd_fairnessPolicy b = RoundRobin \<longrightarrow> st \<noteq> NilState" "r = None \<longleftrightarrow> \<not> band_waiting (sp_shard sp) p"
      "\<forall>x. r = Some x \<longrightarrow> x \<in> proc_held sp \<and> fk_Priority (item_key x) = p \<and>
        (\<exists>mq. ManagedQueue_of (item_key x) (sp_shard sp) = Inr mq \<and> mq_PeekHead mq = Some x)"
      using selectItem_spec [OF inv(1,4) b] by blast
    let ?s = "moved p st b (sp_shard sp)"
    let ?sp = "sp\<lparr>sp_shard := ?s\<rparr>"
    have pi: "proc_inv ?sp"
      using inv moved_inv [OF inv(1) b] moved_policies [OF inv(4) b r(2)] by (simp add: proc_inv_def)
    have sub: "held (sp_shard ?sp) = proc_held sp" "sp_store ?sp = sp_store sp"
      "ManagedQueue_of key (sp_shard ?sp) = ManagedQueue_of key (sp_shard sp)" for key
      using moved_held [OF b] moved_ManagedQueue [OF b] by simp_all
    have ctl: "same_control sp ?sp" by (simp add: same_control_def)
    have lim: "same_limits (sp_shard sp) (sp_shard ?sp)" using same_limits_moved [OF b] by simp
    have acc: "PriorityBandAccessor p (sp_shard sp) = Inr b" using b by (simp add: PriorityBandAccessor_def)
    show ?thesis
    proof (cases r)
      case None
      have w: "band_waiting ?s = band_waiting (sp_shard sp)" using moved_items [OF b] by (simp add: fun_eq_iff band_waiting_def)
      have "map fst (sh_priorityBands ?s) = map fst (sh_priorityBands (sp_shard sp))"
        using b by (simp add: moved_def gm_set_keys)
      then have "fst ` set (sh_priorityBands ?s) = fst ` set (sh_priorityBands (sp_shard sp))" by (metis set_map)
      then obtain d sp' where d: "dispatch_loop saturation ps cs' ?sp = Some (d, sp')" "proc_inv sp'" "same_control ?sp sp'"
        "same_limits (sp_shard ?sp) (sp_shard sp')"
        "serves (next_band saturation (band_waiting (sp_shard sp)) ps cs') d ?sp sp'"
        using Cons.IH [OF pi, of cs'] Cons.prems(2,3) cs w by auto
      have "serves (next_band saturation (band_waiting (sp_shard sp)) ps cs') d sp sp'"
        by (rule serves_shard [OF d(5) sub])
      then show ?thesis
        using d(1,2) lim same_limits_trans [OF lim d(4)] same_control_trans [OF ctl d(3)] False None r(1,3) acc
        by (auto simp: cs)
    next
      case (Some x)
      then have x: "x \<in> held (sp_shard ?sp)" using r(4) sub(1) by auto
      obtain sp' where d: "dispatchItem x ?sp = Some (None, sp')" "proc_inv sp'"
        "proc_held sp' = held (sp_shard ?sp) - {x}" "same_control ?sp sp'" "finalizes {x} dispatched_state ?sp sp'"
        "same_limits (sp_shard ?sp) (sp_shard sp')"
        using dispatchItem_spec [OF pi x] by auto
      have "serves (Some p) True ?sp sp'"
        using Some r(4) d(3,5) sub by (auto simp: serves_def)
      then have "serves (Some p) True sp sp'" by (rule serves_shard [OF _ sub])
      moreover have "next_band saturation (band_waiting (sp_shard sp)) (p # ps) cs = Some p"
        using False Some r(3) by (simp add: cs)
      moreover have "dispatch_loop saturation (p # ps) cs sp = Some (True, sp')"
        using False Some r(1) acc d(1) by (simp add: cs)
      ultimately show ?thesis using d(2) same_limits_trans [OF lim d(6)] same_control_trans [OF ctl d(4)] by auto
    qed
  qed
qed

lemma dispatchCycle_spec:
  assumes inv: "proc_inv sp"
    and lim: "length (AllOrderedPriorityLevels (sp_shard sp)) \<le> length (ComputeLimit saturation (AllOrderedPriorityLevels (sp_shard sp)))"
  shows "\<exists>b sp'. dispatchCycle saturation ComputeLimit sp = Some (b, sp') \<and> proc_inv sp' \<and> same_control sp sp' \<and>
     same_limits (sp_shard sp) (sp_shard sp') \<and>
     serves (next_band saturation (band_waiting (sp_shard sp)) (AllOrderedPriorityLevels (sp_shard sp))
       (ComputeLimit saturation (AllOrderedPriorityLevels (sp_shard sp)))) b sp sp'"
proof -
  have "set (AllOrderedPriorityLevels (sp_shard sp)) \<subseteq> fst ` set (sh_priorityBands (sp_shard sp))"
    using proc_invD(1) [OF inv] by (simp add: shard_inv_def levels_ok_def AllOrderedPriorityLevels_def)
  then show ?thesis using dispatch_loop_spec [OF inv _ lim] by (simp add: dispatchCycle_def Let_def)
qed

end
