(* ===== verification/ProcessorOps.thy ===== *)
theory ProcessorOps
  imports ProcessorProofs
begin

text \<open>
  Admission, the cleanup sweep and shutdown of the shard processor: what becomes of every item, and that the
  worker pool over the queues has the same effect in whatever order the queues are taken.
\<close>

subsection \<open>Admission\<close>

text \<open>The decision of \<open>enqueue\<close> for an item that is not final yet: the final state it is rejected with, or
  nothing when it is admitted.\<close>

definition admission :: "FlowItem \<Rightarrow> ShardProcessor \<Rightarrow> FinalState option" where
  "admission x sp =
     (case ManagedQueue_of (item_key x) (sp_shard sp) of
        Inl e \<Rightarrow> Some \<lparr>fs_Outcome = QueueOutcomeRejectedOther, fs_Err = Some (Errorf [ErrRejected, Errorf [e]])\<rparr>
      | Inr _ \<Rightarrow>
          if \<not> hasCapacity (fk_Priority (item_key x)) (item_bytes x) sp
          then Some \<lparr>fs_Outcome = QueueOutcomeRejectedCapacity, fs_Err = Some (Errorf [ErrRejected, ErrQueueAtCapacity])\<rparr>
          else if sh_isDraining (sp_shard sp)
          then Some \<lparr>fs_Outcome = QueueOutcomeRejectedOther, fs_Err = Some (Errorf [ErrRejected, Errorf [ErrShardDraining]])\<rparr>
          else None)"

lemma admission_classified: "admission x sp = Some fs \<Longrightarrow> classified fs"
  by (auto simp: admission_def err_is_def split: sum.splits if_splits)

definition admits :: "FlowItem \<Rightarrow> ShardProcessor \<Rightarrow> ShardProcessor \<Rightarrow> bool" where
  "admits x sp sp' \<longleftrightarrow>
     (if final_of sp x \<noteq> None then sp' = sp
      else case admission x sp of
             Some fs \<Rightarrow> proc_held sp' = proc_held sp \<and> finalizes {x} fs sp sp'
           | None \<Rightarrow> proc_held sp' = insert x (proc_held sp) \<and> finalizes {} dispatched_state sp sp')"

lemma queue_Add_draining:
  assumes "ManagedQueue_of key s = Inr mq" "sh_isDraining s"
  shows "queue_Add key x st s = Some (Some ErrShardDraining, st, s, [])"
proof -
  obtain b where "gm_get (sh_priorityBands s) (fk_Priority key) = Some b" "gm_get (bd_queues b) (fk_ID key) = Some mq"
    using queue_in_band [OF assms(1)] .
  then have "put_queue key mq s = s" by (simp add: put_queue_def gm_set_same)
  then show ?thesis using assms by (simp add: queue_Add_def with_queue_def mq_Add_def put_back_def)
qed

lemma enqueue_spec:
  assumes inv: "proc_inv sp" and fresh: "\<forall>y \<in> proc_held sp. fi_ref y \<noteq> fi_ref x"
    and room: "length (shard_items (sp_shard sp)) + 1 < 2 ^ 63"
  shows "\<exists>sp'. enqueue x sp = Some sp' \<and> proc_inv sp' \<and> same_control sp sp' \<and>
     same_limits (sp_shard sp) (sp_shard sp') \<and> admits x sp sp'"
proof (cases "final_of sp x")
  case (Some fs)
  then show ?thesis using inv by (auto simp: enqueue_def admits_def)
next
  case None
  have reject: "\<exists>sp'. finalize_in x oc e sp = Some sp' \<and> proc_inv sp' \<and> same_control sp sp' \<and>
      same_limits (sp_shard sp) (sp_shard sp') \<and> proc_held sp' = proc_held sp \<and>
      finalizes {x} \<lparr>fs_Outcome = oc, fs_Err = e\<rparr> sp sp'" for oc e
    using finalize_in_spec [OF inv, of x oc e] by auto
  show ?thesis
  proof (cases "ManagedQueue_of (item_key x) (sp_shard sp)")
    case (Inl e)
    then show ?thesis using reject None by (simp add: enqueue_def admits_def admission_def)
  next
    case (Inr mq)
    obtain b where "gm_get (sh_priorityBands (sp_shard sp)) (fk_Priority (item_key x)) = Some b"
      using queue_in_band [OF Inr] by blast
    then have acc: "PriorityBandAccessor (fk_Priority (item_key x)) (sp_shard sp) = Inr b"
      by (simp add: PriorityBandAccessor_def)
    note wf = proc_invD(2) [OF inv]
    consider "\<not> hasCapacity (fk_Priority (item_key x)) (item_bytes x) sp"
      | "hasCapacity (fk_Priority (item_key x)) (item_bytes x) sp" "sh_isDraining (sp_shard sp)"
      | "hasCapacity (fk_Priority (item_key x)) (item_bytes x) sp" "\<not> sh_isDraining (sp_shard sp)" by blast
    then show ?thesis
    proof cases
      case 1
      then show ?thesis using reject None Inr acc by (simp add: enqueue_def admits_def admission_def)
    next
      case 2
      then show ?thesis
        using reject None Inr acc queue_Add_draining [OF Inr 2(2), of x "sp_store sp"]
        by (simp add: enqueue_def admits_def admission_def with_result_def)
    next
      case 3
      let ?ds = "[(fk_Priority (item_key x), 1, item_bytes x)]"
      obtain st s where s: "queue_Add (item_key x) x (sp_store sp) (sp_shard sp) = Some (None, st, s, ?ds)"
        "shard_step (sp_store sp) (sp_shard sp) ?ds st s" "held s = insert x (proc_held sp)" "frame {fi_ref x} {} (sp_store sp) st"
        using queue_Add_spec [OF wf Inr 3(2) refl fresh queue_room [OF Inr room]] by blast
      have "enqueue x sp = Some (with_result st s ?ds sp)" using None Inr acc 3 s(1) by (simp add: enqueue_def)
      moreover have "admits x sp (with_result st s ?ds sp)"
        using None Inr 3 s(3) queue_step_inv(2) [OF inv s(2) queue_ops_view(1) [OF s(1)] s(4)]
        by (simp add: admits_def admission_def)
      ultimately show ?thesis
        using queue_step_inv(1) [OF inv s(2) queue_ops_view(1) [OF s(1)] s(4)] same_limits_step [OF wf s(2)] by auto
    qed
  qed
qed

subsection \<open>A worker over all queues\<close>

text \<open>The items \<open>X\<close> leave the queues and those not final yet are finalized with \<open>fs\<close>; the topology stays.\<close>

definition takes :: "FlowItem set \<Rightarrow> FinalState \<Rightarrow> ShardProcessor \<Rightarrow> ShardProcessor \<Rightarrow> bool" where
  "takes X fs sp sp' \<longleftrightarrow> proc_inv sp' \<and> same_control sp sp' \<and> same_limits (sp_shard sp) (sp_shard sp') \<and>
     (\<forall>key. (\<exists>mq. ManagedQueue_of key (sp_shard sp') = Inr mq) = (\<exists>mq. ManagedQueue_of key (sp_shard sp) = Inr mq)) \<and>
     proc_held sp' = proc_held sp - X \<and> finalizes X fs sp sp'"

lemma takes_trans: "takes X fs a b \<Longrightarrow> takes Y fs b c \<Longrightarrow> takes (X \<union> Y) fs a c"
  unfolding takes_def using same_control_trans finalizes_trans same_limits_trans by fastforce

locale queue_worker =
  fixes processFn :: "FlowKey \<Rightarrow> ShardProcessor \<Rightarrow> ShardProcessor option"
    and taken :: "FinalState option \<Rightarrow> bool"
    and fs :: FinalState
  assumes worker: "proc_inv sp \<Longrightarrow> ManagedQueue_of key (sp_shard sp) = Inr mq \<Longrightarrow>
    \<exists>sp'. processFn key sp = Some sp' \<and> takes {x \<in> proc_held sp. item_key x = key \<and> taken (final_of sp x)} fs sp sp'"
begin

lemma process_queues_takes:
  assumes "proc_inv sp"
  shows "\<exists>sp'. process_queues processFn keys sp = Some sp' \<and>
     takes {x \<in> proc_held sp. item_key x \<in> set keys \<and> taken (final_of sp x)} fs sp sp'"
  using assms
proof (induction keys arbitrary: sp)
  case Nil
  then show ?case by (simp add: takes_def finalizes_none)
next
  case (Cons key keys)
  show ?case
  proof (cases "ManagedQueue_of key (sp_shard sp)")
    case (Inl e)
    have "item_key x \<noteq> key" if "x \<in> proc_held sp" for x
      using held_key [OF proc_invD(2) [OF Cons.prems] that] Inl by auto
    then have "{x \<in> proc_held sp. item_key x \<in> set (key # keys) \<and> taken (final_of sp x)} =
        {x \<in> proc_held sp. item_key x \<in> set keys \<and> taken (final_of sp x)}" by auto
    then show ?thesis using Cons.IH [OF Cons.prems] Inl by simp
  next
    case (Inr mq)
    let ?X = "{x \<in> proc_held sp. item_key x = key \<and> taken (final_of sp x)}"
    obtain sp1 where 1: "processFn key sp = Some sp1" "takes ?X fs sp sp1" using worker [OF Cons.prems Inr] by blast
    let ?Y = "{x \<in> proc_held sp1. item_key x \<in> set keys \<and> taken (final_of sp1 x)}"
    obtain sp' where 2: "process_queues processFn keys sp1 = Some sp'" "takes ?Y fs sp1 sp'"
      using Cons.IH [of sp1] 1(2) by (auto simp: takes_def)
    have held1: "proc_held sp1 = proc_held sp - ?X" using 1(2) by (simp add: takes_def)
    have "final_of sp1 y = final_of sp y" if "y \<in> proc_held sp1" for y
    proof -
      have "fi_ref y \<notin> fi_ref ` ?X"
        using that held1 held_ref [OF proc_invD(2) [OF Cons.prems], of y] by auto
      then show ?thesis using 1(2) by (auto simp: takes_def finalizes_def)
    qed
    then have "?X \<union> ?Y = {x \<in> proc_held sp. item_key x \<in> set (key # keys) \<and> taken (final_of sp x)}"
      unfolding held1 by auto
    then show ?thesis using 1(1) 2(1) Inr takes_trans [OF 1(2) 2(2)] by simp
  qed
qed

end

lemma iterate_keys: "iterate_queues (\<lambda>acc queue. (acc @ [mq_key queue], True)) qs acc = acc @ map mq_key qs"
  by (induction qs arbitrary: acc) auto

lemma queuesToProcess_held:
  assumes inv: "shard_inv st s" and x: "x \<in> held s"
  shows "item_key x \<in> set (queuesToProcess s)"
proof -
  have wf: "shard_wf st s" using inv by (simp add: shard_inv_def)
  obtain mq where mq: "ManagedQueue_of (item_key x) s = Inr mq" using held_key [OF wf x] by blast
  obtain b where b: "gm_get (sh_priorityBands s) (fk_Priority (item_key x)) = Some b"
    "gm_get (bd_queues b) (fk_ID (item_key x)) = Some mq" using queue_in_band [OF mq] .
  have "fk_Priority (item_key x) \<in> set (AllOrderedPriorityLevels s)"
    using inv gm_get_in [OF b(1)] by (force simp: shard_inv_def levels_ok_def AllOrderedPriorityLevels_def)
  moreover have "PriorityBandAccessor (fk_Priority (item_key x)) s = Inr b" using b(1) by (simp add: PriorityBandAccessor_def)
  moreover have "item_key x \<in> set (map mq_key (map snd (bd_queues b)))"
    using gm_get_in [OF b(2)] shard_wfD(1) [OF wf ManagedQueue_in [OF mq]] by force
  then have "item_key x \<in> set (IterateQueues (\<lambda>acc queue. (acc @ [mq_key queue], True)) b [])"
    by (simp add: IterateQueues_def iterate_keys)
  ultimately show ?thesis unfolding queuesToProcess_def by force
qed

context queue_worker
begin

text \<open>The order in which the workers take the queues is irrelevant, as long as no key is left out.\<close>

lemma all_queues_taken:
  assumes inv: "proc_inv sp" and keys: "set (queuesToProcess (sp_shard sp)) \<subseteq> set keys"
  shows "\<exists>sp'. process_queues processFn keys sp = Some sp' \<and> takes {x \<in> proc_held sp. taken (final_of sp x)} fs sp sp'"
proof -
  have "{x \<in> proc_held sp. item_key x \<in> set keys \<and> taken (final_of sp x)} = {x \<in> proc_held sp. taken (final_of sp x)}"
    using queuesToProcess_held [OF proc_invD(1) [OF inv]] keys by auto
  then show ?thesis using process_queues_takes [OF inv, of keys] by simp
qed

lemma processAll_takes:
  assumes "proc_inv sp"
  shows "\<exists>sp'. processAllQueuesConcurrently processFn sp = Some sp' \<and>
     takes {x \<in> proc_held sp. taken (final_of sp x)} fs sp sp'"
  using all_queues_taken [OF assms subset_refl] by (simp add: processAllQueuesConcurrently_def)

end

subsection \<open>Sweep and eviction\<close>

lemma step_queues:
  assumes wf: "shard_wf st s" and step: "shard_step st s ds st' s'"
  shows "(\<exists>mq. ManagedQueue_of key s' = Inr mq) = (\<exists>mq. ManagedQueue_of key s = Inr mq)"
proof -
  have wf': "shard_wf st' s'" using step by (simp add: shard_step_def)
  have "(\<exists>m. queue_in s' key m) \<longleftrightarrow> (\<exists>m. queue_in s key m)"
    using queue_op_facts(8) [of s ds s'] step wf by (simp add: shard_step_def shard_wf_def)
  then show ?thesis using queue_in_ManagedQueue [OF wf] queue_in_ManagedQueue [OF wf'] ManagedQueue_in by metis
qed

lemma removal_takes:
  assumes inv: "proc_inv sp" and step: "shard_step (sp_store sp) (sp_shard sp) ds (invalidate_all rem (sp_store sp)) s"
    and view: "policy_view s = policy_view (sp_shard sp)" and held: "held s = proc_held sp - set rem"
  shows "proc_inv (with_result (invalidate_all rem (sp_store sp)) s ds sp)"
    "(\<forall>y. FinalState_of (invalidate_all rem (sp_store sp)) y = final_of sp y)"
    "(\<forall>x \<in> set rem. final_of sp x \<noteq> None) \<Longrightarrow> takes (set rem) fs sp (with_result (invalidate_all rem (sp_store sp)) s ds sp)"
proof -
  note fr = frame_invalidate_all [of "sp_store sp" rem]
  note q = queue_step_inv [OF inv step view fr]
  show i: "proc_inv (with_result (invalidate_all rem (sp_store sp)) s ds sp)" by (fact q(1))
  show f: "\<forall>y. FinalState_of (invalidate_all rem (sp_store sp)) y = final_of sp y" using frame_final [OF fr] by blast
  assume "\<forall>x \<in> set rem. final_of sp x \<noteq> None"
  then have "finalizes (set rem) fs sp (with_result (invalidate_all rem (sp_store sp)) s ds sp)"
    using f by (auto simp: finalizes_def FinalState_of_def)
  then show "takes (set rem) fs sp (with_result (invalidate_all rem (sp_store sp)) s ds sp)"
    using i held step_queues [OF proc_invD(2) [OF inv] step] same_limits_step [OF proc_invD(2) [OF inv] step]
    by (simp add: takes_def)
qed

interpretation sweep: queue_worker sweep_queue "\<lambda>f. f \<noteq> None" fs for fs
proof
  fix sp key mq assume inv: "proc_inv sp" and mq: "ManagedQueue_of key (sp_shard sp) = Inr mq"
  let ?P = "\<lambda>x. final_of sp x \<noteq> None"
  note wf = proc_invD(2) [OF inv]
  obtain rem s ds where c: "queue_Cleanup key ?P (sp_store sp) (sp_shard sp) = Some (rem, invalidate_all rem (sp_store sp), s, ds)"
    "shard_step (sp_store sp) (sp_shard sp) ds (invalidate_all rem (sp_store sp)) s"
    "set rem = {x \<in> set (mq_items mq). ?P x}" "held s = proc_held sp - set rem"
    using queue_Cleanup_spec [OF wf mq, of ?P] by blast
  have "set rem = {x \<in> proc_held sp. item_key x = key \<and> ?P x}"
    using c(3) in_held [OF mq] shard_wfD(3) [OF wf ManagedQueue_in [OF mq]] held_key [OF wf] mq by fastforce
  moreover have "takes (set rem) fs sp (with_result (invalidate_all rem (sp_store sp)) s ds sp)"
    using removal_takes(3) [OF inv c(2) queue_ops_view(3) [OF c(1)] c(4)] c(3) by blast
  ultimately show "\<exists>sp'. sweep_queue key sp = Some sp' \<and> takes {x \<in> proc_held sp. item_key x = key \<and> ?P x} fs sp sp'"
    using c(1) by (simp add: sweep_queue_def)
qed

lemma finalize_each_spec:
  assumes "proc_inv sp"
  shows "\<exists>sp'. finalize_each xs oc e sp = Some sp' \<and> proc_inv sp' \<and> sp_shard sp' = sp_shard sp \<and>
     same_control sp sp' \<and> finalizes (set xs) \<lparr>fs_Outcome = oc, fs_Err = e\<rparr> sp sp'"
  using assms
proof (induction xs arbitrary: sp)
  case (Cons x xs)
  let ?fs = "\<lparr>fs_Outcome = oc, fs_Err = e\<rparr>"
  obtain sp1 where 1: "finalize_in x oc e sp = Some sp1" "proc_inv sp1" "sp_shard sp1 = sp_shard sp"
    "same_control sp sp1" "finalizes {x} ?fs sp sp1" using finalize_in_spec [OF Cons.prems] by blast
  obtain sp2 where 2: "finalize_each xs oc e sp1 = Some sp2" "proc_inv sp2" "sp_shard sp2 = sp_shard sp1"
    "same_control sp1 sp2" "finalizes (set xs) ?fs sp1 sp2" using Cons.IH [OF 1(2)] by blast
  show ?case using 1 2 same_control_trans [OF 1(4) 2(4)] finalizes_trans [OF 1(5) 2(5)] by simp
qed (simp add: finalizes_none)

definition evicted_state :: FinalState where
  "evicted_state = \<lparr>fs_Outcome = QueueOutcomeEvictedOther, fs_Err = Some (Errorf [ErrEvicted, ErrFlowControllerNotRunning])\<rparr>"

interpretation evict: queue_worker evict_queue "\<lambda>_. True" evicted_state
proof
  fix sp key mq assume inv: "proc_inv sp" and mq: "ManagedQueue_of key (sp_shard sp) = Inr mq"
  note wf = proc_invD(2) [OF inv]
  obtain rem s ds where c: "queue_Drain key (sp_store sp) (sp_shard sp) = Some (rem, invalidate_all rem (sp_store sp), s, ds)"
    "shard_step (sp_store sp) (sp_shard sp) ds (invalidate_all rem (sp_store sp)) s"
    "set rem = set (mq_items mq)" "held s = proc_held sp - set rem"
    using queue_Drain_spec [OF wf mq] by blast
  let ?sp = "with_result (invalidate_all rem (sp_store sp)) s ds sp"
  note r = removal_takes(1,2) [OF inv c(2) queue_ops_view(4) [OF c(1)] c(4)]
  obtain sp' where e: "finalize_each rem QueueOutcomeEvictedOther (Some (Errorf [ErrEvicted, ErrFlowControllerNotRunning])) ?sp = Some sp'"
    "proc_inv sp'" "sp_shard sp' = s" "same_control ?sp sp'" "finalizes (set rem) evicted_state ?sp sp'"
    using finalize_each_spec [OF r(1)] by (fastforce simp: evicted_state_def)
  have X: "{x \<in> proc_held sp. item_key x = key \<and> True} = set rem"
    using c(3) in_held [OF mq] shard_wfD(3) [OF wf ManagedQueue_in [OF mq]] held_key [OF wf] mq by fastforce
  have "finalizes (set rem) evicted_state sp sp'" using e(5) r(2) by (simp add: finalizes_def)
  then have "takes (set rem) evicted_state sp sp'"
    using e c(4) same_control_trans [OF with_result_fields(3) e(4)] step_queues [OF wf c(2)] same_limits_step [OF wf c(2)]
    by (simp add: takes_def)
  then show "\<exists>sp'. evict_queue key sp = Some sp' \<and>
      takes {x \<in> proc_held sp. item_key x = key \<and> True} evicted_state sp sp'"
    unfolding X using c(1) e(1) by (simp add: evict_queue_def)
qed

subsection \<open>Shutdown\<close>

definition rejected_state :: FinalState where
  "rejected_state = \<lparr>fs_Outcome = QueueOutcomeRejectedOther, fs_Err = Some (Errorf [ErrRejected, ErrFlowControllerNotRunning])\<rparr>"

lemma shutdown_classified [simp]: "classified rejected_state" "classified evicted_state"
  by (simp_all add: rejected_state_def evicted_state_def err_is_def)

definition chan_items :: "FlowItem option list \<Rightarrow> FlowItem set" where
  "chan_items ch = {x. Some x \<in> set ch}"

lemma chan_items_simps [simp]:
  "chan_items [] = {}" "chan_items (None # ch) = chan_items ch" "chan_items (Some x # ch) = insert x (chan_items ch)"
  "chan_items (ch @ ch') = chan_items ch \<union> chan_items ch'"
  by (auto simp: chan_items_def)

lemma drain_loop_spec:
  assumes "proc_inv sp"
  shows "\<exists>sp'. drain_loop ch sp = Some sp' \<and> proc_inv sp' \<and> sp_shard sp' = sp_shard sp \<and> sp_enqueueChan sp' = [] \<and>
     same_control (sp\<lparr>sp_enqueueChan := []\<rparr>) sp' \<and> finalizes (chan_items ch) rejected_state sp sp'"
  using assms
proof (induction ch arbitrary: sp)
  case Nil
  then show ?case by (simp add: proc_inv_def finalizes_none)
next
  case (Cons i ch)
  show ?case
  proof (cases i)
    case None
    then show ?thesis using Cons.IH [OF Cons.prems] by simp
  next
    case (Some x)
    obtain sp1 where 1: "finalize_in x QueueOutcomeRejectedOther (Some (Errorf [ErrRejected, ErrFlowControllerNotRunning])) sp = Some sp1"
      "proc_inv sp1" "sp_shard sp1 = sp_shard sp" "same_control sp sp1" "finalizes {x} rejected_state sp sp1"
      using finalize_in_spec [OF Cons.prems] unfolding rejected_state_def by blast
    obtain sp2 where 2: "drain_loop ch sp1 = Some sp2" "proc_inv sp2" "sp_shard sp2 = sp_shard sp1" "sp_enqueueChan sp2 = []"
      "same_control (sp1\<lparr>sp_enqueueChan := []\<rparr>) sp2" "finalizes (chan_items ch) rejected_state sp1 sp2"
      using Cons.IH [OF 1(2)] by blast
    have "same_control (sp\<lparr>sp_enqueueChan := []\<rparr>) sp2" using 1(4) 2(5) by (simp add: same_control_def)
    then show ?thesis using Some 1 2 finalizes_trans [OF 1(5) 2(6)] by simp
  qed
qed

lemma shutdown_spec:
  assumes inv: "proc_inv sp" and first: "\<not> sp_shutdownOnce sp"
  shows "\<exists>sp'. shutdown sp = Some sp' \<and> proc_inv sp' \<and> proc_held sp' = {} \<and> sp_enqueueChan sp' = [] \<and>
     sp_isShuttingDown sp' \<and> sp_shutdownOnce sp' \<and> sp_lifecycleDone sp' = sp_lifecycleDone sp \<and> sp_running sp' = sp_running sp \<and>
     same_limits (sp_shard sp) (sp_shard sp') \<and>
     (\<forall>y. final_of sp' y =
        (if final_of sp y \<noteq> None then final_of sp y
         else if fi_ref y \<in> fi_ref ` chan_items (sp_enqueueChan sp) then Some rejected_state
         else if fi_ref y \<in> fi_ref ` proc_held sp then Some evicted_state else None))"
proof -
  let ?sp1 = "sp\<lparr>sp_shutdownOnce := True, sp_isShuttingDown := True\<rparr>"
  have "proc_inv ?sp1" using inv by (simp add: proc_inv_def)
  from drain_loop_spec [OF this, of "sp_enqueueChan sp"] obtain sp2 where
    2: "drain_loop (sp_enqueueChan sp) ?sp1 = Some sp2" "proc_inv sp2" "sp_shard sp2 = sp_shard sp" "sp_enqueueChan sp2 = []"
    "same_control (?sp1\<lparr>sp_enqueueChan := []\<rparr>) sp2" "finalizes (chan_items (sp_enqueueChan sp)) rejected_state ?sp1 sp2"
    by auto
  obtain sp' where 3: "evictAll sp2 = Some sp'" "takes {x \<in> proc_held sp2. True} evicted_state sp2 sp'"
    using evict.processAll_takes [OF 2(2)] unfolding evictAll_def by blast
  have "shutdown sp = Some sp'" using first 2(1) 3(1) by (simp add: shutdown_def Let_def)
  moreover have "final_of sp' y = (if final_of sp y \<noteq> None then final_of sp y
         else if fi_ref y \<in> fi_ref ` chan_items (sp_enqueueChan sp) then Some rejected_state
         else if fi_ref y \<in> fi_ref ` proc_held sp then Some evicted_state else None)" for y
    using 2(6) 3(2) 2(3) by (auto simp: finalizes_def takes_def)
  ultimately show ?thesis using 2 3(2) by (auto simp: takes_def same_control_def)
qed

end
