(* ===== verification/ProcessorRun.thy ===== *)
theory ProcessorRun
  imports ProcessorOps
begin

text \<open>
  The shard processor over time: submitters, the run loop, the sweep goroutine, expiring requests and
  shutdown interleave, one handler at a time. The theorems follow the items handed over to the processor
  and the capacity its queues use.
\<close>

subsection \<open>Capacity\<close>

definition bytes_in :: "FlowItem set \<Rightarrow> nat" where
  "bytes_in X = (\<Sum>x \<in> X. unat (item_bytes x))"

definition fits :: "uint64 \<Rightarrow> uint64 \<Rightarrow> FlowItem set \<Rightarrow> bool" where
  "fits maxBytes maxRequests X \<longleftrightarrow>
     (0 < maxBytes \<longrightarrow> bytes_in X \<le> unat maxBytes) \<and> (0 < maxRequests \<longrightarrow> card X \<le> unat maxRequests)"

definition held_at :: "registryShard \<Rightarrow> int \<Rightarrow> FlowItem set" where
  "held_at s p = {x \<in> held s. fk_Priority (item_key x) = p}"

text \<open>The items held stay within the limits of the shard and of every band, as natural numbers.\<close>

definition within_limits :: "registryShard \<Rightarrow> bool" where
  "within_limits s \<longleftrightarrow> fits (sc_MaxBytes (sh_config s)) (sc_MaxRequests (sh_config s)) (held s) \<and>
     (\<forall>p b. gm_get (sh_priorityBands s) p = Some b \<longrightarrow>
        fits (pb_MaxBytes (bd_config b)) (pb_MaxRequests (bd_config b)) (held_at s p))"

text \<open>No limit is beyond \<open>2 ^ 63\<close>, so that adding an item of less than \<open>2 ^ 63\<close> bytes cannot wrap around.\<close>

definition sane_limits :: "registryShard \<Rightarrow> bool" where
  "sane_limits s \<longleftrightarrow> unat (sc_MaxBytes (sh_config s)) \<le> 2 ^ 63 \<and>
     (\<forall>p b. gm_get (sh_priorityBands s) p = Some b \<longrightarrow> unat (pb_MaxBytes (bd_config b)) \<le> 2 ^ 63)"

lemma finite_held [simp]: "finite (held s)"
  by (metis finite_set shard_items_held)

lemma finite_held_at [simp]: "finite (held_at s p)"
  by (simp add: held_at_def)

lemma bytes_in_mono: "finite Y \<Longrightarrow> X \<subseteq> Y \<Longrightarrow> bytes_in X \<le> bytes_in Y"
  unfolding bytes_in_def by (rule sum_mono2) simp_all

lemma fits_mono: "fits mb mr Y \<Longrightarrow> finite Y \<Longrightarrow> X \<subseteq> Y \<Longrightarrow> fits mb mr X"
  using bytes_in_mono [of Y X] card_mono [of Y X] unfolding fits_def by fastforce

lemma fits_empty [simp]: "fits mb mr {}"
  by (simp add: fits_def bytes_in_def)

lemma wsum_bytes: "distinct xs \<Longrightarrow> wsum item_bytes xs = of_nat (bytes_in (set xs))"
  by (induction xs) (simp_all add: bytes_in_def)

lemma unat_of_nat_64: "n < 2 ^ 64 \<Longrightarrow> unat (of_nat n :: uint64) = n"
  by (simp add: unat_of_nat)

text \<open>The two 64-bit comparisons of \<open>hasCapacity\<close> are exact when nothing wraps.\<close>

lemma fits_insert:
  assumes fit: "fits mb mr X" and fin: "finite X" and x: "x \<notin> X"
    and b: "\<not> (mb > 0 \<and> of_nat (bytes_in X) + item_bytes x > mb)" and r: "\<not> (mr > 0 \<and> of_nat (card X) + 1 > mr)"
    and small: "unat mb \<le> 2 ^ 63" "unat (item_bytes x) < 2 ^ 63" "card X + 1 < 2 ^ 63"
  shows "fits mb mr (insert x X)"
proof -
  have "bytes_in (insert x X) \<le> unat mb" if "0 < mb"
  proof -
    have "bytes_in X \<le> unat mb" using fit that by (simp add: fits_def)
    then have "bytes_in X + unat (item_bytes x) < 2 ^ 64" using small by simp
    moreover have "of_nat (bytes_in X) + item_bytes x = of_nat (bytes_in X + unat (item_bytes x))" by simp
    ultimately have "unat (of_nat (bytes_in X) + item_bytes x) = bytes_in X + unat (item_bytes x)"
      using unat_of_nat_64 by metis
    moreover have "unat (of_nat (bytes_in X) + item_bytes x) \<le> unat mb" using b that by (simp add: word_le_nat_alt not_less)
    ultimately show ?thesis using fin x by (simp add: bytes_in_def)
  qed
  moreover have "card (insert x X) \<le> unat mr" if "0 < mr"
  proof -
    have "of_nat (card X) + 1 = (of_nat (card X + 1) :: uint64)" by simp
    then have "unat (of_nat (card X) + 1 :: uint64) = card X + 1" using small(3) unat_of_nat_64 [of "card X + 1"] by (simp add: add.commute)
    moreover have "unat (of_nat (card X) + 1 :: uint64) \<le> unat mr" using r that by (simp add: word_le_nat_alt not_less)
    ultimately show ?thesis using fin x by simp
  qed
  ultimately show ?thesis by (simp add: fits_def)
qed

lemma stats_held:
  assumes inv: "shard_inv st s"
  shows "sh_totalLen s = of_nat (card (held s))" "sh_totalByteSize s = of_nat (bytes_in (held s))"
    "gm_get (sh_priorityBands s) p = Some b \<Longrightarrow> bd_len b = of_nat (card (held_at s p))"
    "gm_get (sh_priorityBands s) p = Some b \<Longrightarrow> bd_byteSize b = of_nat (bytes_in (held_at s p))"
proof -
  have wf: "shard_wf st s" and ex: "stats_exact s" using inv by (simp_all add: shard_inv_def)
  note d = shard_items_distinct [OF wf]
  show "sh_totalLen s = of_nat (card (held s))" "sh_totalByteSize s = of_nat (bytes_in (held s))"
    using shard_inv_stats(3,4) [OF wf ex] distinct_card [OF d] wsum_bytes [OF d] by (simp_all add: shard_items_held)
  assume b: "gm_get (sh_priorityBands s) p = Some b"
  note bi = band_items_held [OF wf gm_get_in [OF b]]
  show "bd_len b = of_nat (card (held_at s p))" "bd_byteSize b = of_nat (bytes_in (held_at s p))"
    using shard_inv_stats(1,2) [OF wf ex gm_get_in [OF b]] distinct_card [OF bi(1)] wsum_bytes [OF bi(1)] bi(2)
    by (simp_all add: held_at_def)
qed

lemma within_limits_mono:
  assumes "within_limits s" "same_limits s s'" "held s' \<subseteq> held s"
  shows "within_limits s'"
proof -
  have sub: "held_at s' p \<subseteq> held_at s p" for p using assms(3) by (auto simp: held_at_def)
  have "fits (pb_MaxBytes (bd_config b')) (pb_MaxRequests (bd_config b')) (held_at s' p)"
    if b': "gm_get (sh_priorityBands s') p = Some b'" for p b'
  proof -
    have "map_option bd_config (gm_get (sh_priorityBands s) p) = Some (bd_config b')"
      using assms(2) b' unfolding same_limits_def by (metis option.simps(9))
    then obtain b where "gm_get (sh_priorityBands s) p = Some b" "bd_config b = bd_config b'" by auto
    then show ?thesis using assms(1) fits_mono [OF _ finite_held_at sub] unfolding within_limits_def by metis
  qed
  moreover have "fits (sc_MaxBytes (sh_config s')) (sc_MaxRequests (sh_config s')) (held s')"
    using assms fits_mono [OF _ finite_held assms(3)] by (simp add: within_limits_def same_limits_def)
  ultimately show ?thesis by (simp add: within_limits_def)
qed

lemma sane_limits_same: "same_limits s s' \<Longrightarrow> sane_limits s' \<longleftrightarrow> sane_limits s"
proof -
  assume same: "same_limits s s'"
  have "(\<forall>b. gm_get (sh_priorityBands s') p = Some b \<longrightarrow> P (bd_config b)) \<longleftrightarrow>
      (\<forall>b. gm_get (sh_priorityBands s) p = Some b \<longrightarrow> P (bd_config b))" for p P
  proof -
    have "map_option bd_config (gm_get (sh_priorityBands s') p) = map_option bd_config (gm_get (sh_priorityBands s) p)"
      using same by (simp add: same_limits_def)
    then show ?thesis by (cases "gm_get (sh_priorityBands s) p"; cases "gm_get (sh_priorityBands s') p") auto
  qed
  from this [where P = "\<lambda>c. unat (pb_MaxBytes c) \<le> 2 ^ 63"] show ?thesis
    using same unfolding sane_limits_def same_limits_def by metis
qed

text \<open>An admitted item fits.\<close>

lemma admitted_within:
  assumes inv: "proc_inv sp" and cap: "hasCapacity (fk_Priority (item_key x)) (item_bytes x) sp"
    and lim: "within_limits (sp_shard sp)" "sane_limits (sp_shard sp)" and x: "x \<notin> proc_held sp" "unat (item_bytes x) < 2 ^ 63"
    and room: "card (proc_held sp) + 1 < 2 ^ 63" and s': "held s' = insert x (proc_held sp)" "same_limits (sp_shard sp) s'"
  shows "within_limits s'"
proof -
  note st = stats_held [OF proc_invD(1) [OF inv]]
  let ?s = "sp_shard sp" and ?p = "fk_Priority (item_key x)"
  obtain b where b: "gm_get (sh_priorityBands ?s) ?p = Some b"
    using cap by (cases "gm_get (sh_priorityBands ?s) ?p") (auto simp: hasCapacity_def Let_def shard_Stats_def map_of_map_snd split: if_splits)
  have total: "\<not> (sc_MaxBytes (sh_config ?s) > 0 \<and> of_nat (bytes_in (held ?s)) + item_bytes x > sc_MaxBytes (sh_config ?s))"
    "\<not> (sc_MaxRequests (sh_config ?s) > 0 \<and> of_nat (card (held ?s)) + 1 > sc_MaxRequests (sh_config ?s))"
    using cap st(1,2) by (auto simp: hasCapacity_def Let_def shard_Stats_def split: if_splits)
  have band: "\<not> (pb_MaxBytes (bd_config b) > 0 \<and> of_nat (bytes_in (held_at ?s ?p)) + item_bytes x > pb_MaxBytes (bd_config b))"
    "\<not> (pb_MaxRequests (bd_config b) > 0 \<and> of_nat (card (held_at ?s ?p)) + 1 > pb_MaxRequests (bd_config b))"
    using cap st(3,4) [OF b] b by (auto simp: hasCapacity_def Let_def shard_Stats_def map_of_map_snd split: if_splits)
  have "fits (sc_MaxBytes (sh_config ?s)) (sc_MaxRequests (sh_config ?s)) (insert x (held ?s))"
    by (rule fits_insert [OF _ finite_held x(1) total]) (use lim x room in \<open>simp_all add: within_limits_def sane_limits_def\<close>)
  moreover have "fits (pb_MaxBytes (bd_config b')) (pb_MaxRequests (bd_config b')) (held_at s' q)"
    if b': "gm_get (sh_priorityBands s') q = Some b'" for q b'
  proof -
    have "map_option bd_config (gm_get (sh_priorityBands ?s) q) = Some (bd_config b')"
      using s'(2) b' unfolding same_limits_def by (metis option.simps(9))
    then obtain b0 where b0: "gm_get (sh_priorityBands ?s) q = Some b0" "bd_config b0 = bd_config b'" by auto
    have old: "fits (pb_MaxBytes (bd_config b')) (pb_MaxRequests (bd_config b')) (held_at ?s q)"
      using lim(1) b0 unfolding within_limits_def by metis
    show ?thesis
    proof (cases "q = ?p")
      case True
      have "card (held_at ?s q) \<le> card (held ?s)" by (rule card_mono) (auto simp: held_at_def)
      then have c: "card (held_at ?s q) + 1 < 2 ^ 63" using room by simp
      have cfg: "bd_config b = bd_config b'" using b b0 True by simp
      have "unat (pb_MaxBytes (bd_config b')) \<le> 2 ^ 63" using lim(2) b0 unfolding sane_limits_def by metis
      moreover have "x \<notin> held_at ?s q" using x(1) by (simp add: held_at_def)
      ultimately have "fits (pb_MaxBytes (bd_config b')) (pb_MaxRequests (bd_config b')) (insert x (held_at ?s q))"
        using fits_insert [OF old finite_held_at _ _ _ _ x(2) c] band unfolding cfg True by blast
      moreover have "held_at s' q = insert x (held_at ?s q)" using True s'(1) by (auto simp: held_at_def)
      ultimately show ?thesis by simp
    next
      case False
      then have "held_at s' q = held_at ?s q" using s'(1) by (auto simp: held_at_def)
      then show ?thesis using old by simp
    qed
  qed
  ultimately show ?thesis using s' by (simp add: within_limits_def same_limits_def)
qed

subsection \<open>Handlers over time\<close>

text \<open>Where an item can be: in the channel, in a queue, or final.\<close>

definition tracked :: "ShardProcessor \<Rightarrow> FlowItem set" where
  "tracked sp = chan_items (sp_enqueueChan sp) \<union> proc_held sp \<union> {x. final_of sp x \<noteq> None}"

text \<open>No item is in the channel twice or in the channel and in a queue.\<close>

definition chan_ok :: "ShardProcessor \<Rightarrow> bool" where
  "chan_ok sp \<longleftrightarrow> (\<exists>xs. sp_enqueueChan sp = map Some xs \<and> distinct (map fi_ref xs) \<and>
     fi_ref ` set xs \<inter> fi_ref ` proc_held sp = {})"

text \<open>What every handler guarantees: it loses no item, invents none, never touches a final state, and gives new
  final states an error that fits the outcome.\<close>

definition handled :: "ShardProcessor \<Rightarrow> ShardProcessor \<Rightarrow> bool" where
  "handled sp sp' \<longleftrightarrow> proc_inv sp' \<and> chan_ok sp' \<and> same_limits (sp_shard sp) (sp_shard sp') \<and>
     tracked sp \<subseteq> tracked sp' \<and>
     chan_items (sp_enqueueChan sp') \<union> proc_held sp' \<subseteq> chan_items (sp_enqueueChan sp) \<union> proc_held sp \<and>
     (\<forall>y fs. final_of sp y = Some fs \<longrightarrow> final_of sp' y = Some fs) \<and>
     (\<forall>y fs. final_of sp' y = Some fs \<longrightarrow> final_of sp y = Some fs \<or> classified fs)"

lemma handled_trans: "handled a b \<Longrightarrow> handled b c \<Longrightarrow> handled a c"
  unfolding handled_def using same_limits_trans by blast

lemma finalizes_keeps: "finalizes X fs sp sp' \<Longrightarrow> final_of sp y = Some g \<Longrightarrow> final_of sp' y = Some g"
  by (simp add: finalizes_def)

lemma finalizes_in: "finalizes X fs sp sp' \<Longrightarrow> x \<in> X \<Longrightarrow> final_of sp' x \<noteq> None"
  by (auto simp: finalizes_def)

lemma chan_items_Some [simp]: "chan_items (map Some xs) = set xs"
  by (auto simp: chan_items_def)

text \<open>Handlers that leave the channel alone and take the items \<open>X\<close> out of the queues.\<close>

lemma handled_takes:
  assumes "proc_inv sp'" "chan_ok sp" "same_control sp sp'" "same_limits (sp_shard sp) (sp_shard sp')"
    and held: "proc_held sp' = proc_held sp - X" and fin: "finalizes Y fs sp sp'"
    and X: "\<forall>x \<in> X. x \<in> Y \<or> final_of sp x \<noteq> None" and cl: "classified fs"
  shows "handled sp sp'"
proof -
  have ch: "sp_enqueueChan sp' = sp_enqueueChan sp" using assms(3) by (simp add: same_control_def)
  have "final_of sp' x \<noteq> None" if "x \<in> X" for x
    using X that finalizes_in [OF fin] finalizes_keeps [OF fin] by fastforce
  then have "tracked sp \<subseteq> tracked sp'"
    unfolding tracked_def ch held using finalizes_keeps [OF fin] by fastforce
  moreover have "chan_ok sp'" using assms(2) unfolding chan_ok_def ch held by blast
  moreover have "\<forall>y g. final_of sp' y = Some g \<longrightarrow> final_of sp y = Some g \<or> classified g"
    using fin cl by (auto simp: finalizes_def split: if_splits)
  ultimately show ?thesis unfolding handled_def ch held using assms(1,4) finalizes_keeps [OF fin] by blast
qed

definition ceilings_ok :: "(real \<Rightarrow> int list \<Rightarrow> real list) \<Rightarrow> bool" where
  "ceilings_ok L \<longleftrightarrow> (\<forall>saturation ps. length (L saturation ps) = length ps)"

lemma dispatchCycle_handled:
  assumes "ceilings_ok L" "proc_inv sp" "chan_ok sp" "dispatchCycle saturation L sp = Some (b, sp')"
  shows "handled sp sp'" "same_control sp sp'" "proc_held sp' \<subseteq> proc_held sp"
proof -
  have len: "length (AllOrderedPriorityLevels (sp_shard sp)) \<le> length (L saturation (AllOrderedPriorityLevels (sp_shard sp)))"
    using assms(1) by (simp add: ceilings_ok_def)
  obtain r where d: "proc_inv sp'" "same_control sp sp'" "same_limits (sp_shard sp) (sp_shard sp')" "serves r b sp sp'"
    using dispatchCycle_spec [where ComputeLimit = L, OF assms(2) len] assms(4) by auto
  show "same_control sp sp'" by (fact d(2))
  have "\<exists>X. proc_held sp' = proc_held sp - X \<and> finalizes X dispatched_state sp sp'"
    using d(4) unfolding serves_def by (cases r) (auto intro: exI [of _ "{}"])
  then obtain X where X: "proc_held sp' = proc_held sp - X" "finalizes X dispatched_state sp sp'" by blast
  show "handled sp sp'" by (rule handled_takes [OF d(1) assms(3) d(2,3) X]) simp_all
  show "proc_held sp' \<subseteq> proc_held sp" using X(1) by blast
qed

lemma disjoint_grow: "C \<subseteq> insert a B \<Longrightarrow> a \<notin> A \<Longrightarrow> A \<inter> B = {} \<Longrightarrow> A \<inter> C = {}"
  by blast

lemma enqueue_handled:
  assumes inv: "proc_inv sp" and ch: "sp_enqueueChan sp = Some x # rest" and ok: "chan_ok sp"
    and room: "length (shard_items (sp_shard sp)) + 1 < 2 ^ 63"
  shows "\<exists>sp'. enqueue x (sp\<lparr>sp_enqueueChan := rest\<rparr>) = Some sp' \<and> handled sp sp' \<and>
     same_control (sp\<lparr>sp_enqueueChan := rest\<rparr>) sp' \<and> admits x (sp\<lparr>sp_enqueueChan := rest\<rparr>) sp'"
proof -
  let ?sp = "sp\<lparr>sp_enqueueChan := rest\<rparr>"
  obtain xs where xs: "rest = map Some xs" "distinct (map fi_ref (x # xs))" "fi_ref ` set (x # xs) \<inter> fi_ref ` proc_held sp = {}"
    using ok ch by (auto simp: chan_ok_def)
  have pi: "proc_inv ?sp" using inv by (simp add: proc_inv_def)
  have "fi_ref x \<notin> fi_ref ` proc_held sp" using xs(3) by simp
  then have fresh: "\<forall>y \<in> proc_held ?sp. fi_ref y \<noteq> fi_ref x" by (auto simp: image_iff)
  obtain sp' where e: "enqueue x ?sp = Some sp'" "proc_inv sp'" "same_control ?sp sp'" "same_limits (sp_shard sp) (sp_shard sp')"
    "admits x ?sp sp'" using enqueue_spec [OF pi fresh] room by auto
  have ch': "sp_enqueueChan sp' = map Some xs" using e(3) xs(1) by (simp add: same_control_def)
  have adm: "proc_held sp' \<subseteq> insert x (proc_held sp)" "proc_held sp \<subseteq> proc_held sp'"
    "x \<in> proc_held sp' \<or> final_of sp' x \<noteq> None" "\<forall>y fs. final_of sp y = Some fs \<longrightarrow> final_of sp' y = Some fs"
    using e(5) unfolding admits_def
    by (auto simp: finalizes_def split: if_splits option.splits)
  have "fi_ref ` proc_held sp' \<subseteq> insert (fi_ref x) (fi_ref ` proc_held sp)" using adm(1) by blast
  moreover have "fi_ref x \<notin> fi_ref ` set xs" "fi_ref ` set xs \<inter> fi_ref ` proc_held sp = {}" using xs(2,3) by simp_all
  ultimately have "fi_ref ` set xs \<inter> fi_ref ` proc_held sp' = {}" by (rule disjoint_grow)
  then have "chan_ok sp'" unfolding chan_ok_def using xs(2) ch' by auto
  moreover have "tracked sp \<subseteq> tracked sp'" unfolding tracked_def ch ch' xs(1) using adm by fastforce
  moreover have "chan_items (sp_enqueueChan sp') \<union> proc_held sp' \<subseteq> chan_items (sp_enqueueChan sp) \<union> proc_held sp"
    unfolding ch ch' xs(1) using adm(1) by auto
  moreover have "\<forall>y g. final_of sp' y = Some g \<longrightarrow> final_of sp y = Some g \<or> classified g"
    using e(5) admission_classified unfolding admits_def by (fastforce simp: finalizes_def split: if_splits option.splits)
  ultimately have "handled sp sp'" unfolding handled_def using e(2,4) adm(4) by blast
  then show ?thesis using e by blast
qed

lemma run_receive_handled:
  assumes "ceilings_ok L" "proc_inv sp" "chan_ok sp" "length (shard_items (sp_shard sp)) + 1 < 2 ^ 63"
    and r: "run_receive saturation L sp = Some sp'"
  shows "handled sp sp'" "sp_isShuttingDown sp' = sp_isShuttingDown sp" "sp_running sp' = sp_running sp"
    "sp_shutdownOnce sp' = sp_shutdownOnce sp"
proof -
  obtain x rest where ch: "sp_enqueueChan sp = Some x # rest"
    using assms(3) r by (auto simp: run_receive_def chan_ok_def split: list.splits option.splits)
  obtain sp1 where 1: "enqueue x (sp\<lparr>sp_enqueueChan := rest\<rparr>) = Some sp1" "handled sp sp1"
    "same_control (sp\<lparr>sp_enqueueChan := rest\<rparr>) sp1" using enqueue_handled [OF assms(2) ch assms(3,4)] by blast
  obtain b where d: "dispatchCycle saturation L sp1 = Some (b, sp')"
    using r 1(1) by (auto simp: run_receive_def ch split: Option.bind_splits)
  have ok1: "proc_inv sp1" "chan_ok sp1" using 1(2) by (simp_all add: handled_def)
  note h = dispatchCycle_handled [OF assms(1) ok1 d]
  show "handled sp sp'" by (rule handled_trans [OF 1(2) h(1)])
  show "sp_isShuttingDown sp' = sp_isShuttingDown sp" "sp_running sp' = sp_running sp"
    "sp_shutdownOnce sp' = sp_shutdownOnce sp" using h(2) 1(3) by (simp_all add: same_control_def)
qed

lemma sweep_handled:
  assumes "proc_inv sp" "chan_ok sp" "sweepFinalizedItems sp = Some sp'"
  shows "handled sp sp'" "same_control sp sp'" "proc_held sp' = {x \<in> proc_held sp. final_of sp x = None}"
proof -
  have t: "takes {x \<in> proc_held sp. final_of sp x \<noteq> None} dispatched_state sp sp'"
    using sweep.processAll_takes [OF assms(1), of dispatched_state] assms(3) by (auto simp: sweepFinalizedItems_def)
  show "same_control sp sp'" using t by (simp add: takes_def)
  show "handled sp sp'"
    using t handled_takes [OF _ assms(2), of sp' "{x \<in> proc_held sp. final_of sp x \<noteq> None}" _ dispatched_state]
    by (auto simp: takes_def)
  show "proc_held sp' = {x \<in> proc_held sp. final_of sp x = None}" using t by (auto simp: takes_def)
qed

lemma expire_handled:
  assumes "proc_inv sp" "chan_ok sp" "Finalize x cause (sp_store sp) = Some st"
  shows "handled sp (sp\<lparr>sp_store := st\<rparr>)"
proof -
  obtain fs where cl: "classified fs" and st: "st = finalized_with x fs (sp_store sp)"
    using Finalize_result [OF proc_invD(3) [OF assms(1)], of x cause] assms(3) by auto
  have "proc_inv (sp\<lparr>sp_store := st\<rparr>)"
    using assms(1) shard_wf_finalized by (simp add: proc_inv_def shard_inv_def st)
  moreover have "finalizes {x} fs sp (sp\<lparr>sp_store := st\<rparr>)"
    unfolding st by (auto simp: finalizes_def FinalState_of_def finalized_with_def)
  ultimately show ?thesis
    using handled_takes [of "sp\<lparr>sp_store := st\<rparr>" sp "{}" "{x}" fs] assms(2) cl by (simp add: same_control_def)
qed

lemma stop_handled:
  assumes "proc_inv sp" "chan_ok sp" "\<not> sp_shutdownOnce sp" "run_stop sp = Some sp'"
  shows "handled sp sp'" "proc_held sp' = {}" "sp_enqueueChan sp' = []" "sp_isShuttingDown sp'" "\<not> sp_running sp'"
proof -
  obtain sp1 where s: "shutdown sp = Some sp1" "proc_inv sp1" "proc_held sp1 = {}" "sp_enqueueChan sp1 = []" "sp_isShuttingDown sp1"
    "same_limits (sp_shard sp) (sp_shard sp1)"
    and f: "\<forall>y. final_of sp1 y = (if final_of sp y \<noteq> None then final_of sp y
         else if fi_ref y \<in> fi_ref ` chan_items (sp_enqueueChan sp) then Some rejected_state
         else if fi_ref y \<in> fi_ref ` proc_held sp then Some evicted_state else None)"
    using shutdown_spec [OF assms(1,3)] by blast
  have sp': "sp' = sp1\<lparr>sp_running := False\<rparr>" using assms(4) s(1) by (simp add: run_stop_def)
  show "proc_held sp' = {}" "sp_enqueueChan sp' = []" "sp_isShuttingDown sp'" "\<not> sp_running sp'" using s sp' by simp_all
  have "tracked sp \<subseteq> tracked sp'" using f by (auto simp: tracked_def sp')
  moreover have "proc_inv sp'" using s(2) by (simp add: sp' proc_inv_def)
  moreover have "chan_ok sp'" using s by (simp add: sp' chan_ok_def)
  moreover have "\<forall>y g. final_of sp' y = Some g \<longrightarrow> final_of sp y = Some g \<or> classified g"
    using f by (auto simp: sp' split: if_splits)
  ultimately show "handled sp sp'" using s f by (simp add: handled_def sp')
qed

subsection \<open>All interleavings\<close>

definition orderings_ok :: "ShardConfig \<Rightarrow> bool" where
  "orderings_ok c \<longleftrightarrow> (\<forall>(p, b) \<in> set (sc_PriorityBands c). \<forall>P. pb_OrderingPolicy b = Some P \<longrightarrow> strict_weak (op_Less P))"

text \<open>A submission is split where the goroutine can lose the processor: first the check of
  \<open>isShuttingDown\<close>, then the \<open>select\<close>. \<open>owned\<close> are the items whose submission returned nil, \<open>pending\<close> those
  whose submitter is between the two. Items are told apart by their reference.\<close>

inductive proc_run :: "(real \<Rightarrow> int list \<Rightarrow> real list) \<Rightarrow> ShardProcessor \<Rightarrow> FlowItem set \<Rightarrow> FlowItem set \<Rightarrow> bool"
  for L where
  Started: "shard_cfg_ok c \<Longrightarrow> orderings_ok c \<Longrightarrow> newShard sid c = Some s \<Longrightarrow>
    proc_run L ((NewShardProcessor s empty_store n)\<lparr>sp_running := True\<rparr>) {} {}"
| FlowSynced: "proc_run L sp owned pending \<Longrightarrow> gm_get (sh_priorityBands (sp_shard sp)) (fk_Priority key) = Some b \<Longrightarrow>
    pb_OrderingPolicy (bd_config b) = Some policy \<Longrightarrow> NewQueueFromName name policy addr = Inr q \<Longrightarrow>
    synchronizeFlow key policy q (sp_shard sp) = Some s \<Longrightarrow> proc_run L (sp\<lparr>sp_shard := s\<rparr>) owned pending"
| SubmitChecked: "proc_run L sp owned pending \<Longrightarrow> \<not> sp_isShuttingDown sp \<Longrightarrow>
    fi_ref x \<notin> fi_ref ` (owned \<union> pending) \<Longrightarrow> proc_run L sp owned (insert x pending)"
| SubmitSelected: "proc_run L sp owned pending \<Longrightarrow> x \<in> pending \<Longrightarrow>
    (r, sp') \<in> set (submit_select (Some x) sp) \<union> set (submitOrBlock_select e (Some x) sp) \<Longrightarrow>
    proc_run L sp' (if r = None then insert x owned else owned) (pending - {x})"
| Received: "proc_run L sp owned pending \<Longrightarrow> sp_running sp \<Longrightarrow> length (shard_items (sp_shard sp)) + 1 < 2 ^ 63 \<Longrightarrow>
    run_receive saturation L sp = Some sp' \<Longrightarrow> proc_run L sp' owned pending"
| Ticked: "proc_run L sp owned pending \<Longrightarrow> sp_running sp \<Longrightarrow> run_tick saturation L sp = Some sp' \<Longrightarrow>
    proc_run L sp' owned pending"
| Swept: "proc_run L sp owned pending \<Longrightarrow> sp_running sp \<Longrightarrow> sweepFinalizedItems sp = Some sp' \<Longrightarrow>
    proc_run L sp' owned pending"
| Expired: "proc_run L sp owned pending \<Longrightarrow> Finalize x cause (sp_store sp) = Some st \<Longrightarrow>
    proc_run L (sp\<lparr>sp_store := st\<rparr>) owned pending"
| Cancelled: "proc_run L sp owned pending \<Longrightarrow> proc_run L (sp\<lparr>sp_lifecycleDone := True\<rparr>) owned pending"
| Stopped: "proc_run L sp owned pending \<Longrightarrow> sp_running sp \<Longrightarrow> sp_lifecycleDone sp \<Longrightarrow> run_stop sp = Some sp' \<Longrightarrow>
    proc_run L sp' owned pending"

definition run_inv :: "ShardProcessor \<Rightarrow> FlowItem set \<Rightarrow> FlowItem set \<Rightarrow> bool" where
  "run_inv sp owned pending \<longleftrightarrow> proc_inv sp \<and> chan_ok sp \<and> inj_on fi_ref (owned \<union> pending) \<and> owned \<inter> pending = {} \<and>
     owned \<subseteq> tracked sp \<and> chan_items (sp_enqueueChan sp) \<union> proc_held sp \<subseteq> owned \<and>
     (sp_running sp \<longrightarrow> \<not> sp_shutdownOnce sp) \<and> (\<not> sp_running sp \<longrightarrow> sp_isShuttingDown sp \<and> proc_held sp = {}) \<and>
     (\<forall>y fs. final_of sp y = Some fs \<longrightarrow> classified fs)"

lemma run_inv_handled:
  assumes "run_inv sp owned pending" "handled sp sp'" "sp_running sp' = sp_running sp"
    "sp_shutdownOnce sp' = sp_shutdownOnce sp" "sp_isShuttingDown sp' = sp_isShuttingDown sp" "proc_held sp' \<subseteq> proc_held sp \<or> sp_running sp"
  shows "run_inv sp' owned pending"
proof -
  have "\<forall>y fs. final_of sp' y = Some fs \<longrightarrow> classified fs" using assms(1,2) unfolding run_inv_def handled_def by blast
  then show ?thesis using assms unfolding run_inv_def handled_def by auto
qed

lemma run_started:
  assumes c: "shard_cfg_ok c" "orderings_ok c" "newShard sid c = Some s"
  shows "proc_inv ((NewShardProcessor s empty_store n)\<lparr>sp_running := True\<rparr>)" "held s = {}"
proof -
  have s: "shard_wf empty_store s" "stats_exact s" "levels_ok s" "\<forall>key m. \<not> queue_in s key m" "sh_config s = c"
    "\<forall>p. gm_get (sh_priorityBands s) p = map_option (\<lambda>b. new_band (the (pb_FairnessPolicy b)) b) (gm_get (sc_PriorityBands c) p)"
    using newShard_spec [OF c(1), of sid empty_store] c(3) by auto
  show "held s = {}" using s(4) by (auto simp: held_def)
  have "band_policies_ok (band_view b)" if "(p, b) \<in> set (sh_priorityBands s)" for p b
  proof -
    have "gm_get (sh_priorityBands s) p = Some b" using that s(1) by (simp add: shard_wf_def)
    then obtain bc where bc: "gm_get (sc_PriorityBands c) p = Some bc" "b = new_band (the (pb_FairnessPolicy bc)) bc"
      using s(6) by auto
    have "NewState fp \<noteq> NilState" if "fp = RoundRobin" for fp using that by simp
    then show ?thesis using c(2) gm_get_in [OF bc(1)] by (fastforce simp: bc(2) band_view_def new_band_def orderings_ok_def)
  qed
  then have "policies_ok s" by (auto simp: policies_ok_def policy_view_def)
  then show "proc_inv ((NewShardProcessor s empty_store n)\<lparr>sp_running := True\<rparr>)"
    using s c(1) by (simp add: proc_inv_def NewShardProcessor_def shard_inv_def)
qed

lemma sync_handled:
  assumes inv: "proc_inv sp" "chan_ok sp" and b: "gm_get (sh_priorityBands (sp_shard sp)) (fk_Priority key) = Some b"
    and pol: "pb_OrderingPolicy (bd_config b) = Some policy" and q: "NewQueueFromName name policy addr = Inr q"
    and s: "synchronizeFlow key policy q (sp_shard sp) = Some s"
  shows "handled sp (sp\<lparr>sp_shard := s\<rparr>)" "held s = proc_held sp"
proof -
  let ?s = "sp_shard sp"
  have sp: "shard_wf (sp_store sp) s" "stats_exact ?s \<longrightarrow> stats_exact s" "same_topology ?s s" and held: "held s = held ?s"
    using synchronizeFlow_spec [OF proc_invD(2) [OF inv(1)], of key q policy] NewQueueFromName_empty [OF q, of "sp_store sp"] b s
    by auto
  show "held s = proc_held sp" by (fact held)
  have inv': "shard_inv (sp_store sp) s"
    using shard_inv_same [OF proc_invD(1) [OF inv(1)] sp(1) _ sp(3)] sp(2) proc_invD(1) [OF inv(1)] by (simp add: shard_inv_def)
  have pb: "band_policies_ok (band_view b')" if "(p, b') \<in> set (sh_priorityBands ?s)" for p b'
    using proc_invD(4) [OF inv(1)] that by (fastforce simp: policies_ok_def policy_view_def)
  have "band_policies_ok (band_view b')" if mem: "(p, b') \<in> set (sh_priorityBands s)" for p b'
  proof (cases "gm_get (bd_queues b) (fk_ID key)")
    case None
    let ?b = "b\<lparr>bd_queues := gm_set (fk_ID key) (newManagedQueue q policy key) (bd_queues b)\<rparr>"
    have s': "s = ?s\<lparr>sh_priorityBands := gm_set (fk_Priority key) ?b (sh_priorityBands ?s)\<rparr>"
      using s b None by (simp add: synchronizeFlow_def)
    have "band_policies_ok (band_view ?b)"
      using pb [OF gm_get_in [OF b]] pol gm_set_mem [of _ _ "fk_ID key" "newManagedQueue q policy key" "bd_queues b"]
      by (fastforce simp: band_view_def newManagedQueue_def)
    then show ?thesis using gm_set_mem [of p b' "fk_Priority key" ?b "sh_priorityBands ?s"] mem pb unfolding s' by auto
  qed (use s b pb mem in \<open>simp add: synchronizeFlow_def\<close>)
  then have "policies_ok s" by (auto simp: policies_ok_def policy_view_def)
  then have "proc_inv (sp\<lparr>sp_shard := s\<rparr>)" using inv' proc_invD(3) [OF inv(1)] by (simp add: proc_inv_def)
  moreover have "same_limits ?s s" using sp(3) by (simp add: same_topology_def same_limits_def)
  ultimately show "handled sp (sp\<lparr>sp_shard := s\<rparr>)"
    using handled_takes [of "sp\<lparr>sp_shard := s\<rparr>" sp "{}" "{}" dispatched_state] inv(2) held
    by (simp add: same_control_def finalizes_none)
qed

lemma select_cases:
  assumes "(r, sp') \<in> set (submit_select (Some x) sp) \<union> set (submitOrBlock_select e (Some x) sp)"
  shows "r = None \<and> sp' = send_item (Some x) sp \<or> r \<noteq> None \<and> sp' = sp"
  using assms by (auto simp: submit_select_def submitOrBlock_select_def Let_def split: if_splits option.splits)

lemma sent_inv:
  assumes inv: "run_inv sp owned pending" and x: "x \<in> pending"
  shows "run_inv (send_item (Some x) sp) (insert x owned) (pending - {x})"
proof -
  let ?sp = "send_item (Some x) sp"
  obtain xs where xs: "sp_enqueueChan sp = map Some xs" "distinct (map fi_ref xs)" "fi_ref ` set xs \<inter> fi_ref ` proc_held sp = {}"
    using inv by (auto simp: run_inv_def chan_ok_def)
  have own: "set xs \<union> proc_held sp \<subseteq> owned" "x \<notin> owned" "inj_on fi_ref (owned \<union> pending)" "owned \<subseteq> tracked sp"
    "owned \<inter> pending = {}" using inv x xs(1) by (auto simp: run_inv_def)
  have new: "fi_ref x \<notin> fi_ref ` Y" if "Y \<subseteq> owned" for Y
    using own(2,3) x that by (auto simp: inj_on_def)
  have ch: "sp_enqueueChan ?sp = map Some (xs @ [x])" using xs(1) by (simp add: send_item_def)
  have "chan_ok ?sp"
    unfolding chan_ok_def using ch xs(2,3) new [of "set xs"] new [of "proc_held sp"] own(1)
    by (intro exI [of _ "xs @ [x]"]) (auto simp: send_item_def)
  moreover have "insert x owned \<subseteq> tracked ?sp"
    using own(4) xs(1) by (auto simp: tracked_def send_item_def)
  moreover have "insert x owned \<union> (pending - {x}) = owned \<union> pending" using x by auto
  ultimately show ?thesis
    using inv own xs(1) by (auto simp: run_inv_def send_item_def proc_inv_def)
qed

lemma proc_run_inv:
  assumes "ceilings_ok L" "proc_run L sp owned pending"
  shows "run_inv sp owned pending"
  using assms(2)
proof (induction rule: proc_run.induct)
  case (Started c sid s n)
  then show ?case using run_started(1) [OF Started.hyps, of n] run_started(2) [OF Started.hyps]
    by (auto simp: run_inv_def NewShardProcessor_def chan_ok_def tracked_def FinalState_of_def empty_store_def NewItem_def)
next
  case (FlowSynced sp owned pending key b policy name addr q s)
  then have "proc_inv sp" "chan_ok sp" by (simp_all add: run_inv_def)
  from sync_handled [OF this FlowSynced.hyps(2-5)] show ?case
    using run_inv_handled [OF FlowSynced.IH] by simp
next
  case (SubmitChecked sp owned pending x)
  then have "inj_on fi_ref (insert x (owned \<union> pending))" by (auto simp: run_inv_def)
  moreover have "owned \<union> insert x pending = insert x (owned \<union> pending)" by blast
  moreover have "x \<notin> owned" using SubmitChecked.hyps(3) by blast
  ultimately show ?case using SubmitChecked.IH by (auto simp: run_inv_def)
next
  case (SubmitSelected sp owned pending x r sp' e)
  from select_cases [OF SubmitSelected.hyps(3)] show ?case
  proof (elim disjE conjE)
    assume "r = None" "sp' = send_item (Some x) sp"
    then show ?thesis using sent_inv [OF SubmitSelected.IH SubmitSelected.hyps(2)] by simp
  next
    assume "r \<noteq> None" "sp' = sp"
    moreover have "inj_on fi_ref (owned \<union> (pending - {x}))"
      by (rule inj_on_subset [of _ "owned \<union> pending"]) (use SubmitSelected.IH in \<open>auto simp: run_inv_def\<close>)
    ultimately show ?thesis using SubmitSelected.IH by (auto simp: run_inv_def)
  qed
next
  case (Received sp owned pending saturation sp')
  then have "proc_inv sp" "chan_ok sp" by (simp_all add: run_inv_def)
  from run_receive_handled [OF assms(1) this Received.hyps(3,4)] show ?case
    using run_inv_handled [OF Received.IH] Received.hyps(2) by simp
next
  case (Ticked sp owned pending saturation sp')
  obtain b where d: "dispatchCycle saturation L sp = Some (b, sp')"
    using Ticked.hyps(3) by (auto simp: run_tick_def split: Option.bind_splits)
  have "proc_inv sp" "chan_ok sp" using Ticked.IH by (simp_all add: run_inv_def)
  from dispatchCycle_handled [OF assms(1) this d] show ?case
    using run_inv_handled [OF Ticked.IH] Ticked.hyps(2) by (simp add: same_control_def)
next
  case (Swept sp owned pending sp')
  then have "proc_inv sp" "chan_ok sp" by (simp_all add: run_inv_def)
  from sweep_handled [OF this Swept.hyps(3)] show ?case
    using run_inv_handled [OF Swept.IH] Swept.hyps(2) by (simp add: same_control_def)
next
  case (Expired sp owned pending x cause st)
  then have "proc_inv sp" "chan_ok sp" by (simp_all add: run_inv_def)
  from expire_handled [OF this Expired.hyps(2)] show ?case using run_inv_handled [OF Expired.IH] by simp
next
  case (Cancelled sp owned pending)
  then show ?case by (simp add: run_inv_def proc_inv_def chan_ok_def tracked_def)
next
  case (Stopped sp owned pending sp')
  then have "proc_inv sp" "chan_ok sp" "\<not> sp_shutdownOnce sp" by (simp_all add: run_inv_def)
  note h = stop_handled [OF this Stopped.hyps(4)]
  then have "\<forall>y fs. final_of sp' y = Some fs \<longrightarrow> classified fs" using Stopped.IH unfolding run_inv_def handled_def by blast
  then show ?case using Stopped.IH h by (auto simp: run_inv_def handled_def)
qed

lemma receive_limits:
  assumes "ceilings_ok L" and inv: "proc_inv sp" "chan_ok sp" "length (shard_items (sp_shard sp)) + 1 < 2 ^ 63"
    and r: "run_receive saturation L sp = Some sp'"
    and lim: "within_limits (sp_shard sp)" "sane_limits (sp_shard sp)" "\<forall>x \<in> chan_items (sp_enqueueChan sp). unat (item_bytes x) < 2 ^ 63"
  shows "within_limits (sp_shard sp')"
proof -
  obtain x rest where ch: "sp_enqueueChan sp = Some x # rest"
    using inv(2) r by (auto simp: run_receive_def chan_ok_def split: list.splits option.splits)
  let ?sp = "sp\<lparr>sp_enqueueChan := rest\<rparr>"
  obtain sp1 where 1: "enqueue x ?sp = Some sp1" "handled sp sp1" "admits x ?sp sp1"
    using enqueue_handled [OF inv(1) ch inv(2,3)] by blast
  obtain b where d: "dispatchCycle saturation L sp1 = Some (b, sp')"
    using r 1(1) by (auto simp: run_receive_def ch split: Option.bind_splits)
  have ok1: "proc_inv sp1" "chan_ok sp1" "same_limits (sp_shard sp) (sp_shard sp1)" using 1(2) by (simp_all add: handled_def)
  have "within_limits (sp_shard sp1)"
  proof (cases "proc_held sp1 \<subseteq> proc_held sp")
    case True
    then show ?thesis by (rule within_limits_mono [OF lim(1) ok1(3)])
  next
    case False
    then have a: "proc_held sp1 = insert x (proc_held sp)" "admission x ?sp = None" "x \<notin> proc_held sp"
      using 1(3) by (auto simp: admits_def split: if_splits option.splits)
    have cap: "hasCapacity (fk_Priority (item_key x)) (item_bytes x) ?sp"
      using a(2) by (auto simp: admission_def split: sum.splits if_splits)
    have "card (proc_held sp) + 1 < 2 ^ 63"
      using inv(3) distinct_card [OF shard_items_distinct [OF proc_invD(2) [OF inv(1)]]] by (simp add: shard_items_held)
    then show ?thesis
      using admitted_within [of ?sp x "sp_shard sp1"] cap lim a(1,3) ok1(3) inv(1) ch by (simp add: proc_inv_def)
  qed
  then show ?thesis
    using dispatchCycle_handled [OF assms(1) ok1(1,2) d] within_limits_mono by (auto simp: handled_def)
qed

lemma proc_run_limits:
  assumes "ceilings_ok L" "proc_run L sp owned pending"
    "\<forall>x \<in> owned. unat (item_bytes x) < 2 ^ 63" "sane_limits (sp_shard sp)"
  shows "within_limits (sp_shard sp)"
proof -
  have shrink: "within_limits (sp_shard sp')"
    if "sane_limits (sp_shard sp) \<Longrightarrow> within_limits (sp_shard sp)" "handled sp sp'" "sane_limits (sp_shard sp')"
      "proc_held sp' \<subseteq> proc_held sp" for sp sp'
    using that within_limits_mono [of "sp_shard sp" "sp_shard sp'"] sane_limits_same [of "sp_shard sp" "sp_shard sp'"]
    by (simp add: handled_def)
  from assms(2-4) show ?thesis
  proof (induction rule: proc_run.induct)
    case (Started c sid s n)
    have "held s = {}" by (rule run_started(2) [OF Started.hyps])
    then have "held_at s p = {}" for p by (simp add: held_at_def)
    with \<open>held s = {}\<close> show ?case by (simp add: NewShardProcessor_def within_limits_def)
  next
    case (FlowSynced sp owned pending key b policy name addr q s)
    have "proc_inv sp" "chan_ok sp" using proc_run_inv [OF assms(1) FlowSynced.hyps(1)] by (simp_all add: run_inv_def)
    from sync_handled [OF this FlowSynced.hyps(2-5)] show ?case
      using shrink [of sp "sp\<lparr>sp_shard := s\<rparr>"] FlowSynced.IH FlowSynced.prems by simp
  next
    case (SubmitSelected sp owned pending x r sp' e)
    have s: "sp_shard sp' = sp_shard sp" using select_cases [OF SubmitSelected.hyps(3)] by (auto simp: send_item_def)
    have "\<forall>x \<in> owned. unat (item_bytes x) < 2 ^ 63" using SubmitSelected.prems(1) by (auto split: if_splits)
    then show ?case using SubmitSelected.IH SubmitSelected.prems(2) by (simp add: s)
  next
    case (Received sp owned pending saturation sp')
    have i: "proc_inv sp" "chan_ok sp" "chan_items (sp_enqueueChan sp) \<subseteq> owned"
      using proc_run_inv [OF assms(1) Received.hyps(1)] by (simp_all add: run_inv_def)
    have "same_limits (sp_shard sp) (sp_shard sp')"
      using run_receive_handled(1) [OF assms(1) i(1,2) Received.hyps(3,4)] by (simp add: handled_def)
    then have sane: "sane_limits (sp_shard sp)" using sane_limits_same Received.prems(2) by blast
    show ?case
      by (rule receive_limits [OF assms(1) i(1,2) Received.hyps(3,4) _ sane]) (use Received.IH Received.prems(1) sane i(3) in auto)
  next
    case (Ticked sp owned pending saturation sp')
    obtain b where d: "dispatchCycle saturation L sp = Some (b, sp')"
      using Ticked.hyps(3) by (auto simp: run_tick_def split: Option.bind_splits)
    have "proc_inv sp" "chan_ok sp" using proc_run_inv [OF assms(1) Ticked.hyps(1)] by (simp_all add: run_inv_def)
    from dispatchCycle_handled [OF assms(1) this d] show ?case using shrink Ticked.IH Ticked.prems by blast
  next
    case (Swept sp owned pending sp')
    have "proc_inv sp" "chan_ok sp" using proc_run_inv [OF assms(1) Swept.hyps(1)] by (simp_all add: run_inv_def)
    from sweep_handled [OF this Swept.hyps(3)] show ?case using shrink Swept.IH Swept.prems by blast
  next
    case (Stopped sp owned pending sp')
    have "proc_inv sp" "chan_ok sp" "\<not> sp_shutdownOnce sp"
      using proc_run_inv [OF assms(1) Stopped.hyps(1)] Stopped.hyps(2) by (simp_all add: run_inv_def)
    from stop_handled(1,2) [OF this Stopped.hyps(4)] show ?case using shrink Stopped.IH Stopped.prems by blast
  qed simp_all
qed

subsection \<open>A concrete run\<close>

definition demo_item :: FlowItem where
  "demo_item = mk_item 4 9 100"

definition demo_proc :: "ShardProcessor option" where
  "demo_proc =
     do { s0 \<leftarrow> newShard ''shard-0'' demo_shard_cfg;
          s1 \<leftarrow> synchronizeFlow (FlowKey [] 0) fcfs_policy (LQ (newListQueue 0)) s0;
          Some (((NewShardProcessor s0 empty_store 1)\<lparr>sp_running := True\<rparr>)\<lparr>sp_shard := s1\<rparr>) }"

text \<open>The item is received while the pool is saturated, so it stays queued.\<close>

definition demo_queued :: "ShardProcessor option" where
  "demo_queued = do { sp \<leftarrow> demo_proc; run_receive 2 DefaultPolicy (send_item (Some demo_item) sp) }"

lemma demo_proc_value:
  "map_option (\<lambda>sp. (length (shard_items (sp_shard sp)), length (sp_enqueueChan sp), sp_running sp, sp_isShuttingDown sp,
     sp_bufferSize sp, unat (sc_MaxBytes (sh_config (sp_shard sp))), map (\<lambda>(p, b). unat (pb_MaxBytes (bd_config b))) (sh_priorityBands (sp_shard sp)))) demo_proc =
   Some (0, 0, True, False, 1, 1000, [1000, 1000])"
  by code_simp

lemma demo_queued_value:
  "map_option (\<lambda>sp. (map fi_ref (shard_items (sp_shard sp)), length (sp_enqueueChan sp), sp_running sp, sp_isShuttingDown sp,
     unat (sc_MaxBytes (sh_config (sp_shard sp))), map (\<lambda>(p, b). unat (pb_MaxBytes (bd_config b))) (sh_priorityBands (sp_shard sp)))) demo_queued =
   Some ([4], 0, True, False, 1000, [1000, 1000])"
  by code_simp

lemma DefaultPolicy_ceilings: "ceilings_ok DefaultPolicy"
  by (simp add: ceilings_ok_def DefaultPolicy_def NewConstPolicy_def)

lemma demo_proc_run:
  assumes "demo_proc = Some sp"
  shows "proc_run DefaultPolicy sp {} {}"
proof -
  obtain s0 s1 where s: "newShard ''shard-0'' demo_shard_cfg = Some s0"
    "synchronizeFlow (FlowKey [] 0) fcfs_policy (LQ (newListQueue 0)) s0 = Some s1"
    "sp = ((NewShardProcessor s0 empty_store 1)\<lparr>sp_running := True\<rparr>)\<lparr>sp_shard := s1\<rparr>"
    using assms by (auto simp: demo_proc_def split: Option.bind_splits)
  have cfg: "shard_cfg_ok demo_shard_cfg" by (simp add: shard_cfg_ok_def demo_shard_cfg_def demo_band_def)
  have "op_Less fcfs_policy = fcfs_Less" by (simp add: fcfs_policy_def)
  then have "orderings_ok demo_shard_cfg"
    using fcfs.strict_weak_axioms by (simp add: orderings_ok_def demo_shard_cfg_def demo_band_def)
  from proc_run.Started [OF cfg this s(1), of DefaultPolicy 1]
  have start: "proc_run DefaultPolicy ((NewShardProcessor s0 empty_store 1)\<lparr>sp_running := True\<rparr>) {} {}" .
  have "gm_get (sh_priorityBands s0) 0 = Some (new_band GlobalStrict demo_band)"
    using newShard_spec [OF cfg, of "''shard-0''" empty_store] s(1) by (auto simp: demo_shard_cfg_def demo_band_def)
  then have "gm_get (sh_priorityBands (sp_shard ((NewShardProcessor s0 empty_store 1)\<lparr>sp_running := True\<rparr>))) (fk_Priority (FlowKey [] 0)) =
      Some (new_band GlobalStrict demo_band)" by (simp add: NewShardProcessor_def)
  from proc_run.FlowSynced [OF start this, of fcfs_policy ListQueueName 0 "LQ (newListQueue 0)" s1] s(2)
  show ?thesis unfolding s(3)
    by (simp add: new_band_def demo_band_def NewQueueFromName_def RegisteredQueues_def NewShardProcessor_def)
qed

lemma demo_sent_run:
  assumes sp: "demo_proc = Some sp"
  shows "proc_run DefaultPolicy (send_item (Some demo_item) sp) {demo_item} {}"
proof -
  have v: "sp_enqueueChan sp = []" "sp_bufferSize sp = 1" "\<not> sp_isShuttingDown sp"
    using demo_proc_value unfolding sp by simp_all
  have "proc_run DefaultPolicy sp {} {demo_item}"
    using proc_run.SubmitChecked [OF demo_proc_run [OF sp] v(3), of demo_item] by simp
  from proc_run.SubmitSelected [OF this, of demo_item None "send_item (Some demo_item) sp" None] show ?thesis
    using v by (simp add: submit_select_def chan_ready_def Let_def)
qed

lemma demo_queued_run:
  assumes "demo_queued = Some sp"
  shows "proc_run DefaultPolicy sp {demo_item} {}"
proof -
  obtain sp0 where sp0: "demo_proc = Some sp0" "run_receive 2 DefaultPolicy (send_item (Some demo_item) sp0) = Some sp"
    using assms by (auto simp: demo_queued_def split: Option.bind_splits)
  have "sp_running sp0" "shard_items (sp_shard sp0) = []" using demo_proc_value unfolding sp0(1) by simp_all
  then show ?thesis using proc_run.Received [OF demo_sent_run [OF sp0(1)] _ _ sp0(2)] by (simp add: send_item_def)
qed

lemma demo_queued_exists:
  obtains sp where "demo_queued = Some sp" "proc_run DefaultPolicy sp {demo_item} {}" "map fi_ref (shard_items (sp_shard sp)) = [4]"
    "sp_enqueueChan sp = []" "sp_running sp" "sane_limits (sp_shard sp)"
proof -
  obtain sp where sp: "demo_queued = Some sp" "map fi_ref (shard_items (sp_shard sp)) = [4]" "sp_enqueueChan sp = []" "sp_running sp"
    "unat (sc_MaxBytes (sh_config (sp_shard sp))) = 1000"
    "map (\<lambda>(p, b). unat (pb_MaxBytes (bd_config b))) (sh_priorityBands (sp_shard sp)) = [1000, 1000]"
    using demo_queued_value by auto
  have "unat (pb_MaxBytes (bd_config b)) = 1000" if "(p, b) \<in> set (sh_priorityBands (sp_shard sp))" for p b
  proof -
    have "unat (pb_MaxBytes (bd_config b)) \<in> set (map (\<lambda>(p, b). unat (pb_MaxBytes (bd_config b))) (sh_priorityBands (sp_shard sp)))"
      using that by force
    then show ?thesis unfolding sp(6) by simp
  qed
  then have "sane_limits (sp_shard sp)" unfolding sane_limits_def using sp(5) gm_get_in by fastforce
  then show ?thesis by (rule that [OF sp(1) demo_queued_run [OF sp(1)] sp(2-4)])
qed

subsection \<open>Properties\<close>

text \<open>C1: No request handed to a shard processor is lost, whatever the order in which submitters, the run loop, the
  sweep, expiring requests and shutdown act: every item whose submission returned nil waits in the channel, or
  waits in exactly the queue of its flow, or has its final state, and then its done channel carries that one state
  and is closed, and the error fits the outcome. It is never in the channel and in a queue at once.\<close>

theorem submitted_never_lost:
  assumes "ceilings_ok L" "proc_run L sp owned pending" "x \<in> owned"
  shows "(x \<in> chan_items (sp_enqueueChan sp) \<or>
     (\<exists>mq. ManagedQueue_of (item_key x) (sp_shard sp) = Inr mq \<and> x \<in> set (mq_items mq)) \<or>
     (\<exists>fs. FinalState_of (sp_store sp) x = Some fs \<and> im_done (st_item (sp_store sp) (fi_ref x)) = [fs] \<and>
        im_doneClosed (st_item (sp_store sp) (fi_ref x)) \<and> outcome_ok (fs_Outcome fs) (fs_Err fs))) \<and>
     \<not> (x \<in> chan_items (sp_enqueueChan sp) \<and> x \<in> held (sp_shard sp))"
proof -
  have inv: "proc_inv sp" "chan_ok sp" "owned \<subseteq> tracked sp" "\<forall>y fs. final_of sp y = Some fs \<longrightarrow> classified fs"
    using proc_run_inv [OF assms(1,2)] by (simp_all add: run_inv_def)
  have "im_done (st_item (sp_store sp) (fi_ref x)) = [fs] \<and> im_doneClosed (st_item (sp_store sp) (fi_ref x))"
    if "FinalState_of (sp_store sp) x = Some fs" for fs
    using that store_ok_item [OF proc_invD(3) [OF inv(1)], of "fi_ref x"] by (simp add: FinalState_of_def item_ok_def)
  moreover have "x \<in> chan_items (sp_enqueueChan sp) \<or> x \<in> held (sp_shard sp) \<or> final_of sp x \<noteq> None"
    using inv(3) assms(3) by (auto simp: tracked_def)
  moreover have "\<not> (x \<in> chan_items (sp_enqueueChan sp) \<and> x \<in> held (sp_shard sp))"
    using inv(2) by (fastforce simp: chan_ok_def)
  ultimately show ?thesis using held_key [OF proc_invD(2) [OF inv(1)], of x] inv(4) by blast
qed

theorem submitted_never_lost_witness:
  "\<exists>sp. proc_run DefaultPolicy sp {demo_item} {} \<and>
     (demo_item \<in> chan_items (sp_enqueueChan sp) \<or>
     (\<exists>mq. ManagedQueue_of (item_key demo_item) (sp_shard sp) = Inr mq \<and> demo_item \<in> set (mq_items mq)) \<or>
     (\<exists>fs. FinalState_of (sp_store sp) demo_item = Some fs))"
proof -
  obtain sp where "proc_run DefaultPolicy sp {demo_item} {}" using demo_queued_exists .
  then show ?thesis using submitted_never_lost [OF DefaultPolicy_ceilings, of sp "{demo_item}" "{}" demo_item] by blast
qed

text \<open>C11: Capacity is respected: as long as no limit exceeds \<open>2 ^ 63\<close> and no submitted request claims \<open>2 ^ 63\<close> bytes or
  more, the requests held by the queues never exceed the byte and request limits of the shard or of any band, in any
  interleaving. Zombies, finalized but not swept, are counted.\<close>

theorem capacity_respected:
  assumes "ceilings_ok L" "proc_run L sp owned pending"
    and "\<forall>x \<in> owned. unat (item_bytes x) < 2 ^ 63" "sane_limits (sp_shard sp)"
  shows "(0 < sc_MaxBytes (sh_config (sp_shard sp)) \<longrightarrow> bytes_in (held (sp_shard sp)) \<le> unat (sc_MaxBytes (sh_config (sp_shard sp)))) \<and>
     (0 < sc_MaxRequests (sh_config (sp_shard sp)) \<longrightarrow> card (held (sp_shard sp)) \<le> unat (sc_MaxRequests (sh_config (sp_shard sp)))) \<and>
     (\<forall>p b. gm_get (sh_priorityBands (sp_shard sp)) p = Some b \<longrightarrow>
        (0 < pb_MaxBytes (bd_config b) \<longrightarrow> bytes_in (held_at (sp_shard sp) p) \<le> unat (pb_MaxBytes (bd_config b))) \<and>
        (0 < pb_MaxRequests (bd_config b) \<longrightarrow> card (held_at (sp_shard sp) p) \<le> unat (pb_MaxRequests (bd_config b))))"
  using proc_run_limits [OF assms] unfolding within_limits_def fits_def by blast

theorem capacity_respected_witness:
  "\<exists>sp. demo_queued = Some sp \<and> held (sp_shard sp) \<noteq> {} \<and>
     (0 < sc_MaxBytes (sh_config (sp_shard sp)) \<longrightarrow> bytes_in (held (sp_shard sp)) \<le> unat (sc_MaxBytes (sh_config (sp_shard sp))))"
proof -
  obtain sp where sp: "demo_queued = Some sp" "proc_run DefaultPolicy sp {demo_item} {}" "map fi_ref (shard_items (sp_shard sp)) = [4]"
    "sane_limits (sp_shard sp)" using demo_queued_exists .
  have "\<forall>x \<in> {demo_item}. unat (item_bytes x) < 2 ^ 63" by (simp add: demo_item_def mk_item_def)
  from capacity_respected [OF DefaultPolicy_ceilings sp(2) this sp(4)] sp(1,3) show ?thesis by (auto simp flip: shard_items_held)
qed



text \<open>C10: Shutdown settles everything: stopping a running processor always completes, leaves channel and queues empty,
  and every request it owned has a final state. A request that was already final keeps its state, a buffered one is
  rejected and a queued one evicted, both with \<open>ErrFlowControllerNotRunning\<close>.\<close>

theorem shutdown_finalizes_all:
  assumes "ceilings_ok L" "proc_run L sp owned pending" "sp_running sp"
  shows "\<exists>sp'. run_stop sp = Some sp' \<and> held (sp_shard sp') = {} \<and> sp_enqueueChan sp' = [] \<and>
     (\<forall>x \<in> owned. FinalState_of (sp_store sp') x =
        Some (case FinalState_of (sp_store sp) x of
                Some fs \<Rightarrow> fs
              | None \<Rightarrow> if x \<in> held (sp_shard sp) then evicted_state else rejected_state))"
proof -
  have inv: "run_inv sp owned pending" by (rule proc_run_inv [OF assms(1,2)])
  have inj: "inj_on fi_ref owned" by (rule inj_on_subset [of _ "owned \<union> pending"]) (use inv in \<open>simp_all add: run_inv_def\<close>)
  have pi: "proc_inv sp" "chan_ok sp" "\<not> sp_shutdownOnce sp" "owned \<subseteq> tracked sp"
    "chan_items (sp_enqueueChan sp) \<subseteq> owned" "proc_held sp \<subseteq> owned"
    using assms(3) inv by (simp_all add: run_inv_def)
  obtain sp' where s: "shutdown sp = Some sp'" "proc_held sp' = {}" "sp_enqueueChan sp' = []"
    and f: "\<forall>y. final_of sp' y = (if final_of sp y \<noteq> None then final_of sp y
         else if fi_ref y \<in> fi_ref ` chan_items (sp_enqueueChan sp) then Some rejected_state
         else if fi_ref y \<in> fi_ref ` proc_held sp then Some evicted_state else None)"
    using shutdown_spec [OF pi(1,3)] by blast
  have "final_of sp' x = Some (case final_of sp x of Some fs \<Rightarrow> fs
      | None \<Rightarrow> if x \<in> held (sp_shard sp) then evicted_state else rejected_state)" if x: "x \<in> owned" for x
  proof -
    have mem: "fi_ref x \<in> fi_ref ` Y \<longleftrightarrow> x \<in> Y" if "Y \<subseteq> owned" for Y
      using inj x that by (rule inj_on_image_mem_iff)
    have "x \<in> held (sp_shard sp) \<Longrightarrow> x \<notin> chan_items (sp_enqueueChan sp)" using pi(2) by (fastforce simp: chan_ok_def)
    then show ?thesis
      using f mem [OF pi(5)] mem [OF pi(6)] pi(4) x
      by (auto simp: tracked_def split: option.splits)
  qed
  then show ?thesis using s by (simp add: run_stop_def)
qed

theorem shutdown_finalizes_all_witness:
  "\<exists>sp sp'. demo_queued = Some sp \<and> run_stop sp = Some sp' \<and> FinalState_of (sp_store sp') demo_item \<noteq> None"
proof -
  obtain sp where sp: "demo_queued = Some sp" "proc_run DefaultPolicy sp {demo_item} {}" "sp_running sp" using demo_queued_exists .
  from shutdown_finalizes_all [OF DefaultPolicy_ceilings sp(2,3)] sp(1) show ?thesis by auto
qed

text \<open>C23: The sweep reclaims exactly the zombies: it always completes, and the requests left in the queues are those
  that have no final state.\<close>

theorem sweep_exact:
  assumes "ceilings_ok L" "proc_run L sp owned pending"
  shows "\<exists>sp'. sweepFinalizedItems sp = Some sp' \<and>
     held (sp_shard sp') = {x \<in> held (sp_shard sp). FinalState_of (sp_store sp) x = None} \<and>
     (\<forall>x. FinalState_of (sp_store sp') x = FinalState_of (sp_store sp) x)"
proof -
  have inv: "proc_inv sp" "chan_ok sp" using proc_run_inv [OF assms] by (simp_all add: run_inv_def)
  obtain sp' where sp': "sweepFinalizedItems sp = Some sp'" "takes {x \<in> proc_held sp. final_of sp x \<noteq> None} dispatched_state sp sp'"
    using sweep.processAll_takes [OF inv(1), of dispatched_state] by (auto simp: sweepFinalizedItems_def)
  have "FinalState_of (sp_store sp') x = FinalState_of (sp_store sp) x" for x
    using sp'(2) by (auto simp: takes_def finalizes_def FinalState_of_def)
  then show ?thesis using sp'(1) sweep_handled(3) [OF inv sp'(1)] by blast
qed

theorem sweep_exact_witness:
  "\<exists>sp sp'. demo_queued = Some sp \<and> sweepFinalizedItems sp = Some sp' \<and>
     held (sp_shard sp') = {x \<in> held (sp_shard sp). FinalState_of (sp_store sp) x = None}"
proof -
  obtain sp where sp: "demo_queued = Some sp" "proc_run DefaultPolicy sp {demo_item} {}" using demo_queued_exists .
  from sweep_exact [OF DefaultPolicy_ceilings sp(2)] sp(1) show ?thesis by blast
qed

text \<open>A submission that overlaps with shutdown can strand its request: the submitter passes the check of
  \<open>isShuttingDown\<close>, the processor drains its channel and stops, and the \<open>select\<close> then takes the send, because the
  channel still has room. The submission returns nil, but the request lies in the channel of a stopped processor
  without a final state.\<close>

theorem late_submission_stranded:
  "\<exists>sp. proc_run DefaultPolicy sp {demo_item} {} \<and> \<not> sp_running sp \<and> demo_item \<in> chan_items (sp_enqueueChan sp) \<and>
     FinalState_of (sp_store sp) demo_item = None"
proof -
  obtain sp where sp: "demo_proc = Some sp" using demo_proc_value by auto
  have v: "sp_enqueueChan sp = []" "sp_bufferSize sp = 1" "\<not> sp_isShuttingDown sp" "sp_running sp" "shard_items (sp_shard sp) = []"
    using demo_proc_value unfolding sp by simp_all
  have "map_option (\<lambda>sp. FinalState_of (sp_store sp) demo_item = None) demo_proc = Some True" by code_simp
  then have fin: "final_of sp demo_item = None" unfolding sp by simp
  let ?sp = "sp\<lparr>sp_lifecycleDone := True\<rparr>"
  have run: "proc_run DefaultPolicy ?sp {} {demo_item}"
    using proc_run.Cancelled [OF proc_run.SubmitChecked [OF demo_proc_run [OF sp] v(3), of demo_item]] by simp
  then have "run_inv ?sp {} {demo_item}" by (rule proc_run_inv [OF DefaultPolicy_ceilings])
  then have "proc_inv ?sp" "\<not> sp_shutdownOnce ?sp" using v(4) by (simp_all add: run_inv_def)
  from shutdown_spec [OF this] obtain sp1 where s: "shutdown ?sp = Some sp1" "proc_held sp1 = {}" "sp_enqueueChan sp1 = []"
    "sp_lifecycleDone sp1" "final_of sp1 demo_item = None"
    using fin v(1,5) by (auto simp flip: shard_items_held)
  have buf: "sp_bufferSize sp1 = 1"
  proof -
    have "map_option sp_bufferSize (do { sp \<leftarrow> demo_proc; shutdown (sp\<lparr>sp_lifecycleDone := True\<rparr>) }) = Some 1" by code_simp
    then show ?thesis unfolding sp using s(1) by simp
  qed
  have "proc_run DefaultPolicy (sp1\<lparr>sp_running := False\<rparr>) {} {demo_item}"
    using proc_run.Stopped [OF run] v(4) s(1) by (simp add: run_stop_def)
  from proc_run.SubmitSelected [OF this, of demo_item None "send_item (Some demo_item) (sp1\<lparr>sp_running := False\<rparr>)" None]
  have "proc_run DefaultPolicy (send_item (Some demo_item) (sp1\<lparr>sp_running := False\<rparr>)) {demo_item} {}"
    using s(3) buf by (simp add: submit_select_def chan_ready_def Let_def)
  then show ?thesis using s by (intro exI [of _ "send_item (Some demo_item) (sp1\<lparr>sp_running := False\<rparr>)"]) (simp add: send_item_def)
qed

text \<open>The capacity check adds in 64 bits and wraps around: with 100 of 1000 bytes in use, a request that claims
  \<open>2 ^ 64 - 50\<close> bytes passes.\<close>

theorem capacity_check_wraps:
  "map_option (\<lambda>sp. (unat (ss_TotalByteSize (shard_Stats (sp_shard sp))), unat (ss_TotalCapacityBytes (shard_Stats (sp_shard sp))),
     hasCapacity 0 (- 50) sp)) demo_queued = Some (100, 1000, True)"
  by code_simp

text \<open>The dispatch cycle reports true for a zombie: when the head of the queue has already expired, the cycle removes
  it and returns true although nothing was dispatched, and the turn of the tick is spent.\<close>

theorem zombie_reported_as_dispatched:
  "map_option (\<lambda>(b, sp). (b, map_option fs_Outcome (FinalState_of (sp_store sp) demo_item), length (shard_items (sp_shard sp))))
     (do { sp \<leftarrow> demo_queued;
           st \<leftarrow> Finalize demo_item ErrTTLExpired (sp_store sp);
           dispatchCycle (1 / 2) DefaultPolicy (sp\<lparr>sp_store := st\<rparr>) }) =
   Some (True, Some QueueOutcomeEvictedTTL, 0)"
  by code_simp

end
