(* ===== verification/Controller.thy ===== *)
theory Controller
  imports Registry ProcessorRun
begin

text \<open>
  The flow controller (\<open>flowcontrol/controller/controller.go\<close> and \<open>config.go\<close>): the distributor in front of the shard
  processors. Its state holds the registry, the store of items and the worker of every shard. A call that takes
  part in a race (a \<open>select\<close>, a submission) has a list of possible results; a result that would panic is
  \<^const>\<open>None\<close>, and an empty list means that the call blocks. Contexts of the Go standard library are modelled by
  their deadline, the cause given for it, and the cause of a cancellation.
\<close>

subsection \<open>Configuration\<close>

record ControllerConfig =
  cc_DefaultRequestTTL :: duration
  cc_ExpiryCleanupInterval :: duration
  cc_ProcessorReconciliationInterval :: duration
  cc_EnqueueChannelBufferSize :: int

definition defaultExpiryCleanupInterval :: duration where
  "defaultExpiryCleanupInterval = 1 * 1000000000"

definition defaultProcessorReconciliationInterval :: duration where
  "defaultProcessorReconciliationInterval = 5 * 1000000000"

definition defaultEnqueueChannelBufferSize :: int where
  "defaultEnqueueChannelBufferSize = 100"

definition WithDefaultRequestTTL :: "duration \<Rightarrow> ControllerConfig \<Rightarrow> ControllerConfig" where
  "WithDefaultRequestTTL d c = c\<lparr>cc_DefaultRequestTTL := d\<rparr>"

definition WithExpiryCleanupInterval :: "duration \<Rightarrow> ControllerConfig \<Rightarrow> ControllerConfig" where
  "WithExpiryCleanupInterval d c = c\<lparr>cc_ExpiryCleanupInterval := d\<rparr>"

definition WithProcessorReconciliationInterval :: "duration \<Rightarrow> ControllerConfig \<Rightarrow> ControllerConfig" where
  "WithProcessorReconciliationInterval d c = c\<lparr>cc_ProcessorReconciliationInterval := d\<rparr>"

definition WithEnqueueChannelBufferSize :: "int \<Rightarrow> ControllerConfig \<Rightarrow> ControllerConfig" where
  "WithEnqueueChannelBufferSize n c = c\<lparr>cc_EnqueueChannelBufferSize := n\<rparr>"

definition controller_validate :: "ControllerConfig \<Rightarrow> fc_error option" where
  "controller_validate c =
     (if cc_DefaultRequestTTL c < 0 then Some (ErrMsg ''DefaultRequestTTL cannot be negative'')
      else if cc_ExpiryCleanupInterval c \<le> 0 then Some (ErrMsg ''ExpiryCleanupInterval must be positive'')
      else if cc_ProcessorReconciliationInterval c \<le> 0 then Some (ErrMsg ''ProcessorReconciliationInterval must be positive'')
      else if cc_EnqueueChannelBufferSize c < 0 then Some (ErrMsg ''EnqueueChannelBufferSize cannot be negative'')
      else None)"

definition controller_NewConfig :: "(ControllerConfig \<Rightarrow> ControllerConfig) list \<Rightarrow> fc_error + ControllerConfig" where
  "controller_NewConfig opts =
     (let c = fold (\<lambda>opt c. opt c) opts
                \<lparr>cc_DefaultRequestTTL = 0, cc_ExpiryCleanupInterval = defaultExpiryCleanupInterval,
                 cc_ProcessorReconciliationInterval = defaultProcessorReconciliationInterval,
                 cc_EnqueueChannelBufferSize = defaultEnqueueChannelBufferSize\<rparr>
      in case controller_validate c of Some err \<Rightarrow> Inl err | None \<Rightarrow> Inr c)"

text \<open>The API configuration may be missing, and so may its TTL.\<close>

definition controller_NewConfigFromAPI :: "duration option option \<Rightarrow> fc_error + ControllerConfig" where
  "controller_NewConfigFromAPI apiConfig =
     controller_NewConfig
       (case apiConfig of
          None \<Rightarrow> []
        | Some ttl \<Rightarrow> (case ttl of None \<Rightarrow> [] | Some d \<Rightarrow> [WithDefaultRequestTTL d]))"

subsection \<open>Request contexts\<close>

record Context =
  ctx_Deadline :: "time option"
  ctx_DeadlineCause :: fc_error
  ctx_cancelCause :: "fc_error option"

definition WithDeadlineCause :: "Context \<Rightarrow> time \<Rightarrow> fc_error \<Rightarrow> Context" where
  "WithDeadlineCause parent d cause =
     (case ctx_Deadline parent of
        Some cur \<Rightarrow> if cur < d then parent else parent\<lparr>ctx_Deadline := Some d, ctx_DeadlineCause := cause\<rparr>
      | None \<Rightarrow> parent\<lparr>ctx_Deadline := Some d, ctx_DeadlineCause := cause\<rparr>)"

text \<open>\<open>ctx.Err()\<close> and \<open>context.Cause(ctx)\<close> at a given instant.\<close>

definition ctx_Err :: "time \<Rightarrow> Context \<Rightarrow> fc_error option" where
  "ctx_Err now c =
     (if ctx_cancelCause c \<noteq> None then Some Canceled
      else (case ctx_Deadline c of None \<Rightarrow> None | Some d \<Rightarrow> if d \<le> now then Some DeadlineExceeded else None))"

definition ctx_Cause :: "time \<Rightarrow> Context \<Rightarrow> fc_error option" where
  "ctx_Cause now c =
     (case ctx_cancelCause c of
        Some e \<Rightarrow> Some e
      | None \<Rightarrow> (case ctx_Deadline c of None \<Rightarrow> None | Some d \<Rightarrow> if d \<le> now then Some (ctx_DeadlineCause c) else None))"

definition createRequestContext :: "ControllerConfig \<Rightarrow> time \<Rightarrow> Context \<Rightarrow> FlowControlRequest \<Rightarrow> Context \<times> time" where
  "createRequestContext cfg now ctx req =
     (let enqueueTime = now;
          effectiveTTL = (if rq_InitialEffectiveTTL req \<le> 0 then cc_DefaultRequestTTL cfg else rq_InitialEffectiveTTL req)
      in if effectiveTTL > 0 then (WithDeadlineCause ctx (enqueueTime + effectiveTTL) ErrTTLExpired, enqueueTime)
         else (ctx, enqueueTime))"

subsection \<open>Workers\<close>

record FlowController =
  fc_config :: ControllerConfig
  fc_registry :: FlowRegistry
  fc_store :: Store
  fc_workers :: "(string, ShardProcessor) gomap"
  fc_parentDone :: bool

definition NewFlowController :: "ControllerConfig \<Rightarrow> FlowRegistry \<Rightarrow> Store \<Rightarrow> FlowController" where
  "NewFlowController config registry st =
     \<lparr>fc_config = config, fc_registry = registry, fc_store = st, fc_workers = [], fc_parentDone = False\<rparr>"

definition getOrStartWorker :: "registryShard \<Rightarrow> FlowController \<Rightarrow> FlowController" where
  "getOrStartWorker shard fc =
     (if gm_get (fc_workers fc) (sh_id shard) \<noteq> None then fc
      else (let processor = NewShardProcessor shard (fc_store fc) (nat (cc_EnqueueChannelBufferSize (fc_config fc)))
            in fc\<lparr>fc_workers := gm_set (sh_id shard)
                     (processor\<lparr>sp_running := True, sp_lifecycleDone := fc_parentDone fc\<rparr>) (fc_workers fc)\<rparr>))"

record candidate =
  cd_shardID :: string
  cd_byteSize :: uint64

fun collect_candidates :: "FlowKey \<Rightarrow> registryShard list \<Rightarrow> FlowController \<Rightarrow> candidate list \<times> FlowController" where
  "collect_candidates key [] fc = ([], fc)"
| "collect_candidates key (shard # shards) fc =
     (let fc1 = getOrStartWorker shard fc;
          (cs, fc2) = collect_candidates key shards fc1
      in case ManagedQueue_of key shard of
           Inl err \<Rightarrow> (cs, fc2)
         | Inr mq \<Rightarrow> (\<lparr>cd_shardID = sh_id shard, cd_byteSize = mq_ByteSize mq\<rparr> # cs, fc2))"

definition selectDistributionCandidates :: "FlowKey \<Rightarrow> FlowController \<Rightarrow> (fc_error + candidate list) \<times> FlowController" where
  "selectDistributionCandidates key fc =
     (let shards = ActiveShards (fc_registry fc) in
      if length shards = 0 then (Inl (Errorf [errNoShards]), fc)
      else (let (candidates, fc1) = collect_candidates key shards fc in
            if length candidates = 0 then (Inl (Errorf [errNoShards]), fc1)
            else (Inr (sort_key cd_byteSize candidates), fc1)))"

subsection \<open>Distribution\<close>

text \<open>A submission to the worker of a candidate. The worker of a candidate was started when it was collected.\<close>

definition worker_call :: "(ShardProcessor \<Rightarrow> (fc_error option \<times> ShardProcessor) list) \<Rightarrow> candidate \<Rightarrow> FlowController
    \<Rightarrow> (fc_error option \<times> FlowController) option list" where
  "worker_call f c fc =
     (case gm_get (fc_workers fc) (cd_shardID c) of
        None \<Rightarrow> [None]
      | Some w \<Rightarrow> map (\<lambda>(r, w'). Some (r, fc\<lparr>fc_workers := gm_set (cd_shardID c) w' (fc_workers fc)\<rparr>)) (f w))"

text \<open>Phase one: the first candidate whose channel takes the item without blocking.\<close>

fun fast_failover :: "FlowItem \<Rightarrow> candidate list \<Rightarrow> FlowController \<Rightarrow> (bool \<times> FlowController) option list" where
  "fast_failover item [] fc = [Some (False, fc)]"
| "fast_failover item (c # cs) fc =
     concat (map (\<lambda>res. case res of
                          None \<Rightarrow> [None]
                        | Some (None, fc') \<Rightarrow> [Some (True, fc')]
                        | Some (Some e, fc') \<Rightarrow> fast_failover item cs fc')
               (worker_call (Submit (Some item)) c fc))"

text \<open>Phase two: one blocking submission to the least loaded candidate.\<close>

definition blocking_submit :: "fc_error option \<Rightarrow> FlowItem \<Rightarrow> candidate \<Rightarrow> FlowController
    \<Rightarrow> (QueueOutcome \<times> fc_error option \<times> FlowController) option list" where
  "blocking_submit ctxErr item bestCandidate fc =
     map (map_option (\<lambda>(r, fc'). case r of
                                   None \<Rightarrow> (QueueOutcomeNotYetFinalized, None, fc')
                                 | Some err \<Rightarrow> (QueueOutcomeRejectedOther, Some (Errorf [ErrRejected, err]), fc')))
       (worker_call (SubmitOrBlock ctxErr (Some item)) bestCandidate fc)"

definition distributeRequest :: "fc_error option \<Rightarrow> FlowItem \<Rightarrow> candidate list \<Rightarrow> FlowController
    \<Rightarrow> (QueueOutcome \<times> fc_error option \<times> FlowController) option list" where
  "distributeRequest ctxErr item candidates fc =
     concat (map (\<lambda>res. case res of
         None \<Rightarrow> [None]
       | Some (accepted, fc') \<Rightarrow>
           if accepted then [Some (QueueOutcomeNotYetFinalized, None, fc')]
           else (case candidates of [] \<Rightarrow> [None] | bestCandidate # _ \<Rightarrow> blocking_submit ctxErr item bestCandidate fc'))
       (fast_failover item candidates fc))"

text \<open>The item of an attempt; \<open>ref\<close> is its address.\<close>

definition attempt_item :: "ControllerConfig \<Rightarrow> Context \<Rightarrow> FlowControlRequest \<Rightarrow> time \<Rightarrow> nat \<Rightarrow> FlowItem" where
  "attempt_item cfg reqCtx req enqueueTime ref =
     (let effectiveTTL =
            (case ctx_Deadline reqCtx of
               None \<Rightarrow> cc_DefaultRequestTTL cfg
             | Some deadline \<Rightarrow> if deadline - enqueueTime > 0 then deadline - enqueueTime else cc_DefaultRequestTTL cfg)
      in \<lparr>fi_ref = ref, fi_enqueueTime = enqueueTime, fi_effectiveTTL = effectiveTTL, fi_originalRequest = req\<rparr>)"

text \<open>After \<open>distributeRequest\<close>: with an error the controller still owns the item and finalizes it.\<close>

definition settle_distribution :: "fc_error option \<Rightarrow> FlowItem \<Rightarrow> QueueOutcome \<times> fc_error option \<times> FlowController
    \<Rightarrow> (FlowItem \<times> fc_error option \<times> FlowController) option" where
  "settle_distribution ctxCause item = (\<lambda>(outcome, err, fc).
     (case err of
        None \<Rightarrow> Some (item, None, fc)
      | Some e \<Rightarrow>
          if errors_Is e Canceled \<or> errors_Is e DeadlineExceeded
          then do { cause \<leftarrow> ctxCause;
                    st \<leftarrow> Finalize item cause (fc_store fc);
                    Some (item, Some e, fc\<lparr>fc_store := st\<rparr>) }
          else (let finalErr = Errorf [ErrRejected, e]
                in do { st \<leftarrow> FinalizeWithOutcome item outcome (Some finalErr) (fc_store fc);
                        Some (item, Some finalErr, fc\<lparr>fc_store := st\<rparr>) })))"

definition tryDistribution :: "time \<Rightarrow> Context \<Rightarrow> FlowControlRequest \<Rightarrow> time \<Rightarrow> nat \<Rightarrow> FlowController
    \<Rightarrow> (FlowItem \<times> fc_error option \<times> FlowController) option list" where
  "tryDistribution now reqCtx req enqueueTime ref fc =
     (let item = attempt_item (fc_config fc) reqCtx req enqueueTime ref;
          fc0 = fc\<lparr>fc_store := (fc_store fc)\<lparr>st_item := (st_item (fc_store fc))(ref := NewItem)\<rparr>\<rparr>;
          (cands, fc1) = selectDistributionCandidates (rq_FlowKey req) fc0
      in case cands of
           Inl err \<Rightarrow>
             (let outcome = (if errors_Is err errNoShards then QueueOutcomeRejectedCapacity else QueueOutcomeRejectedOther);
                  finalErr = Errorf [ErrRejected, err]
              in [do { st \<leftarrow> FinalizeWithOutcome item outcome (Some finalErr) (fc_store fc1);
                       Some (item, Some finalErr, fc1\<lparr>fc_store := st\<rparr>) }])
         | Inr candidates \<Rightarrow>
             map (\<lambda>res. Option.bind res (settle_distribution (ctx_Cause now reqCtx) item))
               (distributeRequest (ctx_Err now reqCtx) item candidates fc1))"

text \<open>The done channel holds at most the one final state; \<open>cause\<close> is the cause of the request context once it is
  done.\<close>

definition awaitFinalization :: "fc_error option \<Rightarrow> FlowItem \<Rightarrow> Store \<Rightarrow> (QueueOutcome \<times> fc_error option \<times> Store) option list" where
  "awaitFinalization cause item st =
     (case cause of
        None \<Rightarrow> []
      | Some c \<Rightarrow> [do { st' \<leftarrow> Finalize item c st;
                       finalState \<leftarrow> FinalState_of st' item;
                       Some (fs_Outcome finalState, fs_Err finalState, st') }]) @
     (case im_done (st_item st (fi_ref item)) of
        [] \<Rightarrow> []
      | finalState # _ \<Rightarrow> [Some (fs_Outcome finalState, fs_Err finalState, st)])"

subsection \<open>EnqueueAndWait\<close>

text \<open>One round of the distribution loop, cut where the caller blocks: the part up to the submission, which either
  returns or leaves an item to wait for, and the part after the wait, which either returns or tries again.\<close>

datatype round_result = Return QueueOutcome "fc_error option" | Await FlowItem | Retry

definition distribute_round :: "time \<Rightarrow> Context \<Rightarrow> FlowControlRequest \<Rightarrow> time \<Rightarrow> nat \<Rightarrow> FlowController
    \<Rightarrow> (round_result \<times> FlowController) option list" where
  "distribute_round now reqCtx req enqueueTime ref fc =
     (if fc_parentDone fc
      then [Some (Return QueueOutcomeRejectedOther (Some (Errorf [ErrRejected, ErrFlowControllerNotRunning])), fc)]
      else map (\<lambda>res. do { (item, err, fc') \<leftarrow> res;
                           (case err of
                              None \<Rightarrow> Some (Await item, fc')
                            | Some e \<Rightarrow> do { finalState \<leftarrow> FinalState_of (fc_store fc') item;
                                            Some (Return (fs_Outcome finalState) (fs_Err finalState), fc') }) })
             (tryDistribution now reqCtx req enqueueTime ref fc))"

definition await_round :: "fc_error option \<Rightarrow> FlowItem \<Rightarrow> FlowController \<Rightarrow> (round_result \<times> FlowController) option list" where
  "await_round cause item fc =
     map (\<lambda>res. do { (outcome, err, st) \<leftarrow> res;
                     (case err of
                        None \<Rightarrow> Some (Return outcome None, fc\<lparr>fc_store := st\<rparr>)
                      | Some e \<Rightarrow> if errors_Is e ErrShardDraining then Some (Retry, fc\<lparr>fc_store := st\<rparr>)
                                  else Some (Return outcome (Some e), fc\<lparr>fc_store := st\<rparr>)) })
       (awaitFinalization cause item (fc_store fc))"

text \<open>What the caller gets: \<open>err\<close> is what \<open>WithConnection\<close> returned, \<open>finalOutcome\<close> what the loop left, if it ran.\<close>

definition EnqueueAndWait_result :: "QueueOutcome \<Rightarrow> fc_error option \<Rightarrow> QueueOutcome \<times> fc_error option" where
  "EnqueueAndWait_result finalOutcome err =
     (case err of
        Some e \<Rightarrow> if finalOutcome = QueueOutcomeNotYetFinalized then (QueueOutcomeRejectedOther, Some (Errorf [ErrRejected, e]))
                  else (finalOutcome, err)
      | None \<Rightarrow> (finalOutcome, err))"

text \<open>A request over time: it connects at \<open>opened\<close>, distributes, waits, perhaps starts over, and returns, releasing its
  connection. The clock moves between the rounds and the other goroutines change the controller in any way that keeps
  the store consistent (\<open>env_ok\<close>).\<close>

datatype phase = Distributing | Waiting FlowItem | Finished QueueOutcome "fc_error option"

fun phase_of :: "round_result \<Rightarrow> phase" where
  "phase_of (Return oc err) = (case EnqueueAndWait_result oc err of (oc', err') \<Rightarrow> Finished oc' err')"
| "phase_of (Await item) = Waiting item"
| "phase_of Retry = Distributing"

fun after_round :: "time \<Rightarrow> FlowKey \<Rightarrow> round_result \<Rightarrow> FlowController \<Rightarrow> FlowController" where
  "after_round opened key (Return oc err) fc = fc\<lparr>fc_registry := release opened key (fc_registry fc)\<rparr>"
| "after_round opened key (Await item) fc = fc"
| "after_round opened key Retry fc = fc"

inductive EnqueueAndWait :: "(FlowController \<Rightarrow> bool) \<Rightarrow> Context \<Rightarrow> FlowControlRequest \<Rightarrow> time \<Rightarrow> time \<Rightarrow> phase \<Rightarrow> FlowController \<Rightarrow> bool"
  for env_ok ctx req enqueueTime opened where
  Connected: "env_ok fc \<Longrightarrow> acquire opened (rq_FlowKey req) (fc_registry fc) = Some (None, fr) \<Longrightarrow>
    EnqueueAndWait env_ok ctx req enqueueTime opened Distributing (fc\<lparr>fc_registry := fr\<rparr>)"
| Refused: "env_ok fc \<Longrightarrow> acquire opened (rq_FlowKey req) (fc_registry fc) = Some (Some e, fr) \<Longrightarrow>
    EnqueueAndWait env_ok ctx req enqueueTime opened (phase_of (Return QueueOutcomeNotYetFinalized (Some e))) (fc\<lparr>fc_registry := fr\<rparr>)"
| Others: "EnqueueAndWait env_ok ctx req enqueueTime opened ph fc \<Longrightarrow> env_ok fc' \<Longrightarrow> EnqueueAndWait env_ok ctx req enqueueTime opened ph fc'"
| Distributed: "EnqueueAndWait env_ok ctx req enqueueTime opened Distributing fc \<Longrightarrow>
    createRequestContext (fc_config fc) enqueueTime ctx req = (reqCtx, t) \<Longrightarrow>
    Some (r, fc') \<in> set (distribute_round now reqCtx req enqueueTime ref fc) \<Longrightarrow>
    EnqueueAndWait env_ok ctx req enqueueTime opened (phase_of r) (after_round opened (rq_FlowKey req) r fc')"
| Awaited: "EnqueueAndWait env_ok ctx req enqueueTime opened (Waiting item) fc \<Longrightarrow>
    createRequestContext (fc_config fc) enqueueTime ctx req = (reqCtx, t) \<Longrightarrow>
    Some (r, fc') \<in> set (await_round (ctx_Cause now reqCtx) item fc) \<Longrightarrow>
    EnqueueAndWait env_ok ctx req enqueueTime opened (phase_of r) (after_round opened (rq_FlowKey req) r fc')"

subsection \<open>Supervision\<close>

text \<open>\<open>worker.cancel()\<close> ends the context of the worker; deleting it from the map hides it from new requests. The
  cancelled processors are returned, they shut down on their own.\<close>

definition reconcileProcessors :: "FlowController \<Rightarrow> ShardProcessor list \<times> FlowController" where
  "reconcileProcessors fc =
     (let activeShards = map ss_ID (registry_ShardStats (fc_registry fc))
      in (map (\<lambda>(i, w). w\<lparr>sp_lifecycleDone := True\<rparr>) (filter (\<lambda>(i, w). i \<notin> set activeShards) (fc_workers fc)),
          fc\<lparr>fc_workers := filter (\<lambda>(i, w). i \<in> set activeShards) (fc_workers fc)\<rparr>))"

text \<open>A worker shares its shard with the registry and its items with the store. One of its handlers runs on the current
  shard and store, and the deltas it reports reach the registry.\<close>

definition run_worker :: "(ShardProcessor \<Rightarrow> ShardProcessor option) \<Rightarrow> string \<Rightarrow> FlowController \<Rightarrow> FlowController option" where
  "run_worker f i fc =
     do { w \<leftarrow> gm_get (fc_workers fc) i;
          w' \<leftarrow> f (w\<lparr>sp_store := fc_store fc, sp_shard := fr_shard (fc_registry fc), sp_reported := []\<rparr>);
          fr \<leftarrow> registry_propagate (sp_reported w') ((fc_registry fc)\<lparr>fr_shard := sp_shard w'\<rparr>);
          Some (fc\<lparr>fc_registry := fr, fc_store := sp_store w', fc_workers := gm_set i w' (fc_workers fc)\<rparr>) }"

text \<open>Shutdown cancels every worker and waits until each has run its own shutdown.\<close>

definition stop_worker :: "ShardProcessor \<Rightarrow> ShardProcessor option" where
  "stop_worker w = (if sp_running w then run_stop w else Some w)"

fun stop_workers :: "string list \<Rightarrow> FlowController \<Rightarrow> FlowController option" where
  "stop_workers [] fc = Some fc"
| "stop_workers (i # is) fc = do { fc' \<leftarrow> run_worker stop_worker i fc; stop_workers is fc' }"

definition controller_shutdown :: "FlowController \<Rightarrow> FlowController option" where
  "controller_shutdown fc =
     (let fc' = fc\<lparr>fc_workers := map (\<lambda>(i, w). (i, w\<lparr>sp_lifecycleDone := True\<rparr>)) (fc_workers fc)\<rparr>
      in stop_workers (map fst (fc_workers fc')) fc')"

end
