(* ===== verification/RegistryProofs.thy ===== *)
theory RegistryProofs
  imports Registry
begin

text \<open>
  The registry's invariant and that every method keeps it: configuration, shard and statistics agree
  band by band; every flow has its queue and every queue its flow; a flow's lease count is the number of
  open connections to it and a band's lease count is the number of its flows.
\<close>

subsection \<open>Partitioning for the single shard\<close>

definition config_keys :: "Config \<Rightarrow> bool" where
  "config_keys c \<longleftrightarrow> gm_ok (cf_PriorityBands c) \<and> (\<forall>e \<in> set (cf_PriorityBands c). pb_Priority (snd e) = fst e)"

lemma partition_bands_one:
  assumes "gm_ok m" "\<forall>e \<in> set m. pb_Priority (snd e) = fst e"
  shows "\<exists>m'. partition_bands 0 1 m = Some m' \<and> gm_ok m' \<and> (\<forall>p. gm_get m' p = gm_get m p)"
  using assms
proof (induction m)
  case (Cons e m)
  obtain p b where e: "e = (p, b)" by (cases e)
  then have p: "pb_Priority b = p" using Cons.prems(2) by simp
  obtain m' where m': "partition_bands 0 1 m = Some m'" "gm_ok m'" "\<forall>p. gm_get m' p = gm_get m p"
    using Cons by auto
  have "partition_bands 0 1 (e # m) = Some (gm_set p b m')" using e p m'(1) by (simp add: partition_one)
  moreover have "gm_ok (gm_set p b m')" using m'(2) by (simp add: distinct_update)
  ultimately show ?case using e m'(3) by (simp add: update_conv')
qed simp

lemma config_partition_one:
  assumes "config_ok c" "config_keys c"
  shows "\<exists>sc. config_partition 0 1 c = Some sc \<and> shard_cfg_ok sc \<and> sc_MaxBytes sc = cf_MaxBytes c \<and>
     sc_MaxRequests sc = cf_MaxRequests c \<and> (\<forall>p. gm_get (sc_PriorityBands sc) p = gm_get (cf_PriorityBands c) p)"
proof -
  obtain m where m: "partition_bands 0 1 (cf_PriorityBands c) = Some m" "gm_ok m" "\<forall>p. gm_get m p = gm_get (cf_PriorityBands c) p"
    using partition_bands_one [of "cf_PriorityBands c"] assms(2) by (auto simp: config_keys_def)
  have "pb_FairnessPolicy b \<noteq> None \<and> pb_Priority b = p" if "(p, b) \<in> set m" for p b
  proof -
    have "gm_get (cf_PriorityBands c) p = Some b" using that m by (metis map_of_is_SomeI)
    then have "(p, b) \<in> set (cf_PriorityBands c)" by (rule gm_get_in)
    then show ?thesis using assms by (fastforce simp: config_ok_def config_keys_def band_ok_def)
  qed
  then show ?thesis using m by (auto simp: config_partition_def partition_one shard_cfg_ok_def)
qed

subsection \<open>The invariant\<close>

definition stats_of :: "priorityBand \<Rightarrow> bandStats" where
  "stats_of b = \<lparr>bst_byteSize = bd_byteSize b, bst_len = bd_len b\<rparr>"

lemma stats_of_simps [simp]:
  "stats_of (b\<lparr>bd_config := c\<rparr>) = stats_of b" "stats_of (b\<lparr>bd_queues := q\<rparr>) = stats_of b"
  "stats_of (new_band fp c) = new_bandStats"
  by (simp_all add: stats_of_def new_bandStats_def)

definition topo_ok :: "Store \<Rightarrow> FlowRegistry \<Rightarrow> bool" where
  "topo_ok st fr \<longleftrightarrow> config_ok (fr_config fr) \<and> config_keys (fr_config fr) \<and> shard_wf st (fr_shard fr) \<and>
     levels_ok (fr_shard fr) \<and> \<not> sh_isDraining (fr_shard fr) \<and>
     (\<forall>p. gm_get (cf_PriorityBands (fr_config fr)) p = map_option bd_config (gm_get (sh_priorityBands (fr_shard fr)) p)) \<and>
     sc_MaxBytes (sh_config (fr_shard fr)) = cf_MaxBytes (fr_config fr) \<and>
     sc_MaxRequests (sh_config (fr_shard fr)) = cf_MaxRequests (fr_config fr) \<and>
     (\<forall>p. gm_get (fr_perPriorityBandStats fr) p = map_option stats_of (gm_get (sh_priorityBands (fr_shard fr)) p)) \<and>
     gm_ok (fr_perPriorityBandStats fr) \<and>
     fr_totalLen fr = sh_totalLen (fr_shard fr) \<and> fr_totalByteSize fr = sh_totalByteSize (fr_shard fr)"

definition has_queue :: "FlowRegistry \<Rightarrow> FlowKey \<Rightarrow> bool" where
  "has_queue fr key \<longleftrightarrow> (\<exists>m. queue_in (fr_shard fr) key m)"

definition flows_at :: "int \<Rightarrow> (FlowKey, flowState) gomap \<Rightarrow> nat" where
  "flows_at p m = length (filter (\<lambda>e. fk_Priority (fst e) = p) m)"

definition flow_good :: "FlowKey \<Rightarrow> flowState \<Rightarrow> bool" where
  "flow_good key s \<longleftrightarrow> fl_key s = key \<and> \<not> ls_markedForDeletion s \<and> fl_initialized s \<and> fl_initErr s = None"

definition bands_ok :: "(FlowKey, flowState) gomap \<Rightarrow> (int, priorityBandState) gomap \<Rightarrow> bool" where
  "bands_ok F B \<longleftrightarrow> gm_ok B \<and>
     (\<forall>p b. gm_get B p = Some b \<longrightarrow> ps_priority b = p \<and> \<not> ls_markedForDeletion b \<and> ls_leaseCount b = int (flows_at p F)) \<and>
     (\<forall>key. gm_get F key \<noteq> None \<longrightarrow> gm_get B (fk_Priority key) \<noteq> None)"

definition flows_ok :: "FlowKey list \<Rightarrow> (FlowKey, flowState) gomap \<Rightarrow> bool" where
  "flows_ok sess F \<longleftrightarrow> gm_ok F \<and>
     (\<forall>key s. gm_get F key = Some s \<longrightarrow> flow_good key s \<and> ls_leaseCount s = int (count_list sess key)) \<and>
     (\<forall>key \<in> set sess. gm_get F key \<noteq> None)"

definition reg_inv :: "Store \<Rightarrow> FlowKey list \<Rightarrow> FlowRegistry \<Rightarrow> bool" where
  "reg_inv st sess fr \<longleftrightarrow> topo_ok st fr \<and> flows_ok sess (fr_flowStates fr) \<and>
     bands_ok (fr_flowStates fr) (fr_priorityBandStates fr) \<and>
     (\<forall>key. has_queue fr key \<longleftrightarrow> gm_get (fr_flowStates fr) key \<noteq> None)"

lemma flows_at_set:
  assumes "gm_get F key = Some s"
  shows "flows_at p (gm_set key s' F) = flows_at p F"
proof -
  have "flows_at p m = length (filter (\<lambda>k. fk_Priority k = p) (map fst m))" for m :: "(FlowKey, flowState) gomap"
    by (simp add: flows_at_def filter_map comp_def)
  then show ?thesis using gm_set_keys [of F key s'] assms by (metis option.discI)
qed

lemma flows_at_new:
  "gm_get F key = None \<Longrightarrow> flows_at p (gm_set key s F) = flows_at p F + (if fk_Priority key = p then 1 else 0)"
  by (simp add: gm_set_new flows_at_def)

lemma flows_at_0: "flows_at p F = 0 \<longleftrightarrow> (\<forall>key. fk_Priority key = p \<longrightarrow> gm_get F key = None)"
  by (force simp: flows_at_def filter_empty_conv gm_get_None)

subsection \<open>Provisioning\<close>

text \<open>A repartition only copies the configuration again.\<close>

lemma repartition_spec:
  assumes "config_ok (fr_config fr)" "config_keys (fr_config fr)" "shard_wf st (fr_shard fr)"
    and sub: "\<And>p. gm_get (sh_priorityBands (fr_shard fr)) p \<noteq> None \<Longrightarrow> gm_get (cf_PriorityBands (fr_config fr)) p \<noteq> None"
  shows "\<exists>s'. repartitionShardConfigsLocked fr = Some (fr\<lparr>fr_shard := s'\<rparr>) \<and> shard_wf st s' \<and>
     (levels_ok (fr_shard fr) \<longrightarrow> levels_ok s') \<and> shard_cfg_ok (sh_config s') \<and>
     (\<forall>p. gm_get (sc_PriorityBands (sh_config s')) p = gm_get (cf_PriorityBands (fr_config fr)) p) \<and>
     sc_MaxBytes (sh_config s') = cf_MaxBytes (fr_config fr) \<and> sc_MaxRequests (sh_config s') = cf_MaxRequests (fr_config fr) \<and>
     (\<forall>p. map_option bd_config (gm_get (sh_priorityBands s') p) =
        (if gm_get (sh_priorityBands (fr_shard fr)) p = None then None else gm_get (cf_PriorityBands (fr_config fr)) p)) \<and>
     queue_in s' = queue_in (fr_shard fr) \<and> sh_isDraining s' = sh_isDraining (fr_shard fr) \<and>
     sh_totalLen s' = sh_totalLen (fr_shard fr) \<and> sh_totalByteSize s' = sh_totalByteSize (fr_shard fr) \<and>
     (\<forall>p. map_option stats_of (gm_get (sh_priorityBands s') p) = map_option stats_of (gm_get (sh_priorityBands (fr_shard fr)) p))"
proof -
  obtain sc where sc: "config_partition 0 1 (fr_config fr) = Some sc" "shard_cfg_ok sc"
    "\<forall>p. gm_get (sc_PriorityBands sc) p = gm_get (cf_PriorityBands (fr_config fr)) p"
    "sc_MaxBytes sc = cf_MaxBytes (fr_config fr)" "sc_MaxRequests sc = cf_MaxRequests (fr_config fr)"
    using config_partition_one [OF assms(1,2)] by blast
  have c: "\<exists>c. gm_get (sc_PriorityBands sc) p = Some c \<and> pb_Priority c = p"
    if "p \<in> fst ` set (sh_priorityBands (fr_shard fr))" for p
  proof -
    have "gm_get (sh_priorityBands (fr_shard fr)) p \<noteq> None" using that by (simp add: map_of_eq_None_iff)
    then obtain c where c: "gm_get (cf_PriorityBands (fr_config fr)) p = Some c" using sub by blast
    moreover have "pb_Priority c = p" using assms(2) gm_get_in [OF c] unfolding config_keys_def by fastforce
    ultimately show ?thesis using sc(3) by simp
  qed
  obtain s' where s': "updateConfig sc (fr_shard fr) = Some s'" "shard_wf st s'" "levels_ok (fr_shard fr) \<longrightarrow> levels_ok s'"
    "sh_config s' = sc" "queue_in s' = queue_in (fr_shard fr)" "sh_isDraining s' = sh_isDraining (fr_shard fr)"
    "sh_totalLen s' = sh_totalLen (fr_shard fr)" "sh_totalByteSize s' = sh_totalByteSize (fr_shard fr)"
    and g: "\<forall>p. gm_get (sh_priorityBands s') p =
        map_option (\<lambda>b. b\<lparr>bd_config := the (gm_get (sc_PriorityBands sc) p)\<rparr>) (gm_get (sh_priorityBands (fr_shard fr)) p)"
    using updateConfig_spec [OF assms(3) c] by blast
  have "map_option stats_of (gm_get (sh_priorityBands s') p) = map_option stats_of (gm_get (sh_priorityBands (fr_shard fr)) p)" for p
    using g by (simp add: option.map_comp comp_def)
  moreover have "map_option bd_config (gm_get (sh_priorityBands s') p) =
      (if gm_get (sh_priorityBands (fr_shard fr)) p = None then None else gm_get (cf_PriorityBands (fr_config fr)) p)" for p
    using g sc(3) sub [of p] by (cases "gm_get (sh_priorityBands (fr_shard fr)) p") auto
  ultimately show ?thesis
    using s' sc by (intro exI [of _ s']) (simp add: repartitionShardConfigsLocked_def)
qed

lemma band_ok_priority: "band_ok (t\<lparr>pb_Priority := p\<rparr>) = band_ok t"
  by (simp add: band_ok_def)

lemma ensurePriorityBand_spec:
  assumes topo: "topo_ok st fr" and none: "gm_get (cf_PriorityBands (fr_config fr)) p = None"
    and b: "gm_get (fr_priorityBandStates fr) p \<noteq> None"
  shows "\<exists>fr'. ensurePriorityBand p fr = Some (None, fr') \<and> topo_ok st fr' \<and>
     gm_get (cf_PriorityBands (fr_config fr')) p \<noteq> None \<and> fr_flowStates fr' = fr_flowStates fr \<and>
     fr_priorityBandStates fr' = fr_priorityBandStates fr \<and> queue_in (fr_shard fr') = queue_in (fr_shard fr)"
proof -
  have t: "config_ok (fr_config fr)" "config_keys (fr_config fr)" "shard_wf st (fr_shard fr)" "levels_ok (fr_shard fr)"
    "\<not> sh_isDraining (fr_shard fr)"
    "\<And>p. gm_get (cf_PriorityBands (fr_config fr)) p = map_option bd_config (gm_get (sh_priorityBands (fr_shard fr)) p)"
    "\<And>p. gm_get (fr_perPriorityBandStats fr) p = map_option stats_of (gm_get (sh_priorityBands (fr_shard fr)) p)"
    "gm_ok (fr_perPriorityBandStats fr)"
    "fr_totalLen fr = sh_totalLen (fr_shard fr)" "fr_totalByteSize fr = sh_totalByteSize (fr_shard fr)"
    using topo by (auto simp: topo_ok_def)
  obtain tm where tm: "cf_DefaultPriorityBand (fr_config fr) = Some tm" "band_ok tm" using t(1) by (auto simp: config_ok_def)
  obtain fp where fp: "pb_FairnessPolicy tm = Some fp" using tm(2) by (auto simp: band_ok_def)
  let ?nb = "tm\<lparr>pb_Priority := p\<rparr>"
  let ?cfg = "(fr_config fr)\<lparr>cf_PriorityBands := gm_set p ?nb (cf_PriorityBands (fr_config fr))\<rparr>"
  let ?P = "load_or_store p new_bandStats (fr_perPriorityBandStats fr)"
  let ?B = "load_or_store p (new_priorityBandState p) (fr_priorityBandStates fr)"
  let ?fr1 = "fr\<lparr>fr_config := ?cfg, fr_perPriorityBandStats := ?P, fr_priorityBandStates := ?B\<rparr>"
  have B: "?B = fr_priorityBandStates fr" using b by (auto simp: load_or_store_def)
  have Pget: "gm_get ?P q = (if q = p then Some new_bandStats else gm_get (fr_perPriorityBandStats fr) q)" for q
    using t(6) [of p] t(7) [of p] none by (simp add: load_or_store_def update_conv')
  have Pok: "gm_ok ?P" using t(8) by (simp add: load_or_store_def distinct_update split: option.split)
  have ck: "config_keys ?cfg" using t(2) none by (auto simp: config_keys_def gm_set_new gm_get_None)
  have co: "config_ok ?cfg"
    using t(1) tm none by (auto simp: config_ok_def gm_set_new band_ok_priority)
  have cget: "gm_get (cf_PriorityBands ?cfg) q = (if q = p then Some ?nb else gm_get (cf_PriorityBands (fr_config fr)) q)" for q
    by (simp add: update_conv')
  have sub: "gm_get (cf_PriorityBands (fr_config ?fr1)) q \<noteq> None" if "gm_get (sh_priorityBands (fr_shard ?fr1)) q \<noteq> None" for q
    using that t(6) [of q] cget [of q] by auto
  have "config_ok (fr_config ?fr1)" "config_keys (fr_config ?fr1)" "shard_wf st (fr_shard ?fr1)" using co ck t(3) by simp_all
  from repartition_spec [OF this sub] obtain s1 where s1: "repartitionShardConfigsLocked ?fr1 = Some (?fr1\<lparr>fr_shard := s1\<rparr>)"
    "shard_wf st s1" "levels_ok s1" "shard_cfg_ok (sh_config s1)"
    "\<And>q. gm_get (sc_PriorityBands (sh_config s1)) q = gm_get (cf_PriorityBands ?cfg) q"
    "queue_in s1 = queue_in (fr_shard fr)" "\<not> sh_isDraining s1" "sh_totalLen s1 = sh_totalLen (fr_shard fr)"
    "sh_totalByteSize s1 = sh_totalByteSize (fr_shard fr)"
    "\<And>q. map_option stats_of (gm_get (sh_priorityBands s1) q) = map_option stats_of (gm_get (sh_priorityBands (fr_shard fr)) q)"
    "sc_MaxBytes (sh_config s1) = cf_MaxBytes ?cfg" "sc_MaxRequests (sh_config s1) = cf_MaxRequests ?cfg"
    "\<And>q. map_option bd_config (gm_get (sh_priorityBands s1) q) =
        (if gm_get (sh_priorityBands (fr_shard fr)) q = None then None else gm_get (cf_PriorityBands ?cfg) q)"
    using t(4,5) by auto
  have dom: "gm_get (sh_priorityBands s1) q = None \<longleftrightarrow> gm_get (cf_PriorityBands (fr_config fr)) q = None" for q
    using s1(10) [of q] t(6) [of q] by (cases "gm_get (sh_priorityBands s1) q"; cases "gm_get (sh_priorityBands (fr_shard fr)) q") auto
  have c: "gm_get (sc_PriorityBands (sh_config s1)) p = Some ?nb" using s1(5) [of p] cget [of p] by simp
  have "gm_get (sh_priorityBands s1) (pb_Priority ?nb) = None" "pb_FairnessPolicy ?nb = Some fp" using dom [of p] none fp by simp_all
  from initPriorityBand_spec [OF this(2,1), of st] obtain s2 where s2: "initPriorityBand ?nb s1 = Some s2"
    "sh_priorityBands s2 = sh_priorityBands s1 @ [(p, new_band fp ?nb)]" "shard_wf st s2" "levels_ok s2"
    "queue_in s2 = queue_in s1" "sh_totalLen s2 = sh_totalLen s1" "sh_totalByteSize s2 = sh_totalByteSize s1"
    "sh_isDraining s2 = sh_isDraining s1" "sh_config s2 = sh_config s1" using s1(2,3) by auto
  have get2: "gm_get (sh_priorityBands s2) q = (if q = p then Some (new_band fp ?nb) else gm_get (sh_priorityBands s1) q)" for q
    using s2(2) dom [of p] none by (auto simp: map_add_def split: option.split)
  let ?fr = "?fr1\<lparr>fr_shard := s2\<rparr>"
  have "addPriorityBand p s1 = Some s2" using dom [of p] none c s2(1) by (simp add: addPriorityBand_def)
  then have "ensurePriorityBand p fr = Some (None, ?fr)"
    using none tm(1) s1(1) by (simp add: ensurePriorityBand_def Let_def)
  moreover have "topo_ok st ?fr"
    unfolding topo_ok_def
  proof (intro conjI allI)
    show "gm_get (cf_PriorityBands (fr_config ?fr)) q = map_option bd_config (gm_get (sh_priorityBands (fr_shard ?fr)) q)" for q
      using dom [of q] cget [of q] get2 [of q] s1(13) [of q] t(6) [of q] by auto
    show "gm_get (fr_perPriorityBandStats ?fr) q = map_option stats_of (gm_get (sh_priorityBands (fr_shard ?fr)) q)" for q
      using Pget [of q] t(7) [of q] s1(10) [of q] get2 [of q] by simp
  qed (use co ck s2 s1 t Pok in simp_all)
  moreover have "gm_get (cf_PriorityBands (fr_config ?fr)) p \<noteq> None" using cget [of p] by simp
  ultimately show ?thesis using B s1(6) s2(5) by auto
qed

text \<open>Replacing the shard by one with the same bands, counters and levels keeps the topology.\<close>

lemma topo_ok_shard:
  assumes topo: "topo_ok st fr" and wf: "shard_wf st' s'" and same: "same_topology (fr_shard fr) s'"
  shows "topo_ok st' (fr\<lparr>fr_shard := s'\<rparr>)"
proof -
  have fst: "fst ` set (sh_priorityBands s') = fst ` set (sh_priorityBands (fr_shard fr))"
    using same unfolding same_topology_def by (metis list.set_map)
  have "map_option stats_of (gm_get (sh_priorityBands s') p) = map_option stats_of (gm_get (sh_priorityBands (fr_shard fr)) p)" for p
    using same unfolding same_topology_def stats_of_def
    by (cases "gm_get (sh_priorityBands s') p"; cases "gm_get (sh_priorityBands (fr_shard fr)) p") (metis option.map_disc_iff option.map(2) option.distinct(1) option.inject)+
  moreover have "levels_ok s'" using topo same fst unfolding topo_ok_def levels_ok_def same_topology_def by simp
  ultimately show ?thesis using topo wf same unfolding topo_ok_def same_topology_def by simp
qed

lemma topo_ok_other [simp]:
  "topo_ok st (fr\<lparr>fr_nextQueue := n\<rparr>) = topo_ok st fr"
  "topo_ok st (fr\<lparr>fr_flowStates := F\<rparr>) = topo_ok st fr"
  "topo_ok st (fr\<lparr>fr_priorityBandStates := B\<rparr>) = topo_ok st fr"
  by (simp_all add: topo_ok_def)

lemma buildFlowComponents_ok:
  assumes "topo_ok st fr" "gm_get (cf_PriorityBands (fr_config fr)) (fk_Priority key) = Some bc"
  shows "\<exists>c. buildFlowComponents key 1 fr = Some (Inr [c], fr\<lparr>fr_nextQueue := fr_nextQueue fr + 1\<rparr>) \<and>
     q_wf st (fc_queue c) \<and> q_items (fc_queue c) = []"
proof -
  have "band_ok bc" using assms(1) gm_get_in [OF assms(2)] by (auto simp: topo_ok_def config_ok_def)
  then obtain pol q0 where pol: "pb_OrderingPolicy bc = Some pol" "NewQueueFromName (pb_Queue bc) pol 0 = Inr q0"
    by (auto simp: band_ok_def)
  then obtain q where q: "NewQueueFromName (pb_Queue bc) pol (fr_nextQueue fr) = Inr q"
    using NewQueueFromName_Inr by metis
  then show ?thesis
    using assms(2) pol(1) NewQueueFromName_empty [OF q, of st] by (simp add: buildFlowComponents_def)
qed

lemma ensureFlowInfrastructure_spec:
  assumes topo: "topo_ok st fr" and b: "gm_get (fr_priorityBandStates fr) (fk_Priority key) \<noteq> None"
  shows "\<exists>fr'. ensureFlowInfrastructure key fr = Some (None, fr') \<and> topo_ok st fr' \<and> fr_flowStates fr' = fr_flowStates fr \<and>
     fr_priorityBandStates fr' = fr_priorityBandStates fr \<and> (\<forall>k. has_queue fr' k \<longleftrightarrow> has_queue fr k \<or> k = key) \<and>
     held (fr_shard fr') = held (fr_shard fr)"
proof -
  obtain fr1 where fr1: "(if gm_get (cf_PriorityBands (fr_config fr)) (fk_Priority key) = None
        then ensurePriorityBand (fk_Priority key) fr else Some (None, fr)) = Some (None, fr1)"
    "topo_ok st fr1" "gm_get (cf_PriorityBands (fr_config fr1)) (fk_Priority key) \<noteq> None"
    "fr_flowStates fr1 = fr_flowStates fr" "fr_priorityBandStates fr1 = fr_priorityBandStates fr"
    "queue_in (fr_shard fr1) = queue_in (fr_shard fr)"
  proof (cases "gm_get (cf_PriorityBands (fr_config fr)) (fk_Priority key) = None")
    case True
    then show ?thesis using ensurePriorityBand_spec [OF topo True b] that by auto
  next
    case False
    then show ?thesis using that [of fr] topo by simp
  qed
  then obtain bc where bc: "gm_get (cf_PriorityBands (fr_config fr1)) (fk_Priority key) = Some bc" by blast
  obtain c where c: "buildFlowComponents key 1 fr1 = Some (Inr [c], fr1\<lparr>fr_nextQueue := fr_nextQueue fr1 + 1\<rparr>)"
    "q_wf st (fc_queue c)" "q_items (fc_queue c) = []"
    using buildFlowComponents_ok [OF fr1(2) bc] by blast
  have wf: "shard_wf st (fr_shard fr1)" using fr1(2) by (simp add: topo_ok_def)
  have "gm_get (sh_priorityBands (fr_shard fr1)) (fk_Priority key) \<noteq> None"
    using fr1(2) bc unfolding topo_ok_def by (metis option.distinct(1) option.map_disc_iff)
  from synchronizeFlow_spec [OF wf this c(2,3), of "fc_policy c"] obtain s' where
    s': "synchronizeFlow key (fc_policy c) (fc_queue c) (fr_shard fr1) = Some s'" "shard_wf st s'"
    "same_topology (fr_shard fr1) s'" "held s' = held (fr_shard fr1)"
    "\<forall>key' m. queue_in s' key' m \<longleftrightarrow> queue_in (fr_shard fr1) key' m \<or>
        key' = key \<and> (\<forall>m. \<not> queue_in (fr_shard fr1) key m) \<and> m = newManagedQueue (fc_queue c) (fc_policy c) key" by blast
  let ?fr = "fr1\<lparr>fr_nextQueue := fr_nextQueue fr1 + 1, fr_shard := s'\<rparr>"
  have "ensureFlowInfrastructure key fr = Some (None, ?fr)"
    unfolding ensureFlowInfrastructure_def fr1(1) using c(1) s'(1) by simp
  moreover have "topo_ok st ?fr" using topo_ok_shard [of st "fr1\<lparr>fr_nextQueue := fr_nextQueue fr1 + 1\<rparr>" st s'] fr1(2) s'(2,3) by simp
  moreover have "has_queue ?fr k \<longleftrightarrow> has_queue fr k \<or> k = key" for k
    using s'(5) fr1(6) by (auto simp: has_queue_def)
  moreover have "held s' = held (fr_shard fr)" using s'(4) fr1(6) by (simp add: held_def)
  ultimately show ?thesis using fr1(4,5) by auto
qed

subsection \<open>Connecting and releasing\<close>

lemma flows_okD:
  assumes "flows_ok sess F" "gm_get F key = Some s"
  shows "fl_key s = key" "\<not> ls_markedForDeletion s" "fl_initialized s" "fl_initErr s = None"
    "ls_leaseCount s = int (count_list sess key)"
  using assms by (auto simp: flows_ok_def flow_good_def)

lemma bands_okD:
  assumes "bands_ok F B" "gm_get B p = Some b"
  shows "ps_priority b = p" "\<not> ls_markedForDeletion b" "ls_leaseCount b = int (flows_at p F)"
  using assms by (auto simp: bands_ok_def)

lemma bands_ok_flow: "bands_ok F B \<Longrightarrow> gm_get F key \<noteq> None \<Longrightarrow> gm_get B (fk_Priority key) \<noteq> None"
  unfolding bands_ok_def by blast

lemma bands_ok_set:
  assumes "bands_ok F B" "gm_get F key = Some s"
  shows "bands_ok (gm_set key s' F) B"
  using assms flows_at_set [OF assms(2)] by (auto simp: bands_ok_def update_conv')

lemma pin_existing:
  assumes "gm_get m k = Some v" "\<not> ls_markedForDeletion v"
  shows "pinLeasedResource k new m =
     Some (False, gm_set k (v\<lparr>ls_leaseCount := ls_leaseCount v + 1, ls_becameIdleAt := None\<rparr>) m)"
  using assms by (simp add: pinLeasedResource_def tryPin_def)

lemma pin_new:
  assumes "gm_get m k = None" "\<not> ls_markedForDeletion new"
  shows "pinLeasedResource k new m =
     Some (True, gm_set k (new\<lparr>ls_leaseCount := ls_leaseCount new + 1, ls_becameIdleAt := None\<rparr>) m)"
  using assms by (simp add: pinLeasedResource_def tryPin_def)

lemma flows_ok_pin:
  assumes "flows_ok sess F" "flow_good key s" "ls_leaseCount s = int (count_list sess key) + 1"
  shows "flows_ok (key # sess) (gm_set key s F)"
  using assms by (auto simp: flows_ok_def update_conv' distinct_update)

text \<open>Pinning the band of a new flow.\<close>

lemma bands_ok_pin:
  assumes B: "bands_ok F B" and new: "gm_get F key = None"
  shows "\<exists>isNew B'. pinLeasedResource (fk_Priority key) (new_priorityBandState (fk_Priority key)) B = Some (isNew, B') \<and>
     bands_ok (gm_set key s F) B' \<and> gm_get B' (fk_Priority key) \<noteq> None"
proof -
  let ?p = "fk_Priority key"
  have at: "flows_at p (gm_set key s F) = flows_at p F + (if ?p = p then 1 else 0)" for p by (rule flows_at_new [OF new])
  show ?thesis
  proof (cases "gm_get B ?p")
    case (Some b)
    have "\<not> ls_markedForDeletion b" using bands_okD(2) [OF B Some] .
    note pin = pin_existing [OF Some this, of "new_priorityBandState ?p"]
    have "bands_ok (gm_set key s F) (gm_set ?p (b\<lparr>ls_leaseCount := ls_leaseCount b + 1, ls_becameIdleAt := None\<rparr>) B)"
      using B bands_okD [OF B Some] unfolding bands_ok_def by (auto simp: update_conv' distinct_update at)
    then show ?thesis using pin by (auto simp: update_conv')
  next
    case None
    have "\<not> ls_markedForDeletion (new_priorityBandState ?p)" by (simp add: new_priorityBandState_def)
    note pin = pin_new [OF None this]
    have "gm_get F key' = None" if "fk_Priority key' = ?p" for key' using B None that unfolding bands_ok_def by metis
    then have "flows_at ?p F = 0" by (simp add: flows_at_0)
    then have "bands_ok (gm_set key s F) (gm_set ?p ((new_priorityBandState ?p)
        \<lparr>ls_leaseCount := ls_leaseCount (new_priorityBandState ?p) + 1, ls_becameIdleAt := None\<rparr>) B)"
      using B None unfolding bands_ok_def by (auto simp: update_conv' distinct_update at new_priorityBandState_def)
    then show ?thesis using pin by (auto simp: update_conv')
  qed
qed

lemma acquire_spec:
  assumes inv: "reg_inv st sess fr" and key: "fk_ID key \<noteq> ''''"
  shows "\<exists>fr'. acquire now key fr = Some (None, fr') \<and> reg_inv st (key # sess) fr' \<and> held (fr_shard fr') = held (fr_shard fr)"
proof -
  have topo: "topo_ok st fr" and F: "flows_ok sess (fr_flowStates fr)" and B: "bands_ok (fr_flowStates fr) (fr_priorityBandStates fr)"
    and Q: "\<And>k. has_queue fr k \<longleftrightarrow> gm_get (fr_flowStates fr) k \<noteq> None"
    using inv by (auto simp: reg_inv_def)
  show ?thesis
  proof (cases "gm_get (fr_flowStates fr) key")
    case (Some s)
    let ?s = "s\<lparr>ls_leaseCount := ls_leaseCount s + 1, ls_becameIdleAt := None\<rparr>"
    let ?fr = "fr\<lparr>fr_flowStates := gm_set key ?s (fr_flowStates fr)\<rparr>"
    note s = flows_okD [OF F Some]
    have pin: "pinLeasedResource key (new_flowState key) (fr_flowStates fr) = Some (False, gm_set key ?s (fr_flowStates fr))"
      by (rule pin_existing [OF Some s(2)])
    have "acquire now key fr = Some (None, ?fr)" using key s(3,4) by (simp add: acquire_def pin Let_def update_conv')
    moreover have "flows_ok (key # sess) (gm_set key ?s (fr_flowStates fr))"
      by (rule flows_ok_pin [OF F]) (use s in \<open>simp_all add: flow_good_def\<close>)
    moreover have "bands_ok (gm_set key ?s (fr_flowStates fr)) (fr_priorityBandStates fr)" by (rule bands_ok_set [OF B Some])
    ultimately show ?thesis using topo Q Some by (simp add: reg_inv_def has_queue_def update_conv')
  next
    case None
    let ?s = "(new_flowState key)\<lparr>ls_leaseCount := ls_leaseCount (new_flowState key) + 1, ls_becameIdleAt := None\<rparr>"
    let ?s' = "?s\<lparr>fl_initialized := True, fl_initErr := None\<rparr>"
    have pin: "pinLeasedResource key (new_flowState key) (fr_flowStates fr) = Some (True, gm_set key ?s (fr_flowStates fr))"
      by (rule pin_new [OF None]) (simp add: new_flowState_def)
    obtain isNew B' where B': "pinLeasedResource (fk_Priority key) (new_priorityBandState (fk_Priority key)) (fr_priorityBandStates fr) = Some (isNew, B')"
      "bands_ok (gm_set key ?s' (fr_flowStates fr)) B'" "gm_get B' (fk_Priority key) \<noteq> None"
      using bands_ok_pin [OF B None, of ?s'] by blast
    let ?fr1 = "fr\<lparr>fr_flowStates := gm_set key ?s (fr_flowStates fr), fr_priorityBandStates := B'\<rparr>"
    have "topo_ok st ?fr1" "gm_get (fr_priorityBandStates ?fr1) (fk_Priority key) \<noteq> None" using topo B'(3) by simp_all
    from ensureFlowInfrastructure_spec [OF this] obtain fr2 where
      fr2: "ensureFlowInfrastructure key ?fr1 = Some (None, fr2)" "topo_ok st fr2"
      "fr_flowStates fr2 = gm_set key ?s (fr_flowStates fr)" "fr_priorityBandStates fr2 = B'"
      "\<forall>k. has_queue fr2 k \<longleftrightarrow> has_queue ?fr1 k \<or> k = key" "held (fr_shard fr2) = held (fr_shard fr)" by auto
    let ?fr = "fr2\<lparr>fr_flowStates := gm_set key ?s' (fr_flowStates fr)\<rparr>"
    have "acquire now key fr = Some (None, ?fr)"
      using key fr2(1,3) B'(1) by (simp add: acquire_def pin Let_def update_conv' gm_set_set) (simp add: new_flowState_def)
    moreover have "flows_ok (key # sess) (gm_set key ?s' (fr_flowStates fr))"
    proof (rule flows_ok_pin [OF F])
      have "key \<notin> set sess" using F None by (auto simp: flows_ok_def)
      then show "ls_leaseCount ?s' = int (count_list sess key) + 1" by (simp add: new_flowState_def count_list_0_iff)
    qed (simp add: flow_good_def new_flowState_def)
    ultimately show ?thesis
      using fr2 B'(2) Q None by (simp add: reg_inv_def has_queue_def update_conv')
  qed
qed

lemma release_spec:
  assumes inv: "reg_inv st sess fr" and key: "key \<in> set sess"
  shows "reg_inv st (remove1 key sess) (release now key fr)" "fr_shard (release now key fr) = fr_shard fr"
proof -
  have F: "flows_ok sess (fr_flowStates fr)" using inv by (simp add: reg_inv_def)
  obtain s where s: "gm_get (fr_flowStates fr) key = Some s" using F key by (auto simp: flows_ok_def)
  have rel: "release now key fr = fr\<lparr>fr_flowStates := gm_set key (unpin now s) (fr_flowStates fr)\<rparr>"
    using s by (simp add: release_def)
  have cnt: "count_list sess key > 0" using key by (simp add: count_list_0_iff zero_less_iff_neq_zero)
  have cr: "count_list (remove1 key sess) k = count_list sess k - (if k = key then 1 else 0)" for k
    by (induction sess) auto
  have u: "flow_good key (unpin now s)" "ls_leaseCount (unpin now s) = int (count_list sess key) - 1"
    using flows_okD [OF F s] by (simp_all add: unpin_def Let_def flow_good_def)
  have "flows_ok (remove1 key sess) (gm_set key (unpin now s) (fr_flowStates fr))"
    unfolding flows_ok_def
  proof (intro conjI allI impI ballI)
    show "gm_ok (gm_set key (unpin now s) (fr_flowStates fr))" using F by (simp add: flows_ok_def distinct_update)
    show "flow_good k v" "ls_leaseCount v = int (count_list (remove1 key sess) k)"
      if "gm_get (gm_set key (unpin now s) (fr_flowStates fr)) k = Some v" for k v
      using that u cr [of k] cnt F by (auto simp: update_conv' flows_ok_def split: if_splits)
    show "gm_get (gm_set key (unpin now s) (fr_flowStates fr)) k \<noteq> None" if "k \<in> set (remove1 key sess)" for k
    proof -
      have "k \<in> set sess" using set_remove1_subset that by fast
      then show ?thesis using F by (auto simp: flows_ok_def update_conv')
    qed
  qed
  moreover have "bands_ok (gm_set key (unpin now s) (fr_flowStates fr)) (fr_priorityBandStates fr)"
    using inv bands_ok_set [OF _ s] by (simp add: reg_inv_def)
  ultimately show "reg_inv st (remove1 key sess) (release now key fr)"
    using inv s unfolding rel by (simp add: reg_inv_def has_queue_def update_conv')
  show "fr_shard (release now key fr) = fr_shard fr" unfolding rel by simp
qed

subsection \<open>Collecting flows\<close>

lemma check_flow:
  fixes v :: flowState
  shows "fl_key (snd (checkAndMarkForDeletion t n v)) = fl_key v"
    "fl_initialized (snd (checkAndMarkForDeletion t n v)) = fl_initialized v"
    "fl_initErr (snd (checkAndMarkForDeletion t n v)) = fl_initErr v"
  by (simp_all add: checkAndMarkForDeletion_def split: option.split)

lemma check_band:
  fixes v :: priorityBandState
  shows "ps_priority (snd (checkAndMarkForDeletion t n v)) = ps_priority v"
  by (simp add: checkAndMarkForDeletion_def split: option.split)

lemma check_lease:
  "ls_leaseCount (snd (checkAndMarkForDeletion t n v)) = ls_leaseCount v"
  "\<not> fst (checkAndMarkForDeletion t n v) \<Longrightarrow> ls_markedForDeletion (snd (checkAndMarkForDeletion t n v)) = ls_markedForDeletion v"
  "fst (checkAndMarkForDeletion t n v) \<Longrightarrow> ls_leaseCount v \<le> 0"
  by (auto simp: checkAndMarkForDeletion_def split: option.splits if_splits)

lemma collect_set:
  "v' \<in> set (fst (collectLeasedResources t n m)) \<longleftrightarrow>
   (\<exists>k v. (k, v) \<in> set m \<and> fst (checkAndMarkForDeletion t n v) \<and> v' = snd (checkAndMarkForDeletion t n v))"
proof -
  have "v' \<in># mset (fst (collectLeasedResources t n m)) \<longleftrightarrow>
   (\<exists>k v. (k, v) \<in> set m \<and> fst (checkAndMarkForDeletion t n v) \<and> v' = snd (checkAndMarkForDeletion t n v))"
    unfolding collect_deleted by auto
  then show ?thesis by simp
qed

lemma collect_flows_at:
  assumes "\<forall>e \<in> set m. fl_key (snd e) = fst e"
  shows "flows_at p m = flows_at p (snd (collectLeasedResources t n m)) +
     length (filter (\<lambda>v. fk_Priority (fl_key v) = p) (fst (collectLeasedResources t n m)))"
  using assms
proof (induction m)
  case (Cons e m)
  obtain k v where e: "e = (k, v)" by (cases e)
  then have "fl_key v = k" using Cons.prems by simp
  then show ?case using Cons e by (auto simp: collect_Cons flows_at_def check_flow)
qed (simp add: flows_at_def)

text \<open>Releasing one band lease per deleted flow.\<close>

lemma release_band_eq:
  "\<exists>B'. release_band now p fr = fr\<lparr>fr_priorityBandStates := B'\<rparr> \<and> (gm_ok (fr_priorityBandStates fr) \<longrightarrow> gm_ok B') \<and>
     (\<forall>q. (gm_get B' q = None \<longleftrightarrow> gm_get (fr_priorityBandStates fr) q = None) \<and>
        (\<forall>b. gm_get (fr_priorityBandStates fr) q = Some b \<longrightarrow> (\<exists>b'. gm_get B' q = Some b' \<and>
           ls_leaseCount b' = ls_leaseCount b - (if q = p then 1 else 0) \<and>
           ls_markedForDeletion b' = ls_markedForDeletion b \<and> ps_priority b' = ps_priority b)))"
proof (cases "gm_get (fr_priorityBandStates fr) p")
  case None
  then show ?thesis by (intro exI [of _ "fr_priorityBandStates fr"]) (auto simp: release_band_def)
next
  case (Some b)
  then show ?thesis
    by (intro exI [of _ "gm_set p (unpin now b) (fr_priorityBandStates fr)"])
      (auto simp: release_band_def update_conv' distinct_update unpin_def Let_def)
qed

lemma release_bands_eq:
  "\<exists>B'. fold (\<lambda>v fr. release_band now (fk_Priority (fl_key v)) fr) vs fr = fr\<lparr>fr_priorityBandStates := B'\<rparr> \<and>
     (gm_ok (fr_priorityBandStates fr) \<longrightarrow> gm_ok B') \<and>
     (\<forall>q. (gm_get B' q = None \<longleftrightarrow> gm_get (fr_priorityBandStates fr) q = None) \<and>
        (\<forall>b. gm_get (fr_priorityBandStates fr) q = Some b \<longrightarrow> (\<exists>b'. gm_get B' q = Some b' \<and>
           ls_leaseCount b' = ls_leaseCount b - int (length (filter (\<lambda>v. fk_Priority (fl_key v) = q) vs)) \<and>
           ls_markedForDeletion b' = ls_markedForDeletion b \<and> ps_priority b' = ps_priority b)))"
proof (induction vs arbitrary: fr)
  case Nil
  show ?case by (intro exI [of _ "fr_priorityBandStates fr"]) auto
next
  case (Cons v vs)
  obtain B1 where B1: "release_band now (fk_Priority (fl_key v)) fr = fr\<lparr>fr_priorityBandStates := B1\<rparr>"
    "gm_ok (fr_priorityBandStates fr) \<longrightarrow> gm_ok B1"
    "\<And>q. gm_get B1 q = None \<longleftrightarrow> gm_get (fr_priorityBandStates fr) q = None"
    "\<And>q b. gm_get (fr_priorityBandStates fr) q = Some b \<Longrightarrow> \<exists>b'. gm_get B1 q = Some b' \<and>
       ls_leaseCount b' = ls_leaseCount b - (if q = fk_Priority (fl_key v) then 1 else 0) \<and>
       ls_markedForDeletion b' = ls_markedForDeletion b \<and> ps_priority b' = ps_priority b"
    using release_band_eq [of now "fk_Priority (fl_key v)" fr] by blast
  obtain B2 where B2: "fold (\<lambda>v fr. release_band now (fk_Priority (fl_key v)) fr) vs (fr\<lparr>fr_priorityBandStates := B1\<rparr>) =
      fr\<lparr>fr_priorityBandStates := B2\<rparr>" "gm_ok B1 \<longrightarrow> gm_ok B2"
    "\<And>q. gm_get B2 q = None \<longleftrightarrow> gm_get B1 q = None"
    "\<And>q b. gm_get B1 q = Some b \<Longrightarrow> \<exists>b'. gm_get B2 q = Some b' \<and>
       ls_leaseCount b' = ls_leaseCount b - int (length (filter (\<lambda>v. fk_Priority (fl_key v) = q) vs)) \<and>
       ls_markedForDeletion b' = ls_markedForDeletion b \<and> ps_priority b' = ps_priority b"
    using Cons.IH [of "fr\<lparr>fr_priorityBandStates := B1\<rparr>"] by auto
  have "\<exists>b'. gm_get B2 q = Some b' \<and>
       ls_leaseCount b' = ls_leaseCount b - int (length (filter (\<lambda>v. fk_Priority (fl_key v) = q) (v # vs))) \<and>
       ls_markedForDeletion b' = ls_markedForDeletion b \<and> ps_priority b' = ps_priority b"
    if "gm_get (fr_priorityBandStates fr) q = Some b" for q b
    using B1(4) [OF that] B2(4) by fastforce
  then show ?case using B1(1-3) B2(1-3) by (intro exI [of _ B2]) simp
qed

text \<open>Deleting the queues of the collected flows.\<close>

lemma same_topology_trans: "same_topology a b \<Longrightarrow> same_topology b c \<Longrightarrow> same_topology a c"
  unfolding same_topology_def by simp

lemma delete_flows_spec:
  assumes "shard_wf st s"
  shows "shard_wf st (fold deleteFlow keys s) \<and> same_topology s (fold deleteFlow keys s) \<and>
     (\<forall>key m. queue_in (fold deleteFlow keys s) key m \<longleftrightarrow> key \<notin> set keys \<and> queue_in s key m)"
  using assms
proof (induction keys arbitrary: s)
  case (Cons k keys)
  note d = deleteFlow_spec [OF Cons.prems]
  show ?case using Cons.IH [OF d(1), of k] d(2,3) same_topology_trans [OF d(2), of k] by auto
qed (simp add: same_topology_def)

lemma cleanupFlowResources_eq:
  "\<forall>key \<in> set keys. gm_get (fr_flowStates fr) key = None \<Longrightarrow>
   cleanupFlowResources keys fr = fr\<lparr>fr_shard := fold deleteFlow keys (fr_shard fr)\<rparr>"
  unfolding cleanupFlowResources_def by (induction keys arbitrary: fr) auto

lemma flows_ok_collect:
  assumes F: "flows_ok sess F"
  shows "flows_ok sess (snd (collectLeasedResources t n F))"
proof -
  have ok: "gm_ok F" using F by (simp add: flows_ok_def)
  note get = collect_get [OF ok, of t n]
  show ?thesis
    unfolding flows_ok_def
  proof (intro conjI allI impI ballI)
    show "gm_ok (snd (collectLeasedResources t n F))" by (rule collect_ok [OF ok])
    show "flow_good key v" "ls_leaseCount v = int (count_list sess key)"
      if g: "gm_get (snd (collectLeasedResources t n F)) key = Some v" for key v
    proof -
      obtain v0 where v0: "gm_get F key = Some v0" "\<not> fst (checkAndMarkForDeletion t n v0)" "v = snd (checkAndMarkForDeletion t n v0)"
        using g unfolding get by (auto split: option.splits if_splits)
      note f = flows_okD [OF F v0(1)]
      show "flow_good key v" "ls_leaseCount v = int (count_list sess key)"
        using f v0(2) unfolding v0(3) by (simp_all add: flow_good_def check_flow check_lease)
    qed
    show "gm_get (snd (collectLeasedResources t n F)) key \<noteq> None" if key: "key \<in> set sess" for key
    proof -
      obtain v where v: "gm_get F key = Some v" using F key by (auto simp: flows_ok_def)
      have "ls_leaseCount v > 0" using flows_okD(5) [OF F v] key by (simp add: count_list_0_iff zero_less_iff_neq_zero)
      then have "\<not> fst (checkAndMarkForDeletion t n v)" using check_lease(3) by fastforce
      then show ?thesis using v unfolding get by simp
    qed
  qed
qed

lemma gcFlows_spec:
  assumes inv: "reg_inv st sess fr"
  shows "reg_inv st sess (gcFlows now fr)"
proof -
  let ?F = "fr_flowStates fr"
  let ?c = "collectLeasedResources (cf_FlowGCTimeout (fr_config fr)) now ?F"
  let ?chk = "checkAndMarkForDeletion (cf_FlowGCTimeout (fr_config fr)) now :: flowState \<Rightarrow> bool \<times> flowState"
  let ?fr1 = "fr\<lparr>fr_flowStates := snd ?c\<rparr>"
  have topo: "topo_ok st fr" and F: "flows_ok sess ?F" and B: "bands_ok ?F (fr_priorityBandStates fr)"
    and Q: "\<And>k. has_queue fr k \<longleftrightarrow> gm_get ?F k \<noteq> None" using inv by (auto simp: reg_inv_def)
  have ok: "gm_ok ?F" using F by (simp add: flows_ok_def)
  note get = collect_get [OF ok, of "cf_FlowGCTimeout (fr_config fr)" now]
  have keyed: "\<forall>e \<in> set ?F. fl_key (snd e) = fst e" using F ok by (auto simp: flows_ok_def flow_good_def)
  obtain B' where B': "fold (\<lambda>v fr. release_band now (fk_Priority (fl_key v)) fr) (fst ?c) ?fr1 = ?fr1\<lparr>fr_priorityBandStates := B'\<rparr>"
    "gm_ok (fr_priorityBandStates fr) \<longrightarrow> gm_ok B'"
    "\<And>q. gm_get B' q = None \<longleftrightarrow> gm_get (fr_priorityBandStates fr) q = None"
    "\<And>q b. gm_get (fr_priorityBandStates fr) q = Some b \<Longrightarrow> \<exists>b'. gm_get B' q = Some b' \<and>
       ls_leaseCount b' = ls_leaseCount b - int (length (filter (\<lambda>v. fk_Priority (fl_key v) = q) (fst ?c))) \<and>
       ls_markedForDeletion b' = ls_markedForDeletion b \<and> ps_priority b' = ps_priority b"
    using release_bands_eq [of now "fst ?c" ?fr1] by auto
  have del: "key \<in> set (map fl_key (fst ?c)) \<longleftrightarrow> (\<exists>v. gm_get ?F key = Some v \<and> fst (?chk v))" for key
  proof -
    have "key \<in> set (map fl_key (fst ?c)) \<longleftrightarrow> (\<exists>k v. (k, v) \<in> set ?F \<and> fst (?chk v) \<and> fl_key v = key)"
      unfolding set_map image_iff Bex_def collect_set using check_flow(1) by metis
    also have "\<dots> \<longleftrightarrow> (\<exists>v. (key, v) \<in> set ?F \<and> fst (?chk v))" using keyed by force
    finally show ?thesis using ok by simp
  qed
  have gone: "\<forall>key \<in> set (map fl_key (fst ?c)). gm_get (snd ?c) key = None"
  proof
    fix key assume "key \<in> set (map fl_key (fst ?c))"
    then obtain v where "gm_get ?F key = Some v" "fst (?chk v)" unfolding del by blast
    then show "gm_get (snd ?c) key = None" unfolding get by simp
  qed
  let ?S = "fold deleteFlow (map fl_key (fst ?c)) (fr_shard fr)"
  let ?fr = "fr\<lparr>fr_flowStates := snd ?c, fr_priorityBandStates := B', fr_shard := ?S\<rparr>"
  have eq: "gcFlows now fr = ?fr"
  proof (cases "fst ?c")
    case Nil
    then have "B' = fr_priorityBandStates fr" using arg_cong [OF B'(1), of fr_priorityBandStates] by simp
    then show ?thesis using Nil by (simp add: gcFlows_def split_beta Let_def)
  next
    case (Cons a as)
    then show ?thesis
      using B'(1) cleanupFlowResources_eq [of "map fl_key (fst ?c)" "?fr1\<lparr>fr_priorityBandStates := B'\<rparr>"] gone
      by (simp add: gcFlows_def split_beta Let_def)
  qed
  have wf: "shard_wf st (fr_shard fr)" using topo by (simp add: topo_ok_def)
  note S = delete_flows_spec [OF wf, of "map fl_key (fst ?c)"]
  have "topo_ok st ?fr" 
    using topo_ok_shard [of st "fr\<lparr>fr_flowStates := snd ?c, fr_priorityBandStates := B'\<rparr>" st ?S] topo S by simp
  moreover have "flows_ok sess (snd ?c)" by (rule flows_ok_collect [OF F])
  moreover have "bands_ok (snd ?c) B'"
    unfolding bands_ok_def
  proof (intro conjI allI impI)
    show "gm_ok B'" using B'(2) B by (simp add: bands_ok_def)
    show "ps_priority b' = p" "\<not> ls_markedForDeletion b'" "ls_leaseCount b' = int (flows_at p (snd ?c))"
      if b': "gm_get B' p = Some b'" for p b'
    proof -
      obtain b where b: "gm_get (fr_priorityBandStates fr) p = Some b" using B'(3) [of p] b' by fastforce
      show "ps_priority b' = p" "\<not> ls_markedForDeletion b'" "ls_leaseCount b' = int (flows_at p (snd ?c))"
        using bands_okD [OF B b] B'(4) [OF b] b' collect_flows_at [OF keyed, of p "cf_FlowGCTimeout (fr_config fr)" now] by auto
    qed
    show "gm_get B' (fk_Priority key) \<noteq> None" if "gm_get (snd ?c) key \<noteq> None" for key
      using that B'(3) B unfolding get bands_ok_def by (auto split: option.splits)
  qed
  moreover have "has_queue ?fr key \<longleftrightarrow> gm_get (snd ?c) key \<noteq> None" for key
  proof -
    have "has_queue ?fr key \<longleftrightarrow> key \<notin> set (map fl_key (fst ?c)) \<and> has_queue fr key"
      unfolding has_queue_def using S by auto
    then show ?thesis unfolding Q del get by (auto split: option.splits)
  qed
  ultimately show ?thesis unfolding eq reg_inv_def by simp
qed

subsection \<open>Collecting bands\<close>

definition drop_band :: "int \<Rightarrow> FlowRegistry \<Rightarrow> FlowRegistry" where
  "drop_band p fr = fr\<lparr>fr_config := (fr_config fr)\<lparr>cf_PriorityBands := gm_del p (cf_PriorityBands (fr_config fr))\<rparr>,
     fr_perPriorityBandStats := gm_del p (fr_perPriorityBandStats fr),
     fr_shard := shard_deletePriorityBand p (fr_shard fr)\<rparr>"

lemma cleanupPriorityBandResources_eq:
  "\<forall>p \<in> set ps. gm_get (fr_priorityBandStates fr) p = None \<Longrightarrow>
   cleanupPriorityBandResources ps fr = fold drop_band ps fr"
  unfolding cleanupPriorityBandResources_def
proof (induction ps arbitrary: fr)
  case (Cons p ps)
  have "fr_priorityBandStates (drop_band p fr) = fr_priorityBandStates fr" by (simp add: drop_band_def)
  then show ?case using Cons by (simp add: drop_band_def)
qed simp

lemma drop_band_topo:
  assumes "topo_ok st fr"
  shows "topo_ok st (drop_band p fr)"
proof -
  note t = assms [unfolded topo_ok_def]
  have wf: "shard_wf st (fr_shard fr)" using t by blast
  note d = deletePriorityBand_spec [OF wf, of p]
  have c: "config_ok (fr_config (drop_band p fr))" "config_keys (fr_config (drop_band p fr))"
    using t by (auto simp: drop_band_def config_ok_def config_keys_def gm_del_ok gm_del_in)
  show ?thesis
    unfolding topo_ok_def
  proof (intro conjI allI)
    show "gm_get (cf_PriorityBands (fr_config (drop_band p fr))) q =
        map_option bd_config (gm_get (sh_priorityBands (fr_shard (drop_band p fr))) q)" for q
      using t d(4) [of q] by (simp add: drop_band_def delete_conv')
    show "gm_get (fr_perPriorityBandStats (drop_band p fr)) q =
        map_option stats_of (gm_get (sh_priorityBands (fr_shard (drop_band p fr))) q)" for q
      using t d(4) [of q] by (simp add: drop_band_def delete_conv')
  qed (use t c d in \<open>simp_all add: drop_band_def gm_del_ok shard_deletePriorityBand_def\<close>)
qed

lemma drop_bands_spec:
  assumes "topo_ok st fr"
  shows "topo_ok st (fold drop_band ps fr) \<and> fr_flowStates (fold drop_band ps fr) = fr_flowStates fr \<and>
     fr_priorityBandStates (fold drop_band ps fr) = fr_priorityBandStates fr \<and>
     (\<forall>key m. queue_in (fr_shard (fold drop_band ps fr)) key m \<longleftrightarrow> fk_Priority key \<notin> set ps \<and> queue_in (fr_shard fr) key m)"
  using assms
proof (induction ps arbitrary: fr)
  case (Cons p ps)
  have wf: "shard_wf st (fr_shard fr)" using Cons.prems by (simp add: topo_ok_def)
  have "fr_flowStates (drop_band p fr) = fr_flowStates fr" "fr_priorityBandStates (drop_band p fr) = fr_priorityBandStates fr"
    "fr_shard (drop_band p fr) = shard_deletePriorityBand p (fr_shard fr)" by (simp_all add: drop_band_def)
  then show ?case using Cons.IH [OF drop_band_topo [OF Cons.prems], of p] deletePriorityBand_spec(2) [OF wf, of p] by auto
qed simp

lemma gcPriorityBands_spec:
  assumes inv: "reg_inv st sess fr"
  shows "reg_inv st sess (gcPriorityBands now fr)" "held (fr_shard (gcPriorityBands now fr)) = held (fr_shard fr)"
proof -
  let ?F = "fr_flowStates fr" and ?B = "fr_priorityBandStates fr"
  let ?c = "collectLeasedResources (cf_PriorityBandGCTimeout (fr_config fr)) now ?B"
  let ?chk = "checkAndMarkForDeletion (cf_PriorityBandGCTimeout (fr_config fr)) now :: priorityBandState \<Rightarrow> bool \<times> priorityBandState"
  let ?fr1 = "fr\<lparr>fr_priorityBandStates := snd ?c\<rparr>"
  let ?ps = "map ps_priority (fst ?c)"
  have topo: "topo_ok st fr" and F: "flows_ok sess ?F" and B: "bands_ok ?F ?B"
    and Q: "\<And>k. has_queue fr k \<longleftrightarrow> gm_get ?F k \<noteq> None" using inv by (auto simp: reg_inv_def)
  have ok: "gm_ok ?B" using B by (simp add: bands_ok_def)
  note get = collect_get [OF ok, of "cf_PriorityBandGCTimeout (fr_config fr)" now]
  have del: "\<exists>b. gm_get ?B p = Some b \<and> fst (?chk b)" if p: "p \<in> set ?ps" for p
  proof -
    obtain k b where "(k, b) \<in> set ?B" "fst (?chk b)" "ps_priority b = p"
      using p by (auto simp: collect_set check_band)
    then show ?thesis using ok bands_okD(1) [OF B, of k b] by auto
  qed
  have gone: "\<forall>p \<in> set ?ps. gm_get (snd ?c) p = None"
  proof
    fix p assume "p \<in> set ?ps"
    from del [OF this] show "gm_get (snd ?c) p = None" unfolding get by auto
  qed
  have noflow: "gm_get ?F key = None" if p: "fk_Priority key \<in> set ?ps" for key
  proof -
    obtain b where b: "gm_get ?B (fk_Priority key) = Some b" "fst (?chk b)" using del [OF p] by blast
    then have "flows_at (fk_Priority key) ?F = 0" using check_lease(3) [OF b(2)] bands_okD(3) [OF B b(1)] by simp
    then show ?thesis unfolding flows_at_0 by simp
  qed
  have eq: "gcPriorityBands now fr = fold drop_band ?ps ?fr1"
    using cleanupPriorityBandResources_eq [of ?ps ?fr1] gone by (simp add: gcPriorityBands_def split_beta Let_def)
  have "topo_ok st ?fr1" using topo by simp
  note S = drop_bands_spec [OF this, of ?ps]
  have none: "\<not> queue_in (fr_shard fr) key m" if "fk_Priority key \<in> set ?ps" for key m
    using noflow [OF that] Q [of key] by (auto simp: has_queue_def)
  have qi: "queue_in (fr_shard (fold drop_band ?ps ?fr1)) key m \<longleftrightarrow> queue_in (fr_shard fr) key m" for key m
    using S none by auto
  show "held (fr_shard (gcPriorityBands now fr)) = held (fr_shard fr)" unfolding eq held_def qi ..
  have "bands_ok ?F (snd ?c)"
    unfolding bands_ok_def
  proof (intro conjI allI impI)
    show "gm_ok (snd ?c)" by (rule collect_ok [OF ok])
    show "ps_priority b' = p" "\<not> ls_markedForDeletion b'" "ls_leaseCount b' = int (flows_at p ?F)"
      if g: "gm_get (snd ?c) p = Some b'" for p b'
    proof -
      obtain b where b: "gm_get ?B p = Some b" "\<not> fst (?chk b)" "b' = snd (?chk b)"
        using g unfolding get by (auto split: option.splits if_splits)
      show "ps_priority b' = p" "\<not> ls_markedForDeletion b'" "ls_leaseCount b' = int (flows_at p ?F)"
        using bands_okD [OF B b(1)] b(2) unfolding b(3) by (simp_all add: check_band check_lease)
    qed
    show "gm_get (snd ?c) (fk_Priority key) \<noteq> None" if key: "gm_get ?F key \<noteq> None" for key
    proof -
      have "gm_get ?B (fk_Priority key) \<noteq> None" by (rule bands_ok_flow [OF B key])
      then obtain b where b: "gm_get ?B (fk_Priority key) = Some b" by blast
      have "flows_at (fk_Priority key) ?F \<noteq> 0" unfolding flows_at_0 using key by metis
      then have "0 < ls_leaseCount b" using bands_okD(3) [OF B b] by simp
      then have "\<not> fst (?chk b)" using check_lease(3) [of _ _ b] by fastforce
      then show ?thesis using b unfolding get by simp
    qed
  qed
  moreover have "has_queue (fold drop_band ?ps ?fr1) key \<longleftrightarrow> gm_get ?F key \<noteq> None" for key
    using Q [of key] unfolding has_queue_def qi .
  ultimately show "reg_inv st sess (gcPriorityBands now fr)" using S F unfolding eq reg_inv_def by simp
qed

end
