(* ===== verification/RegistryReach.thy ===== *)
theory RegistryReach
  imports RegistryProofs
begin

text \<open>
  Every state the registry reaches from a valid configuration, whatever the order of connections,
  releases, queue operations and garbage collections, and the properties that hold there. The concrete
  runs at the end exhibit two behaviours that the comments of the code rule out.
\<close>

subsection \<open>Queue operations at the registry\<close>

lemma registry_propagate_eq:
  assumes "\<forall>d \<in> set ds. fst d = p" "gm_get (fr_perPriorityBandStats fr) p = Some b"
  shows "registry_propagate ds fr = Some
     (fr\<lparr>fr_perPriorityBandStats := gm_set p (b\<lparr>bst_len := bst_len b + delta_len ds, bst_byteSize := bst_byteSize b + delta_bytes ds\<rparr>)
          (fr_perPriorityBandStats fr),
        fr_totalLen := fr_totalLen fr + delta_len ds, fr_totalByteSize := fr_totalByteSize fr + delta_bytes ds\<rparr>)"
  using assms
proof (induction ds arbitrary: fr b)
  case Nil
  then show ?case by (simp add: gm_set_same)
next
  case (Cons d ds)
  obtain l z where d: "d = (p, l, z)" using Cons.prems(1) by (cases d) auto
  let ?b = "b\<lparr>bst_len := bst_len b + l, bst_byteSize := bst_byteSize b + z\<rparr>"
  let ?fr = "fr\<lparr>fr_perPriorityBandStats := gm_set p ?b (fr_perPriorityBandStats fr), fr_totalLen := fr_totalLen fr + l,
             fr_totalByteSize := fr_totalByteSize fr + z\<rparr>"
  have "gm_get (fr_perPriorityBandStats ?fr) p = Some ?b" by (simp add: update_conv')
  then show ?case using Cons.IH [of ?fr ?b] Cons.prems d by (simp add: gm_set_set add.assoc)
qed

lemma on_shard_spec:
  assumes inv: "reg_inv st sess fr" and f: "f (fr_shard fr) = Some (r, st', s', ds)"
    and step: "shard_step st (fr_shard fr) ds st' s'"
  shows "\<exists>fr'. on_shard f fr = Some (r, st', fr') \<and> reg_inv st' sess fr' \<and> fr_shard fr' = s'"
proof -
  have topo: "topo_ok st fr" using inv by (simp add: reg_inv_def)
  have ok: "gm_ok (sh_priorityBands (fr_shard fr))" using topo by (simp add: topo_ok_def shard_wf_def)
  have op: "queue_op (fr_shard fr) ds s'" and wf': "shard_wf st' s'" using step by (auto simp: shard_step_def)
  note facts = queue_op_facts [OF op ok]
  obtain key mq b where b: "gm_get (sh_priorityBands (fr_shard fr)) (fk_Priority key) = Some b"
    "\<forall>d \<in> set ds. fst d = fk_Priority key" "s' = put_result key mq ds b (fr_shard fr)"
    using op unfolding queue_op_def by blast
  let ?p = "fk_Priority key"
  have per: "gm_get (fr_perPriorityBandStats fr) p = map_option stats_of (gm_get (sh_priorityBands (fr_shard fr)) p)" for p
    using topo unfolding topo_ok_def by blast
  let ?b = "(stats_of b)\<lparr>bst_len := bst_len (stats_of b) + delta_len ds, bst_byteSize := bst_byteSize (stats_of b) + delta_bytes ds\<rparr>"
  let ?fr = "fr\<lparr>fr_shard := s', fr_perPriorityBandStats := gm_set ?p ?b (fr_perPriorityBandStats fr),
     fr_totalLen := fr_totalLen fr + delta_len ds, fr_totalByteSize := fr_totalByteSize fr + delta_bytes ds\<rparr>"
  have "registry_propagate ds (fr\<lparr>fr_shard := s'\<rparr>) = Some ?fr"
    using registry_propagate_eq [OF b(2), of "fr\<lparr>fr_shard := s'\<rparr>" "stats_of b"] per [of ?p] b(1) by simp
  then have on: "on_shard f fr = Some (r, st', ?fr)" using f by (simp add: on_shard_def)
  have "topo_ok st' ?fr"
    unfolding topo_ok_def
  proof (intro conjI allI)
    show "gm_get (cf_PriorityBands (fr_config ?fr)) p = map_option bd_config (gm_get (sh_priorityBands (fr_shard ?fr)) p)" for p
      using topo facts(9) [of p] unfolding topo_ok_def by simp
    show "gm_get (fr_perPriorityBandStats ?fr) p = map_option stats_of (gm_get (sh_priorityBands (fr_shard ?fr)) p)" for p
      using per [of p] b(3) by (simp add: update_conv' put_result_band stats_of_def)
  qed (use topo facts wf' in \<open>simp_all add: topo_ok_def distinct_update\<close>)
  moreover have "has_queue ?fr key' \<longleftrightarrow> has_queue fr key'" for key'
    using facts(8) unfolding has_queue_def by simp
  ultimately show ?thesis using inv on unfolding reg_inv_def by auto
qed

lemma reg_inv_store:
  assumes "reg_inv st sess fr" "shard_wf st' (fr_shard fr)"
  shows "reg_inv st' sess fr"
  using assms by (simp add: reg_inv_def topo_ok_def)

subsection \<open>The initial registry\<close>

lemma NewFlowRegistry_spec:
  assumes "config_ok c" "config_keys c"
  shows "\<exists>fr. NewFlowRegistry c = Some (Inr fr) \<and> reg_inv st [] fr \<and> held (fr_shard fr) = {}"
proof -
  have clone: "Clone c = c" by (simp add: Clone_def option.map_ident)
  obtain sc where sc: "config_partition 0 1 c = Some sc" "shard_cfg_ok sc" "sc_MaxBytes sc = cf_MaxBytes c"
    "sc_MaxRequests sc = cf_MaxRequests c" "\<And>p. gm_get (sc_PriorityBands sc) p = gm_get (cf_PriorityBands c) p"
    using config_partition_one [OF assms] by blast
  obtain s where s: "newShard ''shard-0'' sc = Some s" "shard_wf st s" "levels_ok s" "\<forall>key m. \<not> queue_in s key m"
    "sh_totalLen s = 0" "sh_totalByteSize s = 0" "sh_config s = sc" "\<not> sh_isDraining s"
    "\<And>p. gm_get (sh_priorityBands s) p = map_option (\<lambda>b. new_band (the (pb_FairnessPolicy b)) b) (gm_get (sc_PriorityBands sc) p)"
    using newShard_spec [OF sc(2), of "''shard-0''" st] by blast
  let ?P = "map (\<lambda>(prio, _). (prio, new_bandStats)) (cf_PriorityBands c)"
  let ?fr0 = "\<lparr>fr_config = c, fr_flowStates = [], fr_priorityBandStates = [], fr_totalByteSize = 0, fr_totalLen = 0,
              fr_perPriorityBandStats = ?P, fr_shard = nil_shard, fr_nextQueue = 0\<rparr>"
  let ?fr1 = "?fr0\<lparr>fr_shard := s\<rparr>"
  have get: "gm_get (sh_priorityBands s) p = map_option (\<lambda>b. new_band (the (pb_FairnessPolicy b)) b) (gm_get (cf_PriorityBands c) p)" for p
    using s(9) sc(5) by simp
  have "config_ok (fr_config ?fr1)" "config_keys (fr_config ?fr1)" "shard_wf st (fr_shard ?fr1)" using assms s(2) by simp_all
  moreover have "gm_get (cf_PriorityBands (fr_config ?fr1)) p \<noteq> None" if "gm_get (sh_priorityBands (fr_shard ?fr1)) p \<noteq> None" for p
    using that get [of p] by auto
  ultimately obtain s2 where s2: "repartitionShardConfigsLocked ?fr1 = Some (?fr1\<lparr>fr_shard := s2\<rparr>)" "shard_wf st s2" "levels_ok s2"
    "sc_MaxBytes (sh_config s2) = cf_MaxBytes c" "sc_MaxRequests (sh_config s2) = cf_MaxRequests c"
    "\<And>p. map_option bd_config (gm_get (sh_priorityBands s2) p) =
        (if gm_get (sh_priorityBands s) p = None then None else gm_get (cf_PriorityBands c) p)"
    "queue_in s2 = queue_in s" "\<not> sh_isDraining s2" "sh_totalLen s2 = 0" "sh_totalByteSize s2 = 0"
    "\<And>p. map_option stats_of (gm_get (sh_priorityBands s2) p) = map_option stats_of (gm_get (sh_priorityBands s) p)"
    using repartition_spec [of ?fr1 st] s(3,5,6,8) by auto
  let ?fr = "?fr1\<lparr>fr_shard := s2\<rparr>"
  have new: "NewFlowRegistry c = Some (Inr ?fr)"
    using sc(1) s(1) s2(1) by (simp add: NewFlowRegistry_def clone createShard_def Let_def)
  have P: "gm_get ?P p = map_option (\<lambda>_. new_bandStats) (gm_get (cf_PriorityBands c) p)" for p
    by (rule map_of_map_snd [of "\<lambda>_ _. new_bandStats"])
  have Pok: "gm_ok ?P" using assms(2) by (simp add: config_keys_def comp_def split_def)
  have "topo_ok st ?fr"
    unfolding topo_ok_def
  proof (intro conjI allI)
    show "gm_get (cf_PriorityBands (fr_config ?fr)) p = map_option bd_config (gm_get (sh_priorityBands (fr_shard ?fr)) p)" for p
      using s2(6) [of p] get [of p] by (cases "gm_get (cf_PriorityBands c) p") auto
    show "gm_get (fr_perPriorityBandStats ?fr) p = map_option stats_of (gm_get (sh_priorityBands (fr_shard ?fr)) p)" for p
      using s2(11) [of p] get [of p] P [of p] by (simp add: option.map_comp comp_def)
  qed (use assms s2 Pok in simp_all)
  moreover have "\<not> queue_in s2 key m" for key m using s2(7) s(4) by simp
  ultimately show ?thesis using new by (auto simp: reg_inv_def flows_ok_def bands_ok_def has_queue_def held_def)
qed
subsection \<open>Every reachable registry\<close>

text \<open>The steps: connections open (or are refused) and close, the collector runs at any time, items are
  enqueued by connected flows, dispatched, swept and drained by the processor and finalized by anyone.
  \<open>sess\<close> lists the flow of every open connection.\<close>

inductive reg_reach :: "Config \<Rightarrow> Store \<Rightarrow> FlowKey list \<Rightarrow> FlowRegistry \<Rightarrow> bool" for cfg where
  Started: "NewFlowRegistry cfg = Some (Inr fr) \<Longrightarrow> reg_reach cfg empty_store [] fr"
| Connected: "reg_reach cfg st sess fr \<Longrightarrow> acquire now key fr = Some (None, fr') \<Longrightarrow> reg_reach cfg st (key # sess) fr'"
| Refused: "reg_reach cfg st sess fr \<Longrightarrow> acquire now key fr = Some (Some e, fr') \<Longrightarrow> reg_reach cfg st sess fr'"
| Released: "reg_reach cfg st sess fr \<Longrightarrow> key \<in> set sess \<Longrightarrow> reg_reach cfg st (remove1 key sess) (release now key fr)"
| Collected: "reg_reach cfg st sess fr \<Longrightarrow> reg_reach cfg st sess (executeGCCycle now fr)"
| Enqueued: "reg_reach cfg st sess fr \<Longrightarrow> item_key x \<in> set sess \<Longrightarrow> \<forall>y \<in> held (fr_shard fr). fi_ref y \<noteq> fi_ref x \<Longrightarrow>
    length (shard_items (fr_shard fr)) + 1 < 2 ^ 63 \<Longrightarrow>
    on_shard (queue_Add (item_key x) x st) fr = Some (r, st', fr') \<Longrightarrow> reg_reach cfg st' sess fr'"
| Dequeued: "reg_reach cfg st sess fr \<Longrightarrow> x \<in> held (fr_shard fr) \<Longrightarrow>
    on_shard (queue_Remove (item_key x) (Handle st x) st) fr = Some (r, st', fr') \<Longrightarrow> reg_reach cfg st' sess fr'"
| Swept: "reg_reach cfg st sess fr \<Longrightarrow> on_shard (queue_Cleanup key p st) fr = Some (rem, st', fr') \<Longrightarrow> reg_reach cfg st' sess fr'"
| Drained: "reg_reach cfg st sess fr \<Longrightarrow> on_shard (queue_Drain key st) fr = Some (rem, st', fr') \<Longrightarrow> reg_reach cfg st' sess fr'"
| Finalized: "reg_reach cfg st sess fr \<Longrightarrow> Finalize x cause st = Some st' \<Longrightarrow> reg_reach cfg st' sess fr"

lemma reg_inv_queue:
  assumes "reg_inv st sess fr" "on_shard f fr = Some (r, st', fr')"
    and "\<And>r st' s' ds. f (fr_shard fr) = Some (r, st', s', ds) \<Longrightarrow> shard_step st (fr_shard fr) ds st' s'"
  shows "reg_inv st' sess fr'"
proof -
  obtain s' ds where f: "f (fr_shard fr) = Some (r, st', s', ds)"
    using assms(2) by (auto simp: on_shard_def split: Option.bind_splits)
  show ?thesis using on_shard_spec [where f = f, OF assms(1) f assms(3) [OF f]] assms(2) by auto
qed

lemma with_queue_found: "with_queue key f s = Some res \<Longrightarrow> \<exists>mq. ManagedQueue_of key s = Inr mq"
  by (auto simp: with_queue_def split: sum.splits)

lemma reg_reach_inv:
  assumes cfg: "config_ok cfg" "config_keys cfg"
  shows "reg_reach cfg st sess fr \<Longrightarrow> reg_inv st sess fr"
proof (induction rule: reg_reach.induct)
  case (Started fr)
  then show ?case using NewFlowRegistry_spec [OF cfg, of empty_store] by auto
next
  case (Connected st sess fr now key fr')
  have "fk_ID key \<noteq> ''''" using Connected.hyps(2) by (auto simp: acquire_def)
  from acquire_spec [OF Connected.IH this, of now] Connected.hyps(2) show ?case by auto
next
  case (Refused st sess fr now key e fr')
  have "fk_ID key = ''''" using acquire_spec [OF Refused.IH, of key now] Refused.hyps(2) by auto
  then show ?case using Refused.hyps(2) Refused.IH by (simp add: acquire_def)
next
  case (Released st sess fr key now)
  show ?case by (rule release_spec(1) [OF Released.IH Released.hyps(2)])
next
  case (Collected st sess fr now)
  show ?case unfolding executeGCCycle_def by (intro gcPriorityBands_spec(1) gcFlows_spec Collected.IH)
next
  case (Enqueued st sess fr x r st' fr')
  have wf: "shard_wf st (fr_shard fr)" and dr: "\<not> sh_isDraining (fr_shard fr)" using Enqueued.IH by (auto simp: reg_inv_def topo_ok_def)
  show ?case
  proof (rule reg_inv_queue [OF Enqueued.IH Enqueued.hyps(5)])
    fix r st' s' ds assume q: "queue_Add (item_key x) x st (fr_shard fr) = Some (r, st', s', ds)"
    then obtain mq where mq: "ManagedQueue_of (item_key x) (fr_shard fr) = Inr mq" unfolding queue_Add_def by (blast dest: with_queue_found)
    from queue_Add_spec [OF wf mq dr refl Enqueued.hyps(3) queue_room [OF mq Enqueued.hyps(4)]] q
    show "shard_step st (fr_shard fr) ds st' s'" by auto
  qed
next
  case (Dequeued st sess fr x r st' fr')
  have wf: "shard_wf st (fr_shard fr)" using Dequeued.IH by (auto simp: reg_inv_def topo_ok_def)
  obtain mq where mq: "ManagedQueue_of (item_key x) (fr_shard fr) = Inr mq" "x \<in> set (mq_items mq)"
    using held_key [OF wf Dequeued.hyps(2)] by blast
  show ?case by (rule reg_inv_queue [OF Dequeued.IH Dequeued.hyps(3)]) (use queue_Remove_spec [OF wf mq] in auto)
next
  case (Swept st sess fr key p rem st' fr')
  have wf: "shard_wf st (fr_shard fr)" using Swept.IH by (auto simp: reg_inv_def topo_ok_def)
  show ?case
  proof (rule reg_inv_queue [OF Swept.IH Swept.hyps(2)])
    fix r st' s' ds assume q: "queue_Cleanup key p st (fr_shard fr) = Some (r, st', s', ds)"
    then obtain mq where "ManagedQueue_of key (fr_shard fr) = Inr mq" unfolding queue_Cleanup_def by (blast dest: with_queue_found)
    from queue_Cleanup_spec [OF wf this, of p] q show "shard_step st (fr_shard fr) ds st' s'" by auto
  qed
next
  case (Drained st sess fr key rem st' fr')
  have wf: "shard_wf st (fr_shard fr)" using Drained.IH by (auto simp: reg_inv_def topo_ok_def)
  show ?case
  proof (rule reg_inv_queue [OF Drained.IH Drained.hyps(2)])
    fix r st' s' ds assume q: "queue_Drain key st (fr_shard fr) = Some (r, st', s', ds)"
    then obtain mq where "ManagedQueue_of key (fr_shard fr) = Inr mq" unfolding queue_Drain_def by (blast dest: with_queue_found)
    from queue_Drain_spec [OF wf this] q show "shard_step st (fr_shard fr) ds st' s'" by auto
  qed
next
  case (Finalized st sess fr x cause st')
  have "shard_wf st (fr_shard fr)" using Finalized.IH by (auto simp: reg_inv_def topo_ok_def)
  then have "shard_wf st' (fr_shard fr)" using shard_wf_store [OF _ Finalize_store [OF Finalized.hyps(2)]] by blast
  then show ?case by (rule reg_inv_store [OF Finalized.IH])
qed

subsection \<open>Properties\<close>

text \<open>C8: In every state the registry reaches from a valid configuration, a band's lease count is the number of
  flows at its priority, a flow's lease count is the number of open connections to it, and every open
  connection finds its flow with a queue in the shard: the collector never takes a flow or a band that is in
  use, and a queue exists exactly while its flow does.\<close>

theorem registry_leases:
  assumes "config_ok cfg" "config_keys cfg" "reg_reach cfg st sess fr"
  shows "(\<forall>p b. gm_get (fr_priorityBandStates fr) p = Some b \<longrightarrow> ls_leaseCount b = int (flows_at p (fr_flowStates fr))) \<and>
     (\<forall>key s. gm_get (fr_flowStates fr) key = Some s \<longrightarrow> ls_leaseCount s = int (count_list sess key)) \<and>
     (\<forall>key \<in> set sess. \<exists>mq s b. ManagedQueue_of key (fr_shard fr) = Inr mq \<and> gm_get (fr_flowStates fr) key = Some s \<and>
        gm_get (fr_priorityBandStates fr) (fk_Priority key) = Some b) \<and>
     (\<forall>key. (\<exists>mq. ManagedQueue_of key (fr_shard fr) = Inr mq) \<longleftrightarrow> gm_get (fr_flowStates fr) key \<noteq> None)"
proof -
  have inv: "topo_ok st fr" "flows_ok sess (fr_flowStates fr)" "bands_ok (fr_flowStates fr) (fr_priorityBandStates fr)"
    "\<And>key. has_queue fr key \<longleftrightarrow> gm_get (fr_flowStates fr) key \<noteq> None"
    using reg_reach_inv [OF assms] by (auto simp: reg_inv_def)
  have wf: "shard_wf st (fr_shard fr)" using inv(1) by (simp add: topo_ok_def)
  have q: "(\<exists>mq. ManagedQueue_of key (fr_shard fr) = Inr mq) \<longleftrightarrow> gm_get (fr_flowStates fr) key \<noteq> None" for key
    using inv(4) [of key] queue_in_ManagedQueue [OF wf] ManagedQueue_in unfolding has_queue_def by metis
  have "\<exists>mq s b. ManagedQueue_of key (fr_shard fr) = Inr mq \<and> gm_get (fr_flowStates fr) key = Some s \<and>
      gm_get (fr_priorityBandStates fr) (fk_Priority key) = Some b" if "key \<in> set sess" for key
  proof -
    have f: "gm_get (fr_flowStates fr) key \<noteq> None" using inv(2) that unfolding flows_ok_def by blast
    then show ?thesis using q [of key] bands_ok_flow [OF inv(3) f] by auto
  qed
  then show ?thesis using q bands_okD(3) [OF inv(3)] flows_okD(5) [OF inv(2)] by blast
qed

definition demo_config :: Config where
  "demo_config = \<lparr>cf_MaxBytes = 0, cf_MaxRequests = 0, cf_PriorityBands = [(0, demo_band)],
     cf_DefaultPriorityBand = Some (demo_band\<lparr>pb_MaxBytes := 7\<rparr>), cf_InitialShardCount = 1,
     cf_FlowGCTimeout = 300, cf_PriorityBandGCTimeout = 600\<rparr>"

lemma demo_config_ok: "config_ok demo_config" "config_keys demo_config"
  by (simp_all add: config_ok_def config_keys_def demo_config_def band_ok_def demo_band_def
      NewQueueFromName_def RegisteredQueues_def fcfs_policy_def)

definition demo_connect :: "FlowRegistry option" where
  "demo_connect = do { r \<leftarrow> NewFlowRegistry demo_config;
     (case r of Inl e \<Rightarrow> None | Inr fr \<Rightarrow> do { (e, fr) \<leftarrow> acquire 10 (FlowKey ''f'' 3) fr; Some fr }) }"

lemma demo_connect_reach:
  "\<exists>fr. demo_connect = Some fr \<and> reg_reach demo_config empty_store [FlowKey ''f'' 3] fr"
proof -
  obtain fr where fr: "NewFlowRegistry demo_config = Some (Inr fr)" "reg_inv empty_store [] fr"
    using NewFlowRegistry_spec [OF demo_config_ok] by blast
  obtain fr' where "acquire 10 (FlowKey ''f'' 3) fr = Some (None, fr')"
    using acquire_spec [OF fr(2), of "FlowKey ''f'' 3" 10] by auto
  then show ?thesis
    using fr(1) reg_reach.Connected [OF reg_reach.Started [OF fr(1)]] by (auto simp: demo_connect_def)
qed

theorem registry_leases_witness:
  "\<exists>fr b mq. demo_connect = Some fr \<and> gm_get (fr_priorityBandStates fr) 3 = Some b \<and>
     ls_leaseCount b = int (flows_at 3 (fr_flowStates fr)) \<and> ManagedQueue_of (FlowKey ''f'' 3) (fr_shard fr) = Inr mq"
proof -
  obtain fr where fr: "demo_connect = Some fr" "reg_reach demo_config empty_store [FlowKey ''f'' 3] fr"
    using demo_connect_reach by blast
  from registry_leases [OF demo_config_ok fr(2)] fr(1) show ?thesis by auto
qed

text \<open>C14: Provisioning never fails. In every state the registry reaches from a valid configuration, connecting
  with a non-empty flow ID neither panics nor returns an error: the callback runs, on a registry in which the
  flow has its queue, also when its band was never configured or has been collected meanwhile, and the
  connection's result is the callback's. An empty ID is refused and changes nothing.\<close>

theorem connection_always_served:
  assumes "config_ok cfg" "config_keys cfg" "reg_reach cfg st sess fr"
  shows "(fk_ID key \<noteq> '''' \<longrightarrow> (\<exists>fr1 mq. ManagedQueue_of key (fr_shard fr1) = Inr mq \<and> reg_reach cfg st (key # sess) fr1 \<and>
        (\<forall>fn. WithConnection now key fn fr = map_option (\<lambda>(r, fr2). (r, release now key fr2)) (fn fr1)))) \<and>
     (fk_ID key = '''' \<longrightarrow> (\<forall>fn. WithConnection now key fn fr = Some (Some ErrFlowIDEmpty, fr)))"
proof (intro conjI impI)
  assume key: "fk_ID key \<noteq> ''''"
  obtain fr1 where fr1: "acquire now key fr = Some (None, fr1)"
    using acquire_spec [OF reg_reach_inv [OF assms] key] by blast
  have reach: "reg_reach cfg st (key # sess) fr1" using assms(3) fr1 by (rule reg_reach.Connected)
  have inv: "reg_inv st (key # sess) fr1" by (rule reg_reach_inv [OF assms(1,2) reach])
  then have "has_queue fr1 key" by (auto simp: reg_inv_def flows_ok_def)
  moreover have "shard_wf st (fr_shard fr1)" using inv by (simp add: reg_inv_def topo_ok_def)
  ultimately obtain mq where "ManagedQueue_of key (fr_shard fr1) = Inr mq"
    unfolding has_queue_def using queue_in_ManagedQueue by blast
  moreover have "WithConnection now key fn fr = map_option (\<lambda>(r, fr2). (r, release now key fr2)) (fn fr1)" for fn
    using fr1 by (cases "fn fr1") (auto simp: WithConnection_def)
  ultimately show "\<exists>fr1 mq. ManagedQueue_of key (fr_shard fr1) = Inr mq \<and> reg_reach cfg st (key # sess) fr1 \<and>
        (\<forall>fn. WithConnection now key fn fr = map_option (\<lambda>(r, fr2). (r, release now key fr2)) (fn fr1))"
    using reach by blast
next
  assume "fk_ID key = ''''"
  then show "\<forall>fn. WithConnection now key fn fr = Some (Some ErrFlowIDEmpty, fr)"
    by (simp add: WithConnection_def acquire_def)
qed

theorem connection_always_served_witness:
  "\<exists>fr. demo_connect = Some fr \<and>
     (\<exists>fr2. WithConnection 20 (FlowKey ''g'' 8) (\<lambda>fr. Some (None, fr)) fr = Some (None, fr2))"
proof -
  obtain fr where fr: "demo_connect = Some fr" "reg_reach demo_config empty_store [FlowKey ''f'' 3] fr"
    using demo_connect_reach by blast
  from connection_always_served [OF demo_config_ok fr(2), of "FlowKey ''g'' 8" 20]
  show ?thesis using fr(1) by (auto dest!: spec [of _ "\<lambda>fr. Some (None, fr)"])
qed

lemma band_stats_get:
  assumes "gm_ok P" "\<And>p. gm_get P p \<noteq> None \<Longrightarrow> gm_get (cf_PriorityBands cfg) p \<noteq> None"
  shows "\<exists>m. band_stats cfg P = Some m \<and> (\<forall>p. gm_get m p = (case gm_get P p of None \<Rightarrow> None
     | Some b \<Rightarrow> map_option (\<lambda>c. \<lparr>bs_Priority = p, bs_CapacityBytes = pb_MaxBytes c, bs_CapacityRequests = pb_MaxRequests c,
          bs_ByteSize = bst_byteSize b, bs_Len = bst_len b\<rparr>) (gm_get (cf_PriorityBands cfg) p)))"
  using assms
proof (induction P)
  case (Cons e P)
  obtain p b where e: "e = (p, b)" by (cases e)
  then obtain c where c: "gm_get (cf_PriorityBands cfg) p = Some c" using Cons.prems(2) [of p] by auto
  have fresh: "gm_get P p = None" using Cons.prems(1) e by (simp add: gm_get_None)
  have "gm_get (cf_PriorityBands cfg) q \<noteq> None" if "gm_get P q \<noteq> None" for q
    using Cons.prems(2) [of q] that e by (simp split: if_splits)
  then obtain m where m: "band_stats cfg P = Some m" "\<forall>p. gm_get m p = (case gm_get P p of None \<Rightarrow> None
     | Some b \<Rightarrow> map_option (\<lambda>c. \<lparr>bs_Priority = p, bs_CapacityBytes = pb_MaxBytes c, bs_CapacityRequests = pb_MaxRequests c,
          bs_ByteSize = bst_byteSize b, bs_Len = bst_len b\<rparr>) (gm_get (cf_PriorityBands cfg) p))"
    using Cons.IH Cons.prems(1) by auto
  then show ?case using e c fresh by (auto split: option.splits)
qed simp



subsection \<open>Two runs the comments rule out\<close>

definition started :: "Config \<Rightarrow> FlowRegistry option" where
  "started cfg = do { r \<leftarrow> NewFlowRegistry cfg; (case r of Inl e \<Rightarrow> None | Inr fr \<Rightarrow> Some fr) }"

text \<open>A statically configured band is collected like a dynamic one. Once a flow has used it, the band
  has a lease state; when the flow and then the band have been idle for their timeouts the configured band is
  deleted, and the next request at that priority is served by a band made from the default template (here: 7
  instead of the configured 1000 bytes).\<close>

theorem static_band_replaced_by_template:
  "map_option (\<lambda>fr. map_option pb_MaxBytes (gm_get (cf_PriorityBands (fr_config fr)) 0)) (started demo_config) = Some (Some 1000) \<and>
   map_option (\<lambda>fr. map_option pb_MaxBytes (gm_get (cf_PriorityBands (fr_config fr)) 0))
     (do { fr \<leftarrow> started demo_config;
           (e, fr) \<leftarrow> WithConnection 10 (FlowKey ''f'' 0) (\<lambda>fr. Some (None, fr)) fr;
           Some (executeGCCycle 1000 (executeGCCycle 400 fr)) }) = Some None \<and>
   map_option (\<lambda>fr. map_option pb_MaxBytes (gm_get (cf_PriorityBands (fr_config fr)) 0))
     (do { fr \<leftarrow> started demo_config;
           (e, fr) \<leftarrow> WithConnection 10 (FlowKey ''f'' 0) (\<lambda>fr. Some (None, fr)) fr;
           (e, fr) \<leftarrow> WithConnection 1010 (FlowKey ''f'' 0) (\<lambda>fr. Some (None, fr)) (executeGCCycle 1000 (executeGCCycle 400 fr));
           Some fr }) = Some (Some 7)"
  by (intro conjI; code_simp)

text \<open>The clock of the deferred release is read when the connection opens. A request that waited longer
  than the flow timeout leaves its flow collectable at once: the next cycle deletes the flow together with a
  queue that still holds the item, and the item is counted for ever in the totals of shard and registry
  although no queue holds it.\<close>

theorem queued_item_lost_but_counted:
  "map_option (\<lambda>(r, fr). (shard_items (fr_shard fr), as_TotalLen (the (Stats fr)), ss_TotalLen (shard_Stats (fr_shard fr))))
     (do { fr \<leftarrow> started demo_config;
           (r, fr) \<leftarrow> WithConnection 10 (FlowKey ''f'' 0)
             (\<lambda>fr. do { (e, st, fr) \<leftarrow> on_shard (queue_Add (FlowKey ''f'' 0)
                 ((mk_item 4 9 100)\<lparr>fi_originalRequest := (fi_originalRequest (mk_item 4 9 100))\<lparr>rq_FlowKey := FlowKey ''f'' 0\<rparr>\<rparr>)
                 empty_store) fr; Some (e, fr) }) fr;
           Some (r, executeGCCycle 311 fr) }) = Some ([], 1, 1)"
  by code_simp

end
