(* ===== verification/ControllerProofs.thy ===== *)
theory ControllerProofs
  imports Controller RegistryReach
begin

text \<open>
  The flow controller keeps its promises to the caller: a failed distribution leaves a finalized item behind, a
  successful one leaves the item with exactly one worker, every outcome comes with an error that fits it, and no
  request outlives its time to live.
\<close>

subsection \<open>Workers and candidates\<close>

lemma getOrStartWorker_fields [simp]:
  "fc_store (getOrStartWorker shard fc) = fc_store fc" "fc_registry (getOrStartWorker shard fc) = fc_registry fc"
  "fc_config (getOrStartWorker shard fc) = fc_config fc"
  by (simp_all add: getOrStartWorker_def Let_def)

lemma getOrStartWorker_started: "gm_get (fc_workers (getOrStartWorker shard fc)) (sh_id shard) \<noteq> None"
  by (simp add: getOrStartWorker_def Let_def update_conv')

lemma getOrStartWorker_keeps:
  "gm_get (fc_workers fc) i = Some w \<Longrightarrow> gm_get (fc_workers (getOrStartWorker shard fc)) i = Some w"
  by (auto simp: getOrStartWorker_def Let_def update_conv')

lemma collect_spec:
  "collect_candidates key shards fc = (cs, fc') \<Longrightarrow>
   fc_store fc' = fc_store fc \<and> fc_registry fc' = fc_registry fc \<and> fc_config fc' = fc_config fc \<and>
   (\<forall>i w. gm_get (fc_workers fc) i = Some w \<longrightarrow> gm_get (fc_workers fc') i = Some w) \<and>
   (\<forall>c \<in> set cs. gm_get (fc_workers fc') (cd_shardID c) \<noteq> None)"
proof (induction shards arbitrary: fc cs fc')
  case (Cons shard shards)
  obtain cs1 fc1 where r: "collect_candidates key shards (getOrStartWorker shard fc) = (cs1, fc1)" by fastforce
  note IH = Cons.IH [OF r]
  have "fc' = fc1" using Cons.prems r by (auto simp: Let_def split: sum.splits)
  moreover have "gm_get (fc_workers fc1) (sh_id shard) \<noteq> None"
    using IH getOrStartWorker_started [of shard fc] by (metis option.exhaust option.distinct(1))
  ultimately show ?case using IH Cons.prems r getOrStartWorker_keeps
    by (auto simp: Let_def split: sum.splits)
qed simp

lemma select_spec:
  assumes "selectDistributionCandidates key fc = (r, fc')"
  shows "fc_store fc' = fc_store fc" "fc_registry fc' = fc_registry fc" "fc_config fc' = fc_config fc"
    "r = Inl e \<Longrightarrow> e = Errorf [errNoShards]"
    "r = Inr cs \<Longrightarrow> cs \<noteq> [] \<and> sorted (map cd_byteSize cs) \<and> (\<forall>c \<in> set cs. gm_get (fc_workers fc') (cd_shardID c) \<noteq> None)"
proof -
  obtain cs0 fc1 where c: "collect_candidates key (ActiveShards (fc_registry fc)) fc = (cs0, fc1)" by fastforce
  note sp = collect_spec [OF c]
  have r: "r = Inl (Errorf [errNoShards]) \<and> (fc' = fc \<or> fc' = fc1) \<or> r = Inr (sort_key cd_byteSize cs0) \<and> fc' = fc1 \<and> cs0 \<noteq> []"
    using assms c by (auto simp: selectDistributionCandidates_def Let_def split: if_splits)
  show "fc_store fc' = fc_store fc" using r sp by metis
  show "fc_registry fc' = fc_registry fc" using r sp by metis
  show "fc_config fc' = fc_config fc" using r sp by metis
  show "r = Inl e \<Longrightarrow> e = Errorf [errNoShards]" using r by auto
  assume "r = Inr cs"
  then have cs: "cs = sort_key cd_byteSize cs0" "fc' = fc1" "cs0 \<noteq> []" using r by auto
  have "set cs = set cs0" by (simp add: cs)
  moreover have "cs \<noteq> []" using cs(1,3) by (metis length_0_conv length_sort)
  ultimately show "cs \<noteq> [] \<and> sorted (map cd_byteSize cs) \<and> (\<forall>c \<in> set cs. gm_get (fc_workers fc') (cd_shardID c) \<noteq> None)"
    using sp cs(1,2) by auto
qed

subsection \<open>Distribution\<close>

lemma Submit_cases:
  "(r, w') \<in> set (Submit (Some x) w) \<Longrightarrow> (r = None \<and> w' = send_item (Some x) w) \<or> (r \<in> {Some ErrFlowControllerNotRunning, Some ErrProcessorBusy} \<and> w' = w)"
  by (auto simp: Submit_def submit_select_def Let_def split: if_splits)

lemma SubmitOrBlock_cases:
  "(r, w') \<in> set (SubmitOrBlock ce (Some x) w) \<Longrightarrow>
   (r = None \<and> w' = send_item (Some x) w) \<or> (r = Some ErrFlowControllerNotRunning \<or> r = ce \<and> ce \<noteq> None) \<and> w' = w"
  by (auto simp: SubmitOrBlock_def submitOrBlock_select_def split: if_splits option.splits)

text \<open>The item is in the channel of the worker of shard \<open>i\<close>, and nothing else has changed.\<close>

definition handed_over :: "FlowItem \<Rightarrow> string \<Rightarrow> FlowController \<Rightarrow> FlowController \<Rightarrow> bool" where
  "handed_over x i fc fc' \<longleftrightarrow> (\<exists>w. gm_get (fc_workers fc) i = Some w \<and>
     fc' = fc\<lparr>fc_workers := gm_set i (send_item (Some x) w) (fc_workers fc)\<rparr>)"

lemma worker_unchanged: "gm_get (fc_workers fc) i = Some w \<Longrightarrow> fc\<lparr>fc_workers := gm_set i w (fc_workers fc)\<rparr> = fc"
  by (simp add: gm_set_same)

abbreviation put_worker :: "candidate \<Rightarrow> ShardProcessor \<Rightarrow> FlowController \<Rightarrow> FlowController" where
  "put_worker c w fc \<equiv> fc\<lparr>fc_workers := gm_set (cd_shardID c) w (fc_workers fc)\<rparr>"

lemma fast_failover_step:
  assumes "gm_get (fc_workers fc) (cd_shardID c) = Some w"
  shows "fast_failover x (c # cs) fc = concat (map (\<lambda>rw. case fst rw of
       None \<Rightarrow> [Some (True, put_worker c (snd rw) fc)]
     | Some e \<Rightarrow> fast_failover x cs (put_worker c (snd rw) fc)) (Submit (Some x) w))"
  using assms by (auto simp: worker_call_def comp_def split_def intro!: arg_cong [where f = concat] map_cong split: option.split)

lemma fast_failover_spec:
  assumes "\<forall>c \<in> set cs. gm_get (fc_workers fc) (cd_shardID c) \<noteq> None" "res \<in> set (fast_failover x cs fc)"
  shows "res = Some (False, fc) \<or> (\<exists>fc' c. res = Some (True, fc') \<and> c \<in> set cs \<and> handed_over x (cd_shardID c) fc fc')"
  using assms
proof (induction cs)
  case (Cons c cs)
  obtain w where w: "gm_get (fc_workers fc) (cd_shardID c) = Some w" using Cons.prems(1) by auto
  obtain rw where "rw \<in> set (Submit (Some x) w)"
    and "res \<in> set (case fst rw of None \<Rightarrow> [Some (True, put_worker c (snd rw) fc)]
        | Some e \<Rightarrow> fast_failover x cs (put_worker c (snd rw) fc))"
    using Cons.prems(2) unfolding fast_failover_step [OF w] by auto
  then obtain r w' where rw: "(r, w') \<in> set (Submit (Some x) w)"
    and res: "res \<in> set (case r of None \<Rightarrow> [Some (True, put_worker c w' fc)] | Some e \<Rightarrow> fast_failover x cs (put_worker c w' fc))"
    by (metis prod.collapse)
  from Submit_cases [OF rw] show ?case
  proof (elim disjE conjE)
    assume "r = None" "w' = send_item (Some x) w"
    then show ?thesis using res w by (auto simp: handed_over_def)
  next
    assume "r \<in> {Some ErrFlowControllerNotRunning, Some ErrProcessorBusy}" "w' = w"
    then have "res \<in> set (fast_failover x cs fc)" using res worker_unchanged [OF w] by auto
    then show ?thesis using Cons.IH Cons.prems(1) by auto
  qed
qed simp

text \<open>Either the item went to one candidate, or nothing changed and the error says why.\<close>

lemma distributeRequest_spec:
  assumes cs: "cs \<noteq> []" "\<forall>c \<in> set cs. gm_get (fc_workers fc) (cd_shardID c) \<noteq> None"
    and res: "res \<in> set (distributeRequest ce x cs fc)"
  shows "(\<exists>fc' c. res = Some (QueueOutcomeNotYetFinalized, None, fc') \<and> c \<in> set cs \<and> handed_over x (cd_shardID c) fc fc') \<or>
     (\<exists>e. res = Some (QueueOutcomeRejectedOther, Some (Errorf [ErrRejected, e]), fc) \<and>
        (e = ErrFlowControllerNotRunning \<or> ce = Some e))"
proof -
  obtain c cs' where c: "cs = c # cs'" using cs(1) by (cases cs) auto
  obtain w where w: "gm_get (fc_workers fc) (cd_shardID c) = Some w" using cs(2) c by auto
  obtain r where r: "r \<in> set (fast_failover x cs fc)"
    and res': "res \<in> set (case r of None \<Rightarrow> [None] | Some (accepted, fc') \<Rightarrow>
       if accepted then [Some (QueueOutcomeNotYetFinalized, None, fc')] else blocking_submit ce x c fc')"
    using res unfolding distributeRequest_def set_concat set_map c list.case UN_iff image_iff by blast
  from fast_failover_spec [OF cs(2) r] show ?thesis
  proof (elim disjE exE conjE)
    assume "r = Some (False, fc)"
    then have "res \<in> set (blocking_submit ce x c fc)" using res' by simp
    then obtain q w' where q: "(q, w') \<in> set (SubmitOrBlock ce (Some x) w)"
      "res = Some (case q of None \<Rightarrow> (QueueOutcomeNotYetFinalized, None, put_worker c w' fc)
        | Some err \<Rightarrow> (QueueOutcomeRejectedOther, Some (Errorf [ErrRejected, err]), put_worker c w' fc))"
      using w by (auto simp: worker_call_def blocking_submit_def)
    from SubmitOrBlock_cases [OF q(1)] show ?thesis
    proof (elim disjE conjE)
      assume "q = None" "w' = send_item (Some x) w"
      then have "handed_over x (cd_shardID c) fc (put_worker c w' fc)" using w by (auto simp: handed_over_def)
      then show ?thesis using q(2) \<open>q = None\<close> c by auto
    qed (use q(2) worker_unchanged [OF w] in auto)
  next
    fix fc' c' assume "r = Some (True, fc')" "c' \<in> set cs" "handed_over x (cd_shardID c') fc fc'"
    then show ?thesis using res' by auto
  qed
qed

text \<open>The requests on their way to the worker of a shard, and the worker channels of the whole controller.\<close>

definition chan_of :: "FlowController \<Rightarrow> string \<Rightarrow> FlowItem option list" where
  "chan_of fc i = (case gm_get (fc_workers fc) i of None \<Rightarrow> [] | Some w \<Rightarrow> sp_enqueueChan w)"

lemma chan_of_store [simp]: "chan_of (fc\<lparr>fc_store := st\<rparr>) = chan_of fc"
  by (simp add: chan_of_def fun_eq_iff)

lemma getOrStartWorker_chan [simp]: "chan_of (getOrStartWorker shard fc) = chan_of fc"
  by (rule ext) (auto simp: chan_of_def getOrStartWorker_def Let_def update_conv' NewShardProcessor_def split: option.split)

lemma collect_chan: "collect_candidates key shards fc = (cs, fc') \<Longrightarrow> chan_of fc' = chan_of fc \<and> cd_shardID ` set cs \<subseteq> sh_id ` set shards"
proof (induction shards arbitrary: fc cs fc')
  case (Cons shard shards)
  obtain cs1 fc1 where r: "collect_candidates key shards (getOrStartWorker shard fc) = (cs1, fc1)" by fastforce
  have "fc' = fc1" "cs = cs1 \<or> (\<exists>mq. cs = \<lparr>cd_shardID = sh_id shard, cd_byteSize = mq_ByteSize mq\<rparr> # cs1)"
    using Cons.prems r by (auto simp: Let_def split: sum.splits)
  then show ?case using Cons.IH [OF r] by (auto 0 3)
qed simp

lemma select_chan:
  assumes "selectDistributionCandidates key fc = (r, fc')"
  shows "chan_of fc' = chan_of fc" "r = Inr cs \<Longrightarrow> cd_shardID ` set cs \<subseteq> sh_id ` set (ActiveShards (fc_registry fc))"
proof -
  obtain cs0 fc1 where c: "collect_candidates key (ActiveShards (fc_registry fc)) fc = (cs0, fc1)" by fastforce
  note sp = collect_chan [OF c]
  have r: "r = Inl (Errorf [errNoShards]) \<and> (fc' = fc \<or> fc' = fc1) \<or> r = Inr (sort_key cd_byteSize cs0) \<and> fc' = fc1"
    using assms c by (auto simp: selectDistributionCandidates_def Let_def split: if_splits)
  show "chan_of fc' = chan_of fc" using r sp by metis
  assume "r = Inr cs"
  then have "set cs = set cs0" using r by auto
  then show "cd_shardID ` set cs \<subseteq> sh_id ` set (ActiveShards (fc_registry fc))" using sp by simp
qed

lemma handed_over_chan:
  "handed_over x i fc fc' \<Longrightarrow> fc_store fc' = fc_store fc \<and> chan_of fc' = (chan_of fc)(i := chan_of fc i @ [Some x])"
  by (auto simp: handed_over_def chan_of_def update_conv' send_item_def fun_eq_iff split: option.splits)

lemma ctx_done: "ctx_Err now c \<noteq> None \<longleftrightarrow> ctx_Cause now c \<noteq> None"
  by (auto simp: ctx_Err_def ctx_Cause_def split: option.splits)

lemma ctx_Err_cases: "ctx_Err now c = Some e \<Longrightarrow> e = Canceled \<or> e = DeadlineExceeded"
  by (auto simp: ctx_Err_def split: option.splits if_splits)

subsection \<open>One attempt\<close>

abbreviation alloc_item :: "nat \<Rightarrow> FlowController \<Rightarrow> FlowController" where
  "alloc_item ref fc \<equiv> fc\<lparr>fc_store := (fc_store fc)\<lparr>st_item := (st_item (fc_store fc))(ref := NewItem)\<rparr>\<rparr>"

text \<open>What the caller can rely on: with no error the item is with one worker and not final; with an error it is final,
  rejected, and with no worker.\<close>

definition attempt_ok :: "FlowControlRequest \<Rightarrow> nat \<Rightarrow> FlowController \<Rightarrow> FlowItem \<times> fc_error option \<times> FlowController \<Rightarrow> bool" where
  "attempt_ok req ref fc = (\<lambda>(item, err, fc').
     fi_ref item = ref \<and> fi_originalRequest item = req \<and> store_ok (fc_store fc') \<and>
     (\<forall>y. fi_ref y \<noteq> ref \<longrightarrow> FinalState_of (fc_store fc') y = FinalState_of (fc_store fc) y) \<and>
     (case err of
        None \<Rightarrow> FinalState_of (fc_store fc') item = None \<and>
                (\<exists>s \<in> set (ActiveShards (fc_registry fc)).
                   chan_of fc' = (chan_of fc)(sh_id s := chan_of fc (sh_id s) @ [Some item]))
      | Some e \<Rightarrow> chan_of fc' = chan_of fc \<and>
                (\<exists>fs. FinalState_of (fc_store fc') item = Some fs \<and> classified fs \<and>
                      fs_Outcome fs \<in> {QueueOutcomeRejectedCapacity, QueueOutcomeRejectedOther})))"

lemma inferOutcome_unqueued: "inferOutcome cause False = (oc, e) \<Longrightarrow> oc = QueueOutcomeRejectedOther \<and> err_is (Some e) ErrRejected"
  by (auto simp: inferOutcome_def Let_def err_is_def split: if_splits)

lemma attempt_failed:
  assumes "store_ok (fc_store fc1)" "FinalState_of (fc_store fc1) item = None" "chan_of fc1 = chan_of fc"
    "fi_ref item = ref" "fi_originalRequest item = req"
    "\<forall>y. fi_ref y \<noteq> ref \<longrightarrow> FinalState_of (fc_store fc1) y = FinalState_of (fc_store fc) y"
    "classified fs" "fs_Outcome fs \<in> {QueueOutcomeRejectedCapacity, QueueOutcomeRejectedOther}"
  shows "attempt_ok req ref fc (item, Some e, fc1\<lparr>fc_store := finalized_with item fs (fc_store fc1)\<rparr>)"
  using assms by (auto simp: attempt_ok_def)

lemma tryDistribution_ok:
  assumes ok: "store_ok (fc_store fc)" and res: "res \<in> set (tryDistribution now reqCtx req t ref fc)"
  shows "\<exists>r. res = Some r \<and> attempt_ok req ref fc r"
proof -
  define item where "item = attempt_item (fc_config fc) reqCtx req t ref"
  have item: "fi_ref item = ref" "fi_originalRequest item = req" by (simp_all add: item_def attempt_item_def)
  obtain cands fc1 where sel: "selectDistributionCandidates (rq_FlowKey req) (alloc_item ref fc) = (cands, fc1)" by fastforce
  note S = select_spec [OF sel] select_chan [OF sel]
  have ok1: "store_ok (fc_store fc1)" using ok S(1) by (simp add: store_ok_def item_ok_def NewItem_def)
  have new: "FinalState_of (fc_store fc1) item = None" "Handle (fc_store fc1) item = None"
    using S(1) by (simp_all add: FinalState_of_def Handle_def item NewItem_def)
  have old: "\<forall>y. fi_ref y \<noteq> ref \<longrightarrow> FinalState_of (fc_store fc1) y = FinalState_of (fc_store fc) y"
    using S(1) by (simp add: FinalState_of_def)
  have chan: "chan_of fc1 = chan_of fc" using S(6) by simp
  note fail = attempt_failed [OF ok1 new(1) chan item old]
  show ?thesis
  proof (cases cands)
    case (Inl err)
    then have "err = Errorf [errNoShards]" using S(4) by simp
    then show ?thesis using res sel Inl FinalizeWithOutcome_eq [OF ok1]
      by (auto simp: tryDistribution_def Let_def item_def [symmetric] err_is_def intro!: fail)
  next
    case (Inr cs)
    note cs = S(5) [OF Inr] S(7) [OF Inr]
    obtain r where r: "r \<in> set (distributeRequest (ctx_Err now reqCtx) item cs fc1)"
      and res': "res = Option.bind r (settle_distribution (ctx_Cause now reqCtx) item)"
      using res sel Inr by (auto simp: tryDistribution_def Let_def item_def [symmetric])
    from distributeRequest_spec [OF _ _ r] cs consider
      (sent) fc' c where "r = Some (QueueOutcomeNotYetFinalized, None, fc')" "c \<in> set cs" "handed_over item (cd_shardID c) fc1 fc'"
    | (err) e where "r = Some (QueueOutcomeRejectedOther, Some (Errorf [ErrRejected, e]), fc1)"
        "e = ErrFlowControllerNotRunning \<or> ctx_Err now reqCtx = Some e" by blast
    then show ?thesis
    proof cases
      case sent
      have "cd_shardID c \<in> sh_id ` set (ActiveShards (fc_registry fc))" using sent(2) cs(2) by auto
      then show ?thesis using res' sent(1) handed_over_chan [OF sent(3)] ok1 new(1) old chan item
        by (auto simp: attempt_ok_def settle_distribution_def)
    next
      case err
      consider "e = ErrFlowControllerNotRunning" | cause where "e = Canceled \<or> e = DeadlineExceeded" "ctx_Cause now reqCtx = Some cause"
        using err(2) ctx_Err_cases ctx_done by (metis not_None_eq)
      then show ?thesis
      proof cases
        case 1
        then show ?thesis using res' err(1) FinalizeWithOutcome_eq [OF ok1] by (auto simp: err_is_def settle_distribution_def Let_def intro!: fail)
      next
        case 2
        obtain oc fe where io: "inferOutcome cause False = (oc, fe)" by fastforce
        then show ?thesis using res' err(1) 2 Finalize_eq [OF ok1, of item cause] new(2) inferOutcome_unqueued [OF io]
          by (auto simp: settle_distribution_def intro!: fail)
      qed
    qed
  qed
qed

subsection \<open>Join the shortest queue\<close>

text \<open>A worker that is neither stopping nor stopped, and one that moreover takes an item at once.\<close>

definition healthy :: "FlowController \<Rightarrow> candidate \<Rightarrow> bool" where
  "healthy fc c \<longleftrightarrow> (case gm_get (fc_workers fc) (cd_shardID c) of
     None \<Rightarrow> False | Some w \<Rightarrow> \<not> sp_isShuttingDown w \<and> \<not> sp_lifecycleDone w)"

definition accepting :: "FlowController \<Rightarrow> candidate \<Rightarrow> bool" where
  "accepting fc c \<longleftrightarrow> (case gm_get (fc_workers fc) (cd_shardID c) of None \<Rightarrow> False | Some w \<Rightarrow> chan_ready w)"

definition hand_to :: "FlowItem \<Rightarrow> candidate \<Rightarrow> FlowController \<Rightarrow> FlowController" where
  "hand_to x c fc = put_worker c (send_item (Some x) (the (gm_get (fc_workers fc) (cd_shardID c)))) fc"

lemma fast_failover_healthy:
  "\<forall>c \<in> set cs. healthy fc c \<Longrightarrow> fast_failover x cs fc =
     (case find (accepting fc) cs of None \<Rightarrow> [Some (False, fc)] | Some c \<Rightarrow> [Some (True, hand_to x c fc)])"
proof (induction cs)
  case (Cons c cs)
  then obtain w where w: "gm_get (fc_workers fc) (cd_shardID c) = Some w" "\<not> sp_isShuttingDown w" "\<not> sp_lifecycleDone w"
    by (auto simp: healthy_def split: option.splits)
  then show ?case
    using Cons worker_unchanged [OF w(1)] unfolding fast_failover_step [OF w(1)]
    by (auto simp: Submit_def submit_select_def accepting_def hand_to_def)
qed simp

lemma find_least:
  assumes "sorted (map f xs)" "find P xs = Some x"
  shows "x \<in> set xs \<and> P x \<and> (\<forall>y \<in> set xs. P y \<longrightarrow> f x \<le> f y)"
  using assms by (induction xs) (auto split: if_splits)


definition demo_request :: FlowControlRequest where
  "demo_request = \<lparr>rq_ID = ''r'', rq_FlowKey = FlowKey ''f'' 3, rq_ByteSize = 5, rq_ReceivedTimestamp = 0,
     rq_InitialEffectiveTTL = 0, rq_Headers = None\<rparr>"

definition demo_ctx :: Context where
  "demo_ctx = \<lparr>ctx_Deadline = None, ctx_DeadlineCause = DeadlineExceeded, ctx_cancelCause = None\<rparr>"

definition demo_controller :: "FlowController option" where
  "demo_controller = map_option (\<lambda>fr. NewFlowController \<lparr>cc_DefaultRequestTTL = 50, cc_ExpiryCleanupInterval = 1,
     cc_ProcessorReconciliationInterval = 1, cc_EnqueueChannelBufferSize = 2\<rparr> fr empty_store) demo_connect"

lemma demo_controller_exists:
  obtains fc where "demo_controller = Some fc" "fc_store fc = empty_store" "cc_DefaultRequestTTL (fc_config fc) = 50"
proof -
  obtain fr where "demo_connect = Some fr" using demo_connect_reach by blast
  then show ?thesis by (intro that) (auto simp: demo_controller_def NewFlowController_def)
qed

lemma demo_select:
  "map_option (\<lambda>fc. case selectDistributionCandidates (FlowKey ''f'' 3) fc of (r, fc1) \<Rightarrow>
     (case r of Inl e \<Rightarrow> None | Inr cs \<Rightarrow> Some (map (\<lambda>c. (cd_shardID c, healthy fc1 c, accepting fc1 c)) cs))) demo_controller =
   Some (Some [(''shard-0'', True, True)])"
  by code_simp

lemma demo_select_exists:
  obtains fc c fc1 where "demo_controller = Some fc" "selectDistributionCandidates (FlowKey ''f'' 3) fc = (Inr [c], fc1)"
    "healthy fc1 c" "accepting fc1 c"
proof -
  obtain fc where fc: "demo_controller = Some fc" using demo_select by auto
  obtain r fc1 where s: "selectDistributionCandidates (FlowKey ''f'' 3) fc = (r, fc1)" by fastforce
  from demo_select obtain cs where "r = Inr cs" "map (\<lambda>c. (cd_shardID c, healthy fc1 c, accepting fc1 c)) cs = [(''shard-0'', True, True)]"
    unfolding fc option.map option.inject s prod.case by (cases r) auto
  then obtain c where "r = Inr [c]" "healthy fc1 c" "accepting fc1 c" by auto
  then show ?thesis using that fc s by blast
qed


subsection \<open>Properties of a request\<close>

text \<open>C5: One distribution attempt never panics and never leaves the ownership of the item in doubt. Without an error the
  item is at the end of the channel of exactly one worker, that of an active shard, and is not final. With an error no
  channel has changed and the item is final, rejected, with an error that fits the outcome. The final states of other
  items stay as they were.\<close>

theorem attempt_settles_ownership:
  assumes "store_ok (fc_store fc)"
  shows "\<forall>res \<in> set (tryDistribution now reqCtx req t ref fc). \<exists>r. res = Some r \<and> attempt_ok req ref fc r"
  using tryDistribution_ok [OF assms] by blast

theorem attempt_settles_ownership_witness:
  "\<exists>fc fc' item. demo_controller = Some fc \<and>
     tryDistribution 0 demo_ctx demo_request 0 4 fc =
       [Some (item, None, fc')] \<and> chan_of fc' ''shard-0'' = [Some item] \<and> FinalState_of (fc_store fc') item = None"
proof -
  have v: "map_option (\<lambda>fc. (map (map_option (\<lambda>(x, e, fc). e)) (tryDistribution 0 demo_ctx demo_request 0 4 fc),
      chan_of fc ''shard-0'', map sh_id (ActiveShards (fc_registry fc)))) demo_controller = Some ([Some None], [], [''shard-0''])"
    by code_simp
  obtain fc where fc: "demo_controller = Some fc" using v by auto
  have v': "map (map_option (\<lambda>(x, e, fc). e)) (tryDistribution 0 demo_ctx demo_request 0 4 fc) = [Some None]" "chan_of fc ''shard-0'' = []"
    "map sh_id (ActiveShards (fc_registry fc)) = [''shard-0'']"
    using v unfolding fc by simp_all
  obtain item fc' where r: "tryDistribution 0 demo_ctx demo_request 0 4 fc = [Some (item, None, fc')]" using v'(1) by auto
  have "store_ok (fc_store fc)" using fc by (auto simp: demo_controller_def NewFlowController_def)
  from attempt_settles_ownership [OF this, of 0 demo_ctx demo_request 0 4] r v'(2,3)
  have "chan_of fc' ''shard-0'' = [Some item] \<and> FinalState_of (fc_store fc') item = None" by (auto simp: attempt_ok_def)
  then show ?thesis using fc r by blast
qed

definition all_classified :: "Store \<Rightarrow> bool" where
  "all_classified st \<longleftrightarrow> (\<forall>x fs. FinalState_of st x = Some fs \<longrightarrow> classified fs)"

text \<open>What a step of the loop may do: return an outcome that fits its error, wait for an item that is not final, or start
  over because the shard of the item was draining.\<close>

fun round_ok :: "FlowController \<Rightarrow> round_result \<Rightarrow> bool" where
  "round_ok fc (Return oc err) = outcome_ok oc err"
| "round_ok fc (Await item) = (FinalState_of (fc_store fc) item = None)"
| "round_ok fc Retry = (\<exists>x fs. FinalState_of (fc_store fc) x = Some fs \<and> err_is (fs_Err fs) ErrShardDraining)"

definition store_good :: "FlowController \<Rightarrow> bool" where
  "store_good fc \<longleftrightarrow> store_ok (fc_store fc) \<and> all_classified (fc_store fc)"

lemma attempt_good:
  assumes "all_classified (fc_store fc)" "attempt_ok req ref fc (item, err, fc')"
  shows "store_good fc'"
proof -
  have other: "\<forall>y. fi_ref y \<noteq> ref \<longrightarrow> FinalState_of (fc_store fc') y = FinalState_of (fc_store fc) y"
    and item: "fi_ref item = ref" "store_ok (fc_store fc')" "\<forall>fs. FinalState_of (fc_store fc') item = Some fs \<longrightarrow> classified fs"
    using assms(2) by (auto simp: attempt_ok_def split: option.splits)
  have "classified fs" if "FinalState_of (fc_store fc') y = Some fs" for y fs
  proof (cases "fi_ref y = ref")
    case True
    then have "FinalState_of (fc_store fc') item = FinalState_of (fc_store fc') y" using item(1) by (simp add: FinalState_of_def)
    then show ?thesis using item(3) that by simp
  next
    case False
    then show ?thesis using other that assms(1) unfolding all_classified_def by metis
  qed
  then show ?thesis using item(2) by (auto simp: store_good_def all_classified_def)
qed

lemma distribute_round_ok:
  assumes "store_good fc" "res \<in> set (distribute_round now reqCtx req t ref fc)"
  shows "\<exists>r fc'. res = Some (r, fc') \<and> round_ok fc' r \<and> store_good fc'"
proof (cases "fc_parentDone fc")
  case True
  then show ?thesis using assms by (simp add: distribute_round_def err_is_def)
next
  case False
  then obtain a where a: "a \<in> set (tryDistribution now reqCtx req t ref fc)"
    and res: "res = do { (item, err, fc') \<leftarrow> a;
                         (case err of
                            None \<Rightarrow> Some (Await item, fc')
                          | Some e \<Rightarrow> do { finalState \<leftarrow> FinalState_of (fc_store fc') item;
                                          Some (Return (fs_Outcome finalState) (fs_Err finalState), fc') }) }"
    using assms(2) by (auto simp: distribute_round_def)
  have ok: "store_ok (fc_store fc)" "all_classified (fc_store fc)" using assms(1) by (simp_all add: store_good_def)
  obtain item err fc' where t: "a = Some (item, err, fc')" "attempt_ok req ref fc (item, err, fc')"
    using tryDistribution_ok [OF ok(1) a] by auto
  then show ?thesis using res attempt_good [OF ok(2) t(2)] by (auto simp: attempt_ok_def split: option.splits)
qed

lemma done_final: "store_ok st \<Longrightarrow> im_done (st_item st (fi_ref x)) = fs # rest \<Longrightarrow> FinalState_of st x = Some fs"
  using store_ok_item [of st "fi_ref x"] by (auto simp: item_ok_def FinalState_of_def split: option.splits)

lemma await_final:
  assumes "store_ok st" "all_classified st" "res \<in> set (awaitFinalization cause x st)"
  shows "\<exists>fs st'. res = Some (fs_Outcome fs, fs_Err fs, st') \<and> FinalState_of st' x = Some fs \<and> classified fs \<and>
     store_ok st' \<and> all_classified st'"
proof -
  consider (cancelled) c where "cause = Some c" "res = do { st' \<leftarrow> Finalize x c st; finalState \<leftarrow> FinalState_of st' x;
       Some (fs_Outcome finalState, fs_Err finalState, st') }"
    | (closed) fs rest where "im_done (st_item st (fi_ref x)) = fs # rest" "res = Some (fs_Outcome fs, fs_Err fs, st)"
    using assms(3) by (cases cause; cases "im_done (st_item st (fi_ref x))") (auto simp: awaitFinalization_def)
  then show ?thesis
  proof cases
    case cancelled
    obtain fs where fs: "classified fs" "Finalize x c st = Some (finalized_with x fs st)" using Finalize_result [OF assms(1)] by blast
    have ok: "all_classified (finalized_with x fs st)" using fs(1) assms(2) by (auto simp: all_classified_def split: option.splits)
    obtain g where g: "FinalState_of (finalized_with x fs st) x = Some g" by simp
    then have "classified g" using ok unfolding all_classified_def by blast
    then show ?thesis using cancelled(2) fs(2) g ok store_ok_finalized_with [OF assms(1)] by (simp del: finalized_with_final)
  next
    case closed
    have "FinalState_of st x = Some fs" by (rule done_final [OF assms(1) closed(1)])
    moreover from this have "classified fs" using assms(2) unfolding all_classified_def by blast
    ultimately show ?thesis using closed(2) assms(1,2) by blast
  qed
qed

lemma await_round_ok:
  assumes "store_good fc" "res \<in> set (await_round cause x fc)"
  shows "\<exists>r fc'. res = Some (r, fc') \<and> round_ok fc' r \<and> store_good fc' \<and> (\<forall>y. r \<noteq> Await y)"
proof -
  have ok: "store_ok (fc_store fc)" "all_classified (fc_store fc)" using assms(1) by (simp_all add: store_good_def)
  obtain a where a: "a \<in> set (awaitFinalization cause x (fc_store fc))"
    and res: "res = do { (outcome, err, st) \<leftarrow> a;
                     (case err of
                        None \<Rightarrow> Some (Return outcome None, fc\<lparr>fc_store := st\<rparr>)
                      | Some e \<Rightarrow> if errors_Is e ErrShardDraining then Some (Retry, fc\<lparr>fc_store := st\<rparr>)
                                  else Some (Return outcome (Some e), fc\<lparr>fc_store := st\<rparr>)) }"
    using assms(2) by (auto simp: await_round_def)
  obtain fs st' where f: "a = Some (fs_Outcome fs, fs_Err fs, st')" "FinalState_of st' x = Some fs" "classified fs"
    and good: "store_ok st'" "all_classified st'"
    using await_final [OF ok a] by blast
  have "store_good (fc\<lparr>fc_store := st'\<rparr>)" using good by (simp add: store_good_def)
  then show ?thesis using res f by (cases "fs_Err fs") (force simp: err_is_def)+
qed

lemma after_round_store [simp]: "store_good (after_round opened key r fc) = store_good fc"
  by (cases r) (simp_all add: store_good_def)

lemma EnqueueAndWait_result_ok:
  "outcome_ok oc err \<or> oc = QueueOutcomeNotYetFinalized \<and> err \<noteq> None \<Longrightarrow> EnqueueAndWait_result oc err = (oc', err') \<Longrightarrow> outcome_ok oc' err'"
  by (auto simp: EnqueueAndWait_result_def err_is_def split: option.splits if_splits)

lemma phase_ok: "round_ok fc r \<Longrightarrow> phase_of r = Finished oc err \<Longrightarrow> outcome_ok oc err"
  by (cases r) (auto intro: EnqueueAndWait_result_ok split: prod.splits)

lemma request_inv:
  assumes "EnqueueAndWait store_good ctx req t0 opened ph fc"
  shows "store_good fc \<and> (\<forall>oc err. ph = Finished oc err \<longrightarrow> outcome_ok oc err)"
  using assms
proof (induction rule: EnqueueAndWait.induct)
  case (Refused fc e fr)
  then show ?case using EnqueueAndWait_result_ok [of QueueOutcomeNotYetFinalized "Some e"]
    by (auto simp: store_good_def split: prod.splits)
next
  case (Distributed fc reqCtx t r fc' now ref)
  then show ?case using distribute_round_ok [OF _ Distributed.hyps(3)] phase_ok by auto
next
  case (Awaited item fc reqCtx t r fc' now)
  then show ?case using await_round_ok [OF _ Awaited.hyps(3)] phase_ok by auto
qed (auto simp: store_good_def)



lemma concat_map_not_nil: "(\<And>x. x \<in> set xs \<Longrightarrow> f x \<noteq> []) \<Longrightarrow> xs \<noteq> [] \<Longrightarrow> concat (map f xs) \<noteq> []"
  by (cases xs) auto

lemma worker_call_not_nil: "(\<And>w. f w \<noteq> []) \<Longrightarrow> worker_call f c fc \<noteq> []"
  by (auto simp: worker_call_def split: option.split)

lemma fast_failover_not_nil: "fast_failover x cs fc \<noteq> []"
proof (induction cs arbitrary: fc)
  case (Cons c cs)
  have "worker_call (Submit (Some x)) c fc \<noteq> []" by (rule worker_call_not_nil) (simp add: Submit_def submit_select_def Let_def)
  then show ?case unfolding fast_failover.simps
    by (intro concat_map_not_nil) (auto simp: Cons.IH split: option.splits)
qed simp

lemma tryDistribution_not_nil:
  assumes "ctx_Err now reqCtx \<noteq> None"
  shows "tryDistribution now reqCtx req t ref fc \<noteq> []"
proof -
  have "worker_call (SubmitOrBlock (ctx_Err now reqCtx) (Some x)) c fc \<noteq> []" for x c fc
    by (rule worker_call_not_nil) (use assms in \<open>auto simp: SubmitOrBlock_def submitOrBlock_select_def\<close>)
  then have "distributeRequest (ctx_Err now reqCtx) x cs fc \<noteq> []" for x cs fc
    unfolding distributeRequest_def
    by (intro concat_map_not_nil fast_failover_not_nil) (auto simp: blocking_submit_def split: option.splits list.splits)
  then show ?thesis by (auto simp: tryDistribution_def Let_def split: prod.splits sum.splits)
qed

definition effective_ttl :: "ControllerConfig \<Rightarrow> FlowControlRequest \<Rightarrow> duration" where
  "effective_ttl cfg req = (if rq_InitialEffectiveTTL req \<le> 0 then cc_DefaultRequestTTL cfg else rq_InitialEffectiveTTL req)"

lemma request_context_done:
  assumes "0 < effective_ttl cfg req" "createRequestContext cfg now ctx req = (reqCtx, t0)" "now + effective_ttl cfg req \<le> t"
  shows "ctx_Cause t reqCtx \<noteq> None"
    "ctx_cancelCause ctx = None \<Longrightarrow> ctx_Deadline ctx = None \<Longrightarrow> ctx_Cause t reqCtx = Some ErrTTLExpired"
  using assms
  by (auto simp: createRequestContext_def effective_ttl_def WithDeadlineCause_def ctx_Cause_def Let_def split: option.splits if_splits)

text \<open>C16: No request outlives its time to live. Once the TTL (the request's own, or else the configured default) has passed,
  neither the distribution attempt nor the wait for the outcome blocks, even if no worker ever touches the item. When
  nothing else ended the request, the wait returns the TTL outcome: evicted if the item was queued, rejected if not.\<close>

theorem ttl_bounds_request:
  assumes ttl: "0 < effective_ttl (fc_config fc) req" "createRequestContext (fc_config fc) now ctx req = (reqCtx, t0)"
      "now + effective_ttl (fc_config fc) req \<le> t"
    and ok: "store_ok (fc_store fc)"
  shows "distribute_round t reqCtx req t0 ref fc \<noteq> [] \<and> await_round (ctx_Cause t reqCtx) x fc \<noteq> [] \<and>
     (ctx_cancelCause ctx = None \<and> ctx_Deadline ctx = None \<and> FinalState_of (fc_store fc) x = None \<longrightarrow>
        (\<exists>fc'. await_round (ctx_Cause t reqCtx) x fc = [Some
           (if Handle (fc_store fc) x \<noteq> None then Return QueueOutcomeEvictedTTL (Some (Errorf [ErrEvicted, ErrTTLExpired]))
            else Return QueueOutcomeRejectedOther (Some (Errorf [ErrRejected, ErrTTLExpired])), fc')]))"
proof (intro conjI impI)
  note cause = request_context_done [OF ttl]
  show "distribute_round t reqCtx req t0 ref fc \<noteq> []"
    using tryDistribution_not_nil [of t reqCtx req t0 ref fc] cause(1) ctx_done by (simp add: distribute_round_def)
  show "await_round (ctx_Cause t reqCtx) x fc \<noteq> []"
    using cause(1) by (auto simp: await_round_def awaitFinalization_def)
  assume a: "ctx_cancelCause ctx = None \<and> ctx_Deadline ctx = None \<and> FinalState_of (fc_store fc) x = None"
  then have c: "ctx_Cause t reqCtx = Some ErrTTLExpired" using cause(2) by simp
  have "im_done (st_item (fc_store fc) (fi_ref x)) = []"
    using a store_ok_item [OF ok, of "fi_ref x"] by (simp add: item_ok_def FinalState_of_def)
  then show "\<exists>fc'. await_round (ctx_Cause t reqCtx) x fc = [Some
           (if Handle (fc_store fc) x \<noteq> None then Return QueueOutcomeEvictedTTL (Some (Errorf [ErrEvicted, ErrTTLExpired]))
            else Return QueueOutcomeRejectedOther (Some (Errorf [ErrRejected, ErrTTLExpired])), fc')]"
    using a c Finalize_eq [OF ok, of x ErrTTLExpired] by (simp add: await_round_def awaitFinalization_def inferOutcome_def)
qed

theorem ttl_bounds_request_witness:
  "\<exists>fc fc' rctx. demo_controller = Some fc \<and>
     createRequestContext (fc_config fc) 10 demo_ctx
       demo_request = (rctx, 10) \<and>
     await_round (ctx_Cause 60 rctx) demo_item fc = [Some (Return QueueOutcomeRejectedOther (Some (Errorf [ErrRejected, ErrTTLExpired])), fc')]"
proof -
  obtain fc where fc: "demo_controller = Some fc" "fc_store fc = empty_store" "cc_DefaultRequestTTL (fc_config fc) = 50"
    by (rule demo_controller_exists)
  have ttl: "effective_ttl (fc_config fc) demo_request = 50" by (simp add: effective_ttl_def demo_request_def fc(3))
  obtain rctx where r: "createRequestContext (fc_config fc) 10 demo_ctx demo_request = (rctx, 10)"
    using ttl by (simp add: createRequestContext_def effective_ttl_def Let_def)
  have "FinalState_of (fc_store fc) demo_item = None" "Handle (fc_store fc) demo_item = None"
    by (simp_all add: fc(2) empty_store_def FinalState_of_def Handle_def NewItem_def)
  then show ?thesis using ttl_bounds_request [OF _ r, of 60 0 demo_item] ttl fc(1,2) r by (auto simp: demo_ctx_def)
qed

text \<open>A request for which the active shard has no queue is rejected for capacity, but with an error that is not
  \<open>ErrQueueAtCapacity\<close>, although the comment on \<open>QueueOutcomeRejectedCapacity\<close> promises that error.\<close>

theorem capacity_rejection_without_capacity_error:
  "map_option (\<lambda>fc. map (map_option (\<lambda>(item, err, fc').
       (map_option (\<lambda>fs. (fs_Outcome fs, err_is (fs_Err fs) ErrRejected, err_is (fs_Err fs) ErrQueueAtCapacity))
         (FinalState_of (fc_store fc') item))))
     (tryDistribution 0 demo_ctx
        (demo_request\<lparr>rq_FlowKey := FlowKey ''missing'' 3\<rparr>) 0 4 fc)) demo_controller =
   Some [Some (Some (QueueOutcomeRejectedCapacity, True, False))]"
  by code_simp

end
