(* ===== verification/BinHeap.thy ===== *)
theory BinHeap
  imports HeapOrder "HOL-Library.Multiset" "HOL-Library.Monad_Syntax"
begin

text \<open>
  The package \<open>container/heap\<close> of the Go library over a slice whose elements know their position: \<open>Swap\<close> writes the new
  positions into the two elements it moves, \<open>Push\<close> and \<open>Pop\<close> maintain the position of the element they add or remove.
  An element is a reference; the second component of a heap maps it to its position. \<^const>\<open>None\<close> is an index out of
  range.
\<close>

type_synonym 'a bheap = "'a list \<times> ('a \<Rightarrow> int)"

fun bh_Swap :: "nat \<Rightarrow> nat \<Rightarrow> 'a bheap \<Rightarrow> 'a bheap" where
  "bh_Swap i j (xs, idx) = (let ys = swap_list i j xs in (ys, idx(ys ! i := int i, ys ! j := int j)))"

function bh_up :: "('a \<Rightarrow> 'a \<Rightarrow> bool) \<Rightarrow> nat \<Rightarrow> 'a bheap \<Rightarrow> 'a bheap" where
  "bh_up bef j h =
     (let i = (j - 1) div 2
      in if i = j \<or> \<not> bef (fst h ! j) (fst h ! i) then h else bh_up bef i (bh_Swap i j h))"
  by pat_completeness auto
termination
  by (relation "measure (\<lambda>(bef, j, h). j)") auto

declare bh_up.simps [simp del]

definition smaller_child :: "('a \<Rightarrow> 'a \<Rightarrow> bool) \<Rightarrow> nat \<Rightarrow> nat \<Rightarrow> 'a list \<Rightarrow> nat" where
  "smaller_child bef i n xs =
     (let j1 = 2 * i + 1; j2 = j1 + 1 in if j2 < n \<and> bef (xs ! j2) (xs ! j1) then j2 else j1)"

function bh_down :: "('a \<Rightarrow> 'a \<Rightarrow> bool) \<Rightarrow> nat \<Rightarrow> nat \<Rightarrow> 'a bheap \<Rightarrow> nat \<times> 'a bheap" where
  "bh_down bef i n h =
     (if 2 * i + 1 \<ge> n then (i, h)
      else (let j = smaller_child bef i n (fst h)
            in if \<not> bef (fst h ! j) (fst h ! i) then (i, h) else bh_down bef j n (bh_Swap i j h)))"
  by pat_completeness auto
termination
  by (relation "measure (\<lambda>(bef, i, n, h). n - i)") (auto simp: smaller_child_def Let_def)

declare bh_down.simps [simp del]

fun init_loop :: "('a \<Rightarrow> 'a \<Rightarrow> bool) \<Rightarrow> nat \<Rightarrow> nat \<Rightarrow> 'a bheap \<Rightarrow> 'a bheap" where
  "init_loop bef 0 n h = h"
| "init_loop bef (Suc i) n h = init_loop bef i n (snd (bh_down bef i n h))"

definition bh_Init :: "('a \<Rightarrow> 'a \<Rightarrow> bool) \<Rightarrow> 'a bheap \<Rightarrow> 'a bheap" where
  "bh_Init bef h = (let n = length (fst h) in init_loop bef (n div 2) n h)"

definition bh_append :: "'a \<Rightarrow> 'a bheap \<Rightarrow> 'a bheap" where
  "bh_append x h = (fst h @ [x], (snd h)(x := int (length (fst h))))"

definition bh_pop_last :: "'a bheap \<Rightarrow> 'a \<times> 'a bheap" where
  "bh_pop_last h = (last (fst h), (butlast (fst h), (snd h)(last (fst h) := - 1)))"

definition bh_Push :: "('a \<Rightarrow> 'a \<Rightarrow> bool) \<Rightarrow> 'a \<Rightarrow> 'a bheap \<Rightarrow> 'a bheap" where
  "bh_Push bef x h = bh_up bef (length (fst h)) (bh_append x h)"

definition bh_Pop :: "('a \<Rightarrow> 'a \<Rightarrow> bool) \<Rightarrow> 'a bheap \<Rightarrow> ('a \<times> 'a bheap) option" where
  "bh_Pop bef h =
     (if fst h = [] then None
      else (let n = length (fst h) - 1 in Some (bh_pop_last (snd (bh_down bef 0 n (bh_Swap 0 n h))))))"

definition bh_Remove :: "('a \<Rightarrow> 'a \<Rightarrow> bool) \<Rightarrow> int \<Rightarrow> 'a bheap \<Rightarrow> ('a \<times> 'a bheap) option" where
  "bh_Remove bef index h =
     (if index < 0 \<or> index \<ge> int (length (fst h)) then None
      else (let i = nat index; n = length (fst h) - 1
            in Some (bh_pop_last
                 (if n \<noteq> i then (let (i', h') = bh_down bef i n (bh_Swap i n h) in if \<not> i' > i then bh_up bef i h' else h')
                  else h))))"

subsection \<open>Contents and positions\<close>

definition pos_ok :: "'a bheap \<Rightarrow> bool" where
  "pos_ok h \<longleftrightarrow> distinct (fst h) \<and> (\<forall>k < length (fst h). snd h (fst h ! k) = int k)"

definition same_elems :: "'a bheap \<Rightarrow> 'a bheap \<Rightarrow> bool" where
  "same_elems h h' \<longleftrightarrow> mset (fst h') = mset (fst h) \<and> (pos_ok h \<longrightarrow> pos_ok h') \<and> (\<forall>x. x \<notin> set (fst h) \<longrightarrow> snd h' x = snd h x)"

lemma same_elems_refl [simp]: "same_elems h h"
  by (simp add: same_elems_def)

lemma same_elems_trans: "same_elems h h' \<Longrightarrow> same_elems h' h'' \<Longrightarrow> same_elems h h''"
  unfolding same_elems_def by (metis mset_eq_setD)

lemma same_elems_length: "same_elems h h' \<Longrightarrow> length (fst h') = length (fst h)"
  unfolding same_elems_def by (metis size_mset)

lemma Swap_fst [simp]: "fst (bh_Swap i j h) = swap_list i j (fst h)"
  by (cases h) (simp add: Let_def)

lemma Swap_same:
  assumes "i < length (fst h)" "j < length (fst h)"
  shows "same_elems h (bh_Swap i j h)"
proof -
  obtain xs idx where h: "h = (xs, idx)" by (cases h)
  let ?ys = "swap_list i j xs"
  have m: "mset ?ys = mset xs" using assms h by simp
  have in_ys: "?ys ! i \<in> set xs" "?ys ! j \<in> set xs" using assms h m by (metis fst_conv length_swap_list mset_eq_setD nth_mem)+
  have "pos_ok (bh_Swap i j h)" if "pos_ok h"
  proof -
    have d: "distinct ?ys" using that m h unfolding pos_ok_def by (metis fst_conv mset_eq_imp_distinct_iff)
    have "(idx(?ys ! i := int i, ?ys ! j := int j)) (?ys ! k) = int k" if k: "k < length xs" for k
    proof -
      have "?ys ! k = ?ys ! i \<longleftrightarrow> k = i" "?ys ! k = ?ys ! j \<longleftrightarrow> k = j"
        using d k assms h by (simp_all add: nth_eq_iff_index_eq)
      moreover have "idx (?ys ! k) = int k" if "k \<noteq> i" "k \<noteq> j"
        using \<open>pos_ok h\<close> k that assms h by (simp add: swap_list_nth pos_ok_def)
      ultimately show ?thesis by auto
    qed
    then show ?thesis using d h by (simp add: pos_ok_def Let_def)
  qed
  then show ?thesis using h m in_ys by (auto simp: same_elems_def Let_def)
qed

lemma up_same: "j < length (fst h) \<Longrightarrow> same_elems h (bh_up bef j h)"
proof (induction bef j h rule: bh_up.induct)
  case (1 bef j h)
  let ?i = "(j - 1) div 2"
  show ?case
  proof (cases "?i = j \<or> \<not> bef (fst h ! j) (fst h ! ?i)")
    case False
    have i: "?i < length (fst h)" using "1.prems" by linarith
    have "same_elems (bh_Swap ?i j h) (bh_up bef ?i (bh_Swap ?i j h))" using "1.IH" False i by simp
    then show ?thesis using same_elems_trans [OF Swap_same [OF i "1.prems"]] False by (subst bh_up.simps) (simp add: Let_def)
  qed (subst bh_up.simps, simp add: Let_def)
qed

lemma smaller_child_bounds: "2 * i + 1 < n \<Longrightarrow> i < smaller_child bef i n xs \<and> smaller_child bef i n xs < n"
  by (simp add: smaller_child_def Let_def)

lemma down_same: "n \<le> length (fst h) \<Longrightarrow> same_elems h (snd (bh_down bef i n h))"
proof (induction bef i n h rule: bh_down.induct)
  case (1 bef i n h)
  let ?j = "smaller_child bef i n (fst h)"
  show ?case
  proof (cases "2 * i + 1 \<ge> n \<or> \<not> bef (fst h ! ?j) (fst h ! i)")
    case False
    then have b: "i < ?j" "?j < n" using smaller_child_bounds [of i n bef "fst h"] by auto
    then have lt: "i < length (fst h)" "?j < length (fst h)" using "1.prems" by linarith+
    have "same_elems (bh_Swap i ?j h) (snd (bh_down bef ?j n (bh_Swap i ?j h)))" using "1.IH" False "1.prems" by simp
    then show ?thesis using same_elems_trans [OF Swap_same [OF lt]] False by (subst bh_down.simps) (simp add: Let_def)
  qed (subst bh_down.simps, auto simp: Let_def)
qed


subsection \<open>The heap order\<close>

text \<open>Position \<open>k\<close> is in order when its element does not go before the element of its parent. While an element moves up from
  \<open>j\<close> only position \<open>j\<close> may be out of order; while one moves down from \<open>i\<close> only the children of \<open>i\<close> may be. In both cases
  the children of the position do not go before its parent.\<close>

definition in_order :: "('a \<Rightarrow> 'a \<Rightarrow> bool) \<Rightarrow> 'a list \<Rightarrow> nat \<Rightarrow> bool" where
  "in_order bef xs k \<longleftrightarrow> k = 0 \<or> \<not> bef (xs ! k) (xs ! par k)"

definition heap_upto :: "('a \<Rightarrow> 'a \<Rightarrow> bool) \<Rightarrow> nat \<Rightarrow> 'a list \<Rightarrow> bool" where
  "heap_upto bef n xs \<longleftrightarrow> (\<forall>k < n. in_order bef xs k)"

definition skips :: "('a \<Rightarrow> 'a \<Rightarrow> bool) \<Rightarrow> nat \<Rightarrow> 'a list \<Rightarrow> nat \<Rightarrow> bool" where
  "skips bef n xs i \<longleftrightarrow> (\<forall>k < n. 0 < k \<longrightarrow> par k = i \<longrightarrow> 0 < i \<longrightarrow> \<not> bef (xs ! k) (xs ! par i))"

definition up_inv :: "('a \<Rightarrow> 'a \<Rightarrow> bool) \<Rightarrow> nat \<Rightarrow> 'a list \<Rightarrow> nat \<Rightarrow> bool" where
  "up_inv bef n xs j \<longleftrightarrow> (\<forall>k < n. k \<noteq> j \<longrightarrow> in_order bef xs k) \<and> skips bef n xs j"

definition down_inv :: "('a \<Rightarrow> 'a \<Rightarrow> bool) \<Rightarrow> nat \<Rightarrow> 'a list \<Rightarrow> nat \<Rightarrow> bool" where
  "down_inv bef n xs i \<longleftrightarrow> (\<forall>k < n. 0 < k \<longrightarrow> par k \<noteq> i \<longrightarrow> in_order bef xs k) \<and> skips bef n xs i"

lemma up_inv_done: "up_inv bef n xs j \<Longrightarrow> in_order bef xs j \<Longrightarrow> heap_upto bef n xs"
  unfolding up_inv_def heap_upto_def by blast

lemma down_inv_done:
  assumes "down_inv bef n xs i" and "\<forall>k < n. 0 < k \<longrightarrow> par k = i \<longrightarrow> in_order bef xs k"
  shows "heap_upto bef n xs"
  using assms unfolding down_inv_def heap_upto_def by (metis gr0I in_order_def)

context strict_weak
begin

lemma nbef_trans: "\<not> bef b a \<Longrightarrow> \<not> bef c b \<Longrightarrow> \<not> bef c a"
  using neg_trans by blast

lemma up_inv_step:
  assumes "up_inv bef n xs j" and "bef (xs ! j) (xs ! par j)" and "0 < j" and "j < n" and "n \<le> length xs"
  shows "up_inv bef n (swap_list (par j) j xs) (par j)"
  unfolding up_inv_def
proof (intro conjI allI impI)
  let ?ys = "swap_list (par j) j xs"
  have pj: "par j < j" using assms(3) by (rule par_less)
  have nth: "?ys ! k = (if k = par j then xs ! j else if k = j then xs ! par j else xs ! k)" if "k < n" for k
    using that assms(4,5) pj by (simp add: swap_list_nth)
  fix k
  assume k: "k < n" "k \<noteq> par j"
  show "in_order bef ?ys k"
  proof (cases "k = 0")
    case False
    then have "par k < n" "par k < k" using k par_less [of k] by simp_all
    show ?thesis
    proof (cases "k = j")
      case True
      then show ?thesis using nth k pj assms(2) asym by (simp add: in_order_def)
    next
      case kj: False
      have ok: "\<not> bef (xs ! k) (xs ! par k)" using assms(1) k kj False unfolding up_inv_def in_order_def by blast
      consider "par k = j" | "par k = par j" | "par k \<noteq> j" "par k \<noteq> par j" by blast
      then show ?thesis
      proof cases
        case 1
        then have "\<not> bef (xs ! k) (xs ! par j)" using assms(1,3) k False unfolding up_inv_def skips_def by simp
        then show ?thesis using nth k kj 1 \<open>par k < n\<close> pj by (simp add: in_order_def)
      next
        case 2
        then have "\<not> bef (xs ! k) (xs ! j)" using ok assms(2) less_trans by metis
        then show ?thesis using nth k kj 2 \<open>par k < n\<close> by (simp add: in_order_def)
      next
        case 3
        then show ?thesis using nth k kj ok \<open>par k < n\<close> by (simp add: in_order_def)
      qed
    qed
  qed (simp add: in_order_def)
next
  let ?ys = "swap_list (par j) j xs"
  have pj: "par j < j" using assms(3) by (rule par_less)
  have nth: "?ys ! k = (if k = par j then xs ! j else if k = j then xs ! par j else xs ! k)" if "k < n" for k
    using that assms(4,5) pj by (simp add: swap_list_nth)
  show "skips bef n ?ys (par j)"
    unfolding skips_def
  proof (intro allI impI)
    fix k
    assume k: "k < n" "0 < k" "par k = par j" "0 < par j"
    have pp: "par (par j) < par j" using k(4) by (rule par_less)
    have top: "\<not> bef (xs ! par j) (xs ! par (par j))"
      using assms(1,4) pj k(4) unfolding up_inv_def in_order_def by (metis less_trans_Suc less_irrefl order.strict_trans)
    have "\<not> bef (xs ! k) (xs ! par (par j))" if "k \<noteq> j"
      using nbef_trans [OF top] assms(1) k that unfolding up_inv_def in_order_def by (metis less_numeral_extra(3))
    then show "\<not> bef (?ys ! k) (?ys ! par (par j))"
      using nth [OF k(1)] nth [of "par (par j)"] top pp pj k assms(4) par_less [OF k(2)] by auto
  qed
qed

lemma up_heap:
  assumes "up_inv bef n (fst h) j" and "j < n" and "n \<le> length (fst h)"
  shows "heap_upto bef n (fst (bh_up bef j h))"
  using assms
proof (induction j arbitrary: h rule: less_induct)
  case (less j)
  show ?case
  proof (cases "in_order bef (fst h) j")
    case True
    then have "bh_up bef j h = h" by (subst bh_up.simps) (auto simp: Let_def in_order_def par_def)
    then show ?thesis using up_inv_done [OF less.prems(1) True] by simp
  next
    case False
    then have j: "0 < j" "bef (fst h ! j) (fst h ! par j)" by (auto simp: in_order_def)
    then have "bh_up bef j h = bh_up bef (par j) (bh_Swap (par j) j h)"
      using par_less [OF j(1)] by (subst bh_up.simps) (simp add: Let_def par_def)
    moreover have "up_inv bef n (fst (bh_Swap (par j) j h)) (par j)"
      using up_inv_step [OF less.prems(1) j(2,1) less.prems(2,3)] by simp
    ultimately show ?thesis
      using less.IH [OF par_less [OF j(1)], of "bh_Swap (par j) j h"] less.prems(2,3) par_less [OF j(1)] by simp
  qed
qed

end


context strict_weak
begin

lemma smaller_child_first:
  assumes "k < n" "0 < k" "par k = i"
  shows "\<not> bef (xs ! k) (xs ! smaller_child bef i n xs)"
proof -
  have "k = 2 * i + 1 \<or> k = 2 * i + 2" using par_eqD [OF assms(3,2)] .
  then show ?thesis using assms(1) asym by (auto simp: smaller_child_def Let_def)
qed

lemma smaller_child_par: "par (smaller_child bef i n xs) = i"
  by (simp add: smaller_child_def Let_def)

lemma down_inv_step:
  assumes inv: "down_inv bef n xs i" and lt: "2 * i + 1 < n" and n: "n \<le> length xs"
    and j: "j = smaller_child bef i n xs" and b: "bef (xs ! j) (xs ! i)"
  shows "down_inv bef n (swap_list i j xs) j"
proof -
  let ?ys = "swap_list i j xs"
  have ij: "i < j" "j < n" "par j = i" using smaller_child_bounds [OF lt] smaller_child_par j by auto
  have nth: "?ys ! k = (if k = i then xs ! j else if k = j then xs ! i else xs ! k)" if "k < n" for k
    using that ij n by (simp add: swap_list_nth)
  have ord: "in_order bef ?ys k" if k: "k < n" "0 < k" "par k \<noteq> j" for k
  proof -
    have pk: "par k < k" "par k < n" using par_less [OF k(2)] k(1) by auto
    consider "k = j" | "k = i" | "par k = i" "k \<noteq> j" | "k \<noteq> i" "k \<noteq> j" "par k \<noteq> i" by blast
    then show ?thesis
    proof cases
      case 1
      then show ?thesis using nth ij b asym k by (simp add: in_order_def)
    next
      case 2
      then have "\<not> bef (xs ! j) (xs ! par i)" using inv ij k unfolding down_inv_def skips_def by simp
      then show ?thesis using 2 nth k pk ij by (simp add: in_order_def)
    next
      case 3
      then have "\<not> bef (xs ! k) (xs ! j)" using smaller_child_first k j by blast
      then show ?thesis using 3 nth k pk ij by (simp add: in_order_def)
    next
      case 4
      then have "in_order bef xs k" using inv k unfolding down_inv_def by blast
      then show ?thesis using 4 nth k pk by (simp add: in_order_def)
    qed
  qed
  have "skips bef n ?ys j"
    unfolding skips_def
  proof (intro allI impI)
    fix k
    assume k: "k < n" "0 < k" "par k = j"
    then have "in_order bef xs k" using inv ij unfolding down_inv_def by simp
    moreover have "j < k" using par_less [OF k(2)] k(3) by simp
    ultimately show "\<not> bef (?ys ! k) (?ys ! par j)" using nth k ij by (simp add: in_order_def)
  qed
  then show ?thesis using ord unfolding down_inv_def by blast
qed

lemma down_stays:
  assumes "\<forall>k < n. 0 < k \<longrightarrow> par k = i \<longrightarrow> in_order bef (fst h) k"
  shows "bh_down bef i n h = (i, h)"
proof (cases "2 * i + 1 \<ge> n")
  case False
  let ?j = "smaller_child bef i n (fst h)"
  have "in_order bef (fst h) ?j" using assms smaller_child_bounds [of i n] smaller_child_par False by (metis gr0I not_le not_less0)
  moreover have "0 < ?j" using smaller_child_bounds [of i n] False by (metis gr0I not_le not_less0)
  ultimately have "\<not> bef (fst h ! ?j) (fst h ! i)" using smaller_child_par by (simp add: in_order_def)
  then show ?thesis by (subst bh_down.simps) (simp add: Let_def)
qed (subst bh_down.simps, simp)

lemma down_heap:
  assumes "down_inv bef n (fst h) i" and "n \<le> length (fst h)"
  shows "heap_upto bef n (fst (snd (bh_down bef i n h)))"
  using assms
proof (induction "n - i" arbitrary: i h rule: less_induct)
  case less
  let ?j = "smaller_child bef i n (fst h)"
  show ?case
  proof (cases "2 * i + 1 < n \<and> bef (fst h ! ?j) (fst h ! i)")
    case True
    then have b: "i < ?j" "?j < n" using smaller_child_bounds [of i n bef "fst h"] by auto
    have "bh_down bef i n h = bh_down bef ?j n (bh_Swap i ?j h)" using True by (subst bh_down.simps) (simp add: Let_def)
    moreover have "down_inv bef n (fst (bh_Swap i ?j h)) ?j"
      using down_inv_step [OF less.prems(1) _ less.prems(2) refl] True by simp
    moreover have "n - ?j < n - i" using b by linarith
    ultimately show ?thesis using less.hyps [of ?j "bh_Swap i ?j h"] less.prems(2) by simp
  next
    case False
    have kids: "in_order bef (fst h) k" if k: "k < n" "0 < k" "par k = i" for k
    proof -
      have "2 * i + 1 < n" using par_eqD [OF k(3,2)] k(1) by linarith
      then have "\<not> bef (fst h ! ?j) (fst h ! i)" using False by blast
      then show ?thesis using nbef_trans smaller_child_first [OF k] k(3) unfolding in_order_def by blast
    qed
    then have "bh_down bef i n h = (i, h)" by (intro down_stays) blast
    then show ?thesis using down_inv_done [OF less.prems(1)] kids by simp
  qed
qed

lemma heap_up_inv: "heap_upto bef n xs \<Longrightarrow> j < n \<Longrightarrow> up_inv bef n xs j"
  unfolding up_inv_def skips_def heap_upto_def in_order_def using nbef_trans
  by (metis less_numeral_extra(3))

lemma heap_root_first: "heap_upto bef n xs \<Longrightarrow> k < n \<Longrightarrow> \<not> bef (xs ! k) (xs ! 0)"
proof (induction k rule: less_induct)
  case (less k)
  show ?case
  proof (cases "k = 0")
    case False
    then have "par k < k" using par_less by simp
    moreover have "\<not> bef (xs ! k) (xs ! par k)" using less.prems False unfolding heap_upto_def in_order_def by blast
    ultimately show ?thesis using less.IH [of "par k"] less.prems nbef_trans by force
  qed simp
qed

end


subsection \<open>The operations keep the heap\<close>

definition heap_ok :: "('a \<Rightarrow> 'a \<Rightarrow> bool) \<Rightarrow> 'a bheap \<Rightarrow> bool" where
  "heap_ok bef h \<longleftrightarrow> heap_upto bef (length (fst h)) (fst h) \<and> pos_ok h"

lemma up_above: "j < k \<Longrightarrow> k < length (fst h) \<Longrightarrow> fst (bh_up bef j h) ! k = fst h ! k"
proof (induction bef j h rule: bh_up.induct)
  case (1 bef j h)
  let ?i = "(j - 1) div 2"
  show ?case
  proof (cases "?i = j \<or> \<not> bef (fst h ! j) (fst h ! ?i)")
    case False
    then show ?thesis using 1 by (subst bh_up.simps) (simp add: Let_def swap_list_nth)
  qed (subst bh_up.simps, simp add: Let_def)
qed

lemma down_above: "n \<le> k \<Longrightarrow> k < length (fst h) \<Longrightarrow> fst (snd (bh_down bef i n h)) ! k = fst h ! k"
proof (induction bef i n h rule: bh_down.induct)
  case (1 bef i n h)
  let ?j = "smaller_child bef i n (fst h)"
  show ?case
  proof (cases "2 * i + 1 \<ge> n \<or> \<not> bef (fst h ! ?j) (fst h ! i)")
    case False
    then have "i < ?j" "?j < n" using smaller_child_bounds [of i n bef "fst h"] by auto
    then show ?thesis using 1 False by (subst bh_down.simps) (simp add: Let_def swap_list_nth)
  qed (subst bh_down.simps, auto simp: Let_def)
qed

text \<open>\<open>Remove\<close> takes out the element at the given position, and nothing else changes but positions.\<close>

definition removes :: "'a \<Rightarrow> 'a bheap \<Rightarrow> 'a bheap \<Rightarrow> bool" where
  "removes x h h' \<longleftrightarrow> mset (fst h) = add_mset x (mset (fst h')) \<and> (\<forall>y. y \<notin> set (fst h) \<longrightarrow> snd h' y = snd h y)"

lemma append_pos: "pos_ok h \<Longrightarrow> x \<notin> set (fst h) \<Longrightarrow> pos_ok (bh_append x h)"
  by (auto simp: pos_ok_def bh_append_def nth_append less_Suc_eq)

lemma pop_last_pos: "pos_ok h \<Longrightarrow> fst h \<noteq> [] \<Longrightarrow> pos_ok (snd (bh_pop_last h))"
proof -
  assume ok: "pos_ok h" and ne: "fst h \<noteq> []"
  have "last (fst h) \<notin> set (butlast (fst h))"
    using ok ne by (metis append_butlast_last_id distinct_append not_distinct_conv_prefix pos_ok_def)
  then have "butlast (fst h) ! k \<noteq> last (fst h)" if "k < length (butlast (fst h))" for k using that nth_mem by metis
  then show "pos_ok (snd (bh_pop_last h))" using ok
    by (auto simp: pos_ok_def bh_pop_last_def nth_butlast distinct_butlast)
qed

lemma heap_butlast: "heap_upto bef (length xs - 1) xs \<Longrightarrow> heap_upto bef (length (butlast xs)) (butlast xs)"
  unfolding heap_upto_def in_order_def by (auto simp: nth_butlast par_def)

context strict_weak
begin

lemma Push_ok:
  assumes "heap_ok bef h" and "x \<notin> set (fst h)"
  shows "heap_ok bef (bh_Push bef x h)" and "mset (fst (bh_Push bef x h)) = add_mset x (mset (fst h))"
    and "\<forall>y. y \<notin> insert x (set (fst h)) \<longrightarrow> snd (bh_Push bef x h) y = snd h y"
proof -
  let ?h = "bh_append x h" and ?m = "length (fst h)"
  have len: "length (fst ?h) = Suc ?m" by (simp add: bh_append_def)
  have "in_order bef (fst ?h) k" if "k < Suc ?m" "k \<noteq> ?m" for k
    using assms(1) that by (auto simp: heap_ok_def heap_upto_def in_order_def bh_append_def nth_append par_def)
  moreover have "skips bef (Suc ?m) (fst ?h) ?m" unfolding skips_def using par_less by (metis less_Suc_eq_le not_le)
  ultimately have "up_inv bef (Suc ?m) (fst ?h) ?m" by (simp add: up_inv_def)
  then have "heap_upto bef (Suc ?m) (fst (bh_up bef ?m ?h))" by (rule up_heap) (simp_all add: len)
  moreover have same: "same_elems ?h (bh_up bef ?m ?h)" by (rule up_same) (simp add: len)
  moreover have "pos_ok ?h" using append_pos [of h x] assms by (simp add: heap_ok_def)
  ultimately show "heap_ok bef (bh_Push bef x h)"
    using same_elems_length [OF same] len by (simp add: heap_ok_def bh_Push_def same_elems_def)
  show "mset (fst (bh_Push bef x h)) = add_mset x (mset (fst h))"
    using same by (simp add: bh_Push_def same_elems_def bh_append_def)
  show "\<forall>y. y \<notin> insert x (set (fst h)) \<longrightarrow> snd (bh_Push bef x h) y = snd h y"
    using same by (simp add: bh_Push_def same_elems_def bh_append_def)
qed

text \<open>Moving the last element of a heap to position \<open>i\<close> and sifting it down, and up if it did not move, restores the
  order of the rest.\<close>

lemma hole_after_swap:
  assumes "heap_upto bef (Suc n) xs" and "length xs = Suc n" and "i < n"
  defines "ys \<equiv> swap_list i n xs"
  shows "\<forall>k < n. k \<noteq> i \<longrightarrow> 0 < k \<longrightarrow> par k \<noteq> i \<longrightarrow> in_order bef ys k" and "skips bef n ys i"
proof -
  have nth: "ys ! k = (if k = i then xs ! n else xs ! k)" if "k < n" for k
    using that assms(2,3) unfolding ys_def by (simp add: swap_list_nth)
  have ord: "in_order bef xs k" if "k < n" for k using assms(1) that by (simp add: heap_upto_def)
  have pk: "par k < n" if "k < n" for k using that by (simp add: par_def)
  show "\<forall>k < n. k \<noteq> i \<longrightarrow> 0 < k \<longrightarrow> par k \<noteq> i \<longrightarrow> in_order bef ys k"
  proof (intro allI impI)
    fix k
    assume "k < n" "k \<noteq> i" "0 < k" "par k \<noteq> i"
    then show "in_order bef ys k" using ord [of k] nth [of k] nth [of "par k"] pk [of k] by (simp add: in_order_def)
  qed
  show "skips bef n ys i"
    unfolding skips_def
  proof (intro allI impI)
    fix k
    assume k: "k < n" "0 < k" "par k = i" "0 < i"
    have "\<not> bef (xs ! k) (xs ! i)" "\<not> bef (xs ! i) (xs ! par i)"
      using ord [OF k(1)] ord [OF assms(3)] k by (simp_all add: in_order_def)
    then have "\<not> bef (xs ! k) (xs ! par i)" using nbef_trans by blast
    moreover have "par i < i" "i < k" using par_less k by force+
    ultimately show "\<not> bef (ys ! k) (ys ! par i)" using nth [OF k(1)] nth [of "par i"] assms(3) by simp
  qed
qed

lemma sift_restores:
  assumes hole: "\<forall>k < n. k \<noteq> i \<longrightarrow> 0 < k \<longrightarrow> par k \<noteq> i \<longrightarrow> in_order bef (fst h) k" "skips bef n (fst h) i"
    and "i < n" and "n \<le> length (fst h)"
  shows "heap_upto bef n (fst (let (i', h') = bh_down bef i n h in if \<not> i' > i then bh_up bef i h' else h'))"
proof (cases "in_order bef (fst h) i")
  case True
  then have "down_inv bef n (fst h) i" using hole unfolding down_inv_def by blast
  then have "heap_upto bef n (fst (snd (bh_down bef i n h)))" using assms(4) by (rule down_heap)
  moreover have "n \<le> length (fst (snd (bh_down bef i n h)))"
    using same_elems_length [OF down_same [OF assms(4)]] assms(4) by simp
  ultimately show ?thesis using heap_up_inv up_heap assms(3) by (simp add: Let_def split_def)
next
  case False
  then have i: "0 < i" "bef (fst h ! i) (fst h ! par i)" by (auto simp: in_order_def)
  have kids: "\<forall>k < n. 0 < k \<longrightarrow> par k = i \<longrightarrow> in_order bef (fst h) k"
    using hole(2) i less_trans unfolding skips_def in_order_def by blast
  then have "bh_down bef i n h = (i, h)" by (rule down_stays)
  moreover have "up_inv bef n (fst h) i" using hole kids unfolding up_inv_def by (metis gr0I in_order_def)
  ultimately show ?thesis using up_heap assms(3,4) by simp
qed


lemma sift_same:
  assumes "i < n" and "n \<le> length (fst h)"
  shows "same_elems h (let (i', h') = bh_down bef i n h in if \<not> i' > i then bh_up bef i h' else h')"
proof -
  have down: "same_elems h (snd (bh_down bef i n h))" by (rule down_same [OF assms(2)])
  moreover have "same_elems (snd (bh_down bef i n h)) (bh_up bef i (snd (bh_down bef i n h)))"
    using same_elems_length [OF down] assms by (intro up_same) simp
  ultimately show ?thesis using same_elems_trans [of h "snd (bh_down bef i n h)"] by (simp add: Let_def split_def)
qed

lemma sift_last:
  assumes "i < n" and "length (fst h) = Suc n"
  shows "fst (let (i', h') = bh_down bef i n h in if \<not> i' > i then bh_up bef i h' else h') ! n = fst h ! n"
proof -
  have "same_elems h (snd (bh_down bef i n h))" using assms(2) by (intro down_same) simp
  then have "length (fst (snd (bh_down bef i n h))) = Suc n" using assms(2) same_elems_length by metis
  then show ?thesis using assms up_above [of i n "snd (bh_down bef i n h)" bef] down_above [of n n h bef i]
    by (simp add: Let_def split_def)
qed


lemma pop_last_ok:
  assumes "heap_upto bef n (fst h)" and "pos_ok h" and "length (fst h) = Suc n"
  shows "fst (bh_pop_last h) = fst h ! n" and "heap_ok bef (snd (bh_pop_last h))"
    and "removes (fst h ! n) h (snd (bh_pop_last h))"
proof -
  have ne: "fst h \<noteq> []" using assms(3) by auto
  have last: "last (fst h) = fst h ! n" using assms(3) ne by (simp add: last_conv_nth)
  then show "fst (bh_pop_last h) = fst h ! n" by (simp add: bh_pop_last_def)
  show "heap_ok bef (snd (bh_pop_last h))"
    using heap_butlast [of bef "fst h"] pop_last_pos [OF assms(2) ne] assms(1,3) by (simp add: heap_ok_def bh_pop_last_def)
  have "mset (fst h) = add_mset (last (fst h)) (mset (butlast (fst h)))"
    using ne by (cases "fst h" rule: rev_cases) simp_all
  then show "removes (fst h ! n) h (snd (bh_pop_last h))" using last ne assms(3) nth_mem [of n "fst h"] by (auto simp: removes_def bh_pop_last_def)
qed

lemma Remove_ok:
  assumes "heap_ok bef h" and "i < length (fst h)"
  shows "\<exists>h'. bh_Remove bef (int i) h = Some (fst h ! i, h') \<and> heap_ok bef h' \<and> removes (fst h ! i) h h'"
proof -
  define n where "n = length (fst h) - 1"
  have len: "length (fst h) = Suc n" using assms(2) by (simp add: n_def)
  have ok: "heap_upto bef (Suc n) (fst h)" "pos_ok h" using assms(1) len by (simp_all add: heap_ok_def)
  define g where "g = (if n \<noteq> i then (let (i', h') = bh_down bef i n (bh_Swap i n h) in if \<not> i' > i then bh_up bef i h' else h') else h)"
  have run: "bh_Remove bef (int i) h = Some (bh_pop_last g)"
    using assms(2) by (simp add: bh_Remove_def g_def n_def Let_def)
  have "heap_upto bef n (fst g) \<and> same_elems h g \<and> fst g ! n = fst h ! i"
  proof (cases "n = i")
    case True
    then show ?thesis using ok(1) by (simp add: g_def heap_upto_def)
  next
    case False
    then have i: "i < n" using assms(2) len by simp
    have sw: "same_elems h (bh_Swap i n h)" using i len by (intro Swap_same) simp_all
    have "same_elems (bh_Swap i n h) g" using sift_same [of i n "bh_Swap i n h"] i len by (simp add: g_def)
    moreover have "heap_upto bef n (fst g)"
      using sift_restores [of n i "bh_Swap i n h"] hole_after_swap [OF ok(1) len i] i len by (simp add: g_def)
    moreover have "fst g ! n = fst h ! i" using sift_last [of i n "bh_Swap i n h"] i len by (simp add: g_def swap_list_nth)
    ultimately show ?thesis using same_elems_trans [OF sw] by blast
  qed
  then have g: "heap_upto bef n (fst g)" "same_elems h g" "fst g ! n = fst h ! i" by blast+
  have "pos_ok g" "length (fst g) = Suc n" using g(2) ok(2) same_elems_length [OF g(2)] len by (simp_all add: same_elems_def)
  from pop_last_ok [OF g(1) this] show ?thesis
    using run g(2,3) unfolding removes_def same_elems_def by (metis mset_eq_setD prod.collapse)
qed

lemma Pop_is_Remove:
  assumes "fst h \<noteq> []"
  shows "bh_Pop bef h = bh_Remove bef 0 h"
proof (cases "length (fst h) = 1")
  case True
  then obtain x idx where "h = ([x], idx)" by (cases h) (auto simp: length_Suc_conv)
  then show ?thesis by (simp add: bh_Pop_def bh_Remove_def bh_pop_last_def bh_down.simps swap_list_def fun_eq_iff)
next
  case False
  then have "length (fst h) - 1 \<noteq> 0" using assms by (cases "fst h") auto
  moreover have "bh_up bef 0 g = g" for g by (subst bh_up.simps) simp
  ultimately show ?thesis using assms by (simp add: bh_Pop_def bh_Remove_def Let_def split_def)
qed

lemma Pop_ok:
  assumes "heap_ok bef h" and "fst h \<noteq> []"
  shows "\<exists>h'. bh_Pop bef h = Some (fst h ! 0, h') \<and> heap_ok bef h' \<and> removes (fst h ! 0) h h'"
    and "\<forall>y \<in> set (fst h). \<not> bef y (fst h ! 0)"
proof -
  have "0 < length (fst h)" using assms(2) by simp
  from Remove_ok [OF assms(1) this] show "\<exists>h'. bh_Pop bef h = Some (fst h ! 0, h') \<and> heap_ok bef h' \<and> removes (fst h ! 0) h h'"
    using Pop_is_Remove [OF assms(2)] by simp
  show "\<forall>y \<in> set (fst h). \<not> bef y (fst h ! 0)"
    using heap_root_first assms(1) by (metis heap_ok_def in_set_conv_nth)
qed

end

end
