(* ===== verification/Endpoints.thy ===== *)
theory Endpoints
  imports Complex_Main GoMap
begin

text \<open>
  What the scheduler knows of a model server: its metadata, its last scraped metrics and the attributes
  that plugins attach to it (\<open>framework/interface/datalayer\<close>, \<open>framework/interface/scheduling/types.go\<close>
  and \<open>framework/plugins/datalayer/attribute\<close>). A \<open>NamespacedName\<close> is represented by what its \<open>String\<close>
  method returns. Two endpoint pointers are the same key of a Go map exactly when they are the same
  pointer, so an endpoint carries its address. An \<open>int\<close> of the metrics is an integer, a \<open>float64\<close> is a real.
\<close>

record EndpointMetadata =
  md_NamespacedName :: string
  md_PodName :: string
  md_Address :: string
  md_Port :: string
  md_MetricsHost :: string
  md_Labels :: "(string, string) gomap"

record Metrics =
  mt_ActiveModels :: "(string, int) gomap"
  mt_WaitingModels :: "(string, int) gomap"
  mt_MaxActiveModels :: int
  mt_RunningRequestsSize :: int
  mt_WaitingQueueSize :: int
  mt_KVCacheUsagePercent :: real
  mt_KvCacheMaxTokenCapacity :: int
  mt_CacheBlockSize :: int
  mt_CacheNumBlocks :: int
  mt_UpdateTime :: time

definition NewMetrics :: Metrics where
  "NewMetrics = \<lparr>mt_ActiveModels = [], mt_WaitingModels = [], mt_MaxActiveModels = 0, mt_RunningRequestsSize = 0,
     mt_WaitingQueueSize = 0, mt_KVCacheUsagePercent = 0, mt_KvCacheMaxTokenCapacity = 0, mt_CacheBlockSize = 0,
     mt_CacheNumBlocks = 0, mt_UpdateTime = 0\<rparr>"

subsection \<open>Attributes\<close>

datatype Cloneable =
    PrefixCacheMatchInfo (MatchBlocks: int) (TotalBlocks: int) (BlockSizeTokens: int)
  | InFlightLoad (Tokens: int) (Requests: int)
  | LatencyPredictionInfo (TTFTValid: bool) (TPOTValid: bool) (TTFTHeadroom: real) (TPOTHeadroom: real)
      (TTFT: real) (TPOT: real) (DispatchedRequestCount: int)

definition PrefixCacheMatchInfoKey :: string where "PrefixCacheMatchInfoKey = ''PrefixCacheMatchInfoKey''"
definition InFlightLoadKey :: string where "InFlightLoadKey = ''InFlightLoadKey''"
definition LatencyPredictionInfoKey :: string where "LatencyPredictionInfoKey = ''LatencyPredictionInfoKey''"

type_synonym AttributeMap = "(string, Cloneable) gomap"

text \<open>\<open>Put\<close> ignores a nil value; \<open>Get\<close> returns a copy, which is the value.\<close>

definition attr_Put :: "string \<Rightarrow> Cloneable option \<Rightarrow> AttributeMap \<Rightarrow> AttributeMap" where
  "attr_Put key value a = (case value of None \<Rightarrow> a | Some v \<Rightarrow> gm_set key v a)"

definition attr_Get :: "string \<Rightarrow> AttributeMap \<Rightarrow> Cloneable option" where
  "attr_Get key a = gm_get a key"

definition attr_Keys :: "AttributeMap \<Rightarrow> string list" where
  "attr_Keys a = map fst a"

definition attr_Clone :: "AttributeMap \<Rightarrow> AttributeMap" where
  "attr_Clone a = fold (\<lambda>(k, v) clone. attr_Put k (Some v) clone) a []"

subsection \<open>Endpoints\<close>

record Endpoint =
  ep_ref :: nat
  ep_Metadata :: EndpointMetadata
  ep_Metrics :: Metrics
  ep_Attributes :: AttributeMap

definition NewEndpoint :: "nat \<Rightarrow> EndpointMetadata \<Rightarrow> Metrics \<Rightarrow> AttributeMap option \<Rightarrow> Endpoint" where
  "NewEndpoint ref meta metrics attr =
     \<lparr>ep_ref = ref, ep_Metadata = meta, ep_Metrics = metrics,
      ep_Attributes = (case attr of None \<Rightarrow> [] | Some a \<Rightarrow> attr_Clone a)\<rparr>"

abbreviation ep_name :: "Endpoint \<Rightarrow> string" where
  "ep_name e \<equiv> md_NamespacedName (ep_Metadata e)"

abbreviation ep_label :: "Endpoint \<Rightarrow> string \<Rightarrow> string option" where
  "ep_label e \<equiv> gm_get (md_Labels (ep_Metadata e))"

abbreviation ep_Get :: "string \<Rightarrow> Endpoint \<Rightarrow> Cloneable option" where
  "ep_Get key e \<equiv> attr_Get key (ep_Attributes e)"

lemma gm_set_append: "k \<notin> fst ` set m \<Longrightarrow> gm_set k v m = m @ [(k, v)]"
  by (induction m) auto

lemma attr_Clone_same: "gm_ok a \<Longrightarrow> attr_Clone a = a"
proof -
  have "fold (\<lambda>(k, v) clone. attr_Put k (Some v) clone) b c = c @ b" if "gm_ok (c @ b)" for b c :: AttributeMap
    using that
  proof (induction b arbitrary: c)
    case (Cons e b)
    obtain k v where e: "e = (k, v)" by (cases e)
    have "gm_set k v c = c @ [(k, v)]" using Cons.prems e by (intro gm_set_append) auto
    then show ?case using Cons.IH [of "c @ [(k, v)]"] Cons.prems e by (simp add: attr_Put_def)
  qed simp
  from this [of "[]" a] show "gm_ok a \<Longrightarrow> attr_Clone a = a" by (simp add: attr_Clone_def)
qed

subsection \<open>Requests\<close>

text \<open>The parts of a request that scheduling reads. The body of a completion is its prompt, that of a chat completion
  its messages, each with its raw text and the types of its structured blocks.\<close>

record Message =
  msg_Raw :: string
  msg_Structured :: "string list"

record InferenceRequestBody =
  rb_Completions :: "string option"
  rb_ChatCompletions :: "Message list option"

record InferenceRequest =
  ir_RequestId :: string
  ir_TargetModel :: string
  ir_Body :: "InferenceRequestBody option"
  ir_Headers :: "(string, string) gomap"
  ir_Priority :: int
  ir_RequestSizeBytes :: int

subsection \<open>Scores\<close>

text \<open>A scorer fills a map from endpoint to score in the order of its endpoints.\<close>

definition score_each :: "(Endpoint \<Rightarrow> real) \<Rightarrow> Endpoint list \<Rightarrow> (Endpoint, real) gomap" where
  "score_each f endpoints = fold (\<lambda>e scores. gm_set e (f e) scores) endpoints []"

lemma fold_set_get:
  "gm_get (fold (\<lambda>e scores. gm_set e (f e) scores) es m) e = (if e \<in> set es then Some (f e) else gm_get m e)"
  by (induction es arbitrary: m) (auto simp: update_conv')

lemma score_each_get [simp]: "gm_get (score_each f es) e = (if e \<in> set es then Some (f e) else None)"
  by (simp add: score_each_def fold_set_get)

lemma score_each_ok [simp]: "gm_ok (score_each f es)"
proof -
  have "gm_ok m \<Longrightarrow> gm_ok (fold (\<lambda>e scores. gm_set e (f e) scores) es m)" for m :: "(Endpoint, real) gomap"
    by (induction es arbitrary: m) (auto simp: distinct_update)
  then show ?thesis by (simp add: score_each_def)
qed

lemma score_each_mem: "(e, r) \<in> set (score_each f es) \<longleftrightarrow> e \<in> set es \<and> r = f e"
proof -
  have "(e, r) \<in> set (score_each f es) \<longleftrightarrow> gm_get (score_each f es) e = Some r" by (rule map_of_eq_Some_iff [symmetric]) simp
  then show ?thesis by auto
qed

lemma score_each_keys [simp]: "fst ` set (score_each f es) = set es"
  using score_each_mem [of _ _ f es] by force

end
