(* ===== verification/EvictQueue.thy ===== *)
theory EvictQueue
  imports BinHeap Endpoints
begin

text \<open>
  The eviction queue (\<open>flowcontrol/eviction/queue.go\<close>): all requests in flight, and among them, in a binary heap, those
  that the filter policy allows to evict. A heap entry is a pointer, here its address together with the item it was created
  with; its \<open>index\<close> field is kept by the heap. Also the two built-in policies
  (\<open>framework/plugins/flowcontrol/eviction\<close>). Each method holds the mutex of the queue and is one step;
  \<^const>\<open>None\<close> is a panic.
\<close>

subsection \<open>Items and policies\<close>

record EvictionItem =
  ei_RequestID :: string
  ei_Priority :: int
  ei_DispatchTime :: time
  ei_TargetURL :: string
  ei_Request :: InferenceRequest
  ei_TargetEndpoint :: EndpointMetadata
  ei_EvictCh :: "nat option"

definition PriorityThenTimeOrdering_Less :: "EvictionItem \<Rightarrow> EvictionItem \<Rightarrow> bool" where
  "PriorityThenTimeOrdering_Less a b =
     (if ei_Priority a \<noteq> ei_Priority b then ei_Priority a < ei_Priority b else ei_DispatchTime a > ei_DispatchTime b)"

definition SheddableFilter_Accept :: "EvictionItem \<Rightarrow> bool" where
  "SheddableFilter_Accept item = (ei_Priority item < 0)"

subsection \<open>The queue\<close>

type_synonym heapEntry = "nat \<times> EvictionItem"

record EvictionQueue =
  eq_h :: "heapEntry bheap"
  eq_less :: "EvictionItem \<Rightarrow> EvictionItem \<Rightarrow> bool"
  eq_handles :: "(string, heapEntry) gomap"
  eq_allInFlight :: "(string, EvictionItem) gomap"
  eq_filter :: "EvictionItem \<Rightarrow> bool"
  eq_next :: nat

definition evictionHeap_Less :: "(EvictionItem \<Rightarrow> EvictionItem \<Rightarrow> bool) \<Rightarrow> heapEntry \<Rightarrow> heapEntry \<Rightarrow> bool" where
  "evictionHeap_Less lt a b = lt (snd a) (snd b)"

definition NewEvictionQueue :: "(EvictionItem \<Rightarrow> EvictionItem \<Rightarrow> bool) \<Rightarrow> (EvictionItem \<Rightarrow> bool) \<Rightarrow> EvictionQueue" where
  "NewEvictionQueue lt accept =
     \<lparr>eq_h = bh_Init (evictionHeap_Less lt) ([], \<lambda>_. 0), eq_less = lt, eq_handles = [], eq_allInFlight = [],
      eq_filter = accept, eq_next = 0\<rparr>"

text \<open>What \<open>Track\<close> and \<open>Untrack\<close> do first: take the entry of a request out of the heap.\<close>

definition remove_handle :: "string \<Rightarrow> EvictionQueue \<Rightarrow> EvictionQueue option" where
  "remove_handle requestID q =
     (case gm_get (eq_handles q) requestID of
        None \<Rightarrow> Some q
      | Some e \<Rightarrow> do {
          (_, h) \<leftarrow> bh_Remove (evictionHeap_Less (eq_less q)) (snd (eq_h q) e) (eq_h q);
          Some (q\<lparr>eq_h := h, eq_handles := gm_del requestID (eq_handles q)\<rparr>) })"

definition Track :: "EvictionItem \<Rightarrow> EvictionQueue \<Rightarrow> EvictionQueue option" where
  "Track item q = do {
     q1 \<leftarrow> remove_handle (ei_RequestID item) q;
     let q2 = q1\<lparr>eq_allInFlight := gm_set (ei_RequestID item) item (eq_allInFlight q1)\<rparr>;
     Some (if eq_filter q2 item
           then (let e = (eq_next q2, item)
                 in q2\<lparr>eq_h := bh_Push (evictionHeap_Less (eq_less q2)) e (eq_h q2),
                       eq_handles := gm_set (ei_RequestID item) e (eq_handles q2), eq_next := Suc (eq_next q2)\<rparr>)
           else q2) }"

definition Untrack :: "string \<Rightarrow> EvictionQueue \<Rightarrow> EvictionQueue option" where
  "Untrack requestID q = do {
     q1 \<leftarrow> remove_handle requestID q;
     Some (q1\<lparr>eq_allInFlight := gm_del requestID (eq_allInFlight q1)\<rparr>) }"

fun popn_loop :: "nat \<Rightarrow> EvictionQueue \<Rightarrow> EvictionItem list \<Rightarrow> (EvictionItem list \<times> EvictionQueue) option" where
  "popn_loop 0 q result = Some (result, q)"
| "popn_loop (Suc n) q result =
     (if fst (eq_h q) = [] then Some (result, q)
      else do {
        (e, h) \<leftarrow> bh_Pop (evictionHeap_Less (eq_less q)) (eq_h q);
        popn_loop n
          (q\<lparr>eq_h := h, eq_handles := gm_del (ei_RequestID (snd e)) (eq_handles q),
             eq_allInFlight := gm_del (ei_RequestID (snd e)) (eq_allInFlight q)\<rparr>)
          (result @ [snd e]) })"

text \<open>A slice of negative capacity cannot be made.\<close>

definition PopN :: "int \<Rightarrow> EvictionQueue \<Rightarrow> (EvictionItem list \<times> EvictionQueue) option" where
  "PopN n q = (if n < 0 then None else popn_loop (nat n) q [])"

definition eviction_Peek :: "EvictionQueue \<Rightarrow> EvictionItem option" where
  "eviction_Peek q = (if fst (eq_h q) = [] then None else Some (snd (fst (eq_h q) ! 0)))"

definition EvictableLen :: "EvictionQueue \<Rightarrow> nat" where
  "EvictableLen q = length (fst (eq_h q))"

definition InFlightLen :: "EvictionQueue \<Rightarrow> nat" where
  "InFlightLen q = length (eq_allInFlight q)"

subsection \<open>The invariant\<close>

text \<open>The heap is in order and its entries know their position; the handles are the entries by request; the entries are the
  accepted requests in flight.\<close>

abbreviation inflight :: "EvictionQueue \<Rightarrow> string \<Rightarrow> EvictionItem option" where
  "inflight q \<equiv> gm_get (eq_allInFlight q)"

definition evictable :: "EvictionQueue \<Rightarrow> EvictionItem list" where
  "evictable q = map snd (fst (eq_h q))"

definition handles_ok :: "heapEntry list \<Rightarrow> (string, heapEntry) gomap \<Rightarrow> bool" where
  "handles_ok es m \<longleftrightarrow> gm_ok m \<and> (\<forall>i e. gm_get m i = Some e \<longleftrightarrow> e \<in> set es \<and> ei_RequestID (snd e) = i)"

definition entries_ok :: "(EvictionItem \<Rightarrow> bool) \<Rightarrow> EvictionItem set \<Rightarrow> (string, EvictionItem) gomap \<Rightarrow> bool" where
  "entries_ok accept items m \<longleftrightarrow> gm_ok m \<and> (\<forall>i it. gm_get m i = Some it \<longrightarrow> ei_RequestID it = i) \<and>
     (\<forall>it. it \<in> items \<longleftrightarrow> gm_get m (ei_RequestID it) = Some it \<and> accept it)"

definition eq_ok :: "EvictionQueue \<Rightarrow> bool" where
  "eq_ok q \<longleftrightarrow> heap_ok (evictionHeap_Less (eq_less q)) (eq_h q) \<and> handles_ok (fst (eq_h q)) (eq_handles q) \<and>
     entries_ok (eq_filter q) (set (evictable q)) (eq_allInFlight q) \<and> (\<forall>e \<in> set (fst (eq_h q)). fst e < eq_next q)"

lemma handles_items_inj:
  assumes "handles_ok es m" and "d \<in> set es" "e \<in> set es" "ei_RequestID (snd d) = ei_RequestID (snd e)"
  shows "d = e"
proof -
  have "gm_get m (ei_RequestID (snd e)) = Some d" "gm_get m (ei_RequestID (snd e)) = Some e"
    using assms unfolding handles_ok_def by blast+
  then show ?thesis by simp
qed

lemma handles_remove:
  assumes "handles_ok es m" and "mset es = add_mset e (mset es')" and "distinct es"
  shows "handles_ok es' (gm_del (ei_RequestID (snd e)) m)"
proof -
  have sets: "set es = insert e (set es')" using assms(2) by (metis set_mset_add_mset_insert set_mset_mset)
  have notin: "e \<notin> set es'" using assms(2,3) by (metis distinct.simps(2) mset.simps(2) mset_eq_imp_distinct_iff)
  have one: "d = e" if "d \<in> set es" "ei_RequestID (snd d) = ei_RequestID (snd e)" for d
    using handles_items_inj [OF assms(1) that(1) _ that(2)] sets by simp
  show ?thesis
    unfolding handles_ok_def
  proof (intro conjI allI)
    show "gm_ok (gm_del (ei_RequestID (snd e)) m)" using assms(1) by (simp add: handles_ok_def distinct_delete)
    fix i d
    have "gm_get m i = Some d \<longleftrightarrow> d \<in> set es \<and> ei_RequestID (snd d) = i" using assms(1) unfolding handles_ok_def by blast
    then show "gm_get (gm_del (ei_RequestID (snd e)) m) i = Some d \<longleftrightarrow> d \<in> set es' \<and> ei_RequestID (snd d) = i"
      using sets notin one [of d] by (auto simp: delete_conv' simp del: map_of_eq_Some_iff)
  qed
qed

lemma handles_add:
  assumes "handles_ok es m" and "\<forall>d \<in> set es. ei_RequestID (snd d) \<noteq> ei_RequestID (snd e)" and "set es' = insert e (set es)"
  shows "handles_ok es' (gm_set (ei_RequestID (snd e)) e m)"
  using assms unfolding handles_ok_def by (auto simp: update_conv' distinct_update simp del: map_of_eq_Some_iff)

lemma entries_set:
  assumes "entries_ok accept items m"
  shows "entries_ok accept ({it \<in> items. ei_RequestID it \<noteq> ei_RequestID item} \<union> (if accept item then {item} else {}))
    (gm_set (ei_RequestID item) item m)"
  using assms unfolding entries_ok_def by (auto simp: update_conv' distinct_update simp del: map_of_eq_Some_iff)

lemma entries_del:
  assumes "entries_ok accept items m"
  shows "entries_ok accept {it \<in> items. ei_RequestID it \<noteq> i} (gm_del i m)"
  using assms unfolding entries_ok_def by (auto simp: delete_conv' distinct_delete simp del: map_of_eq_Some_iff)

text \<open>What is left of the queue once the entry of a request is out.\<close>

definition drops :: "string \<Rightarrow> EvictionQueue \<Rightarrow> EvictionQueue \<Rightarrow> bool" where
  "drops i q q' \<longleftrightarrow> eq_less q' = eq_less q \<and> eq_filter q' = eq_filter q \<and> eq_next q' = eq_next q \<and>
     heap_ok (evictionHeap_Less (eq_less q)) (eq_h q') \<and> handles_ok (fst (eq_h q')) (eq_handles q') \<and>
     set (fst (eq_h q')) = {e \<in> set (fst (eq_h q)). ei_RequestID (snd e) \<noteq> i}"

lemma drops_evictable: "drops i q q' \<Longrightarrow> set (evictable q') = {it \<in> set (evictable q). ei_RequestID it \<noteq> i}"
  unfolding drops_def evictable_def by auto

locale eviction_policy = strict_weak lt for lt :: "EvictionItem \<Rightarrow> EvictionItem \<Rightarrow> bool"

sublocale eviction_policy \<subseteq> entry: strict_weak "evictionHeap_Less lt"
  by unfold_locales (use asym neg_trans in \<open>auto simp: evictionHeap_Less_def\<close>)

interpretation priority_time: eviction_policy PriorityThenTimeOrdering_Less
  by unfold_locales (auto simp: PriorityThenTimeOrdering_Less_def split: if_splits)

context eviction_policy
begin

lemma drops_removed:
  assumes "eq_ok q" and "eq_less q = lt" and "removes e (eq_h q) h" and "heap_ok (evictionHeap_Less lt) h"
  shows "drops (ei_RequestID (snd e)) q (q\<lparr>eq_h := h, eq_handles := gm_del (ei_RequestID (snd e)) (eq_handles q)\<rparr>)"
proof -
  have d: "distinct (fst (eq_h q))" and ok: "handles_ok (fst (eq_h q)) (eq_handles q)"
    using assms(1) by (simp_all add: eq_ok_def heap_ok_def pos_ok_def)
  have m: "mset (fst (eq_h q)) = add_mset e (mset (fst h))" using assms(3) by (simp add: removes_def)
  then have sets: "set (fst (eq_h q)) = insert e (set (fst h))" by (metis set_mset_add_mset_insert set_mset_mset)
  have "e \<notin> set (fst h)" using m d by (metis distinct.simps(2) mset.simps(2) mset_eq_imp_distinct_iff)
  then have "set (fst h) = {d \<in> set (fst (eq_h q)). ei_RequestID (snd d) \<noteq> ei_RequestID (snd e)}"
    using sets handles_items_inj [OF ok, of _ e] by auto
  then show ?thesis using handles_remove [OF ok m d] assms(2,4) by (simp add: drops_def)
qed

lemma remove_handle_ok:
  assumes "eq_ok q" and "eq_less q = lt"
  shows "\<exists>q'. remove_handle i q = Some q' \<and> drops i q q' \<and> eq_allInFlight q' = eq_allInFlight q"
proof (cases "gm_get (eq_handles q) i")
  case None
  then have "\<forall>e \<in> set (fst (eq_h q)). ei_RequestID (snd e) \<noteq> i" using assms(1) unfolding eq_ok_def handles_ok_def by (metis option.distinct(1))
  then have "drops i q q" using assms(1) by (auto simp: drops_def eq_ok_def)
  then show ?thesis using None by (simp add: remove_handle_def)
next
  case (Some e)
  have e: "e \<in> set (fst (eq_h q))" "ei_RequestID (snd e) = i" using Some assms(1) unfolding eq_ok_def handles_ok_def by blast+
  then obtain k where k: "k < length (fst (eq_h q))" "fst (eq_h q) ! k = e" by (auto simp: in_set_conv_nth)
  have ok: "heap_ok (evictionHeap_Less lt) (eq_h q)" using assms by (simp add: eq_ok_def)
  then have "snd (eq_h q) e = int k" using k by (auto simp: heap_ok_def pos_ok_def)
  then obtain h where "bh_Remove (evictionHeap_Less lt) (snd (eq_h q) e) (eq_h q) = Some (e, h)"
    and "heap_ok (evictionHeap_Less lt) h" "removes e (eq_h q) h"
    using entry.Remove_ok [OF ok k(1)] k(2) by auto
  then show ?thesis using Some drops_removed [OF assms, of e h] e(2) assms(2) by (simp add: remove_handle_def)
qed

lemma Track_ok:
  assumes "eq_ok q" and "eq_less q = lt"
  shows "\<exists>q'. Track item q = Some q' \<and> eq_ok q' \<and> eq_allInFlight q' = gm_set (ei_RequestID item) item (eq_allInFlight q) \<and>
     eq_less q' = lt \<and> eq_filter q' = eq_filter q"
proof -
  let ?i = "ei_RequestID item" and ?L = "evictionHeap_Less lt"
  obtain q1 where q1: "remove_handle ?i q = Some q1" "drops ?i q q1" "eq_allInFlight q1 = eq_allInFlight q"
    using remove_handle_ok [OF assms] by blast
  let ?e = "(eq_next q1, item)" and ?m = "gm_set ?i item (eq_allInFlight q1)"
  have d: "heap_ok ?L (eq_h q1)" "handles_ok (fst (eq_h q1)) (eq_handles q1)" "eq_less q1 = lt" "eq_filter q1 = eq_filter q"
    "\<forall>e \<in> set (fst (eq_h q1)). fst e < eq_next q1 \<and> ei_RequestID (snd e) \<noteq> ?i"
    using q1(2) assms unfolding drops_def eq_ok_def by auto
  have ent: "entries_ok (eq_filter q) (set (evictable q1) \<union> (if eq_filter q item then {item} else {})) ?m"
    using entries_set [of "eq_filter q" "set (evictable q)" _ item] assms(1) q1(3) drops_evictable [OF q1(2)] by (simp add: eq_ok_def)
  show ?thesis
  proof (cases "eq_filter q item")
    case True
    have new: "?e \<notin> set (fst (eq_h q1))" using d(5) by auto
    have sets: "set (fst (bh_Push ?L ?e (eq_h q1))) = insert ?e (set (fst (eq_h q1)))"
      using entry.Push_ok(2) [OF d(1) new] by (metis set_mset_add_mset_insert set_mset_mset)
    have "handles_ok (fst (bh_Push ?L ?e (eq_h q1))) (gm_set ?i ?e (eq_handles q1))"
      using handles_add [OF d(2) _ sets] d(5) by simp
    then show ?thesis using True q1(1,3) d ent entry.Push_ok(1) [OF d(1) new] sets
      by (auto simp: Track_def Let_def eq_ok_def evictable_def)
  next
    case False
    then show ?thesis using q1(1,3) d ent by (simp add: Track_def Let_def eq_ok_def evictable_def)
  qed
qed

lemma Untrack_ok:
  assumes "eq_ok q" and "eq_less q = lt"
  shows "\<exists>q'. Untrack i q = Some q' \<and> eq_ok q' \<and> eq_allInFlight q' = gm_del i (eq_allInFlight q) \<and> eq_less q' = lt \<and>
     eq_filter q' = eq_filter q"
proof -
  obtain q1 where q1: "remove_handle i q = Some q1" "drops i q q1" "eq_allInFlight q1 = eq_allInFlight q"
    using remove_handle_ok [OF assms] by blast
  have "entries_ok (eq_filter q) (set (evictable q1)) (gm_del i (eq_allInFlight q))"
    using entries_del [of "eq_filter q" "set (evictable q)" _ i] assms(1) drops_evictable [OF q1(2)] by (simp add: eq_ok_def)
  then show ?thesis using q1 assms by (auto simp: Untrack_def eq_ok_def drops_def evictable_def)
qed

end

subsection \<open>Taking the most evictable requests\<close>

text \<open>\<open>pops\<close> says what it means to take the first \<open>n\<close> requests in the order of eviction: as many as there are, in order, none of
  those left before any of those taken, and those taken are no longer in flight.\<close>

definition first_by :: "(EvictionItem \<Rightarrow> EvictionItem \<Rightarrow> bool) \<Rightarrow> EvictionItem list \<Rightarrow> EvictionItem list \<Rightarrow> bool" where
  "first_by lt items rest \<longleftrightarrow> sorted_wrt (\<lambda>a b. \<not> lt b a) items \<and> (\<forall>a \<in> set items. \<forall>b \<in> set rest. \<not> lt b a)"

definition pops :: "nat \<Rightarrow> EvictionQueue \<Rightarrow> EvictionItem list \<Rightarrow> EvictionQueue \<Rightarrow> bool" where
  "pops n q items q' \<longleftrightarrow> length items = min n (EvictableLen q) \<and> mset (evictable q) = mset items + mset (evictable q') \<and>
     first_by (eq_less q) items (evictable q') \<and> inflight q' = inflight q |` (- ei_RequestID ` set items) \<and>
     eq_ok q' \<and> eq_less q' = eq_less q \<and> eq_filter q' = eq_filter q"

lemma EvictableLen_evictable: "EvictableLen q = length (evictable q)"
  by (simp add: EvictableLen_def evictable_def)

context eviction_policy
begin

lemma pop_one:
  assumes "eq_ok q" and "eq_less q = lt" and "fst (eq_h q) \<noteq> []"
  shows "\<exists>e h q'. bh_Pop (evictionHeap_Less lt) (eq_h q) = Some (e, h) \<and>
     q' = q\<lparr>eq_h := h, eq_handles := gm_del (ei_RequestID (snd e)) (eq_handles q),
            eq_allInFlight := gm_del (ei_RequestID (snd e)) (eq_allInFlight q)\<rparr> \<and>
     pops 1 q [snd e] q' \<and> eviction_Peek q = Some (snd e)"
proof -
  let ?e = "fst (eq_h q) ! 0" and ?L = "evictionHeap_Less lt"
  let ?i = "ei_RequestID (snd ?e)"
  have ok: "heap_ok ?L (eq_h q)" using assms(1,2) by (simp add: eq_ok_def)
  obtain h where h: "bh_Pop ?L (eq_h q) = Some (?e, h)" "heap_ok ?L h" "removes ?e (eq_h q) h"
    using entry.Pop_ok(1) [OF ok assms(3)] by blast
  let ?q1 = "q\<lparr>eq_h := h, eq_handles := gm_del ?i (eq_handles q)\<rparr>"
  let ?q = "?q1\<lparr>eq_allInFlight := gm_del ?i (eq_allInFlight q)\<rparr>"
  have d: "drops ?i q ?q1" using drops_removed [OF assms(1,2) h(3,2)] .
  then have "entries_ok (eq_filter q) (set (evictable ?q1)) (gm_del ?i (eq_allInFlight q))"
    using entries_del [of "eq_filter q" "set (evictable q)" _ ?i] assms(1) drops_evictable by (simp add: eq_ok_def)
  then have ok': "eq_ok ?q" using d assms(1,2) by (auto simp: eq_ok_def drops_def evictable_def)
  have m: "mset (evictable q) = add_mset (snd ?e) (mset (evictable ?q))"
    using h(3) by (simp add: removes_def evictable_def)
  have "\<not> lt b (snd ?e)" if "b \<in> set (evictable q)" for b
    using entry.Pop_ok(2) [OF ok assms(3)] that by (auto simp: evictable_def evictionHeap_Less_def)
  moreover have "set (evictable ?q) \<subseteq> set (evictable q)" using arg_cong [OF m, of set_mset] by auto
  ultimately have "first_by lt [snd ?e] (evictable ?q)" by (auto simp: first_by_def)
  then have "pops 1 q [snd ?e] ?q" using m ok' assms(2,3) by (auto simp: pops_def EvictableLen_def delete_conv' restrict_map_def Suc_leI)
  then show ?thesis using h(1) assms(3) by (auto simp: eviction_Peek_def)
qed

lemma pops_step:
  assumes "pops 1 q [x] q1" and "pops n q1 items q'" and "eq_less q = lt"
  shows "pops (Suc n) q (x # items) q'"
proof -
  have m: "mset (evictable q) = add_mset x (mset items + mset (evictable q'))" and m1: "mset (evictable q1) = mset items + mset (evictable q')"
    using assms(1,2) by (simp_all add: pops_def)
  have len: "EvictableLen q = Suc (EvictableLen q1)"
    using arg_cong [OF m, of size] arg_cong [OF m1, of size] by (simp add: EvictableLen_evictable)
  have "set (evictable q1) = set items \<union> set (evictable q')" using arg_cong [OF m1, of set_mset] by simp
  then have "first_by lt (x # items) (evictable q')" using assms by (auto simp: pops_def first_by_def)
  moreover have "inflight q' = inflight q |` (- ei_RequestID ` set (x # items))"
    using assms(1,2) by (auto simp: pops_def restrict_map_def fun_eq_iff)
  ultimately show ?thesis using assms m len by (simp add: pops_def)
qed

lemma popn_loop_ok:
  assumes "eq_ok q" and "eq_less q = lt"
  shows "\<exists>items q'. popn_loop n q acc = Some (acc @ items, q') \<and> pops n q items q'"
  using assms
proof (induction n arbitrary: q acc)
  case 0
  then show ?case by (auto simp: pops_def first_by_def restrict_map_def)
next
  case (Suc n)
  show ?case
  proof (cases "fst (eq_h q) = []")
    case True
    then have "pops (Suc n) q [] q" using Suc.prems by (simp add: pops_def first_by_def EvictableLen_def restrict_map_def)
    then show ?thesis using True by auto
  next
    case False
    obtain e h q1 where e: "bh_Pop (evictionHeap_Less lt) (eq_h q) = Some (e, h)"
      "q1 = q\<lparr>eq_h := h, eq_handles := gm_del (ei_RequestID (snd e)) (eq_handles q),
              eq_allInFlight := gm_del (ei_RequestID (snd e)) (eq_allInFlight q)\<rparr>" "pops 1 q [snd e] q1"
      using pop_one [OF Suc.prems False] by blast
    then have "eq_ok q1" "eq_less q1 = lt" using Suc.prems by (simp_all add: pops_def)
    then obtain items q' where r: "popn_loop n q1 (acc @ [snd e]) = Some ((acc @ [snd e]) @ items, q')" "pops n q1 items q'"
      using Suc.IH by blast
    then have "popn_loop (Suc n) q acc = Some (acc @ snd e # items, q')" using False e(1,2) Suc.prems(2) by simp
    then show ?thesis using pops_step [OF e(3) r(2) Suc.prems(2)] by blast
  qed
qed

lemma PopN_one:
  assumes "eq_ok q" and "eq_less q = lt" and "fst (eq_h q) \<noteq> []"
  shows "\<exists>x q1. PopN 1 q = Some ([x], q1) \<and> (\<forall>n acc. popn_loop (Suc n) q acc = popn_loop n q1 (acc @ [x])) \<and> pops 1 q [x] q1 \<and>
     eq_allInFlight q1 = gm_del (ei_RequestID x) (eq_allInFlight q) \<and> inflight q (ei_RequestID x) = Some x \<and> eq_filter q x"
proof -
  obtain e h q1 where e: "bh_Pop (evictionHeap_Less lt) (eq_h q) = Some (e, h)"
    "q1 = q\<lparr>eq_h := h, eq_handles := gm_del (ei_RequestID (snd e)) (eq_handles q),
            eq_allInFlight := gm_del (ei_RequestID (snd e)) (eq_allInFlight q)\<rparr>" "pops 1 q [snd e] q1"
    using pop_one [OF assms] by blast
  have "popn_loop (Suc n) q acc = popn_loop n q1 (acc @ [snd e])" for n acc using e(1,2) assms(2,3) by simp
  moreover from this [of 0 "[]"] have "PopN 1 q = Some ([snd e], q1)" by (simp add: PopN_def)
  moreover have "snd e \<in> set (evictable q)" using arg_cong [of _ _ set_mset] e(3) unfolding pops_def
    by (metis list.set_intros(1) set_mset_mset union_iff)
  then have "inflight q (ei_RequestID (snd e)) = Some (snd e) \<and> eq_filter q (snd e)"
    using assms(1) unfolding eq_ok_def entries_ok_def by blast
  moreover have "eq_allInFlight q1 = gm_del (ei_RequestID (snd e)) (eq_allInFlight q)" using e(2) by simp
  ultimately show ?thesis using e(3) by blast
qed

lemma PopN_ok: "eq_ok q \<Longrightarrow> eq_less q = lt \<Longrightarrow> 0 \<le> n \<Longrightarrow> \<exists>items q'. PopN n q = Some (items, q') \<and> pops (nat n) q items q'"
  using popn_loop_ok [of q "nat n" "[]"] by (simp add: PopN_def)

end

subsection \<open>Every reachable queue\<close>

inductive eq_reach :: "(EvictionItem \<Rightarrow> EvictionItem \<Rightarrow> bool) \<Rightarrow> (EvictionItem \<Rightarrow> bool) \<Rightarrow> EvictionQueue \<Rightarrow> bool" for lt accept where
  new: "eq_reach lt accept (NewEvictionQueue lt accept)"
| track: "eq_reach lt accept q \<Longrightarrow> Track item q = Some q' \<Longrightarrow> eq_reach lt accept q'"
| untrack: "eq_reach lt accept q \<Longrightarrow> Untrack requestID q = Some q' \<Longrightarrow> eq_reach lt accept q'"
| popn: "eq_reach lt accept q \<Longrightarrow> PopN n q = Some (items, q') \<Longrightarrow> eq_reach lt accept q'"

lemma New_ok: "eq_ok (NewEvictionQueue lt accept)"
  by (simp add: eq_ok_def NewEvictionQueue_def bh_Init_def heap_ok_def heap_upto_def pos_ok_def handles_ok_def entries_ok_def evictable_def)

context eviction_policy
begin

lemma reach_ok: "eq_reach lt accept q \<Longrightarrow> eq_ok q \<and> eq_less q = lt \<and> eq_filter q = accept"
proof (induction rule: eq_reach.induct)
  case new
  show ?case using New_ok by (simp add: NewEvictionQueue_def)
next
  case (track q item q')
  then show ?case using Track_ok [of q item] by auto
next
  case (untrack q requestID q')
  then show ?case using Untrack_ok [of q requestID] by auto
next
  case (popn q n items q')
  then have "0 \<le> n" by (simp add: PopN_def split: if_splits)
  then show ?case using popn PopN_ok [of q n] by (auto simp: pops_def)
qed

lemma evictable_distinct: "eq_ok q \<Longrightarrow> distinct (map ei_RequestID (evictable q))"
  unfolding evictable_def eq_ok_def heap_ok_def pos_ok_def
  by (auto simp: distinct_map inj_on_def dest: handles_items_inj)

lemma evictable_filter:
  assumes "eq_ok q"
  shows "mset (evictable q) = mset (filter (eq_filter q) (map snd (eq_allInFlight q)))"
proof -
  have e: "entries_ok (eq_filter q) (set (evictable q)) (eq_allInFlight q)" using assms by (simp add: eq_ok_def)
  then have "map ei_RequestID (map snd (eq_allInFlight q)) = map fst (eq_allInFlight q)" by (auto simp: entries_ok_def)
  then have "distinct (map ei_RequestID (map snd (eq_allInFlight q)))" using e by (simp only: entries_ok_def)
  then have "distinct (map snd (eq_allInFlight q))" by (rule distinct_map [THEN iffD1, THEN conjunct1])
  moreover have "it \<in> set (map snd (eq_allInFlight q)) \<longleftrightarrow> inflight q (ei_RequestID it) = Some it" for it
  proof
    assume "it \<in> set (map snd (eq_allInFlight q))"
    then obtain i where "(i, it) \<in> set (eq_allInFlight q)" by auto
    then have "inflight q i = Some it" using e by (simp add: entries_ok_def)
    then show "inflight q (ei_RequestID it) = Some it" using e unfolding entries_ok_def by blast
  qed (force dest: map_of_SomeD)
  then have "set (evictable q) = set (filter (eq_filter q) (map snd (eq_allInFlight q)))"
    using e unfolding entries_ok_def set_filter by blast
  moreover have "distinct (evictable q)" using evictable_distinct [OF assms] by (simp add: distinct_map)
  ultimately show ?thesis by (intro iffD1 [OF set_eq_iff_mset_eq_distinct]) simp_all
qed

lemma Peek_first:
  assumes "eq_ok q" and "eq_less q = lt"
  shows "case eviction_Peek q of None \<Rightarrow> evictable q = []
     | Some it \<Rightarrow> it \<in> set (evictable q) \<and> (\<forall>b \<in> set (evictable q). \<not> lt b it)"
proof (cases "fst (eq_h q) = []")
  case False
  have ok: "heap_ok (evictionHeap_Less lt) (eq_h q)" using assms by (simp add: eq_ok_def)
  show ?thesis using False entry.Pop_ok(2) [OF ok False]
    by (auto simp: eviction_Peek_def evictable_def evictionHeap_Less_def intro!: imageI nth_mem)
qed (simp add: eviction_Peek_def evictable_def)

end

subsection \<open>Correctness of the queue\<close>

definition demo_item :: "string \<Rightarrow> int \<Rightarrow> time \<Rightarrow> EvictionItem" where
  "demo_item requestID priority dispatched =
     \<lparr>ei_RequestID = requestID, ei_Priority = priority, ei_DispatchTime = dispatched, ei_TargetURL = ''http://pod'',
      ei_Request = \<lparr>ir_RequestId = requestID, ir_TargetModel = ''m'', ir_Body = None, ir_Headers = [], ir_Priority = priority,
        ir_RequestSizeBytes = 0\<rparr>,
      ei_TargetEndpoint = \<lparr>md_NamespacedName = ''pod'', md_PodName = ''pod'', md_Address = ''pod'', md_Port = ''80'',
        md_MetricsHost = [], md_Labels = []\<rparr>,
      ei_EvictCh = Some 0\<rparr>"

fun track_all :: "EvictionItem list \<Rightarrow> EvictionQueue \<Rightarrow> EvictionQueue option" where
  "track_all [] q = Some q"
| "track_all (item # items) q = do { q' \<leftarrow> Track item q; track_all items q' }"

lemma track_all_reach: "eq_reach lt accept q \<Longrightarrow> track_all items q = Some q' \<Longrightarrow> eq_reach lt accept q'"
  by (induction items arbitrary: q) (auto split: Option.bind_splits intro: eq_reach.track)

definition demo_queue :: EvictionQueue where
  "demo_queue = the (track_all
     [demo_item ''a'' (- 1) 10, demo_item ''b'' 3 11, demo_item ''c'' (- 5) 12, demo_item ''d'' (- 5) 13]
     (NewEvictionQueue PriorityThenTimeOrdering_Less SheddableFilter_Accept))"

lemma demo_queue_reach: "eq_reach PriorityThenTimeOrdering_Less SheddableFilter_Accept demo_queue"
proof -
  have "track_all [demo_item ''a'' (- 1) 10, demo_item ''b'' 3 11, demo_item ''c'' (- 5) 12, demo_item ''d'' (- 5) 13]
     (NewEvictionQueue PriorityThenTimeOrdering_Less SheddableFilter_Accept) \<noteq> None" by code_simp
  then show ?thesis unfolding demo_queue_def using track_all_reach [OF eq_reach.new] by fastforce
qed

lemma demo_queue_evictable: "map ei_RequestID (evictable demo_queue) = [''d'', ''a'', ''c'']"
  by code_simp

lemma demo_popped: "map_option (map ei_RequestID \<circ> fst) (PopN 2 demo_queue) = Some [''d'', ''c'']"
  by code_simp

text \<open>C20: The eviction queue after any sequence of \<open>Track\<close>, \<open>Untrack\<close> and \<open>PopN\<close>, for any ordering policy that is a strict weak
  order and any filter: it holds exactly the requests in flight that the filter accepts, each once, \<open>Peek\<close> shows one that no
  other goes before, and tracking or untracking a request never panics and changes what is in flight for that request only.\<close>

theorem eviction_queue_exact:
  assumes "strict_weak lt" and "eq_reach lt accept q"
  shows "mset (evictable q) = mset (filter accept (map snd (eq_allInFlight q))) \<and> distinct (map ei_RequestID (evictable q)) \<and>
     EvictableLen q = length (filter accept (map snd (eq_allInFlight q))) \<and>
     (case eviction_Peek q of None \<Rightarrow> evictable q = []
      | Some it \<Rightarrow> it \<in> set (evictable q) \<and> (\<forall>b \<in> set (evictable q). \<not> lt b it)) \<and>
     (\<forall>item. \<exists>q'. Track item q = Some q' \<and> inflight q' = (inflight q)(ei_RequestID item \<mapsto> item)) \<and>
     (\<forall>i. \<exists>q'. Untrack i q = Some q' \<and> inflight q' = (inflight q)(i := None))"
proof -
  have pol: "eviction_policy lt" using assms(1) by (rule eviction_policy.intro)
  have ok: "eq_ok q" "eq_less q = lt" "eq_filter q = accept" using eviction_policy.reach_ok [OF pol assms(2)] by simp_all
  have m: "mset (evictable q) = mset (filter accept (map snd (eq_allInFlight q)))"
    using eviction_policy.evictable_filter [OF pol ok(1)] ok(3) by simp
  have len: "EvictableLen q = length (filter accept (map snd (eq_allInFlight q)))"
    using mset_eq_length [OF m] by (simp only: EvictableLen_evictable)
  have t: "\<exists>q'. Track item q = Some q' \<and> inflight q' = (inflight q)(ei_RequestID item \<mapsto> item)" for item
    using eviction_policy.Track_ok [OF pol ok(1,2), of item] by (metis update_conv')
  have u: "\<exists>q'. Untrack i q = Some q' \<and> inflight q' = (inflight q)(i := None)" for i
    using eviction_policy.Untrack_ok [OF pol ok(1,2), of i] by (metis delete_conv')
  show ?thesis
    using m len t u eviction_policy.evictable_distinct [OF pol ok(1)] eviction_policy.Peek_first [OF pol ok(1,2)] by blast
qed

theorem eviction_queue_exact_witness:
  "strict_weak PriorityThenTimeOrdering_Less \<and> map ei_RequestID (evictable demo_queue) = [''d'', ''a'', ''c''] \<and>
   EvictableLen demo_queue = length (filter SheddableFilter_Accept (map snd (eq_allInFlight demo_queue)))"
  using eviction_queue_exact [OF priority_time.strict_weak_axioms demo_queue_reach] priority_time.strict_weak_axioms
    demo_queue_evictable by blast

text \<open>C21: \<open>PopN\<close> takes the most evictable requests: on every reachable queue it returns as many of the evictable requests as asked
  for and available, in the order of the policy, none of those that stay goes before one that was taken, and exactly those
  taken are no longer in flight. A negative number panics.\<close>

theorem PopN_most_evictable:
  assumes "strict_weak lt" and "eq_reach lt accept q"
  shows "if n < 0 then PopN n q = None
     else \<exists>items q'. PopN n q = Some (items, q') \<and> length items = min (nat n) (EvictableLen q) \<and>
            mset (evictable q) = mset items + mset (evictable q') \<and> sorted_wrt (\<lambda>a b. \<not> lt b a) items \<and>
            (\<forall>a \<in> set items. \<forall>b \<in> set (evictable q'). \<not> lt b a) \<and>
            inflight q' = inflight q |` (- ei_RequestID ` set items)"
proof (cases "n < 0")
  case False
  have pol: "eviction_policy lt" using assms(1) by (rule eviction_policy.intro)
  have ok: "eq_ok q" "eq_less q = lt" using eviction_policy.reach_ok [OF pol assms(2)] by simp_all
  obtain items q' where "PopN n q = Some (items, q')" "pops (nat n) q items q'"
    using eviction_policy.PopN_ok [OF pol ok, of n] False by auto
  then show ?thesis using False ok(2) by (simp add: pops_def first_by_def)
qed (simp add: PopN_def)

theorem PopN_most_evictable_witness:
  "map_option (map ei_RequestID \<circ> fst) (PopN 2 demo_queue) = Some [''d'', ''c''] \<and>
   (\<exists>items q'. PopN 2 demo_queue = Some (items, q') \<and>
      (\<forall>a \<in> set items. \<forall>b \<in> set (evictable q'). \<not> PriorityThenTimeOrdering_Less b a))"
  using PopN_most_evictable [OF priority_time.strict_weak_axioms demo_queue_reach, of 2] demo_popped by auto

end
