(* ===== verification/Pickers.thy ===== *)
theory Pickers
  imports Endpoints "HOL-Library.Multiset"
begin

text \<open>
  The pickers of a scheduler profile (\<open>framework/plugins/scheduling/picker\<close>): the highest scores, a random choice, and
  a random choice weighted by score. Random numbers are arguments: \<open>rnd i\<close> is the number that the generator draws for
  position \<open>i\<close> of a shuffle, reduced to its range, and \<open>u i\<close> is the number in \<open>[0,1)\<close> drawn for endpoint \<open>i\<close>. A scored
  endpoint in the result of a picker is represented by the endpoint it embeds, to which it forwards every method.
\<close>

record ScoredEndpoint =
  se_Endpoint :: Endpoint
  se_Score :: real

record ProfileRunResult =
  TargetEndpoints :: "Endpoint list"

definition DefaultMaxNumOfEndpoints :: int where "DefaultMaxNumOfEndpoints = 1"

definition maxNumOfEndpoints :: "int \<Rightarrow> nat" where
  "maxNumOfEndpoints n = nat (if n \<le> 0 then DefaultMaxNumOfEndpoints else n)"

subsection \<open>Shuffling\<close>

text \<open>\<open>Shuffle\<close> of \<open>math/rand/v2\<close>: from the last position down, swap with a position at most that far.\<close>

fun shuffle_loop :: "(nat \<Rightarrow> nat) \<Rightarrow> nat \<Rightarrow> 'a list \<Rightarrow> 'a list" where
  "shuffle_loop rnd 0 xs = xs"
| "shuffle_loop rnd (Suc i) xs =
     (let j = rnd (Suc i) mod (Suc i + 1) in shuffle_loop rnd i (swap_list (Suc i) j xs))"

definition ShuffleScoredEndpoints :: "(nat \<Rightarrow> nat) \<Rightarrow> 'a list \<Rightarrow> 'a list" where
  "ShuffleScoredEndpoints rnd xs = shuffle_loop rnd (length xs - 1) xs"

text \<open>\<open>sort.Slice\<close> is not stable: it may leave equal elements in any order, so it is the stable sort of some
  rearrangement of its argument.\<close>

definition sort_Slice :: "(nat \<Rightarrow> nat) \<Rightarrow> ('a \<Rightarrow> real) \<Rightarrow> 'a list \<Rightarrow> 'a list" where
  "sort_Slice rnd key xs = sort_key key (ShuffleScoredEndpoints rnd xs)"

subsection \<open>The pickers\<close>

definition first_targets :: "nat \<Rightarrow> ScoredEndpoint list \<Rightarrow> ProfileRunResult" where
  "first_targets k scoredEndpoints =
     \<lparr>TargetEndpoints = map se_Endpoint (if k < length scoredEndpoints then take k scoredEndpoints else scoredEndpoints)\<rparr>"

definition MaxScorePicker_Pick :: "nat \<Rightarrow> (nat \<Rightarrow> nat) \<Rightarrow> ScoredEndpoint list \<Rightarrow> ProfileRunResult" where
  "MaxScorePicker_Pick k rnd scoredEndpoints =
     first_targets k (sort_key (\<lambda>s. - se_Score s) (ShuffleScoredEndpoints rnd scoredEndpoints))"

definition RandomPicker_Pick :: "nat \<Rightarrow> (nat \<Rightarrow> nat) \<Rightarrow> ScoredEndpoint list \<Rightarrow> ProfileRunResult" where
  "RandomPicker_Pick k rnd scoredEndpoints = first_targets k (ShuffleScoredEndpoints rnd scoredEndpoints)"

definition weighted_key :: "real \<Rightarrow> ScoredEndpoint \<Rightarrow> real" where
  "weighted_key u scoredEndpoint =
     (if se_Score scoredEndpoint \<le> 0 then 0
      else (let u' = (if u = 0 then 1 / 10 ^ 10 else u) in u' powr (1 / se_Score scoredEndpoint)))"

definition WeightedRandomPicker_Pick ::
    "nat \<Rightarrow> (nat \<Rightarrow> real) \<Rightarrow> (nat \<Rightarrow> nat) \<Rightarrow> ScoredEndpoint list \<Rightarrow> ProfileRunResult" where
  "WeightedRandomPicker_Pick k u rnd scoredEndpoints =
     (if \<not> list_ex (\<lambda>s. se_Score s > 0) scoredEndpoints then RandomPicker_Pick k rnd scoredEndpoints
      else (let weightedEndpoints = map (\<lambda>i. (scoredEndpoints ! i, weighted_key (u i) (scoredEndpoints ! i)))
                                      [0 ..< length scoredEndpoints];
                weightedEndpoints = sort_Slice rnd (\<lambda>w. - snd w) weightedEndpoints;
                selectedCount = min k (length weightedEndpoints)
            in \<lparr>TargetEndpoints = map (\<lambda>i. se_Endpoint (fst (weightedEndpoints ! i))) [0 ..< selectedCount]\<rparr>))"

subsection \<open>Shuffling rearranges\<close>

lemma shuffle_loop_mset: "i < length xs \<Longrightarrow> mset (shuffle_loop rnd i xs) = mset xs"
proof (induction i arbitrary: xs)
  case (Suc i)
  have "rnd (Suc i) mod (Suc i + 1) < Suc i + 1" by (rule mod_less_divisor) simp
  then have "mset (swap_list (Suc i) (rnd (Suc i) mod (Suc i + 1)) xs) = mset xs"
    using Suc.prems by (intro mset_swap_list) linarith+
  then show ?case using Suc by (simp add: Let_def)
qed simp

lemma shuffle_mset [simp]: "mset (ShuffleScoredEndpoints rnd xs) = mset xs"
  by (cases xs) (simp_all add: ShuffleScoredEndpoints_def shuffle_loop_mset)

lemma shuffle_length [simp]: "length (ShuffleScoredEndpoints rnd xs) = length xs"
  by (rule mset_eq_length) simp

lemma shuffle_set [simp]: "set (ShuffleScoredEndpoints rnd xs) = set xs"
  by (rule mset_eq_setD) simp

lemma sort_Slice_mset [simp]: "mset (sort_Slice rnd key xs) = mset xs"
  by (simp add: sort_Slice_def)

lemma sort_Slice_sorted: "sorted (map key (sort_Slice rnd key xs))"
  by (simp add: sort_Slice_def)

lemma first_targets_take: "TargetEndpoints (first_targets k xs) = map se_Endpoint (take k xs)"
  by (simp add: first_targets_def)

subsection \<open>The contract of a picker\<close>

lemma distinct_submset:
  assumes "mset xs \<subseteq># mset ys" and "distinct ys"
  shows "distinct xs"
proof -
  obtain zs where zs: "mset zs = mset ys - mset xs" using ex_mset [of "mset ys - mset xs"] by auto
  have "mset (xs @ zs) = mset ys" using assms(1) by (simp add: zs)
  then have "distinct (xs @ zs)" using assms(2) mset_eq_imp_distinct_iff by blast
  then show ?thesis by simp
qed

lemma take_submset: "mset (take k xs) \<subseteq># mset xs"
proof -
  have "mset (take k xs @ drop k xs) = mset (take k xs) + mset (drop k xs)" by (rule mset_append)
  then show ?thesis by simp
qed

lemma first_targets_submset:
  assumes "mset xs = mset ses"
  shows "mset (TargetEndpoints (first_targets k xs)) \<subseteq># image_mset se_Endpoint (mset ses)"
  using image_mset_subseteq_mono [OF take_submset [of k xs], of se_Endpoint] assms by (simp add: first_targets_take)

text \<open>A picker returns as many of its candidates as it may, each at most once.\<close>

locale picker_contract =
  fixes Pick :: "ScoredEndpoint list \<Rightarrow> ProfileRunResult" and limit :: nat
  assumes pick_subset: "mset (TargetEndpoints (Pick ses)) \<subseteq># image_mset se_Endpoint (mset ses)"
    and pick_number: "length (TargetEndpoints (Pick ses)) = min limit (length ses)"
begin

lemma pick_in: "e \<in> set (TargetEndpoints (Pick ses)) \<Longrightarrow> e \<in> se_Endpoint ` set ses"
  using mset_subset_eqD [OF pick_subset, of e ses] by auto

lemma pick_distinct: "distinct (map se_Endpoint ses) \<Longrightarrow> distinct (TargetEndpoints (Pick ses))"
  by (rule distinct_submset [of _ "map se_Endpoint ses"]) (simp_all add: pick_subset)

lemma pick_some: "ses \<noteq> [] \<Longrightarrow> 0 < limit \<Longrightarrow> TargetEndpoints (Pick ses) \<noteq> []"
  using pick_number [of ses] by (cases ses; cases limit) auto

end

interpretation max_score: picker_contract "MaxScorePicker_Pick k rnd" k for k rnd
  unfolding MaxScorePicker_Pick_def by unfold_locales (rule first_targets_submset, simp, simp add: first_targets_take)

interpretation random: picker_contract "RandomPicker_Pick k rnd" k for k rnd
  unfolding RandomPicker_Pick_def by unfold_locales (rule first_targets_submset, simp, simp add: first_targets_take)

lemma weighted_targets:
  assumes "list_ex (\<lambda>s. se_Score s > 0) ses"
  obtains ws where "TargetEndpoints (WeightedRandomPicker_Pick k u rnd ses) = map (se_Endpoint \<circ> fst) (take k ws)"
    and "mset ws = mset (map (\<lambda>i. (ses ! i, weighted_key (u i) (ses ! i))) [0 ..< length ses])"
    and "sorted (map (\<lambda>w. - snd w) ws)"
proof -
  let ?ws = "sort_Slice rnd (\<lambda>w. - snd w) (map (\<lambda>i. (ses ! i, weighted_key (u i) (ses ! i))) [0 ..< length ses])"
  have "map (\<lambda>i. se_Endpoint (fst (?ws ! i))) [0 ..< min k (length ?ws)] = map (se_Endpoint \<circ> fst) (take k ?ws)"
    by (rule nth_equalityI) auto
  moreover have "(\<not> list_ex (\<lambda>s. se_Score s > 0) ses) = False" using assms by simp
  ultimately have "TargetEndpoints (WeightedRandomPicker_Pick k u rnd ses) = map (se_Endpoint \<circ> fst) (take k ?ws)"
    unfolding WeightedRandomPicker_Pick_def by (simp only: if_False Let_def ProfileRunResult.select_convs)
  then show ?thesis by (rule that [OF _ sort_Slice_mset sort_Slice_sorted])
qed

lemma image_mset_keys: "image_mset fst (mset (map (\<lambda>i. (ses ! i, f i)) [0 ..< length ses])) = mset ses"
proof -
  have "map fst (map (\<lambda>i. (ses ! i, f i)) [0 ..< length ses]) = ses" by (rule nth_equalityI) auto
  then show ?thesis by (simp only: mset_map [symmetric])
qed

interpretation weighted: picker_contract "WeightedRandomPicker_Pick k u rnd" k for k u rnd
proof
  fix ses :: "ScoredEndpoint list"
  show "mset (TargetEndpoints (WeightedRandomPicker_Pick k u rnd ses)) \<subseteq># image_mset se_Endpoint (mset ses)"
  proof (cases "list_ex (\<lambda>s. se_Score s > 0) ses")
    case True
    then obtain ws where ws: "TargetEndpoints (WeightedRandomPicker_Pick k u rnd ses) = map (se_Endpoint \<circ> fst) (take k ws)"
      and "mset ws = mset (map (\<lambda>i. (ses ! i, weighted_key (u i) (ses ! i))) [0 ..< length ses])"
      by (rule weighted_targets)
    then have "image_mset fst (mset ws) = mset ses" by (simp only: image_mset_keys)
    then have "image_mset (se_Endpoint \<circ> fst) (mset ws) = image_mset se_Endpoint (mset ses)"
      by (simp only: image_mset.compositionality [symmetric])
    then show ?thesis
      using image_mset_subseteq_mono [OF take_submset [of k ws], of "se_Endpoint \<circ> fst"] by (simp only: ws mset_map)
  next
    case False
    then show ?thesis by (simp add: WeightedRandomPicker_Pick_def random.pick_subset)
  qed
  show "length (TargetEndpoints (WeightedRandomPicker_Pick k u rnd ses)) = min k (length ses)"
    by (simp add: WeightedRandomPicker_Pick_def Let_def random.pick_number sort_Slice_def)
qed

text \<open>No endpoint that the max-score picker leaves out scores more than one it picks.\<close>

lemma max_score_best:
  assumes "distinct (map se_Endpoint ses)" and "a \<in> set ses" "b \<in> set ses"
    and "se_Endpoint a \<in> set (TargetEndpoints (MaxScorePicker_Pick k rnd ses))"
    and "se_Endpoint b \<notin> set (TargetEndpoints (MaxScorePicker_Pick k rnd ses))"
  shows "se_Score b \<le> se_Score a"
proof -
  let ?xs = "sort_key (\<lambda>s. - se_Score s) (ShuffleScoredEndpoints rnd ses)"
  have T: "TargetEndpoints (MaxScorePicker_Pick k rnd ses) = map se_Endpoint (take k ?xs)"
    by (simp add: MaxScorePicker_Pick_def first_targets_take)
  have S: "set ?xs = set ses" by simp
  obtain a' where a': "a' \<in> set (take k ?xs)" "se_Endpoint a' = se_Endpoint a" using assms(4) T by auto
  then have "a' \<in> set ses" using S in_set_takeD by fast
  then have "a' = a" using a'(2) assms(1,2) unfolding distinct_map by (blast dest: inj_onD)
  have "b \<in> set (take k ?xs @ drop k ?xs)" using assms(3) S by simp
  then have "b \<in> set (drop k ?xs)" using assms(5) unfolding T set_append set_map by blast
  moreover have "sorted (map (\<lambda>s. - se_Score s) (take k ?xs @ drop k ?xs))" unfolding append_take_drop_id by (rule sorted_sort_key)
  then have "\<forall>x\<in>set (take k ?xs). \<forall>y\<in>set (drop k ?xs). - se_Score x \<le> - se_Score y"
    unfolding map_append sorted_append set_map by blast
  ultimately have "- se_Score a \<le> - se_Score b" using a'(1) \<open>a' = a\<close> by blast
  then show ?thesis by simp
qed

lemma max_score_descending:
  "\<exists>ts. TargetEndpoints (MaxScorePicker_Pick k rnd ses) = map se_Endpoint ts \<and> set ts \<subseteq> set ses \<and>
        sorted (map (\<lambda>s. - se_Score s) ts)"
proof -
  let ?xs = "sort_key (\<lambda>s. - se_Score s) (ShuffleScoredEndpoints rnd ses)"
  have "set ?xs = set ses" by simp
  moreover have "sorted (map (\<lambda>s. - se_Score s) (take k ?xs))" unfolding take_map [symmetric] by (rule sorted_wrt_take) simp
  ultimately show ?thesis
    by (intro exI [of _ "take k ?xs"]) (auto simp: MaxScorePicker_Pick_def first_targets_take dest: in_set_takeD)
qed

end
