(* ===== verification/Base64.thy ===== *)
theory Base64
  imports Main "HOL-Library.Monad_Syntax"
begin

text \<open>
  The standard base64 encoding of the Go library (\<open>base64.StdEncoding\<close>), as the session affinity scorer
  uses it: groups of three bytes become four characters, the last group is padded. The decoder skips
  carriage returns and line feeds, takes padding at the end only, and ignores the unused bits of a padded
  group.
\<close>

definition b64_alphabet :: string where
  "b64_alphabet = ''ABCDEFGHIJKLMNOPQRSTUVWXYZabcdefghijklmnopqrstuvwxyz0123456789+/''"

definition b64_pad :: char where
  "b64_pad = CHR ''=''"

definition b64_char :: "nat \<Rightarrow> char" where
  "b64_char n = b64_alphabet ! n"

fun index_of :: "'a \<Rightarrow> 'a list \<Rightarrow> nat option" where
  "index_of x [] = None"
| "index_of x (y # ys) = (if x = y then Some 0 else map_option Suc (index_of x ys))"

definition b64_value :: "char \<Rightarrow> nat option" where
  "b64_value c = index_of c b64_alphabet"

fun EncodeToString :: "string \<Rightarrow> string" where
  "EncodeToString [] = []"
| "EncodeToString [a] =
     (let x = of_char a :: nat in [b64_char (x div 4), b64_char (x mod 4 * 16), b64_pad, b64_pad])"
| "EncodeToString [a, b] =
     (let x = of_char a :: nat; y = of_char b :: nat
      in [b64_char (x div 4), b64_char (x mod 4 * 16 + y div 16), b64_char (y mod 16 * 4), b64_pad])"
| "EncodeToString (a # b # c # rest) =
     (let x = of_char a :: nat; y = of_char b :: nat; z = of_char c :: nat
      in [b64_char (x div 4), b64_char (x mod 4 * 16 + y div 16), b64_char (y mod 16 * 4 + z div 64), b64_char (z mod 64)]
         @ EncodeToString rest)"

fun decode_quanta :: "string \<Rightarrow> string option" where
  "decode_quanta [] = Some []"
| "decode_quanta (p # q # r # t # rest) =
     do { x \<leftarrow> b64_value p;
          y \<leftarrow> b64_value q;
          (if r = b64_pad then (if t = b64_pad \<and> rest = [] then Some [char_of (x * 4 + y div 16)] else None)
           else do { z \<leftarrow> b64_value r;
                     (if t = b64_pad
                      then (if rest = [] then Some [char_of (x * 4 + y div 16), char_of (y mod 16 * 16 + z div 4)] else None)
                      else do { w \<leftarrow> b64_value t;
                                tail \<leftarrow> decode_quanta rest;
                                Some (char_of (x * 4 + y div 16) # char_of (y mod 16 * 16 + z div 4) # char_of (z mod 4 * 64 + w) # tail) }) }) }"
| "decode_quanta _ = None"

definition DecodeString :: "string \<Rightarrow> string option" where
  "DecodeString s = decode_quanta (filter (\<lambda>c. c \<noteq> CHR 0x0A \<and> c \<noteq> CHR 0x0D) s)"

subsection \<open>Decoding inverts encoding\<close>

lemma b64_char_value: "n < 64 \<Longrightarrow> b64_value (b64_char n) = Some n \<and> b64_char n \<noteq> b64_pad \<and> b64_char n \<noteq> CHR 0x0A \<and> b64_char n \<noteq> CHR 0x0D"
proof -
  have "list_all (\<lambda>n. b64_value (b64_char n) = Some n \<and> b64_char n \<noteq> b64_pad \<and> b64_char n \<noteq> CHR 0x0A \<and> b64_char n \<noteq> CHR 0x0D) [0..<64]"
    by code_simp
  then show "n < 64 \<Longrightarrow> ?thesis" by (simp add: list_all_iff)
qed

lemma b64_simps [simp]:
  "n < 64 \<Longrightarrow> b64_value (b64_char n) = Some n" "n < 64 \<Longrightarrow> b64_char n \<noteq> b64_pad"
  "n < 64 \<Longrightarrow> b64_char n \<noteq> CHR 0x0A" "n < 64 \<Longrightarrow> b64_char n \<noteq> CHR 0x0D"
  "b64_pad \<noteq> CHR 0x0A" "b64_pad \<noteq> CHR 0x0D"
  using b64_char_value [of n] by (simp_all add: b64_pad_def)

lemma byte_less: "(of_char c :: nat) < 256"
  by (metis mod_less_divisor of_char_mod_256 zero_less_numeral)

text \<open>The six-bit groups of three bytes, and back.\<close>

lemma byte_parts:
  fixes x :: nat assumes "x < 256"
  shows "x div 4 < 64" "x div 16 < 16" "x div 64 < 4"
  using assms by (simp_all add: less_mult_imp_div_less)

lemma sextets_less:
  fixes x y z :: nat assumes "x < 256" "y < 256" "z < 256"
  shows "x div 4 < 64" "x mod 4 * 16 + y div 16 < 64" "y mod 16 * 4 + z div 64 < 64" "z mod 64 < 64"
    "x mod 4 * 16 < 64" "y mod 16 * 4 < 64"
proof -
  have "x mod 4 < 4" "y mod 16 < 16" by simp_all
  then show "x mod 4 * 16 + y div 16 < 64" "y mod 16 * 4 + z div 64 < 64" "x mod 4 * 16 < 64" "y mod 16 * 4 < 64"
    using byte_parts [OF assms(2)] byte_parts [OF assms(3)] by linarith+
qed (use byte_parts [OF assms(1)] in simp_all)

lemma bytes_back:
  fixes x :: nat assumes "x < 256"
  shows "x div 16 div 16 = 0" "x div 16 mod 16 * 16 + x mod 16 = x" "x div 64 div 4 = 0" "x div 64 mod 4 * 64 + x mod 64 = x"
  using byte_parts [OF assms] by simp_all

lemmas char_sextets [simp] = sextets_less [OF byte_less byte_less byte_less]
lemmas char_bytes = bytes_back [OF byte_less]

lemma encode_clean: "filter (\<lambda>c. c \<noteq> CHR 0x0A \<and> c \<noteq> CHR 0x0D) (EncodeToString s) = EncodeToString s"
  by (induction s rule: EncodeToString.induct) (simp_all add: Let_def)

lemma DecodeString_EncodeToString: "DecodeString (EncodeToString s) = Some s"
proof -
  have "decode_quanta (EncodeToString s) = Some s"
    by (induction s rule: EncodeToString.induct) (simp_all add: Let_def char_bytes)
  then show ?thesis by (simp add: DecodeString_def encode_clean)
qed

end
