(* ===== verification/Scorers.thy ===== *)
theory Scorers
  imports Endpoints Base64
begin

text \<open>
  The scorers that only read the request and the endpoints (\<open>framework/plugins/scheduling/scorer\<close>): queue
  depth, running requests, KV-cache utilization, LoRA affinity, load, token load, prefix cache, context
  length and session affinity. The locale \<open>scorer_contract\<close> is what the \<open>Scorer\<close> interface asks of all of
  them: a score in the unit interval for every endpoint given, and for no other.
\<close>

subsection \<open>Go's \<open>int\<close> range and conversions\<close>

definition MaxInt :: int where "MaxInt = 2 ^ 63 - 1"
definition MinInt :: int where "MinInt = - (2 ^ 63)"

definition is_int :: "int \<Rightarrow> bool" where
  "is_int n \<longleftrightarrow> MinInt \<le> n \<and> n \<le> MaxInt"

text \<open>\<open>int(x)\<close> drops the fraction.\<close>

definition go_int :: "real \<Rightarrow> int" where
  "go_int x = (if 0 \<le> x then \<lfloor>x\<rfloor> else \<lceil>x\<rceil>)"

subsection \<open>Queue depth and running requests\<close>

definition min_size :: "(Endpoint \<Rightarrow> int) \<Rightarrow> Endpoint list \<Rightarrow> int" where
  "min_size sz endpoints = fold (\<lambda>e m. if sz e < m then sz e else m) endpoints MaxInt"

definition max_size :: "(Endpoint \<Rightarrow> int) \<Rightarrow> Endpoint list \<Rightarrow> int" where
  "max_size sz endpoints = fold (\<lambda>e m. if sz e > m then sz e else m) endpoints MinInt"

definition size_score :: "(Endpoint \<Rightarrow> int) \<Rightarrow> Endpoint list \<Rightarrow> Endpoint \<Rightarrow> real" where
  "size_score sz endpoints e =
     (let minQueueSize = min_size sz endpoints; maxQueueSize = max_size sz endpoints
      in if maxQueueSize = minQueueSize then 1
         else real_of_int (maxQueueSize - sz e) / real_of_int (maxQueueSize - minQueueSize))"

definition QueueScorer_Score :: "Endpoint list \<Rightarrow> (Endpoint, real) gomap" where
  "QueueScorer_Score endpoints = score_each (size_score (\<lambda>e. mt_WaitingQueueSize (ep_Metrics e)) endpoints) endpoints"

definition RunningRequestsSizeScorer_Score :: "Endpoint list \<Rightarrow> (Endpoint, real) gomap" where
  "RunningRequestsSizeScorer_Score endpoints = score_each (size_score (\<lambda>e. mt_RunningRequestsSize (ep_Metrics e)) endpoints) endpoints"

subsection \<open>KV cache, LoRA and load\<close>

definition KVCacheUtilizationScorer_Score :: "Endpoint list \<Rightarrow> (Endpoint, real) gomap" where
  "KVCacheUtilizationScorer_Score endpoints = score_each (\<lambda>e. 1 - mt_KVCacheUsagePercent (ep_Metrics e)) endpoints"

definition LoraAffinityScorer_Score :: "InferenceRequest \<Rightarrow> Endpoint list \<Rightarrow> (Endpoint, real) gomap" where
  "LoraAffinityScorer_Score request endpoints =
     score_each (\<lambda>e. let m = ep_Metrics e;
                         active = gm_get (mt_ActiveModels m) (ir_TargetModel request) \<noteq> None;
                         waiting = gm_get (mt_WaitingModels m) (ir_TargetModel request) \<noteq> None
                     in if active then 1
                        else if int (length (mt_ActiveModels m)) + int (length (mt_WaitingModels m)) < mt_MaxActiveModels m then 0.8
                        else if waiting then 0.6
                        else 0) endpoints"

definition QueueThresholdDefault :: int where "QueueThresholdDefault = 128"

definition NewLoadAware :: "int \<Rightarrow> real" where
  "NewLoadAware queueThreshold = real_of_int (if queueThreshold \<le> 0 then QueueThresholdDefault else queueThreshold)"

definition LoadAware_Score :: "real \<Rightarrow> Endpoint list \<Rightarrow> (Endpoint, real) gomap" where
  "LoadAware_Score queueThreshold endpoints =
     score_each (\<lambda>e. let waitingRequests = real_of_int (mt_WaitingQueueSize (ep_Metrics e))
                     in if waitingRequests = 0 then 0.5
                        else (let w = (if waitingRequests > queueThreshold then queueThreshold else waitingRequests)
                              in 0.5 * (1 - w / queueThreshold))) endpoints"

definition tokenQueueThresholdDefault :: int where "tokenQueueThresholdDefault = 4194304"

definition TokenLoadScorerFactory :: "int option \<Rightarrow> real" where
  "TokenLoadScorerFactory params =
     (let cfg = (case params of None \<Rightarrow> tokenQueueThresholdDefault | Some t \<Rightarrow> t)
      in real_of_int (if cfg \<le> 0 then tokenQueueThresholdDefault else cfg))"

definition TokenLoadScorer_Score :: "real \<Rightarrow> Endpoint list \<Rightarrow> (Endpoint, real) gomap" where
  "TokenLoadScorer_Score queueThresholdTokens endpoints =
     score_each (\<lambda>e. let tokenLoad = (case ep_Get InFlightLoadKey e of
                                        Some (InFlightLoad tokens requests) \<Rightarrow> real_of_int tokens
                                      | _ \<Rightarrow> 0)
                     in if tokenLoad \<le> 0 then 1
                        else (let l = (if tokenLoad > queueThresholdTokens then queueThresholdTokens else tokenLoad)
                              in 1 - l / queueThresholdTokens)) endpoints"

subsection \<open>Prefix cache\<close>

definition PrefixPlugin_Score :: "Endpoint list \<Rightarrow> (Endpoint, real) gomap" where
  "PrefixPlugin_Score endpoints =
     score_each (\<lambda>e. case ep_Get PrefixCacheMatchInfoKey e of
                       Some (PrefixCacheMatchInfo m t b) \<Rightarrow> if t \<noteq> 0 then real_of_int m / real_of_int t else 0
                     | _ \<Rightarrow> 0) endpoints"

subsection \<open>Session affinity\<close>

definition sessionTokenHeader :: string where "sessionTokenHeader = ''x-session-token''"

text \<open>A missing header reads as the empty string; a token that does not decode leaves the pod name empty.\<close>

definition session_pod :: "InferenceRequest \<Rightarrow> string" where
  "session_pod request =
     (let sessionToken = (case gm_get (ir_Headers request) sessionTokenHeader of None \<Rightarrow> [] | Some v \<Rightarrow> v)
      in if sessionToken \<noteq> [] then (case DecodeString sessionToken of None \<Rightarrow> [] | Some decoded \<Rightarrow> decoded) else [])"

definition SessionAffinity_Score :: "InferenceRequest \<Rightarrow> Endpoint list \<Rightarrow> (Endpoint, real) gomap" where
  "SessionAffinity_Score request endpoints =
     score_each (\<lambda>e. if ep_name e = session_pod request then 1 else 0) endpoints"

text \<open>The response: nil, or its end-of-stream mark and its headers (nil when not populated). \<^const>\<open>None\<close> is a panic.\<close>

record Response =
  rs_RequestId :: string
  rs_EndOfStream :: bool
  rs_Headers :: "(string, string) gomap option"

definition SessionAffinity_ResponseBody :: "Response option \<Rightarrow> EndpointMetadata option \<Rightarrow> Response option option" where
  "SessionAffinity_ResponseBody response targetPod =
     (case response of
        None \<Rightarrow> None
      | Some r \<Rightarrow>
          if \<not> rs_EndOfStream r then Some (Some r)
          else (case targetPod of
                  None \<Rightarrow> Some (Some r)
                | Some pod \<Rightarrow>
                    (let headers = (case rs_Headers r of None \<Rightarrow> [] | Some h \<Rightarrow> h)
                     in Some (Some (r\<lparr>rs_Headers := Some (gm_set sessionTokenHeader (EncodeToString (md_NamespacedName pod)) headers)\<rparr>)))))"

subsection \<open>Context length\<close>

record contextRange =
  cr_min :: int
  cr_max :: int

text \<open>\<open>strings.Split\<close> at a one-character separator, \<open>strings.TrimSpace\<close> and \<open>strconv.Atoi\<close>, on ASCII strings
  (the values of Kubernetes labels).\<close>

fun split_at :: "char \<Rightarrow> string \<Rightarrow> string \<Rightarrow> string list" where
  "split_at sep acc [] = [rev acc]"
| "split_at sep acc (c # cs) = (if c = sep then rev acc # split_at sep [] cs else split_at sep (c # acc) cs)"

definition Split :: "string \<Rightarrow> char \<Rightarrow> string list" where
  "Split s sep = split_at sep [] s"

definition isSpace :: "char \<Rightarrow> bool" where
  "isSpace c \<longleftrightarrow> c \<in> {CHR '' '', CHR 0x09, CHR 0x0A, CHR 0x0B, CHR 0x0C, CHR 0x0D}"

definition TrimSpace :: "string \<Rightarrow> string" where
  "TrimSpace s = rev (dropWhile isSpace (rev (dropWhile isSpace s)))"

definition digit_value :: "char \<Rightarrow> nat option" where
  "digit_value c = (let n = of_char c :: nat in if 48 \<le> n \<and> n \<le> 57 then Some (n - 48) else None)"

fun digits_value :: "nat \<Rightarrow> string \<Rightarrow> nat option" where
  "digits_value acc [] = Some acc"
| "digits_value acc (c # cs) = do { d \<leftarrow> digit_value c; digits_value (acc * 10 + d) cs }"

definition Atoi :: "string \<Rightarrow> int option" where
  "Atoi s =
     (let (neg, ds) = (case s of
                         [] \<Rightarrow> (False, [])
                       | c # cs \<Rightarrow> if c = CHR ''-'' then (True, cs) else if c = CHR ''+'' then (False, cs) else (False, s))
      in if ds = [] then None
         else do { n \<leftarrow> digits_value 0 ds;
                   (let v = (if neg then - int n else int n) in if is_int v then Some v else None) })"

definition parseContextRange :: "string \<Rightarrow> contextRange option" where
  "parseContextRange rangeStr =
     (if rangeStr = [] then None
      else (let bounds = Split rangeStr (CHR ''-'')
            in if length bounds \<noteq> 2 then None
               else do { minVal \<leftarrow> Atoi (TrimSpace (bounds ! 0));
                         maxVal \<leftarrow> Atoi (TrimSpace (bounds ! 1));
                         (if minVal > maxVal then None else Some \<lparr>cr_min = minVal, cr_max = maxVal\<rparr>) }))"

definition maxFallbackScore :: real where "maxFallbackScore = 0.3"

definition calculateRangeScore :: "int \<Rightarrow> contextRange \<Rightarrow> real" where
  "calculateRangeScore contextLength r =
     (if contextLength \<ge> cr_min r \<and> contextLength \<le> cr_max r
      then (let rangeWidth = cr_max r - cr_min r
            in if rangeWidth = 0 then 1
               else (let widthScore = 1 / (1 + real_of_int rangeWidth / 10000);
                         headroom = real_of_int (cr_max r - contextLength);
                         positionScore = headroom / real_of_int rangeWidth;
                         rawScore = 0.7 * widthScore + 0.3 * positionScore
                     in maxFallbackScore + rawScore * (1 - maxFallbackScore)))
      else (let distance = (if contextLength > cr_max r then contextLength - cr_max r else cr_min r - contextLength)
            in maxFallbackScore / (1 + real_of_int distance / 1000)))"

definition estimateContextLength :: "InferenceRequest \<Rightarrow> int" where
  "estimateContextLength request =
     (case ir_Body request of
        None \<Rightarrow> 0
      | Some body \<Rightarrow>
          (let chat = (case rb_ChatCompletions body of None \<Rightarrow> 0 | Some msgs \<Rightarrow> sum_list (map (\<lambda>m. length (msg_Raw m)) msgs));
               totalChars = chat + (case rb_Completions body of None \<Rightarrow> 0 | Some prompt \<Rightarrow> length prompt)
           in go_int (real totalChars * 0.25)))"

text \<open>\<open>tokenIDs\<close> is the tokenized prompt in the cycle state, if the tokenizer has left one.\<close>

definition getContextLength :: "nat list option \<Rightarrow> InferenceRequest \<Rightarrow> int \<times> bool" where
  "getContextLength tokenIDs request =
     (if ir_Body request = None then (0, False)
      else (case tokenIDs of
              Some (t # ts) \<Rightarrow> (int (length (t # ts)), True)
            | _ \<Rightarrow> (estimateContextLength request, False)))"

definition ContextLengthAware_Filter :: "string \<Rightarrow> bool \<Rightarrow> nat list option \<Rightarrow> InferenceRequest \<Rightarrow> Endpoint list \<Rightarrow> Endpoint list" where
  "ContextLengthAware_Filter labelName enableFiltering tokenIDs request endpoints =
     (if \<not> enableFiltering then endpoints
      else (let contextLength = fst (getContextLength tokenIDs request)
            in filter (\<lambda>e. case ep_label e labelName of
                              None \<Rightarrow> True
                            | Some rangeStr \<Rightarrow> (case parseContextRange rangeStr of
                                                 None \<Rightarrow> False
                                               | Some r \<Rightarrow> contextLength \<ge> cr_min r \<and> contextLength \<le> cr_max r)) endpoints))"

definition ContextLengthAware_Score :: "string \<Rightarrow> nat list option \<Rightarrow> InferenceRequest \<Rightarrow> Endpoint list \<Rightarrow> (Endpoint, real) gomap" where
  "ContextLengthAware_Score labelName tokenIDs request endpoints =
     (let contextLength = fst (getContextLength tokenIDs request)
      in score_each (\<lambda>e. case ep_label e labelName of
                           None \<Rightarrow> 0.5
                         | Some rangeStr \<Rightarrow> (case parseContextRange rangeStr of
                                              None \<Rightarrow> 0
                                            | Some r \<Rightarrow> calculateRangeScore contextLength r)) endpoints)"

subsection \<open>The contract of a scorer\<close>

text \<open>\<open>ok\<close> is what the scorer expects of the endpoints' data.\<close>

locale scorer_contract =
  fixes Score :: "Endpoint list \<Rightarrow> (Endpoint, real) gomap" and ok :: "Endpoint \<Rightarrow> bool"
  assumes score_keys: "gm_ok (Score es)" "fst ` set (Score es) = set es"
    and score_range: "\<forall>e \<in> set es. ok e \<Longrightarrow> (e, r) \<in> set (Score es) \<Longrightarrow> 0 \<le> r \<and> r \<le> 1"
begin

lemma score_get:
  assumes "\<forall>e \<in> set es. ok e" "e \<in> set es"
  obtains r where "gm_get (Score es) e = Some r" "0 \<le> r" "r \<le> 1"
proof -
  obtain r where r: "gm_get (Score es) e = Some r"
    using assms(2) score_keys(2) [of es] by (metis map_of_eq_None_iff option.exhaust)
  then show ?thesis using that score_range [OF assms(1)] gm_get_in by metis
qed

lemma score_other: "e \<notin> set es \<Longrightarrow> gm_get (Score es) e = None"
  using score_keys(2) by (metis map_of_eq_None_iff)

end

lemma score_each_contract:
  assumes "\<And>es e. \<forall>e \<in> set es. ok e \<Longrightarrow> e \<in> set es \<Longrightarrow> 0 \<le> f es e \<and> f es e \<le> 1"
  shows "scorer_contract (\<lambda>es. score_each (f es) es) ok"
  by unfold_locales (use assms in \<open>auto simp: score_each_mem\<close>)

subsection \<open>Every scorer keeps the contract\<close>

lemma min_size_le: "e \<in> set es \<Longrightarrow> min_size sz es \<le> sz e"
proof -
  have mono: "fold (\<lambda>e m. if sz e < m then sz e else m) es m \<le> m" for m es
    by (induction es arbitrary: m) (auto intro: order.trans [OF _ less_imp_le])
  have "e \<in> set es \<Longrightarrow> fold (\<lambda>e m. if sz e < m then sz e else m) es m \<le> sz e" for m
  proof (induction es arbitrary: m)
    case (Cons a es)
    then show ?case using mono [of es "if sz a < m then sz a else m"] by (auto split: if_splits)
  qed simp
  then show "e \<in> set es \<Longrightarrow> ?thesis" by (simp add: min_size_def)
qed

lemma max_size_ge: "e \<in> set es \<Longrightarrow> sz e \<le> max_size sz es"
proof -
  have mono: "m \<le> fold (\<lambda>e m. if sz e > m then sz e else m) es m" for m es
    by (induction es arbitrary: m) (auto intro: order.trans [OF less_imp_le])
  have "e \<in> set es \<Longrightarrow> sz e \<le> fold (\<lambda>e m. if sz e > m then sz e else m) es m" for m
  proof (induction es arbitrary: m)
    case (Cons a es)
    then show ?case using mono [of "if sz a > m then sz a else m" es] by (auto split: if_splits)
  qed simp
  then show "e \<in> set es \<Longrightarrow> ?thesis" by (simp add: max_size_def)
qed

lemma size_score_range: "e \<in> set es \<Longrightarrow> 0 \<le> size_score sz es e \<and> size_score sz es e \<le> 1"
  using min_size_le [of e es sz] max_size_ge [of e es sz] by (auto simp: size_score_def Let_def divide_simps)

text \<open>The shortest queue scores one, the longest zero, and a longer queue never more than a shorter one.\<close>

lemma size_score_antimono:
  "e \<in> set es \<Longrightarrow> e' \<in> set es \<Longrightarrow> sz e \<le> sz e' \<Longrightarrow> size_score sz es e' \<le> size_score sz es e"
  using min_size_le [of e es sz] max_size_ge [of e es sz] by (auto simp: size_score_def Let_def divide_simps)

lemma parse_range: "parseContextRange s = Some r \<Longrightarrow> cr_min r \<le> cr_max r"
  by (auto simp: parseContextRange_def Let_def split: if_splits Option.bind_splits)

lemma in_range_score:
  assumes "cr_min r \<le> n" "n \<le> cr_max r"
  shows "maxFallbackScore < calculateRangeScore n r \<and> calculateRangeScore n r \<le> 1"
proof (cases "cr_max r = cr_min r")
  case True
  then show ?thesis using assms by (simp add: calculateRangeScore_def maxFallbackScore_def)
next
  case False
  define w where "w = real_of_int (cr_max r - cr_min r)"
  define h where "h = real_of_int (cr_max r - n)"
  have w: "0 < w" "0 \<le> h" "h \<le> w" using False assms by (auto simp: w_def h_def)
  define a where "a = 1 / (1 + w / 10000)"
  define b where "b = h / w"
  have ab: "0 < a" "a \<le> 1" "0 \<le> b" "b \<le> 1" using w by (auto simp: a_def b_def divide_simps)
  have "(n \<ge> cr_min r \<and> n \<le> cr_max r) = True" "(cr_max r - cr_min r = 0) = False" using False assms by auto
  then have "calculateRangeScore n r = maxFallbackScore + (0.7 * a + 0.3 * b) * (1 - maxFallbackScore)"
    unfolding calculateRangeScore_def Let_def a_def b_def w_def h_def by (simp only: if_True if_False)
  also have "\<dots> = 0.3 + 0.49 * a + 0.21 * b" by (simp add: maxFallbackScore_def field_simps)
  finally show ?thesis using ab by (simp add: maxFallbackScore_def)
qed

lemma out_of_range_score:
  assumes "\<not> (cr_min r \<le> n \<and> n \<le> cr_max r)"
  shows "0 < calculateRangeScore n r \<and> calculateRangeScore n r < maxFallbackScore"
proof -
  define d where "d = real_of_int (if n > cr_max r then n - cr_max r else cr_min r - n)"
  have "1 \<le> d" using assms by (auto simp: d_def)
  moreover have "calculateRangeScore n r = maxFallbackScore / (1 + d / 1000)"
    using assms by (auto simp: calculateRangeScore_def Let_def d_def)
  moreover have "0 < maxFallbackScore / (1 + d / 1000) \<and> maxFallbackScore / (1 + d / 1000) < maxFallbackScore" if "1 \<le> d"
    using that by (auto simp: maxFallbackScore_def field_simps)
  ultimately show ?thesis by simp
qed

definition prefix_ok :: "Endpoint \<Rightarrow> bool" where
  "prefix_ok e \<longleftrightarrow> (case ep_Get PrefixCacheMatchInfoKey e of
     Some (PrefixCacheMatchInfo m t b) \<Rightarrow> 0 \<le> m \<and> m \<le> t | _ \<Rightarrow> True)"

lemma threshold_pos: "1 \<le> NewLoadAware t" "1 \<le> TokenLoadScorerFactory p"
  by (auto simp: NewLoadAware_def QueueThresholdDefault_def TokenLoadScorerFactory_def tokenQueueThresholdDefault_def Let_def)

interpretation queue: scorer_contract QueueScorer_Score "\<lambda>_. True"
  unfolding QueueScorer_Score_def by (rule score_each_contract) (rule size_score_range)

interpretation running: scorer_contract RunningRequestsSizeScorer_Score "\<lambda>_. True"
  unfolding RunningRequestsSizeScorer_Score_def by (rule score_each_contract) (rule size_score_range)

interpretation kv: scorer_contract KVCacheUtilizationScorer_Score
    "\<lambda>e. 0 \<le> mt_KVCacheUsagePercent (ep_Metrics e) \<and> mt_KVCacheUsagePercent (ep_Metrics e) \<le> 1"
  unfolding KVCacheUtilizationScorer_Score_def by (rule score_each_contract) auto

interpretation lora: scorer_contract "LoraAffinityScorer_Score request" "\<lambda>_. True" for request
  unfolding LoraAffinityScorer_Score_def by (rule score_each_contract) (auto simp: Let_def)

interpretation load: scorer_contract "LoadAware_Score (NewLoadAware t)" "\<lambda>e. 0 \<le> mt_WaitingQueueSize (ep_Metrics e)" for t
  unfolding LoadAware_Score_def
  by (rule score_each_contract) (use threshold_pos(1) [of t] in \<open>auto simp: Let_def divide_simps\<close>)

interpretation token: scorer_contract "TokenLoadScorer_Score (TokenLoadScorerFactory p)" "\<lambda>_. True" for p
  unfolding TokenLoadScorer_Score_def
  by (rule score_each_contract) (use threshold_pos(2) [of p] in \<open>auto simp: Let_def divide_simps split: option.splits Cloneable.splits\<close>)

interpretation prefix: scorer_contract PrefixPlugin_Score prefix_ok
  unfolding PrefixPlugin_Score_def
  by (rule score_each_contract) (auto simp: prefix_ok_def divide_simps split: option.splits Cloneable.splits)

interpretation session: scorer_contract "SessionAffinity_Score request" "\<lambda>_. True" for request
  unfolding SessionAffinity_Score_def by (rule score_each_contract) auto

lemma range_score_unit: "0 \<le> calculateRangeScore n r \<and> calculateRangeScore n r \<le> 1"
  using in_range_score [of r n] out_of_range_score [of r n] by (cases "cr_min r \<le> n \<and> n \<le> cr_max r") (auto simp: maxFallbackScore_def)

interpretation context_length: scorer_contract "ContextLengthAware_Score label tokenIDs request" "\<lambda>_. True" for label tokenIDs request
  unfolding ContextLengthAware_Score_def Let_def
  by (rule score_each_contract) (use range_score_unit in \<open>auto split: option.splits\<close>)

subsection \<open>Properties\<close>

text \<open>C28: A session comes back to its pod. When a response ends, the session header set on it decodes, in any later request that
  carries it, to the pod that served the response: the scorer gives one to the endpoints of that pod and zero to all
  others.\<close>

theorem session_affinity_roundtrip:
  assumes "rs_EndOfStream r"
  shows "\<exists>r' headers token. SessionAffinity_ResponseBody (Some r) (Some pod) = Some (Some r') \<and>
     rs_Headers r' = Some headers \<and> gm_get headers sessionTokenHeader = Some token \<and>
     (\<forall>request es e. gm_get (ir_Headers request) sessionTokenHeader = Some token \<longrightarrow> e \<in> set es \<longrightarrow>
        gm_get (SessionAffinity_Score request es) e = Some (if ep_name e = md_NamespacedName pod then 1 else 0))"
proof -
  let ?token = "EncodeToString (md_NamespacedName pod)"
  have "session_pod request = md_NamespacedName pod" if "gm_get (ir_Headers request) sessionTokenHeader = Some ?token" for request
    using that DecodeString_EncodeToString [of "md_NamespacedName pod"]
    by (cases "?token = []") (auto simp: session_pod_def Let_def, auto simp: DecodeString_def)
  then show ?thesis
    using assms by (auto simp: SessionAffinity_ResponseBody_def SessionAffinity_Score_def update_conv')
qed

definition demo_pod :: "string \<Rightarrow> EndpointMetadata" where
  "demo_pod name = \<lparr>md_NamespacedName = name, md_PodName = name, md_Address = ''10.0.0.1'', md_Port = ''8000'', md_MetricsHost = [], md_Labels = []\<rparr>"

definition demo_endpoint :: "string \<Rightarrow> Endpoint" where
  "demo_endpoint name = NewEndpoint 1 (demo_pod name) NewMetrics None"

theorem session_affinity_roundtrip_witness:
  "\<exists>token. \<forall>request. gm_get (ir_Headers request) sessionTokenHeader = Some token \<longrightarrow>
     gm_get (SessionAffinity_Score request [demo_endpoint ''ns/a'', demo_endpoint ''ns/b'']) (demo_endpoint ''ns/a'') = Some 1 \<and>
     gm_get (SessionAffinity_Score request [demo_endpoint ''ns/a'', demo_endpoint ''ns/b'']) (demo_endpoint ''ns/b'') = Some 0"
proof -
  let ?r = "\<lparr>rs_RequestId = [], rs_EndOfStream = True, rs_Headers = None\<rparr>"
  have n: "ep_name (demo_endpoint ''ns/a'') = ''ns/a''" "ep_name (demo_endpoint ''ns/b'') = ''ns/b''" "md_NamespacedName (demo_pod ''ns/a'') = ''ns/a''"
    by (simp_all add: demo_endpoint_def demo_pod_def NewEndpoint_def)
  obtain token where "\<forall>request es e. gm_get (ir_Headers request) sessionTokenHeader = Some token \<longrightarrow> e \<in> set es \<longrightarrow>
     gm_get (SessionAffinity_Score request es) e = Some (if ep_name e = md_NamespacedName (demo_pod ''ns/a'') then 1 else 0)"
    using session_affinity_roundtrip [of ?r "demo_pod ''ns/a''"] by auto
  then show ?thesis by (intro exI [of _ token]) (simp add: n)
qed



end
