(* ===== verification/RankScorers.thy ===== *)
theory RankScorers
  imports Scorers
begin

text \<open>
  The scorers with state or with a ranking of their own: active requests per endpoint
  (\<open>scorer/activerequest\<close>), least recently used endpoints for cold requests (\<open>scorer/nohitlru\<close>) and
  predicted latency (\<open>scorer/latency\<close>). The LRU cache of the second is a library: its keys, oldest first,
  and the effect of adding a key are parameters.
\<close>

subsection \<open>Active requests\<close>

record ActiveRequest =
  ar_endpointCounts :: "(string, int) gomap"
  ar_idleThreshold :: int
  ar_maxBusyScore :: real

text \<open>\<open>params\<close> are the idle threshold and the maximal busy score; they may be missing.\<close>

definition NewActiveRequest :: "(int \<times> real) option \<Rightarrow> ActiveRequest" where
  "NewActiveRequest params =
     \<lparr>ar_endpointCounts = [],
      ar_idleThreshold = (case params of Some (idle, busy) \<Rightarrow> if idle \<ge> 0 then idle else 0 | None \<Rightarrow> 0),
      ar_maxBusyScore = (case params of Some (idle, busy) \<Rightarrow> if busy \<ge> 0 \<and> busy \<le> 1 then busy else 1 | None \<Rightarrow> 1)\<rparr>"

definition ActiveRequest_Score :: "ActiveRequest \<Rightarrow> Endpoint list \<Rightarrow> (Endpoint, real) gomap" where
  "ActiveRequest_Score s endpoints =
     (let maxCount = fold (\<lambda>(name, cnt) m. if cnt \<ge> m then cnt else m) (ar_endpointCounts s) 0
      in score_each (\<lambda>e. case gm_get (ar_endpointCounts s) (ep_name e) of
                           None \<Rightarrow> 1
                         | Some cnt \<Rightarrow>
                             if cnt \<le> ar_idleThreshold s then 1
                             else real_of_int (maxCount - cnt) / real_of_int maxCount * ar_maxBusyScore s) endpoints)"

definition incrementPodCount :: "string \<Rightarrow> ActiveRequest \<Rightarrow> ActiveRequest" where
  "incrementPodCount endpointName s =
     s\<lparr>ar_endpointCounts := gm_set endpointName
         ((case gm_get (ar_endpointCounts s) endpointName of None \<Rightarrow> 0 | Some c \<Rightarrow> c) + 1) (ar_endpointCounts s)\<rparr>"

definition decrementPodCount :: "string \<Rightarrow> ActiveRequest \<Rightarrow> ActiveRequest" where
  "decrementPodCount endpointName s =
     (case gm_get (ar_endpointCounts s) endpointName of
        None \<Rightarrow> s
      | Some cnt \<Rightarrow>
          if cnt \<le> 1 then s\<lparr>ar_endpointCounts := gm_del endpointName (ar_endpointCounts s)\<rparr>
          else s\<lparr>ar_endpointCounts := gm_set endpointName (cnt - 1) (ar_endpointCounts s)\<rparr>)"

subsection \<open>Least recently used for cold requests\<close>

definition isColdRequest :: "Endpoint list \<Rightarrow> bool" where
  "isColdRequest endpoints \<longleftrightarrow>
     list_all (\<lambda>ep. case ep_Get PrefixCacheMatchInfoKey ep of
                      Some (PrefixCacheMatchInfo m t b) \<Rightarrow> \<not> m > 0
                    | _ \<Rightarrow> True) endpoints"

definition scoreNeutral :: "Endpoint list \<Rightarrow> (Endpoint, real) gomap" where
  "scoreNeutral endpoints = score_each (\<lambda>_. 0.5) endpoints"

definition getLRUPositions :: "string list \<Rightarrow> (string, nat) gomap" where
  "getLRUPositions lruKeys = fold (\<lambda>(i, key) m. gm_set key i m) (enumerate 0 lruKeys) []"

definition partitionPodsByUsage :: "Endpoint list \<Rightarrow> (string, nat) gomap \<Rightarrow> Endpoint list \<times> Endpoint list" where
  "partitionPodsByUsage endpoints lruPosition =
     (filter (\<lambda>e. gm_get lruPosition (ep_name e) \<noteq> None) endpoints,
      filter (\<lambda>e. gm_get lruPosition (ep_name e) = None) endpoints)"

definition never_used_score :: "nat \<Rightarrow> nat \<Rightarrow> real" where
  "never_used_score totalEndpoints i = 1 - real i / real (totalEndpoints - 1)"

definition scoreNeverUsedPods :: "(Endpoint, real) gomap \<Rightarrow> Endpoint list \<Rightarrow> nat \<Rightarrow> (Endpoint, real) gomap" where
  "scoreNeverUsedPods scored neverUsed totalEndpoints =
     (if totalEndpoints \<le> 1 then scored
      else fold (\<lambda>(i, e) scored. gm_set e (never_used_score totalEndpoints i) scored) (enumerate 0 neverUsed) scored)"

definition used_score :: "(string, nat) gomap \<Rightarrow> nat \<Rightarrow> nat \<Rightarrow> Endpoint \<Rightarrow> real" where
  "used_score lruPosition neverUsedCount totalEndpoints e =
     (let lruPos = (case gm_get lruPosition (ep_name e) of None \<Rightarrow> 0 | Some i \<Rightarrow> i);
          rank = neverUsedCount + lruPos;
          score = 1 - real rank / real (totalEndpoints - 1)
      in if score < 0 then 0 else score)"

definition scoreUsedPods :: "(Endpoint, real) gomap \<Rightarrow> Endpoint list \<Rightarrow> (string, nat) gomap \<Rightarrow> nat \<Rightarrow> nat \<Rightarrow> (Endpoint, real) gomap" where
  "scoreUsedPods scored used lruPosition neverUsedCount totalEndpoints =
     (if totalEndpoints \<le> 1 then scored
      else fold (\<lambda>e scored. gm_set e (used_score lruPosition neverUsedCount totalEndpoints e) scored) used scored)"

definition scoreColdRequestByLRU :: "string list \<Rightarrow> Endpoint list \<Rightarrow> (Endpoint, real) gomap" where
  "scoreColdRequestByLRU lruKeys endpoints =
     (let totalEndpoints = length endpoints
      in if totalEndpoints = 1 then [(hd endpoints, 1)]
         else (let lruPosition = getLRUPositions lruKeys;
                   (used, neverUsed) = partitionPodsByUsage endpoints lruPosition
               in scoreUsedPods (scoreNeverUsedPods [] neverUsed totalEndpoints) used lruPosition (length neverUsed) totalEndpoints))"

text \<open>The plugin state holds, per request, whether it was cold.\<close>

definition NoHitLRU_Score :: "string list \<Rightarrow> InferenceRequest \<Rightarrow> Endpoint list \<Rightarrow> (string, bool) gomap
    \<Rightarrow> (Endpoint, real) gomap \<times> (string, bool) gomap" where
  "NoHitLRU_Score lruKeys request endpoints pluginState =
     (let isCold = isColdRequest endpoints;
          pluginState' = gm_set (ir_RequestId request) isCold pluginState
      in if \<not> isCold then (scoreNeutral endpoints, pluginState')
         else (scoreColdRequestByLRU lruKeys endpoints, pluginState'))"

definition noHit_prefillProfile :: string where "noHit_prefillProfile = ''prefill''"

text \<open>A profile's result is nil when the profile failed; \<open>add\<close> is \<open>lruCache.Add\<close>.\<close>

definition moveTarget :: "(string \<Rightarrow> 'l \<Rightarrow> 'l) \<Rightarrow> (string, Endpoint list option) gomap \<Rightarrow> string \<Rightarrow> 'l \<Rightarrow> 'l" where
  "moveTarget add profileResults profileName lru =
     (case gm_get profileResults profileName of
        Some (Some (target # _)) \<Rightarrow> add (ep_name target) lru
      | _ \<Rightarrow> lru)"

definition NoHitLRU_PreRequest :: "(string \<Rightarrow> 'l \<Rightarrow> 'l) \<Rightarrow> InferenceRequest \<Rightarrow> (string, Endpoint list option) gomap \<Rightarrow> string
    \<Rightarrow> 'l \<Rightarrow> (string, bool) gomap \<Rightarrow> 'l \<times> (string, bool) gomap" where
  "NoHitLRU_PreRequest add request profileResults primaryProfileName lru pluginState =
     (if profileResults = [] then (lru, pluginState)
      else (let coldState = gm_get pluginState (ir_RequestId request);
                pluginState' = gm_del (ir_RequestId request) pluginState
            in if coldState = Some True
               then (moveTarget add profileResults noHit_prefillProfile (moveTarget add profileResults primaryProfileName lru), pluginState')
               else (lru, pluginState')))"

subsection \<open>Predicted latency\<close>

record LatencyConfig =
  lc_TTFTWeight :: real
  lc_TPOTWeight :: real
  lc_HeadroomSelectionStrategy :: string
  lc_CompositeKVWeight :: real
  lc_CompositeQueueWeight :: real
  lc_CompositePrefixWeight :: real

definition StrategyLeast :: string where "StrategyLeast = ''least''"
definition StrategyMost :: string where "StrategyMost = ''most''"

definition latency_DefaultConfig :: LatencyConfig where
  "latency_DefaultConfig = \<lparr>lc_TTFTWeight = 0.8, lc_TPOTWeight = 0.2, lc_HeadroomSelectionStrategy = StrategyLeast,
     lc_CompositeKVWeight = 1, lc_CompositeQueueWeight = 1, lc_CompositePrefixWeight = 1\<rparr>"

definition wMax :: int where "wMax = 100"
definition minWeight :: int where "minWeight = 0"
definition eps :: real where "eps = 1 / 1000000000"
definition MaxFloat64 :: real where "MaxFloat64 = 2 ^ 1024 - 2 ^ 971"

record epData =
  ed_endpoint :: Endpoint
  ed_hasInfo :: bool
  ed_dispatched :: int
  ed_ttftHeadroom :: real
  ed_tpotHeadroom :: real

definition normalizedWeights :: "real \<Rightarrow> real \<Rightarrow> real \<times> real" where
  "normalizedWeights a b = (let s = a + b in if s \<le> 0 then (1, 0) else (a / s, b / s))"

text \<open>A type assertion on an attribute of another type panics.\<close>

definition prefixCacheScore :: "Endpoint \<Rightarrow> real option" where
  "prefixCacheScore ep =
     (case ep_Get PrefixCacheMatchInfoKey ep of
        None \<Rightarrow> Some 0
      | Some (PrefixCacheMatchInfo m t b) \<Rightarrow> Some (if t > 0 then real_of_int m / real_of_int t else 0)
      | Some _ \<Rightarrow> None)"

definition gather :: "Endpoint \<Rightarrow> epData option" where
  "gather ep =
     (case ep_Get LatencyPredictionInfoKey ep of
        None \<Rightarrow> Some \<lparr>ed_endpoint = ep, ed_hasInfo = False, ed_dispatched = 0, ed_ttftHeadroom = 0, ed_tpotHeadroom = 0\<rparr>
      | Some (LatencyPredictionInfo v1 v2 h1 h2 l1 l2 n) \<Rightarrow>
          Some \<lparr>ed_endpoint = ep, ed_hasInfo = True, ed_dispatched = n, ed_ttftHeadroom = h1, ed_tpotHeadroom = h2\<rparr>
      | Some _ \<Rightarrow> None)"

definition min_abs :: "(epData \<Rightarrow> real) \<Rightarrow> epData list \<Rightarrow> real" where
  "min_abs f data = fold (\<lambda>d m. if \<bar>f d\<bar> < m then \<bar>f d\<bar> else m) data MaxFloat64"

definition max_abs :: "(epData \<Rightarrow> real) \<Rightarrow> epData list \<Rightarrow> real" where
  "max_abs f data = fold (\<lambda>d m. if \<bar>f d\<bar> > m then \<bar>f d\<bar> else m) data (- MaxFloat64)"

text \<open>The weighted, normalized headroom of one endpoint within its bucket, in the unit interval.\<close>

definition combined_headroom :: "LatencyConfig \<Rightarrow> epData list \<Rightarrow> epData \<Rightarrow> real" where
  "combined_headroom config data d =
     (let (a0, b0) = normalizedWeights (lc_TTFTWeight config) (lc_TPOTWeight config);
          minTTFT = min_abs ed_ttftHeadroom data; ttftRange = max_abs ed_ttftHeadroom data - minTTFT;
          minTPOT = min_abs ed_tpotHeadroom data; tpotRange = max_abs ed_tpotHeadroom data - minTPOT;
          (alpha, beta) = (if ttftRange \<le> eps \<and> tpotRange > eps then (0, 1)
                           else if tpotRange \<le> eps \<and> ttftRange > eps then (1, 0) else (a0, b0));
          nTTFT = (if ttftRange > eps then (\<bar>ed_ttftHeadroom d\<bar> - minTTFT) / ttftRange else 0.5);
          nTPOT = (if tpotRange > eps then (\<bar>ed_tpotHeadroom d\<bar> - minTPOT) / tpotRange else 0.5)
      in alpha * nTTFT + beta * nTPOT)"

definition bucket_score :: "LatencyConfig \<Rightarrow> bool \<Rightarrow> real \<Rightarrow> real" where
  "bucket_score config forceLeast combined =
     (let strategy = (if forceLeast then StrategyLeast else lc_HeadroomSelectionStrategy config);
          w = (if strategy = StrategyMost
               then go_int (combined * real_of_int (wMax - minWeight)) + minWeight + 1
               else go_int ((1 - combined) * real_of_int (wMax - minWeight)) + minWeight + 1)
      in real_of_int w / real_of_int wMax)"

definition scoreBucket :: "LatencyConfig \<Rightarrow> epData list \<Rightarrow> (Endpoint, real) gomap \<Rightarrow> bool \<Rightarrow> (Endpoint, real) gomap" where
  "scoreBucket config data scores forceLeast =
     fold (\<lambda>d scores. gm_set (ed_endpoint d) (bucket_score config forceLeast (combined_headroom config data d)) scores) data scores"

definition go_Round :: "real \<Rightarrow> int" where
  "go_Round x = (if 0 \<le> x then \<lfloor>x + 1 / 2\<rfloor> else - \<lfloor>- x + 1 / 2\<rfloor>)"

fun composite_each :: "real \<Rightarrow> real \<Rightarrow> real \<Rightarrow> int \<Rightarrow> Endpoint list \<Rightarrow> (Endpoint, real) gomap \<Rightarrow> (Endpoint, real) gomap option" where
  "composite_each wkv wq wpref maxQ [] scores = Some scores"
| "composite_each wkv wq wpref maxQ (ep # endpoints) scores =
     do { pfx \<leftarrow> prefixCacheScore ep;
          (let q = mt_WaitingQueueSize (ep_Metrics ep);
               relQueue = (if maxQ > 0 then real_of_int (maxQ - q) / real_of_int maxQ else 1);
               kvFree = 1 - mt_KVCacheUsagePercent (ep_Metrics ep);
               composite = wkv * kvFree + wq * relQueue + wpref * pfx;
               w = go_Round (real_of_int minWeight + real_of_int (wMax - minWeight) * composite)
           in composite_each wkv wq wpref maxQ endpoints (gm_set ep (real_of_int w / real_of_int wMax) scores)) }"

definition compositeScores :: "LatencyConfig \<Rightarrow> Endpoint list \<Rightarrow> (Endpoint, real) gomap option" where
  "compositeScores config endpoints =
     (let wkv = lc_CompositeKVWeight config; wq = lc_CompositeQueueWeight config; wpref = lc_CompositePrefixWeight config;
          sumw = wkv + wq + wpref;
          (wkv, wq, wpref, sumw) = (if sumw \<le> 0 then (1, 0, 0, 1) else (wkv, wq, wpref, sumw));
          maxQ = fold (\<lambda>ep m. if mt_WaitingQueueSize (ep_Metrics ep) > m then mt_WaitingQueueSize (ep_Metrics ep) else m) endpoints 0
      in composite_each (wkv / sumw) (wq / sumw) (wpref / sumw) maxQ endpoints [])"

definition negative_headroom :: "epData \<Rightarrow> bool" where
  "negative_headroom d \<longleftrightarrow> ed_hasInfo d \<and> (ed_ttftHeadroom d < 0 \<or> ed_tpotHeadroom d < 0)"

definition deficit_buckets :: "epData list \<Rightarrow> epData list list" where
  "deficit_buckets negative =
     (let ttftNeg = (\<lambda>d. ed_ttftHeadroom d < 0); tpotNeg = (\<lambda>d. ed_tpotHeadroom d < 0)
      in [filter (\<lambda>d. ed_hasInfo d \<and> \<not> ttftNeg d \<and> tpotNeg d) negative,
          filter (\<lambda>d. ed_hasInfo d \<and> ttftNeg d \<and> \<not> tpotNeg d) negative,
          filter (\<lambda>d. \<not> ed_hasInfo d \<or> (ttftNeg d \<longleftrightarrow> tpotNeg d)) negative])"

definition LatencyScorer_Score :: "LatencyConfig \<Rightarrow> Endpoint list \<Rightarrow> (Endpoint, real) gomap option" where
  "LatencyScorer_Score config endpoints =
     do { data \<leftarrow> those (map gather endpoints);
          (let scores = score_each (\<lambda>_. 0) endpoints in
           if \<not> list_ex ed_hasInfo data then compositeScores config endpoints
           else (let negative = filter negative_headroom data; positive = filter (\<lambda>d. \<not> negative_headroom d) data in
                 if positive \<noteq> [] then Some (scoreBucket config positive scores False)
                 else (let idle = filter (\<lambda>d. ed_hasInfo d \<and> ed_dispatched d = 0) negative in
                       if idle \<noteq> [] then Some (scoreBucket config idle scores True)
                       else (case filter (\<lambda>b. b \<noteq> []) (deficit_buckets negative) of
                               bucket # _ \<Rightarrow> Some (scoreBucket config bucket scores True)
                             | [] \<Rightarrow> Some (scoreBucket config negative scores True))))) }"

subsection \<open>Counts of active requests\<close>

definition active_count :: "string \<Rightarrow> ActiveRequest \<Rightarrow> int" where
  "active_count name s = (case gm_get (ar_endpointCounts s) name of None \<Rightarrow> 0 | Some c \<Rightarrow> c)"

text \<open>Every count is positive, and the busy score is in the unit interval.\<close>

definition active_ok :: "ActiveRequest \<Rightarrow> bool" where
  "active_ok s \<longleftrightarrow> gm_ok (ar_endpointCounts s) \<and> (\<forall>(n, c) \<in> set (ar_endpointCounts s). 1 \<le> c) \<and>
     0 \<le> ar_maxBusyScore s \<and> ar_maxBusyScore s \<le> 1"

lemma active_ok_get: "active_ok s \<Longrightarrow> gm_get (ar_endpointCounts s) name = Some c \<Longrightarrow> 1 \<le> c"
  using gm_get_in by (fastforce simp: active_ok_def)

lemma active_ok_new: "active_ok (NewActiveRequest params)"
  by (auto simp: active_ok_def NewActiveRequest_def split: option.splits)

lemma active_count_nonneg: "active_ok s \<Longrightarrow> 0 \<le> active_count name s"
  using active_ok_get by (fastforce simp: active_count_def split: option.splits)

lemma increment_spec:
  assumes "active_ok s"
  shows "active_ok (incrementPodCount n s)"
    "active_count m (incrementPodCount n s) = active_count m s + (if m = n then 1 else 0)"
proof -
  have "1 \<le> active_count n s + 1" using active_count_nonneg [OF assms] by simp
  then show "active_ok (incrementPodCount n s)"
    using assms gm_set_mem by (fastforce simp: active_ok_def incrementPodCount_def distinct_update active_count_def)
  show "active_count m (incrementPodCount n s) = active_count m s + (if m = n then 1 else 0)"
    by (simp add: active_count_def incrementPodCount_def update_conv')
qed

lemma decrement_spec:
  assumes "active_ok s"
  shows "active_ok (decrementPodCount n s)"
    "active_count m (decrementPodCount n s) = (if m = n then max 0 (active_count m s - 1) else active_count m s)"
proof -
  show "active_ok (decrementPodCount n s)"
  proof (cases "gm_get (ar_endpointCounts s) n")
    case None
    then show ?thesis using assms by (simp add: decrementPodCount_def)
  next
    case (Some c)
    have ok: "gm_ok (ar_endpointCounts s)" "\<forall>(m, d) \<in> set (ar_endpointCounts s). 1 \<le> d" using assms by (auto simp: active_ok_def)
    have "\<forall>(m, d) \<in> set (gm_set n (c - 1) (ar_endpointCounts s)). 1 \<le> d" if "\<not> c \<le> 1"
      using that ok(2) gm_set_mem [of _ _ n "c - 1"] by fastforce
    moreover have "\<forall>(m, d) \<in> set (gm_del n (ar_endpointCounts s)). 1 \<le> d" using ok(2) by (auto simp: AList.delete_eq)
    ultimately show ?thesis using Some assms by (auto simp: active_ok_def decrementPodCount_def distinct_update distinct_delete)
  qed
  show "active_count m (decrementPodCount n s) = (if m = n then max 0 (active_count m s - 1) else active_count m s)"
    using active_ok_get [OF assms, of n]
    by (auto simp: active_count_def decrementPodCount_def update_conv' delete_conv' split: option.splits)
qed

lemma max_count_ge:
  "(n :: string, c) \<in> set m \<Longrightarrow> c \<le> fold (\<lambda>(name, cnt) m. if cnt \<ge> m then cnt else m) m (a :: int)"
proof -
  have mono: "a \<le> fold (\<lambda>(name, cnt) m. if cnt \<ge> m then cnt else m) m a" for m :: "(string \<times> int) list" and a
  proof (induction m arbitrary: a)
    case (Cons x m)
    have "a \<le> (if a \<le> snd x then snd x else a)" by simp
    also have "\<dots> \<le> fold (\<lambda>(name, cnt) m. if cnt \<ge> m then cnt else m) m (if a \<le> snd x then snd x else a)" by (rule Cons.IH)
    finally show ?case by (simp add: split_def)
  qed simp
  show "(n, c) \<in> set m \<Longrightarrow> ?thesis"
  proof (induction m arbitrary: a)
    case (Cons x m)
    obtain n' c' where x: "x = (n', c')" by (cases x)
    show ?case
    proof (cases "(n, c) = x")
      case True
      have "c \<le> (if c \<ge> a then c else a)" by simp
      also have "\<dots> \<le> fold (\<lambda>(name, cnt) m. if cnt \<ge> m then cnt else m) m (if c \<ge> a then c else a)" by (rule mono)
      finally show ?thesis using True by auto
    qed (use Cons x in auto)
  qed simp
qed

interpretation active: scorer_contract "ActiveRequest_Score s" "\<lambda>_. active_ok s" for s
proof -
  define M where "M = fold (\<lambda>(name, cnt) m. if cnt \<ge> m then cnt else m) (ar_endpointCounts s) 0"
  have "0 \<le> real_of_int (M - c) / real_of_int M * ar_maxBusyScore s \<and> real_of_int (M - c) / real_of_int M * ar_maxBusyScore s \<le> 1"
    if "active_ok s" "gm_get (ar_endpointCounts s) name = Some c" for name c
  proof -
    have c: "1 \<le> c" "c \<le> M" using active_ok_get [OF that] max_count_ge [OF gm_get_in [OF that(2)]] by (auto simp: M_def)
    then have "0 \<le> real_of_int (M - c) / real_of_int M" "real_of_int (M - c) / real_of_int M \<le> 1" by (auto simp: divide_simps)
    moreover have "0 \<le> ar_maxBusyScore s" "ar_maxBusyScore s \<le> 1" using that(1) by (auto simp: active_ok_def)
    ultimately show ?thesis by (intro conjI mult_nonneg_nonneg mult_le_one)
  qed
  then show "scorer_contract (ActiveRequest_Score s) (\<lambda>_. active_ok s)"
    unfolding ActiveRequest_Score_def Let_def M_def [symmetric]
    by (intro score_each_contract) (auto split: option.splits)
qed

subsection \<open>The order of cold requests\<close>

lemma enumerate_fold_nth:
  assumes "distinct ks" "i < length ks"
  shows "gm_get (fold (\<lambda>(i, k) m. gm_set k (f i) m) (enumerate n ks) m) (ks ! i) = Some (f (n + i))"
  using assms
proof (induction ks arbitrary: n m i)
  case (Cons k ks)
  have keep: "k \<notin> set ks \<Longrightarrow> gm_get (fold (\<lambda>(i, k) m. gm_set k (f i) m) (enumerate n ks) m) k = gm_get m k" for n m ks
    by (induction ks arbitrary: n m) (auto simp: update_conv')
  show ?case using Cons keep [of ks "Suc n"] by (cases i) (auto simp: update_conv')
qed simp

lemma enumerate_fold_other:
  "k \<notin> set ks \<Longrightarrow> gm_get (fold (\<lambda>(i, k) m. gm_set k (f i) m) (enumerate n ks) m) k = gm_get m k"
  by (induction ks arbitrary: n m) (auto simp: update_conv')

lemma lru_positions:
  assumes "distinct lruKeys"
  shows "i < length lruKeys \<Longrightarrow> gm_get (getLRUPositions lruKeys) (lruKeys ! i) = Some i"
    "name \<notin> set lruKeys \<Longrightarrow> gm_get (getLRUPositions lruKeys) name = None"
  using enumerate_fold_nth [OF assms, of i "\<lambda>i. i" 0 "[]"] enumerate_fold_other [of name lruKeys "\<lambda>i. i" 0 "[]"]
  by (simp_all add: getLRUPositions_def)

lemma never_used_nth:
  assumes "distinct never" "i < length never" "1 < n"
  shows "gm_get (scoreNeverUsedPods m never n) (never ! i) = Some (never_used_score n i)"
  using enumerate_fold_nth [OF assms(1,2), of "never_used_score n" 0 m] assms(3)
  by (simp add: scoreNeverUsedPods_def)

lemma never_used_other: "e \<notin> set never \<Longrightarrow> gm_get (scoreNeverUsedPods m never n) e = gm_get m e"
  using enumerate_fold_other [of e never "never_used_score n" 0 m] by (simp add: scoreNeverUsedPods_def)

text \<open>The score of a cold request for one of several endpoints: by position among the endpoints never used, and by age
  behind all of those.\<close>

lemma cold_score:
  fixes lruKeys :: "string list"
  assumes "distinct es" "1 < length es"
  defines "pos \<equiv> getLRUPositions lruKeys"
  defines "never \<equiv> filter (\<lambda>e. gm_get pos (ep_name e) = None) es"
  shows "i < length never \<Longrightarrow> gm_get (scoreColdRequestByLRU lruKeys es) (never ! i) = Some (never_used_score (length es) i)"
    "e \<in> set es \<Longrightarrow> gm_get pos (ep_name e) \<noteq> None \<Longrightarrow>
      gm_get (scoreColdRequestByLRU lruKeys es) e = Some (used_score pos (length never) (length es) e)"
    "e \<notin> set es \<Longrightarrow> gm_get (scoreColdRequestByLRU lruKeys es) e = None"
proof -
  have eq: "scoreColdRequestByLRU lruKeys es = fold (\<lambda>e scored. gm_set e (used_score pos (length never) (length es) e) scored)
      (filter (\<lambda>e. gm_get pos (ep_name e) \<noteq> None) es) (scoreNeverUsedPods [] never (length es))"
    using assms(2) by (simp add: scoreColdRequestByLRU_def partitionPodsByUsage_def scoreUsedPods_def pos_def never_def Let_def)
  have get: "gm_get (scoreColdRequestByLRU lruKeys es) e = (if e \<in> set es \<and> gm_get pos (ep_name e) \<noteq> None
      then Some (used_score pos (length never) (length es) e) else gm_get (scoreNeverUsedPods [] never (length es)) e)" for e
    unfolding eq fold_set_get by simp
  show "i < length never \<Longrightarrow> gm_get (scoreColdRequestByLRU lruKeys es) (never ! i) = Some (never_used_score (length es) i)"
  proof -
    assume i: "i < length never"
    then have "gm_get pos (ep_name (never ! i)) = None" using nth_mem [OF i] by (simp add: never_def)
    then show ?thesis using never_used_nth [OF _ i assms(2), of "[]"] get [of "never ! i"] assms(1) by (simp add: never_def)
  qed
  show "e \<in> set es \<Longrightarrow> gm_get pos (ep_name e) \<noteq> None \<Longrightarrow>
      gm_get (scoreColdRequestByLRU lruKeys es) e = Some (used_score pos (length never) (length es) e)" using get [of e] by simp
  show "e \<notin> set es \<Longrightarrow> gm_get (scoreColdRequestByLRU lruKeys es) e = None"
    using get [of e] never_used_other [of e never "[]"] by (simp add: never_def)
qed

lemma unit_rank: "1 < n \<Longrightarrow> i < n \<Longrightarrow> 0 \<le> never_used_score n i \<and> never_used_score n i \<le> 1"
  by (auto simp: never_used_score_def field_simps)

lemma used_score_unit: "0 \<le> used_score pos u n e \<and> used_score pos u n e \<le> 1"
  by (auto simp: used_score_def Let_def divide_simps)

lemma never_before_used:
  assumes "i < u" "u < n"
  shows "used_score pos u n e < never_used_score n i"
proof -
  define k where "k = (case gm_get pos (ep_name e) of None \<Rightarrow> 0 | Some i \<Rightarrow> i)"
  define d where "d = real (n - 1)"
  have "real i < d" "real i < real (u + k)" "0 < d" using assms by (auto simp: d_def)
  then have "real i / d < 1" "real i / d < real (u + k) / d" by (simp, intro divide_strict_right_mono)
  moreover have "used_score pos u n e = max 0 (1 - real (u + k) / d)" by (simp add: used_score_def Let_def k_def d_def max_def)
  moreover have "never_used_score n i = 1 - real i / d" by (simp add: never_used_score_def d_def)
  ultimately show ?thesis by (simp add: max_def)
qed

lemma cold_get:
  assumes "distinct es" "1 < length es" "e \<in> set es"
  obtains (never) i where "gm_get (getLRUPositions lruKeys) (ep_name e) = None"
      "i < length (filter (\<lambda>e. gm_get (getLRUPositions lruKeys) (ep_name e) = None) es)"
      "gm_get (scoreColdRequestByLRU lruKeys es) e = Some (never_used_score (length es) i)"
    | (used) i where "gm_get (getLRUPositions lruKeys) (ep_name e) = Some i"
      "gm_get (scoreColdRequestByLRU lruKeys es) e = Some (used_score (getLRUPositions lruKeys)
         (length (filter (\<lambda>e. gm_get (getLRUPositions lruKeys) (ep_name e) = None) es)) (length es) e)"
proof (cases "gm_get (getLRUPositions lruKeys) (ep_name e)")
  case None
  then have "e \<in> set (filter (\<lambda>e. gm_get (getLRUPositions lruKeys) (ep_name e) = None) es)" using assms(3) by simp
  then obtain i where "i < length (filter (\<lambda>e. gm_get (getLRUPositions lruKeys) (ep_name e) = None) es)"
    "filter (\<lambda>e. gm_get (getLRUPositions lruKeys) (ep_name e) = None) es ! i = e" by (meson in_set_conv_nth)
  then show ?thesis using never None cold_score(1) [OF assms(1,2), of i lruKeys] by simp
next
  case (Some i)
  then show ?thesis using used cold_score(2) [OF assms(1,2), of e lruKeys] assms(3) by simp
qed

lemma nohit_in_range:
  assumes "distinct es" "e \<in> set es"
  shows "\<exists>r. gm_get (fst (NoHitLRU_Score lruKeys request es ps)) e = Some r \<and> 0 \<le> r \<and> r \<le> 1"
proof (cases "isColdRequest es \<and> length es \<noteq> 1")
  case False
  moreover have "es = [e]" if "length es = 1" using that assms(2) by (cases es) auto
  ultimately consider "\<not> isColdRequest es" | "isColdRequest es" "es = [e]" by blast
  then show ?thesis
  proof cases
    case 1
    then have "gm_get (fst (NoHitLRU_Score lruKeys request es ps)) e = Some 0.5"
      using assms(2) by (simp add: NoHitLRU_Score_def scoreNeutral_def score_each_mem)
    then show ?thesis by (intro exI [of _ "0.5"]) simp
  qed (simp add: NoHitLRU_Score_def scoreColdRequestByLRU_def)
next
  case True
  then have n: "1 < length es" using assms(2) by (cases es) auto
  have score: "fst (NoHitLRU_Score lruKeys request es ps) = scoreColdRequestByLRU lruKeys es" using True by (simp add: NoHitLRU_Score_def Let_def)
  show ?thesis
  proof (cases rule: cold_get [OF assms(1) n assms(2), of lruKeys])
    case (1 i)
    have "i < length es" using 1(2) length_filter_le less_le_trans by metis
    then show ?thesis using unit_rank [OF n] 1(3) score by auto
  qed (use used_score_unit score in auto)
qed



subsection \<open>The range of the latency scorer\<close>

lemma min_abs_le: "d \<in> set data \<Longrightarrow> min_abs f data \<le> \<bar>f d\<bar>"
proof -
  have mono: "fold (\<lambda>d m. if \<bar>f d\<bar> < m then \<bar>f d\<bar> else m) data m \<le> m" for m data
    by (induction data arbitrary: m) (auto intro: order.trans [OF _ less_imp_le])
  have "d \<in> set data \<Longrightarrow> fold (\<lambda>d m. if \<bar>f d\<bar> < m then \<bar>f d\<bar> else m) data m \<le> \<bar>f d\<bar>" for m
  proof (induction data arbitrary: m)
    case (Cons a data)
    then show ?case using mono [of data "if \<bar>f a\<bar> < m then \<bar>f a\<bar> else m"] by (auto split: if_splits)
  qed simp
  then show "d \<in> set data \<Longrightarrow> ?thesis" by (simp add: min_abs_def)
qed

lemma max_abs_ge: "d \<in> set data \<Longrightarrow> \<bar>f d\<bar> \<le> max_abs f data"
proof -
  have mono: "m \<le> fold (\<lambda>d m. if \<bar>f d\<bar> > m then \<bar>f d\<bar> else m) data m" for m data
    by (induction data arbitrary: m) (auto intro: order.trans [OF less_imp_le])
  have "d \<in> set data \<Longrightarrow> \<bar>f d\<bar> \<le> fold (\<lambda>d m. if \<bar>f d\<bar> > m then \<bar>f d\<bar> else m) data m" for m
  proof (induction data arbitrary: m)
    case (Cons a data)
    then show ?case using mono [of "if \<bar>f a\<bar> > m then \<bar>f a\<bar> else m" data] by (auto split: if_splits)
  qed simp
  then show "d \<in> set data \<Longrightarrow> ?thesis" by (simp add: max_abs_def)
qed

lemma weights_sum:
  "0 \<le> a \<Longrightarrow> 0 \<le> b \<Longrightarrow> normalizedWeights a b = (\<alpha>, \<beta>) \<Longrightarrow> 0 \<le> \<alpha> \<and> 0 \<le> \<beta> \<and> \<alpha> + \<beta> = (1 :: real)"
  by (auto simp: normalizedWeights_def Let_def add_divide_distrib [symmetric] split: if_splits)

lemma convex_unit:
  assumes "0 \<le> (\<alpha> :: real)" "0 \<le> \<beta>" "\<alpha> + \<beta> = 1" "0 \<le> x" "x \<le> 1" "0 \<le> y" "y \<le> 1"
  shows "0 \<le> \<alpha> * x + \<beta> * y \<and> \<alpha> * x + \<beta> * y \<le> 1"
proof -
  have "\<alpha> * x + \<beta> * y \<le> \<alpha> * 1 + \<beta> * 1" using assms by (intro add_mono mult_left_mono) auto
  then show ?thesis using assms by simp
qed

lemma combined_unit:
  assumes d: "d \<in> set data" and w: "0 \<le> lc_TTFTWeight config" "0 \<le> lc_TPOTWeight config"
  shows "0 \<le> combined_headroom config data d \<and> combined_headroom config data d \<le> 1"
proof -
  obtain a0 b0 where ab: "normalizedWeights (lc_TTFTWeight config) (lc_TPOTWeight config) = (a0, b0)" by fastforce
  note s = weights_sum [OF w ab]
  define n where "n f = (if max_abs f data - min_abs f data > eps then (\<bar>f d\<bar> - min_abs f data) / (max_abs f data - min_abs f data) else 0.5)"
    for f :: "epData \<Rightarrow> real"
  have n: "0 \<le> n f" "n f \<le> 1" for f
    using min_abs_le [OF d, of f] max_abs_ge [OF d, of f] by (auto simp: n_def eps_def divide_simps)
  define w where "w = (if max_abs ed_ttftHeadroom data - min_abs ed_ttftHeadroom data \<le> eps \<and> max_abs ed_tpotHeadroom data - min_abs ed_tpotHeadroom data > eps
      then (0, 1) else if max_abs ed_tpotHeadroom data - min_abs ed_tpotHeadroom data \<le> eps \<and> max_abs ed_ttftHeadroom data - min_abs ed_ttftHeadroom data > eps
      then (1, 0) else (a0, b0))"
  have "combined_headroom config data d = fst w * n ed_ttftHeadroom + snd w * n ed_tpotHeadroom"
    unfolding combined_headroom_def ab Let_def n_def w_def by (simp only: prod.case split_def fst_conv snd_conv)
  moreover have "0 \<le> fst w" "0 \<le> snd w" "fst w + snd w = 1" using s by (auto simp: w_def)
  ultimately show ?thesis using convex_unit n by metis
qed

lemma bucket_score_range:
  assumes "0 \<le> c" "c \<le> 1"
  shows "0.01 \<le> bucket_score config forceLeast c \<and> bucket_score config forceLeast c \<le> 1.01"
proof -
  have "0 \<le> go_int (x * 100) \<and> go_int (x * 100) \<le> 100" if "0 \<le> x" "x \<le> 1" for x :: real
    using that by (simp add: go_int_def le_floor_iff floor_le_iff)
  from this [of c] this [of "1 - c"] show ?thesis using assms
    by (auto simp: bucket_score_def Let_def wMax_def minWeight_def)
qed

lemma fold_key_get:
  assumes "inj_on key (set data)"
  shows "gm_get (fold (\<lambda>d s. gm_set (key d) (f d) s) data s) k =
     (if k \<in> key ` set data then Some (f (the_inv_into (set data) key k)) else gm_get s k)"
  using assms
proof (induction data arbitrary: s rule: rev_induct)
  case (snoc d data)
  have inj: "inj_on key (set data)" using snoc.prems by (simp add: inj_on_def)
  have inv: "the_inv_into (set (data @ [d])) key k = the_inv_into (set data) key k" if "k \<in> key ` set data"
    using that snoc.prems inj by (auto simp: the_inv_into_f_f inj_on_def)
  show ?case using snoc.IH [OF inj] inv the_inv_into_f_f [OF snoc.prems, of d] by (auto simp: update_conv')
qed simp

lemma gathered:
  assumes "those (map gather es) = Some data"
  shows "map ed_endpoint data = es"
  using assms
proof (induction es arbitrary: data)
  case (Cons e es)
  then obtain d ds where d: "gather e = Some d" "those (map gather es) = Some ds" "data = d # ds" by (auto split: option.splits)
  have "ed_endpoint d = e" using d(1) by (auto simp: gather_def split: option.splits Cloneable.splits)
  then show ?case using Cons.IH [OF d(2)] d(3) by simp
qed simp

lemma scoreBucket_get:
  assumes "inj_on ed_endpoint (set bucket)"
  shows "d \<in> set bucket \<Longrightarrow> gm_get (scoreBucket config bucket s fl) (ed_endpoint d) = Some (bucket_score config fl (combined_headroom config bucket d))"
    "e \<notin> ed_endpoint ` set bucket \<Longrightarrow> gm_get (scoreBucket config bucket s fl) e = gm_get s e"
  using fold_key_get [OF assms, of "\<lambda>d. bucket_score config fl (combined_headroom config bucket d)" s] the_inv_into_f_f [OF assms]
  by (simp_all add: scoreBucket_def)

text \<open>C37: Whenever predictions exist and some endpoint can meet both objectives (or has no prediction), the latency scorer gives
  every endpoint that violates an objective exactly zero and every other endpoint a score between 0.01 and 1.01. It
  always returns a score for every endpoint.\<close>

theorem latency_tiers:
  assumes es: "distinct es" "those (map gather es) = Some data" "list_ex ed_hasInfo data"
    and pos: "p \<in> set data" "\<not> negative_headroom p" and w: "0 \<le> lc_TTFTWeight config" "0 \<le> lc_TPOTWeight config"
  shows "\<exists>scores. LatencyScorer_Score config es = Some scores \<and>
     (\<forall>d \<in> set data. if negative_headroom d then gm_get scores (ed_endpoint d) = Some 0
        else \<exists>r. gm_get scores (ed_endpoint d) = Some r \<and> 0.01 \<le> r \<and> r \<le> 1.01)"
proof -
  let ?pos = "filter (\<lambda>d. \<not> negative_headroom d) data"
  let ?zero = "score_each (\<lambda>_. 0) es"
  have "map ed_endpoint data = es" by (rule gathered [OF es(2)])
  then have d: "distinct (map ed_endpoint data)" "set es = ed_endpoint ` set data" using es(1) by auto
  then have inj: "inj_on ed_endpoint (set data)" by (simp add: distinct_map)
  then have injp: "inj_on ed_endpoint (set ?pos)" by (rule inj_on_subset) auto
  have "?pos \<noteq> []" using pos by (auto simp: filter_empty_conv)
  then have score: "LatencyScorer_Score config es = Some (scoreBucket config ?pos ?zero False)"
    using es(2,3) by (simp add: LatencyScorer_Score_def Let_def)
  have "gm_get (scoreBucket config ?pos ?zero False) (ed_endpoint d) = Some 0" if "d \<in> set data" "negative_headroom d" for d
  proof -
    have "ed_endpoint d \<notin> ed_endpoint ` set ?pos" using that inj by (auto simp: inj_on_def)
    then show ?thesis using scoreBucket_get(2) [OF injp] that(1) d(2) by (simp add: score_each_mem)
  qed
  moreover have "\<exists>r. gm_get (scoreBucket config ?pos ?zero False) (ed_endpoint d) = Some r \<and> 0.01 \<le> r \<and> r \<le> 1.01"
    if "d \<in> set data" "\<not> negative_headroom d" for d
  proof -
    have "d \<in> set ?pos" using that by simp
    then show ?thesis using scoreBucket_get(1) [OF injp] bucket_score_range combined_unit [OF _ w] by blast
  qed
  ultimately show ?thesis using score by auto
qed

definition predicted :: "string \<Rightarrow> real \<Rightarrow> real \<Rightarrow> Endpoint" where
  "predicted name ttft tpot = NewEndpoint 1 (demo_pod name) NewMetrics
     (Some [(LatencyPredictionInfoKey, LatencyPredictionInfo True True ttft tpot 0 0 1)])"

theorem latency_tiers_witness:
  "\<exists>scores. LatencyScorer_Score latency_DefaultConfig [predicted ''a'' 5 5, predicted ''b'' (- 1) 5] = Some scores \<and>
     gm_get scores (predicted ''b'' (- 1) 5) = Some 0"
proof -
  let ?es = "[predicted ''a'' 5 5, predicted ''b'' (- 1) 5]"
  let ?d = "\<lambda>name x. \<lparr>ed_endpoint = predicted name x 5, ed_hasInfo = True, ed_dispatched = 1, ed_ttftHeadroom = x, ed_tpotHeadroom = 5\<rparr>"
  have g: "gather (predicted name x y) = Some \<lparr>ed_endpoint = predicted name x y, ed_hasInfo = True, ed_dispatched = 1, ed_ttftHeadroom = x, ed_tpotHeadroom = y\<rparr>" for name x y
    by (simp add: gather_def predicted_def NewEndpoint_def attr_Clone_def attr_Put_def attr_Get_def)
  have "ep_name (predicted ''a'' 5 5) \<noteq> ep_name (predicted ''b'' (- 1) 5)" by (simp add: predicted_def NewEndpoint_def demo_pod_def)
  then have "distinct ?es" by auto
  from latency_tiers [OF this, of "[?d ''a'' 5, ?d ''b'' (- 1)]" "?d ''a'' 5" latency_DefaultConfig] show ?thesis
    by (auto simp: g negative_headroom_def latency_DefaultConfig_def)
qed

text \<open>The comment on \<open>Score\<close> promises a score of at most one, but the best endpoint of a bucket gets 1.01. The profile
  then cuts it down to one, so it ties with the endpoints whose score is exactly one.\<close>

theorem latency_score_exceeds_one:
  "bucket_score latency_DefaultConfig False 0 = 1.01 \<and> bucket_score latency_DefaultConfig False 0.005 = 1"
  by (simp add: bucket_score_def latency_DefaultConfig_def StrategyLeast_def StrategyMost_def wMax_def minWeight_def go_int_def)

end
