(* ===== verification/Filters.thy ===== *)
theory Filters
  imports RankScorers "HOL-Library.Multiset" "HOL-Library.Monad_Syntax"
begin

text \<open>
  The filters of a scheduler profile (\<open>framework/plugins/scheduling/filter\<close>): by label value, by the role of a worker,
  by a Kubernetes label selector, by prefix cache affinity and by predicted headroom. \<^const>\<open>None\<close> is a panic: a type
  assertion on an attribute of another type. The number that \<open>rand.Float64\<close> draws is an argument.
\<close>

subsection \<open>Labels and roles\<close>

record ByLabel =
  bl_labelName :: string
  bl_validValues :: "string set"
  bl_allowsNoLabel :: bool

definition NewByLabel :: "string \<Rightarrow> bool \<Rightarrow> string list \<Rightarrow> ByLabel" where
  "NewByLabel labelName allowsNoLabel validValues =
     \<lparr>bl_labelName = labelName, bl_validValues = set validValues, bl_allowsNoLabel = allowsNoLabel\<rparr>"

text \<open>What the factory accepts: a name, a label and some way for an endpoint to pass.\<close>

definition ByLabel_Factory :: "string \<Rightarrow> string \<Rightarrow> string list \<Rightarrow> bool \<Rightarrow> ByLabel option" where
  "ByLabel_Factory name label validValues allowsNoLabel =
     (if name = [] then None
      else if label = [] then None
      else if length validValues = 0 \<and> \<not> allowsNoLabel then None
      else Some (NewByLabel label allowsNoLabel validValues))"

text \<open>The value of a missing label reads as the empty string.\<close>

definition ByLabel_Filter :: "ByLabel \<Rightarrow> Endpoint list \<Rightarrow> Endpoint list" where
  "ByLabel_Filter f endpoints =
     filter (\<lambda>e. let (val, labelDefined) = (case ep_label e (bl_labelName f) of None \<Rightarrow> ([], False) | Some v \<Rightarrow> (v, True))
                 in (\<not> labelDefined \<and> bl_allowsNoLabel f) \<or> val \<in> bl_validValues f) endpoints"

definition RoleLabel :: string where "RoleLabel = ''llm-d.ai/role''"
definition RoleDecode :: string where "RoleDecode = ''decode''"
definition RolePrefill :: string where "RolePrefill = ''prefill''"
definition RoleEncode :: string where "RoleEncode = ''encode''"
definition RolePrefillDecode :: string where "RolePrefillDecode = ''prefill-decode''"
definition RoleEncodePrefill :: string where "RoleEncodePrefill = ''encode-prefill''"
definition RoleEncodePrefillDecode :: string where "RoleEncodePrefillDecode = ''encode-prefill-decode''"
definition RoleBoth :: string where "RoleBoth = ''both''"

lemmas role_defs = RoleLabel_def RoleDecode_def RolePrefill_def RoleEncode_def RolePrefillDecode_def RoleEncodePrefill_def
  RoleEncodePrefillDecode_def RoleBoth_def

definition NewDecodeRole :: ByLabel where
  "NewDecodeRole = NewByLabel RoleLabel True [RoleDecode, RolePrefillDecode, RoleBoth, RoleEncodePrefillDecode]"

definition NewPrefillRole :: ByLabel where
  "NewPrefillRole = NewByLabel RoleLabel False
     [RolePrefill, RoleEncodePrefill, RolePrefillDecode, RoleBoth, RoleEncodePrefillDecode]"

definition NewEncodeRole :: ByLabel where
  "NewEncodeRole = NewByLabel RoleLabel False [RoleEncode, RoleEncodePrefill, RoleEncodePrefillDecode]"

text \<open>The selector comes from the Kubernetes label library; its match function is an argument.\<close>

definition Selector_Filter :: "((string, string) gomap \<Rightarrow> bool) \<Rightarrow> Endpoint list \<Rightarrow> Endpoint list" where
  "Selector_Filter Matches endpoints = filter (\<lambda>e. Matches (md_Labels (ep_Metadata e))) endpoints"

subsection \<open>Prefix cache affinity\<close>

record AffinityConfig =
  ac_AffinityThreshold :: real
  ac_ExplorationProbability :: real
  ac_MaxTTFTPenaltyMs :: real

definition affinity_DefaultConfig :: AffinityConfig where
  "affinity_DefaultConfig =
     \<lparr>ac_AffinityThreshold = 0.8, ac_ExplorationProbability = 0.01, ac_MaxTTFTPenaltyMs = 5000\<rparr>"

definition affinity_validate :: "AffinityConfig \<Rightarrow> bool" where
  "affinity_validate c =
     (if ac_AffinityThreshold c > 1 then False
      else if ac_ExplorationProbability c < 0 \<or> ac_ExplorationProbability c > 1 then False
      else if ac_MaxTTFTPenaltyMs c < 0 then False
      else True)"

text \<open>The quotient is never NaN, since the number of blocks is positive.\<close>

definition affinity_prefixCacheScore :: "Endpoint \<Rightarrow> real option" where
  "affinity_prefixCacheScore ep =
     (case ep_Get PrefixCacheMatchInfoKey ep of
        Some (PrefixCacheMatchInfo m t b) \<Rightarrow> Some (if t > 0 then real_of_int m / real_of_int t else 0)
      | Some _ \<Rightarrow> None
      | None \<Rightarrow> Some 0)"

fun bestTTFT_loop :: "real \<Rightarrow> Endpoint list \<Rightarrow> real option" where
  "bestTTFT_loop best [] = Some best"
| "bestTTFT_loop best (ep # rest) =
     (case ep_Get LatencyPredictionInfoKey ep of
        Some (LatencyPredictionInfo v1 v2 h1 h2 ttft tpot n) \<Rightarrow> bestTTFT_loop (if ttft < best then ttft else best) rest
      | Some _ \<Rightarrow> None
      | None \<Rightarrow> bestTTFT_loop best rest)"

definition bestTTFT :: "Endpoint list \<Rightarrow> real option" where
  "bestTTFT endpoints = bestTTFT_loop MaxFloat64 endpoints"

fun split_sticky :: "real \<Rightarrow> Endpoint list \<Rightarrow> (Endpoint list \<times> Endpoint list) option" where
  "split_sticky threshold [] = Some ([], [])"
| "split_sticky threshold (ep # rest) =
     do { score \<leftarrow> affinity_prefixCacheScore ep;
          (sticky, nonSticky) \<leftarrow> split_sticky threshold rest;
          Some (if score \<ge> threshold then (ep # sticky, nonSticky) else (sticky, ep # nonSticky)) }"

definition Affinity_Filter :: "AffinityConfig \<Rightarrow> real \<Rightarrow> Endpoint list \<Rightarrow> Endpoint list option" where
  "Affinity_Filter c draw endpoints =
     (if length endpoints \<le> 1 \<or> ac_AffinityThreshold c \<le> 0 then Some endpoints
      else if draw < ac_ExplorationProbability c then Some endpoints
      else do { (sticky, nonSticky) \<leftarrow> split_sticky (ac_AffinityThreshold c) endpoints;
                (if length sticky = 0 then Some endpoints
                 else if ac_MaxTTFTPenaltyMs c > 0 \<and> length nonSticky > 0 then
                   do { bestStickyTTFT \<leftarrow> bestTTFT sticky;
                        bestNonStickyTTFT \<leftarrow> bestTTFT nonSticky;
                        Some (if bestStickyTTFT - bestNonStickyTTFT > ac_MaxTTFTPenaltyMs c then endpoints else sticky) }
                 else Some sticky) })"

subsection \<open>Predicted headroom\<close>

fun split_tiers :: "Endpoint list \<Rightarrow> (Endpoint list \<times> Endpoint list \<times> Endpoint list) option" where
  "split_tiers [] = Some ([], [], [])"
| "split_tiers (ep # rest) =
     (case ep_Get LatencyPredictionInfoKey ep of
        None \<Rightarrow> do { (positive, negative, noPrediction) \<leftarrow> split_tiers rest; Some (positive, negative, ep # noPrediction) }
      | Some (LatencyPredictionInfo v1 v2 ttftHeadroom tpotHeadroom ttft tpot n) \<Rightarrow>
          do { (positive, negative, noPrediction) \<leftarrow> split_tiers rest;
               Some (if ttftHeadroom \<ge> 0 \<and> tpotHeadroom \<ge> 0 then (ep # positive, negative, noPrediction)
                     else (positive, ep # negative, noPrediction)) }
      | Some _ \<Rightarrow> None)"

definition HeadroomTier_Filter :: "real \<Rightarrow> real \<Rightarrow> Endpoint list \<Rightarrow> Endpoint list option" where
  "HeadroomTier_Filter epsilonExploreNeg draw endpoints =
     (if length endpoints \<le> 1 then Some endpoints
      else do { (positive, negative, noPrediction) \<leftarrow> split_tiers endpoints;
                (if length positive = 0 \<and> length negative = 0 then Some endpoints
                 else (let negative = negative @ noPrediction in
                       if length positive > 0 \<and> length negative > 0
                       then Some (if draw < epsilonExploreNeg then negative else positive)
                       else if length positive > 0 then Some positive
                       else Some negative)) })"


subsection \<open>What the loops compute\<close>

text \<open>The attributes of an endpoint have the type that the filters assert.\<close>

definition attr_typed :: "Endpoint \<Rightarrow> bool" where
  "attr_typed e \<longleftrightarrow>
     (case ep_Get PrefixCacheMatchInfoKey e of None \<Rightarrow> True | Some a \<Rightarrow> is_PrefixCacheMatchInfo a) \<and>
     (case ep_Get LatencyPredictionInfoKey e of None \<Rightarrow> True | Some a \<Rightarrow> is_LatencyPredictionInfo a)"

definition sticky_for :: "real \<Rightarrow> Endpoint \<Rightarrow> bool" where
  "sticky_for threshold e \<longleftrightarrow> (case affinity_prefixCacheScore e of None \<Rightarrow> False | Some r \<Rightarrow> threshold \<le> r)"

definition has_prediction :: "Endpoint \<Rightarrow> bool" where
  "has_prediction e \<longleftrightarrow> ep_Get LatencyPredictionInfoKey e \<noteq> None"

definition has_headroom :: "Endpoint \<Rightarrow> bool" where
  "has_headroom e \<longleftrightarrow> (\<exists>a. ep_Get LatencyPredictionInfoKey e = Some a \<and> is_LatencyPredictionInfo a \<and>
     0 \<le> TTFTHeadroom a \<and> 0 \<le> TPOTHeadroom a)"

lemma split_sticky_eq:
  assumes "split_sticky threshold es = Some (sticky, nonSticky)"
  shows "sticky = filter (sticky_for threshold) es \<and> nonSticky = filter (\<lambda>e. \<not> sticky_for threshold e) es"
  using assms
  by (induction es arbitrary: sticky nonSticky)
    (auto simp: sticky_for_def split: option.splits if_splits Option.bind_splits)

lemma split_tiers_eq:
  assumes "split_tiers es = Some (positive, negative, noPrediction)"
  shows "positive = filter has_headroom es \<and> negative = filter (\<lambda>e. has_prediction e \<and> \<not> has_headroom e) es \<and>
         noPrediction = filter (\<lambda>e. \<not> has_prediction e) es"
  using assms
  by (induction es arbitrary: positive negative noPrediction)
    (auto simp: has_headroom_def has_prediction_def split: option.splits if_splits Option.bind_splits Cloneable.splits)

lemma split_sticky_ok: "list_all attr_typed es \<Longrightarrow> split_sticky threshold es \<noteq> None"
  by (induction es) (auto simp: attr_typed_def affinity_prefixCacheScore_def split: option.splits Cloneable.splits)

lemma bestTTFT_ok: "list_all attr_typed es \<Longrightarrow> bestTTFT es \<noteq> None"
proof -
  have "list_all attr_typed es \<Longrightarrow> bestTTFT_loop b es \<noteq> None" for b
    by (induction es arbitrary: b) (auto simp: attr_typed_def split: option.splits Cloneable.splits)
  then show "list_all attr_typed es \<Longrightarrow> bestTTFT es \<noteq> None" by (simp add: bestTTFT_def)
qed

lemma split_tiers_ok: "list_all attr_typed es \<Longrightarrow> split_tiers es \<noteq> None"
  by (induction es) (auto simp: attr_typed_def split: option.splits Cloneable.splits)

lemma list_all_filter: "list_all P xs \<Longrightarrow> list_all P (filter Q xs)"
  by (induction xs) auto


subsection \<open>The contract of a filter\<close>

text \<open>A filter only removes endpoints, and does not panic on endpoints that are \<open>ok\<close>. A tier filter never removes all.\<close>

locale filter_contract =
  fixes Filter :: "Endpoint list \<Rightarrow> Endpoint list option" and ok :: "Endpoint \<Rightarrow> bool"
  assumes filter_subset: "Filter es = Some fs \<Longrightarrow> mset fs \<subseteq># mset es"
    and filter_total: "list_all ok es \<Longrightarrow> Filter es \<noteq> None"
begin

lemma filter_in: "Filter es = Some fs \<Longrightarrow> set fs \<subseteq> set es"
  using filter_subset set_mset_mono by fastforce

lemma filter_keeps_ok: "Filter es = Some fs \<Longrightarrow> list_all ok es \<Longrightarrow> list_all ok fs"
  using filter_in by (auto simp: list_all_iff)

lemma filter_some: "list_all ok es \<Longrightarrow> \<exists>fs. Filter es = Some fs \<and> list_all ok fs \<and> set fs \<subseteq> set es"
  using filter_total filter_keeps_ok filter_in by blast

end

locale tier_filter = filter_contract +
  assumes filter_nonempty: "Filter es = Some fs \<Longrightarrow> es \<noteq> [] \<Longrightarrow> fs \<noteq> []"
begin

lemma tier_some: "list_all ok es \<Longrightarrow> es \<noteq> [] \<Longrightarrow> \<exists>f fs. Filter es = Some (f # fs) \<and> f \<in> set es"
proof -
  assume a: "list_all ok es" "es \<noteq> []"
  then obtain fs where fs: "Filter es = Some fs" "set fs \<subseteq> set es" using filter_some by blast
  then show ?thesis using filter_nonempty [OF fs(1) a(2)] by (cases fs) auto
qed

end

lemma filter_submset: "mset (filter P es) \<subseteq># mset es"
  by (simp add: mset_filter)

interpretation by_label: filter_contract "\<lambda>es. Some (ByLabel_Filter f es)" "\<lambda>_. True" for f
  by unfold_locales (auto simp: ByLabel_Filter_def filter_submset simp del: mset_filter)

interpretation selector: filter_contract "\<lambda>es. Some (Selector_Filter Matches es)" "\<lambda>_. True" for Matches
  by unfold_locales (auto simp: Selector_Filter_def filter_submset simp del: mset_filter)

interpretation context_filter: filter_contract "\<lambda>es. Some (ContextLengthAware_Filter label enabled tokenIDs request es)"
    "\<lambda>_. True" for label enabled tokenIDs request
  by unfold_locales (auto simp: ContextLengthAware_Filter_def Let_def filter_submset simp del: mset_filter)

lemma affinity_cases:
  assumes "Affinity_Filter c draw es = Some fs"
  shows "fs = es \<or> (fs = filter (sticky_for (ac_AffinityThreshold c)) es \<and> fs \<noteq> [])"
  using assms unfolding Affinity_Filter_def
  by (auto simp: Let_def dest: split_sticky_eq split: if_splits Option.bind_splits)

interpretation affinity: tier_filter "Affinity_Filter c draw" attr_typed for c draw
proof
  fix es fs :: "Endpoint list"
  show "mset fs \<subseteq># mset es" if "Affinity_Filter c draw es = Some fs"
    using affinity_cases [OF that] filter_submset by auto
  show "fs \<noteq> []" if "Affinity_Filter c draw es = Some fs" "es \<noteq> []"
    using affinity_cases [OF that(1)] that(2) by auto
  show "Affinity_Filter c draw es \<noteq> None" if ok: "list_all attr_typed es"
  proof -
    obtain sticky nonSticky where s: "split_sticky (ac_AffinityThreshold c) es = Some (sticky, nonSticky)"
      using split_sticky_ok [OF ok] by force
    then have "list_all attr_typed sticky" "list_all attr_typed nonSticky"
      using split_sticky_eq [OF s] ok list_all_filter by auto
    then show ?thesis using s bestTTFT_ok [of sticky] bestTTFT_ok [of nonSticky] by (auto simp: Affinity_Filter_def)
  qed
qed

lemma headroom_predicted: "has_headroom e \<Longrightarrow> has_prediction e"
  by (auto simp: has_headroom_def has_prediction_def)

lemma headroom_cases:
  assumes "HeadroomTier_Filter \<epsilon> draw es = Some fs" and "1 < length es"
  shows "fs = (if \<not> list_ex has_prediction es then es
               else if list_ex has_headroom es \<and> (\<epsilon> \<le> draw \<or> list_all has_headroom es) then filter has_headroom es
               else filter (\<lambda>e. has_prediction e \<and> \<not> has_headroom e) es @ filter (\<lambda>e. \<not> has_prediction e) es)"
proof -
  obtain p n u where s: "split_tiers es = Some (p, n, u)"
    using assms by (auto simp: HeadroomTier_Filter_def split: Option.bind_splits)
  note e = split_tiers_eq [OF s]
  have ex: "list_ex has_headroom es \<longleftrightarrow> p \<noteq> []" "list_ex has_prediction es \<longleftrightarrow> p \<noteq> [] \<or> n \<noteq> []"
    "list_all has_headroom es \<longleftrightarrow> n = [] \<and> u = []"
    using e headroom_predicted by (auto simp: list_ex_iff list_all_iff filter_empty_conv)
  show ?thesis using assms s unfolding ex by (auto simp: HeadroomTier_Filter_def Let_def e split: if_splits)
qed


interpretation headroom: tier_filter "HeadroomTier_Filter \<epsilon> draw" attr_typed for \<epsilon> draw
proof
  fix es fs :: "Endpoint list"
  show "HeadroomTier_Filter \<epsilon> draw es \<noteq> None" if ok: "list_all attr_typed es"
    using split_tiers_ok [OF ok] by (auto simp: HeadroomTier_Filter_def Let_def)
  have split: "mset es = mset (filter has_headroom es) + mset (filter (\<lambda>e. has_prediction e \<and> \<not> has_headroom e) es)
      + mset (filter (\<lambda>e. \<not> has_prediction e) es)"
    using headroom_predicted by (induction es) auto
  show "mset fs \<subseteq># mset es" if f: "HeadroomTier_Filter \<epsilon> draw es = Some fs"
  proof (cases "1 < length es")
    case True
    have "fs = es \<or> fs = filter has_headroom es \<or>
        fs = filter (\<lambda>e. has_prediction e \<and> \<not> has_headroom e) es @ filter (\<lambda>e. \<not> has_prediction e) es"
      using headroom_cases [OF f True] by (simp split: if_splits)
    then show ?thesis by (elim disjE) (simp_all only: split mset_append subset_mset.order_refl add.assoc mset_subset_eq_add_left mset_subset_eq_add_right)
  next
    case False
    then show ?thesis using f by (simp add: HeadroomTier_Filter_def)
  qed
  show "fs \<noteq> []" if f: "HeadroomTier_Filter \<epsilon> draw es = Some fs" and ne: "es \<noteq> []"
  proof (cases "1 < length es")
    case True
    show ?thesis using headroom_cases [OF f True] ne headroom_predicted
      by (auto simp: list_ex_iff list_all_iff filter_empty_conv split: if_splits)
  next
    case False
    then show ?thesis using f ne by (simp add: HeadroomTier_Filter_def)
  qed
qed


subsection \<open>What the filters decide\<close>

definition min_ttft :: "Endpoint list \<Rightarrow> real" where
  "min_ttft es = Min (insert MaxFloat64 (set (map TTFT (List.map_filter (ep_Get LatencyPredictionInfoKey) es))))"

lemma bestTTFT_min:
  assumes "bestTTFT es = Some r"
  shows "r = min_ttft es"
proof -
  have "bestTTFT_loop b es = Some r \<Longrightarrow>
      r = Min (insert b (set (map TTFT (List.map_filter (ep_Get LatencyPredictionInfoKey) es))))" for b
  proof (induction es arbitrary: b)
    case (Cons e es)
    show ?case
    proof (cases "ep_Get LatencyPredictionInfoKey e")
      case None
      then show ?thesis using Cons by (simp add: List.map_filter_simps)
    next
      case (Some a)
      let ?S = "set (map TTFT (List.map_filter (ep_Get LatencyPredictionInfoKey) es))"
      have a: "is_LatencyPredictionInfo a" using Cons.prems Some by (cases a) auto
      have "bestTTFT_loop (min b (TTFT a)) es = Some r"
        using Cons.prems Some a by (cases a) (auto simp: min_def split: if_splits)
      then have "r = Min (insert (min b (TTFT a)) ?S)" by (rule Cons.IH)
      also have "\<dots> = Min (insert b (insert (TTFT a) ?S))" by (cases "?S = {}") (simp_all add: min.assoc)
      finally show ?thesis using Some by (simp only: List.map_filter_simps option.case list.map list.set)
    qed
  qed (simp add: List.map_filter_simps)
  then show ?thesis using assms by (simp add: bestTTFT_def min_ttft_def)
qed

text \<open>C39: The prefix cache affinity filter never panics on well-typed attributes and keeps exactly the endpoints that have
  the prompt cached, unless the draw says to explore, no endpoint has it cached, or the fastest of them is predicted to be
  slower than the fastest of the others by more than the allowed penalty; then it keeps all.\<close>

theorem affinity_filter_decision:
  assumes "list_all attr_typed es" and "1 < length es" and "0 < ac_AffinityThreshold c"
  shows "Affinity_Filter c draw es =
     (let sticky = filter (sticky_for (ac_AffinityThreshold c)) es;
          others = filter (\<lambda>e. \<not> sticky_for (ac_AffinityThreshold c) e) es
      in Some (if draw < ac_ExplorationProbability c \<or> sticky = [] \<or>
                  (0 < ac_MaxTTFTPenaltyMs c \<and> others \<noteq> [] \<and>
                   ac_MaxTTFTPenaltyMs c < min_ttft sticky - min_ttft others)
               then es else sticky))"
proof -
  obtain sticky nonSticky where s: "split_sticky (ac_AffinityThreshold c) es = Some (sticky, nonSticky)"
    using split_sticky_ok [OF assms(1)] by force
  note e = split_sticky_eq [OF s]
  then have "list_all attr_typed sticky" "list_all attr_typed nonSticky" using assms(1) list_all_filter by auto
  then obtain a b where ab: "bestTTFT sticky = Some a" "bestTTFT nonSticky = Some b" using bestTTFT_ok by blast
  then have "a = min_ttft sticky" "b = min_ttft nonSticky" using bestTTFT_min by blast+
  then show ?thesis using assms(2,3) s ab unfolding e [THEN conjunct1, symmetric] e [THEN conjunct2, symmetric] Let_def
    by (auto simp: Affinity_Filter_def)
qed

definition demo_cached :: "string \<Rightarrow> int \<Rightarrow> real \<Rightarrow> Endpoint" where
  "demo_cached name matched ttft = (demo_endpoint name)
     \<lparr>ep_Attributes := [(PrefixCacheMatchInfoKey, PrefixCacheMatchInfo matched 10 16),
                        (LatencyPredictionInfoKey, LatencyPredictionInfo True True (100 - ttft) 0 ttft 1 0)]\<rparr>"

lemmas demo_simps = demo_cached_def demo_endpoint_def demo_pod_def attr_Get_def PrefixCacheMatchInfoKey_def
  InFlightLoadKey_def LatencyPredictionInfoKey_def

theorem affinity_filter_decision_witness:
  "Affinity_Filter affinity_DefaultConfig (1 / 2) [demo_cached ''a'' 9 200, demo_cached ''b'' 1 50] =
     Some [demo_cached ''a'' 9 200]"
proof -
  let ?es = "[demo_cached ''a'' 9 200, demo_cached ''b'' 1 50]"
  have "list_all attr_typed ?es" by (simp add: attr_typed_def demo_simps)
  moreover have "affinity_prefixCacheScore (demo_cached ''a'' 9 200) = Some (9 / 10)"
      "affinity_prefixCacheScore (demo_cached ''b'' 1 50) = Some (1 / 10)"
    by (simp_all add: affinity_prefixCacheScore_def demo_simps)
  then have "sticky_for (4 / 5) (demo_cached ''a'' 9 200)" "\<not> sticky_for (4 / 5) (demo_cached ''b'' 1 50)"
    by (simp_all add: sticky_for_def)
  moreover have "(200 :: real) < MaxFloat64" by (simp add: MaxFloat64_def)
  then have "min_ttft [demo_cached ''a'' 9 200] = 200" "min_ttft [demo_cached ''b'' 1 50] = 50"
    by (simp_all add: min_ttft_def List.map_filter_simps demo_simps)
  ultimately show ?thesis
    using affinity_filter_decision [of ?es affinity_DefaultConfig "1 / 2"] by (simp add: affinity_DefaultConfig_def)
qed


text \<open>C40: The headroom filter never panics on well-typed attributes and never empties a list. Without exploration it keeps
  exactly the endpoints predicted to meet both objectives when there are any; with exploration it keeps the others when
  there are any; when no endpoint is predicted to meet both, all are kept.\<close>

theorem headroom_filter_decision:
  assumes "list_all attr_typed es" and "1 < length es"
  shows "\<exists>fs. HeadroomTier_Filter \<epsilon> draw es = Some fs \<and> fs \<noteq> [] \<and> mset fs \<subseteq># mset es \<and>
     (list_ex has_headroom es \<and> \<epsilon> \<le> draw \<longrightarrow> fs = filter has_headroom es) \<and>
     (list_ex has_headroom es \<and> draw < \<epsilon> \<and> \<not> list_all has_headroom es \<longrightarrow> set fs = {e \<in> set es. \<not> has_headroom e}) \<and>
     (\<not> list_ex has_headroom es \<longrightarrow> mset fs = mset es)"
proof -
  obtain fs where fs: "HeadroomTier_Filter \<epsilon> draw es = Some fs" using headroom.filter_total [OF assms(1)] by blast
  note c = headroom_cases [OF fs assms(2)]
  have p: "list_ex has_headroom es \<Longrightarrow> list_ex has_prediction es" using headroom_predicted by (auto simp: list_ex_iff)
  have "mset fs = mset es" if n: "\<not> list_ex has_headroom es"
  proof (cases "list_ex has_prediction es")
    case True
    have "filter (\<lambda>e. has_prediction e \<and> \<not> has_headroom e) es = filter has_prediction es"
      using n by (intro filter_cong) (auto simp: list_ex_iff)
    then show ?thesis using c True n by (simp add: multiset_partition [symmetric])
  next
    case False
    then show ?thesis using c by simp
  qed
  moreover have "fs \<noteq> []" using headroom.filter_nonempty [OF fs] assms(2) by force
  moreover have "set fs = {e \<in> set es. \<not> has_headroom e}"
    if "list_ex has_headroom es" "draw < \<epsilon>" "\<not> list_all has_headroom es"
    using c p that headroom_predicted by auto
  ultimately show ?thesis using fs headroom.filter_subset [OF fs] c p by (intro exI [of _ fs]) auto
qed

theorem headroom_filter_decision_witness:
  "HeadroomTier_Filter (1 / 100) (1 / 2) [demo_cached ''a'' 9 200, demo_cached ''b'' 1 50] = Some [demo_cached ''b'' 1 50]"
proof -
  let ?es = "[demo_cached ''a'' 9 200, demo_cached ''b'' 1 50]"
  have "list_all attr_typed ?es" by (simp add: attr_typed_def demo_simps)
  moreover have "\<not> has_headroom (demo_cached ''a'' 9 200)" "has_headroom (demo_cached ''b'' 1 50)"
    by (simp_all add: has_headroom_def demo_simps)
  ultimately show ?thesis using headroom_filter_decision [of ?es "1 / 100" "1 / 2"] by auto
qed

definition passes :: "ByLabel \<Rightarrow> Endpoint \<Rightarrow> bool" where
  "passes f e \<longleftrightarrow> ByLabel_Filter f [e] = [e]"

text \<open>The role filters agree with the names of the roles: a worker labelled with one of the six stage roles passes the
  filter of a stage exactly when its role names that stage; \<open>both\<close> stands for prefill and decode; a worker without the
  label passes only the decode filter, and one with any other value passes none.\<close>

theorem role_filters_by_stage:
  "(ep_label e RoleLabel = None \<longrightarrow> passes NewDecodeRole e \<and> \<not> passes NewPrefillRole e \<and> \<not> passes NewEncodeRole e) \<and>
   (\<forall>role. ep_label e RoleLabel = Some role \<longrightarrow>
      (if role \<in> {RoleDecode, RolePrefill, RoleEncode, RolePrefillDecode, RoleEncodePrefill, RoleEncodePrefillDecode}
       then (passes NewDecodeRole e \<longleftrightarrow> ''decode'' \<in> set (Split role (CHR ''-''))) \<and>
            (passes NewPrefillRole e \<longleftrightarrow> ''prefill'' \<in> set (Split role (CHR ''-''))) \<and>
            (passes NewEncodeRole e \<longleftrightarrow> ''encode'' \<in> set (Split role (CHR ''-'')))
       else (passes NewDecodeRole e \<longleftrightarrow> role = RoleBoth) \<and> (passes NewPrefillRole e \<longleftrightarrow> role = RoleBoth) \<and>
            \<not> passes NewEncodeRole e))"
  unfolding passes_def
  by (auto simp: ByLabel_Filter_def NewDecodeRole_def NewPrefillRole_def NewEncodeRole_def NewByLabel_def role_defs Split_def)

theorem role_filters_by_stage_witness:
  "\<not> passes NewPrefillRole (demo_endpoint ''a'')"
  using role_filters_by_stage [of "demo_endpoint ''a''"] by (simp add: demo_endpoint_def demo_pod_def NewEndpoint_def)

end
