(* ===== verification/Profile.thy ===== *)
theory Profile
  imports Pickers Filters
begin

text \<open>
  A scheduler profile (\<open>scheduling/scheduler_profile.go\<close>, \<open>scheduling/weighted_scorer.go\<close>): filters, weighted scorers
  and one picker. A plugin is the function that its interface method computes. It may read and change a state \<open>'s\<close>, which
  holds the cycle state, the plugins' own data and the random numbers still to be drawn; \<^const>\<open>None\<close> is a panic.
\<close>

type_synonym 's FilterPlugin = "InferenceRequest \<Rightarrow> Endpoint list \<Rightarrow> 's \<Rightarrow> (Endpoint list \<times> 's) option"
type_synonym 's ScorerPlugin = "InferenceRequest \<Rightarrow> Endpoint list \<Rightarrow> 's \<Rightarrow> ((Endpoint, real) gomap \<times> 's) option"
type_synonym 's PickerPlugin = "ScoredEndpoint list \<Rightarrow> 's \<Rightarrow> (ProfileRunResult \<times> 's) option"

record 's WeightedScorer =
  ws_Scorer :: "'s ScorerPlugin"
  ws_weight :: real

definition NewWeightedScorer :: "'s ScorerPlugin \<Rightarrow> real \<Rightarrow> 's WeightedScorer" where
  "NewWeightedScorer scorer weight = \<lparr>ws_Scorer = scorer, ws_weight = weight\<rparr>"

record 's SchedulerProfile =
  pf_filters :: "'s FilterPlugin list"
  pf_scorers :: "'s WeightedScorer list"
  pf_picker :: "'s PickerPlugin option"

definition NewSchedulerProfile :: "'s SchedulerProfile" where
  "NewSchedulerProfile = \<lparr>pf_filters = [], pf_scorers = [], pf_picker = None\<rparr>"

definition WithFilters :: "'s FilterPlugin list \<Rightarrow> 's SchedulerProfile \<Rightarrow> 's SchedulerProfile" where
  "WithFilters filters p = p\<lparr>pf_filters := filters\<rparr>"

definition WithScorers :: "'s WeightedScorer list \<Rightarrow> 's SchedulerProfile \<Rightarrow> 's SchedulerProfile" where
  "WithScorers scorers p = p\<lparr>pf_scorers := scorers\<rparr>"

definition WithPicker :: "'s PickerPlugin \<Rightarrow> 's SchedulerProfile \<Rightarrow> 's SchedulerProfile" where
  "WithPicker picker p = p\<lparr>pf_picker := Some picker\<rparr>"

subsection \<open>Registering plugins\<close>

text \<open>A plugin object by the interfaces it implements: a weighted scorer, whose scorer may be a filter and a picker too,
  or another plugin. An error leaves what was registered before it.\<close>

datatype 's PluginObject =
    WeightedObject "'s WeightedScorer" "'s FilterPlugin option" "'s PickerPlugin option"
  | PlainObject "'s ScorerPlugin option" "'s FilterPlugin option" "'s PickerPlugin option"

definition add_filter :: "'s FilterPlugin option \<Rightarrow> 's SchedulerProfile \<Rightarrow> 's SchedulerProfile" where
  "add_filter f p = (case f of None \<Rightarrow> p | Some g \<Rightarrow> p\<lparr>pf_filters := pf_filters p @ [g]\<rparr>)"

definition set_picker :: "'s PickerPlugin option \<Rightarrow> 's SchedulerProfile \<Rightarrow> string option \<times> 's SchedulerProfile" where
  "set_picker k p =
     (case k of
        None \<Rightarrow> (None, p)
      | Some picker \<Rightarrow>
          if pf_picker p \<noteq> None then (Some ''already have a registered picker plugin'', p)
          else (None, p\<lparr>pf_picker := Some picker\<rparr>))"

fun add_plugin :: "'s PluginObject \<Rightarrow> 's SchedulerProfile \<Rightarrow> string option \<times> 's SchedulerProfile" where
  "add_plugin (WeightedObject ws f k) p = set_picker k (add_filter f (p\<lparr>pf_scorers := pf_scorers p @ [ws]\<rparr>))"
| "add_plugin (PlainObject sc f k) p =
     (if sc \<noteq> None then (Some ''failed to register scorer without a weight'', p) else set_picker k (add_filter f p))"

fun AddPlugins :: "'s PluginObject list \<Rightarrow> 's SchedulerProfile \<Rightarrow> string option \<times> 's SchedulerProfile" where
  "AddPlugins [] p = (None, p)"
| "AddPlugins (obj # objs) p =
     (let (err, p') = add_plugin obj p in if err \<noteq> None then (err, p') else AddPlugins objs p')"

subsection \<open>Running a profile\<close>

fun runFilterPlugins :: "'s FilterPlugin list \<Rightarrow> InferenceRequest \<Rightarrow> Endpoint list \<Rightarrow> 's \<Rightarrow> (Endpoint list \<times> 's) option" where
  "runFilterPlugins [] request filteredEndpoints s = Some (filteredEndpoints, s)"
| "runFilterPlugins (f # fs) request filteredEndpoints s =
     do { (filteredEndpoints', s') \<leftarrow> f request filteredEndpoints s;
          (if length filteredEndpoints' = 0 then Some (filteredEndpoints', s')
           else runFilterPlugins fs request filteredEndpoints' s') }"

definition enforceScoreRange :: "real \<Rightarrow> real" where
  "enforceScoreRange score = (if score < 0 then 0 else if score > 1 then 1 else score)"

text \<open>The loop over the scores of one scorer. A missing entry reads as zero.\<close>

definition add_scores :: "real \<Rightarrow> (Endpoint, real) gomap \<Rightarrow> (Endpoint, real) gomap \<Rightarrow> (Endpoint, real) gomap" where
  "add_scores weight scores m =
     fold (\<lambda>(endpoint, score) m.
             gm_set endpoint ((case gm_get m endpoint of None \<Rightarrow> 0 | Some r \<Rightarrow> r) + enforceScoreRange score * weight) m)
       scores m"

fun scorer_loop :: "'s WeightedScorer list \<Rightarrow> InferenceRequest \<Rightarrow> Endpoint list \<Rightarrow> (Endpoint, real) gomap \<Rightarrow> 's
    \<Rightarrow> ((Endpoint, real) gomap \<times> 's) option" where
  "scorer_loop [] request endpoints m s = Some (m, s)"
| "scorer_loop (scorer # scorers) request endpoints m s =
     do { (scores, s') \<leftarrow> ws_Scorer scorer request endpoints s;
          scorer_loop scorers request endpoints (add_scores (ws_weight scorer) scores m) s' }"

definition runScorerPlugins :: "'s WeightedScorer list \<Rightarrow> InferenceRequest \<Rightarrow> Endpoint list \<Rightarrow> 's
    \<Rightarrow> ((Endpoint, real) gomap \<times> 's) option" where
  "runScorerPlugins scorers request endpoints s = scorer_loop scorers request endpoints (score_each (\<lambda>_. 0) endpoints) s"

text \<open>A nil picker panics. The order in which the scores are listed is that of the map; every picker shuffles them.\<close>

definition scored_endpoints :: "(Endpoint, real) gomap \<Rightarrow> ScoredEndpoint list" where
  "scored_endpoints m = map (\<lambda>(endpoint, score). \<lparr>se_Endpoint = endpoint, se_Score = score\<rparr>) m"

definition runPickerPlugin :: "'s PickerPlugin option \<Rightarrow> (Endpoint, real) gomap \<Rightarrow> 's \<Rightarrow> (ProfileRunResult \<times> 's) option" where
  "runPickerPlugin picker weightedScorePerEndpoint s =
     do { pick \<leftarrow> picker; pick (scored_endpoints weightedScorePerEndpoint) s }"

definition errNoEndpoints :: string where "errNoEndpoints = ''no endpoints available for the given request''"

definition profile_Run :: "'s SchedulerProfile \<Rightarrow> InferenceRequest \<Rightarrow> Endpoint list \<Rightarrow> 's
    \<Rightarrow> ((string + ProfileRunResult) \<times> 's) option" where
  "profile_Run p request candidateEndpoints s =
     do { (endpoints, s1) \<leftarrow> runFilterPlugins (pf_filters p) request candidateEndpoints s;
          (if length endpoints = 0 then Some (Inl errNoEndpoints, s1)
           else do { (weightedScorePerEndpoint, s2) \<leftarrow> runScorerPlugins (pf_scorers p) request endpoints s1;
                     (result, s3) \<leftarrow> runPickerPlugin (pf_picker p) weightedScorePerEndpoint s2;
                     Some (Inr result, s3) }) }"


subsection \<open>What the profile relies on\<close>

text \<open>Contracts of stateful plugins: in every state a filter only removes endpoints, and a scorer scores exactly the
  endpoints it is given, each once.\<close>

definition filter_plugin :: "(Endpoint \<Rightarrow> bool) \<Rightarrow> 's FilterPlugin \<Rightarrow> bool" where
  "filter_plugin ok f \<longleftrightarrow>
     (\<forall>request es s. list_all ok es \<longrightarrow> (\<exists>fs s'. f request es s = Some (fs, s') \<and> mset fs \<subseteq># mset es))"

definition scorer_plugin :: "(Endpoint \<Rightarrow> bool) \<Rightarrow> 's ScorerPlugin \<Rightarrow> bool" where
  "scorer_plugin ok sc \<longleftrightarrow>
     (\<forall>request es s. list_all ok es \<longrightarrow> (\<exists>m s'. sc request es s = Some (m, s') \<and> gm_ok m \<and> fst ` set m = set es))"

definition profile_ok :: "(Endpoint \<Rightarrow> bool) \<Rightarrow> 's SchedulerProfile \<Rightarrow> bool" where
  "profile_ok ok p \<longleftrightarrow> list_all (filter_plugin ok) (pf_filters p) \<and> list_all (\<lambda>ws. scorer_plugin ok (ws_Scorer ws)) (pf_scorers p)"

text \<open>The specification of the weighted score of an endpoint: the sum over the scorers, in order.\<close>

fun total_score :: "'s WeightedScorer list \<Rightarrow> InferenceRequest \<Rightarrow> Endpoint list \<Rightarrow> 's \<Rightarrow> Endpoint \<Rightarrow> real" where
  "total_score [] request es s e = 0"
| "total_score (scorer # scorers) request es s e =
     (case ws_Scorer scorer request es s of
        None \<Rightarrow> 0
      | Some (scores, s') \<Rightarrow>
          (case gm_get scores e of None \<Rightarrow> 0 | Some r \<Rightarrow> min 1 (max 0 r)) * ws_weight scorer + total_score scorers request es s' e)"

lemma enforce_clamp: "enforceScoreRange r = min 1 (max 0 r)"
  by (simp add: enforceScoreRange_def)

subsection \<open>Filtering\<close>

lemma runFilterPlugins_ok:
  assumes "list_all (filter_plugin ok) fs" and "list_all ok es"
  shows "\<exists>survivors s'. runFilterPlugins fs request es s = Some (survivors, s') \<and> mset survivors \<subseteq># mset es \<and> list_all ok survivors"
  using assms
proof (induction fs arbitrary: es s)
  case (Cons f fs)
  obtain es' s' where f: "f request es s = Some (es', s')" "mset es' \<subseteq># mset es"
    using Cons.prems unfolding list.pred_inject filter_plugin_def by blast
  then have "set es' \<subseteq> set es" using set_mset_mono by fastforce
  then have ok: "list_all ok es'" using Cons.prems(2) by (auto simp: list_all_iff)
  show ?case
  proof (cases "es' = []")
    case True
    then show ?thesis using f by simp
  next
    case False
    obtain survivors s'' where "runFilterPlugins fs request es' s' = Some (survivors, s'')" "mset survivors \<subseteq># mset es'" "list_all ok survivors"
      using Cons.IH [OF _ ok, of s'] Cons.prems(1) by auto
    then show ?thesis using f False subset_mset.order_trans by auto
  qed
qed simp

subsection \<open>Scoring\<close>

lemma add_scores_simps:
  "add_scores w [] m = m"
  "add_scores w ((e, r) # scores) m =
     add_scores w scores (gm_set e ((case gm_get m e of None \<Rightarrow> 0 | Some q \<Rightarrow> q) + enforceScoreRange r * w) m)"
  by (simp_all add: add_scores_def)

lemma add_scores_ok: "gm_ok m \<Longrightarrow> gm_ok (add_scores w scores m)"
  by (induction scores arbitrary: m) (auto simp: add_scores_simps distinct_update)

lemma gm_set_keyset: "fst ` set (gm_set k v m) = insert k (fst ` set m)"
  by (induction m) auto

lemma add_scores_keys: "fst ` set (add_scores w scores m) = fst ` set scores \<union> fst ` set m"
proof (induction scores arbitrary: m)
  case (Cons a scores)
  then show ?case by (cases a) (simp add: add_scores_simps gm_set_keyset)
qed (simp add: add_scores_simps)

lemma add_scores_get:
  assumes "gm_ok scores"
  shows "gm_get (add_scores w scores m) e =
     (case gm_get scores e of
        None \<Rightarrow> gm_get m e
      | Some r \<Rightarrow> Some ((case gm_get m e of None \<Rightarrow> 0 | Some q \<Rightarrow> q) + enforceScoreRange r * w))"
  using assms
proof (induction scores arbitrary: m)
  case (Cons a scores)
  obtain k r where a: "a = (k, r)" by (cases a)
  have "gm_get scores k = None" using Cons.prems a by (simp add: map_of_eq_None_iff)
  then show ?case using Cons a by (auto simp: add_scores_simps update_conv' split: option.splits)
qed (simp add: add_scores_simps)

lemma scorer_loop_ok:
  assumes "list_all (\<lambda>ws. scorer_plugin ok (ws_Scorer ws)) scorers" and "list_all ok es"
    and "gm_ok m" and "fst ` set m = set es"
  shows "\<exists>m' s'. scorer_loop scorers request es m s = Some (m', s') \<and> gm_ok m' \<and> fst ` set m' = set es \<and>
     (\<forall>e r. gm_get m e = Some r \<longrightarrow> gm_get m' e = Some (r + total_score scorers request es s e))"
  using assms
proof (induction scorers arbitrary: m s)
  case (Cons ws scorers)
  obtain scores s1 where s1: "ws_Scorer ws request es s = Some (scores, s1)" "gm_ok scores" "fst ` set scores = set es"
    using Cons.prems unfolding list.pred_inject scorer_plugin_def by blast
  let ?m = "add_scores (ws_weight ws) scores m"
  have ok: "gm_ok ?m" "fst ` set ?m = set es" using Cons.prems s1(3) by (auto simp: add_scores_ok add_scores_keys)
  obtain m' s' where m': "scorer_loop scorers request es ?m s1 = Some (m', s')" "gm_ok m'" "fst ` set m' = set es"
      "\<forall>e r. gm_get ?m e = Some r \<longrightarrow> gm_get m' e = Some (r + total_score scorers request es s1 e)"
    using Cons.IH [OF _ Cons.prems(2) ok, of s1] Cons.prems(1) by auto
  have "gm_get m' e = Some (r + total_score (ws # scorers) request es s e)" if r: "gm_get m e = Some r" for e r
  proof -
    have "e \<in> fst ` set m" using r by (metis map_of_eq_None_iff option.distinct(1))
    then obtain q where "gm_get scores e = Some q" using s1(3) Cons.prems(4) by (metis map_of_eq_None_iff option.exhaust)
    then show ?thesis using m'(4) r s1(1) by (simp add: add_scores_get [OF s1(2)] enforce_clamp)
  qed
  then show ?case using m' s1 by auto
qed simp

lemma runScorerPlugins_ok:
  assumes "list_all (\<lambda>ws. scorer_plugin ok (ws_Scorer ws)) scorers" and "list_all ok es"
  shows "\<exists>m s'. runScorerPlugins scorers request es s = Some (m, s') \<and> gm_ok m \<and> fst ` set m = set es \<and>
     (\<forall>e \<in> set es. gm_get m e = Some (total_score scorers request es s e))"
proof -
  obtain m s' where m: "scorer_loop scorers request es (score_each (\<lambda>_. 0) es) s = Some (m, s')" "gm_ok m" "fst ` set m = set es"
    and g: "\<forall>e r. gm_get (score_each (\<lambda>_. 0) es) e = Some r \<longrightarrow> gm_get m e = Some (r + total_score scorers request es s e)"
    using scorer_loop_ok [OF assms score_each_ok [of "\<lambda>_. 0" es] score_each_keys [of "\<lambda>_. 0" es], of request s] by blast
  have "gm_get m e = Some (total_score scorers request es s e)" if "e \<in> set es" for e
    using g [rule_format, of e 0] that by (simp only: score_each_get if_True add_0 simp_thms)
  then show ?thesis using m by (intro exI [of _ m] exI [of _ s']) (simp only: runScorerPlugins_def simp_thms, blast)
qed


subsection \<open>Picking\<close>

lemma scored_simps [simp]:
  "map se_Endpoint (scored_endpoints m) = map fst m" "se_Endpoint ` set (scored_endpoints m) = fst ` set m"
  "length (scored_endpoints m) = length m"
  by (auto simp: scored_endpoints_def image_image split_def)

lemma scored_mem:
  assumes "gm_ok m"
  shows "a \<in> set (scored_endpoints m) \<longleftrightarrow> gm_get m (se_Endpoint a) = Some (se_Score a)"
  using assms by (cases a) (force simp: scored_endpoints_def)

lemma length_keys: "gm_ok m \<Longrightarrow> fst ` set m = set es \<Longrightarrow> length m = card (set es)"
  by (metis distinct_card length_map list.set_map)

text \<open>The specification of a run with the max-score picker.\<close>

definition best_targets :: "nat \<Rightarrow> (Endpoint \<Rightarrow> real) \<Rightarrow> Endpoint list \<Rightarrow> Endpoint list \<Rightarrow> bool" where
  "best_targets k score survivors targets \<longleftrightarrow>
     distinct targets \<and> set targets \<subseteq> set survivors \<and> length targets = min k (card (set survivors)) \<and>
     sorted (map (\<lambda>e. - score e) targets) \<and>
     (\<forall>e \<in> set targets. \<forall>e' \<in> set survivors - set targets. score e' \<le> score e)"

lemma max_score_targets:
  assumes "gm_ok m" and "fst ` set m = set es" and "\<forall>e \<in> set es. gm_get m e = Some (score e)"
  shows "best_targets k score es (TargetEndpoints (MaxScorePicker_Pick k rnd (scored_endpoints m)))"
proof -
  let ?ses = "scored_endpoints m" and ?T = "TargetEndpoints (MaxScorePicker_Pick k rnd (scored_endpoints m))"
  have sc: "se_Endpoint a \<in> set es \<and> se_Score a = score (se_Endpoint a)" if "a \<in> set ?ses" for a
    using that scored_mem [OF assms(1)] assms(2,3) by (metis image_eqI option.inject scored_simps(2))
  obtain ts where ts: "?T = map se_Endpoint ts" "set ts \<subseteq> set ?ses" "sorted (map (\<lambda>s. - se_Score s) ts)"
    using max_score_descending by blast
  have "map (\<lambda>e. - score e) ?T = map (\<lambda>s. - se_Score s) ts" unfolding ts(1) map_map using ts(2) sc by auto
  then have sorted: "sorted (map (\<lambda>e. - score e) ?T)" using ts(3) by argo
  have best: "score e' \<le> score e" if e: "e \<in> set ?T" and e': "e' \<in> set es - set ?T" for e e'
  proof -
    obtain a where a: "a \<in> set ?ses" "se_Endpoint a = e" using max_score.pick_in [OF e] by blast
    obtain b where b: "b \<in> set ?ses" "se_Endpoint b = e'" using e' assms(2) by (metis DiffD1 imageE scored_simps(2))
    have "se_Score b \<le> se_Score a"
      by (rule max_score_best [of ?ses a b k rnd]) (use assms(1) a b e e' in auto)
    then show ?thesis using sc a b by auto
  qed
  have "set ?T \<subseteq> set es" using max_score.pick_in [of _ k rnd ?ses] unfolding scored_simps(2) assms(2) by blast
  moreover have "distinct ?T" by (rule max_score.pick_distinct) (simp add: assms(1))
  moreover have "length ?T = min k (card (set es))"
    using max_score.pick_number [of k rnd ?ses] length_keys [OF assms(1,2)] by simp
  ultimately show ?thesis unfolding best_targets_def using sorted best by blast
qed

lemma profile_run_best:
  assumes "profile_ok ok p" and "pf_picker p = Some (\<lambda>ses s. Some (MaxScorePicker_Pick k (rnd s) ses, next s))"
    and "list_all ok candidates"
  shows "\<exists>survivors s1. runFilterPlugins (pf_filters p) request candidates s = Some (survivors, s1) \<and>
     mset survivors \<subseteq># mset candidates \<and>
     (if survivors = [] then profile_Run p request candidates s = Some (Inl errNoEndpoints, s1)
      else \<exists>result s'. profile_Run p request candidates s = Some (Inr result, s') \<and>
             best_targets k (total_score (pf_scorers p) request survivors s1) survivors (TargetEndpoints result))"
proof -
  note parts = assms(1) [unfolded profile_ok_def, THEN conjunct1] assms(1) [unfolded profile_ok_def, THEN conjunct2]
  obtain survivors s1 where f: "runFilterPlugins (pf_filters p) request candidates s = Some (survivors, s1)"
      "mset survivors \<subseteq># mset candidates" "list_all ok survivors"
    using runFilterPlugins_ok [OF parts(1) assms(3), of request s] by blast
  obtain m s2 where m: "runScorerPlugins (pf_scorers p) request survivors s1 = Some (m, s2)" "gm_ok m"
      "fst ` set m = set survivors" "\<forall>e \<in> set survivors. gm_get m e = Some (total_score (pf_scorers p) request survivors s1 e)"
    using runScorerPlugins_ok [OF parts(2) f(3), of request s1] by blast
  have "profile_Run p request candidates s = Some (Inl errNoEndpoints, s1)" if "survivors = []"
    using f that by (simp add: profile_Run_def)
  moreover have "profile_Run p request candidates s =
      Some (Inr (MaxScorePicker_Pick k (rnd s2) (scored_endpoints m)), next s2)" if "survivors \<noteq> []"
    using f m that assms(2) by (simp add: profile_Run_def runPickerPlugin_def)
  ultimately show ?thesis using f max_score_targets [OF m(2-4)] by (intro exI [of _ survivors] exI [of _ s1]) auto
qed


text \<open>C30: A profile with the max-score picker never panics when its filters and scorers keep their contracts. With no
  survivor of the filters it returns the no-endpoints error; otherwise it returns the \<open>k\<close> survivors (or all, if fewer) whose
  sums of clamped, weighted scores are greatest, in descending order and each once, whatever the shuffle draws.\<close>

theorem profile_picks_best:
  assumes "profile_ok ok p" and "pf_picker p = Some (\<lambda>ses s. Some (MaxScorePicker_Pick k (rnd s) ses, next s))"
    and "list_all ok candidates"
  shows "\<exists>survivors s1. runFilterPlugins (pf_filters p) request candidates s = Some (survivors, s1) \<and>
     mset survivors \<subseteq># mset candidates \<and>
     (if survivors = [] then profile_Run p request candidates s = Some (Inl errNoEndpoints, s1)
      else \<exists>result s'. profile_Run p request candidates s = Some (Inr result, s') \<and>
             best_targets k (total_score (pf_scorers p) request survivors s1) survivors (TargetEndpoints result))"
  by (rule profile_run_best [OF assms])

subsection \<open>The modelled plugins in a profile\<close>

definition pure_filter :: "(InferenceRequest \<Rightarrow> Endpoint list \<Rightarrow> Endpoint list option) \<Rightarrow> 's FilterPlugin" where
  "pure_filter f request es s = do { fs \<leftarrow> f request es; Some (fs, s) }"

definition pure_scorer :: "(InferenceRequest \<Rightarrow> Endpoint list \<Rightarrow> (Endpoint, real) gomap) \<Rightarrow> 's ScorerPlugin" where
  "pure_scorer sc request es s = Some (sc request es, s)"

lemma filter_contract_plugin:
  assumes "\<And>request. filter_contract (f request) ok"
  shows "filter_plugin ok (pure_filter f)"
  unfolding filter_plugin_def
proof (intro allI impI)
  fix request es and s :: 'a
  assume "list_all ok es"
  then obtain fs where "f request es = Some fs" using filter_contract.filter_total [OF assms] by blast
  then show "\<exists>fs s'. pure_filter f request es s = Some (fs, s') \<and> mset fs \<subseteq># mset es"
    using filter_contract.filter_subset [OF assms] by (auto simp: pure_filter_def)
qed

lemma scorer_contract_plugin:
  assumes "\<And>request. scorer_contract (sc request) ok"
  shows "scorer_plugin ok' (pure_scorer sc)"
  unfolding scorer_plugin_def pure_scorer_def using scorer_contract.score_keys [OF assms] by blast

definition demo_request :: InferenceRequest where
  "demo_request = \<lparr>ir_RequestId = ''r1'', ir_TargetModel = ''m'', ir_Body = None, ir_Headers = [], ir_Priority = 0,
     ir_RequestSizeBytes = 0\<rparr>"

definition demo_busy :: "string \<Rightarrow> int \<Rightarrow> Endpoint" where
  "demo_busy name n = (demo_endpoint name)\<lparr>ep_Metrics := NewMetrics\<lparr>mt_WaitingQueueSize := n\<rparr>\<rparr>"

definition demo_profile :: "unit SchedulerProfile" where
  "demo_profile =
     WithPicker (\<lambda>ses s. Some (MaxScorePicker_Pick 1 (\<lambda>_. 0) ses, s))
       (WithScorers [NewWeightedScorer (pure_scorer (\<lambda>_. QueueScorer_Score)) 2]
         (WithFilters [pure_filter (\<lambda>_ es. Some (ByLabel_Filter NewDecodeRole es))] NewSchedulerProfile))"

lemma demo_profile_simps:
  "pf_filters demo_profile = [pure_filter (\<lambda>_ es. Some (ByLabel_Filter NewDecodeRole es))]"
  "pf_scorers demo_profile = [NewWeightedScorer (pure_scorer (\<lambda>_. QueueScorer_Score)) 2]"
  "pf_picker demo_profile = Some (\<lambda>ses s. Some (MaxScorePicker_Pick 1 (\<lambda>_. 0) ses, s))"
  by (simp_all add: demo_profile_def WithPicker_def WithScorers_def WithFilters_def)

lemma demo_profile_ok: "profile_ok (\<lambda>_. True) demo_profile"
proof -
  have "filter_plugin (\<lambda>_. True) (pure_filter (\<lambda>_ es. Some (ByLabel_Filter NewDecodeRole es)) :: unit FilterPlugin)"
    by (rule filter_contract_plugin) (rule by_label.filter_contract_axioms)
  moreover have "scorer_plugin (\<lambda>_. True) (pure_scorer (\<lambda>_. QueueScorer_Score) :: unit ScorerPlugin)"
    by (rule scorer_contract_plugin) (rule queue.scorer_contract_axioms)
  ultimately show ?thesis by (simp add: profile_ok_def demo_profile_simps NewWeightedScorer_def)
qed

lemma demo_survivors:
  "runFilterPlugins (pf_filters demo_profile) demo_request [demo_busy ''a'' 5, demo_busy ''b'' 0] () =
     Some ([demo_busy ''a'' 5, demo_busy ''b'' 0], ())"
  by (simp add: demo_profile_simps pure_filter_def ByLabel_Filter_def NewDecodeRole_def NewByLabel_def demo_busy_def
      demo_endpoint_def demo_pod_def NewEndpoint_def)

theorem profile_picks_best_witness:
  "\<exists>result. profile_Run demo_profile demo_request [demo_busy ''a'' 5, demo_busy ''b'' 0] () = Some (Inr result, ()) \<and>
     TargetEndpoints result = [demo_busy ''b'' 0]"
proof -
  let ?es = "[demo_busy ''a'' 5, demo_busy ''b'' 0]"
  let ?score = "total_score (pf_scorers demo_profile) demo_request ?es ()"
  obtain result where r: "profile_Run demo_profile demo_request ?es () = Some (Inr result, ())"
      and best: "best_targets 1 ?score ?es (TargetEndpoints result)"
    using profile_picks_best [OF demo_profile_ok, of 1 "\<lambda>_ _. 0" "\<lambda>s. s" ?es demo_request "()"]
    by (auto simp: demo_survivors demo_profile_simps(3))
  have ne: "demo_busy ''a'' 5 \<noteq> demo_busy ''b'' 0" by (simp add: demo_busy_def demo_endpoint_def NewEndpoint_def demo_pod_def)
  have "gm_get (QueueScorer_Score ?es) (demo_busy ''a'' 5) = Some 0" "gm_get (QueueScorer_Score ?es) (demo_busy ''b'' 0) = Some 1"
    by (simp_all add: QueueScorer_Score_def size_score_def min_size_def max_size_def demo_busy_def MaxInt_def MinInt_def)
  then have "?score (demo_busy ''a'' 5) = 0" "?score (demo_busy ''b'' 0) = 2"
    by (simp_all add: demo_profile_simps NewWeightedScorer_def pure_scorer_def)
  moreover obtain t where t: "TargetEndpoints result = [t]"
    using best ne by (auto simp: best_targets_def length_Suc_conv)
  ultimately have "t = demo_busy ''b'' 0" using best ne unfolding best_targets_def by fastforce
  then show ?thesis using r t by blast
qed

end
