(* ===== verification/Scheduler.thy ===== *)
theory Scheduler
  imports Profile
begin

text \<open>
  The scheduling cycle (\<open>scheduling/scheduler.go\<close>): a profile handler picks profiles to run, given the results so far,
  until it picks none, and then turns the results into a scheduling result. A profile is the function its \<open>Run\<close> method
  computes; a picked name that is not configured has the nil profile. The loop may not end, so it is a partial function:
  the outer \<^const>\<open>None\<close> is a loop that never returns, the inner one a panic.
\<close>

type_synonym 's ProfileRun = "InferenceRequest \<Rightarrow> Endpoint list \<Rightarrow> 's \<Rightarrow> ((string + ProfileRunResult) \<times> 's) option"
type_synonym 's Profiles = "(string, 's ProfileRun) gomap"
type_synonym Results = "(string, ProfileRunResult option) gomap"
type_synonym 's Picked = "(string, 's ProfileRun option) gomap"
type_synonym 's HandlerPick = "InferenceRequest option \<Rightarrow> 's Profiles \<Rightarrow> Results \<Rightarrow> 's \<Rightarrow> ('s Picked \<times> Results \<times> 's) option"

record SchedulingResult =
  sr_ProfileResults :: Results
  sr_PrimaryProfileName :: string

type_synonym HandlerProcess = "InferenceRequest \<Rightarrow> Results \<Rightarrow> ((string + SchedulingResult) \<times> InferenceRequest) option"

subsection \<open>The loop\<close>

fun run_profiles :: "InferenceRequest \<Rightarrow> Endpoint list \<Rightarrow> 's Picked \<Rightarrow> Results \<Rightarrow> 's \<Rightarrow> (Results \<times> 's) option" where
  "run_profiles request candidates [] results s = Some (results, s)"
| "run_profiles request candidates ((name, None) # ps) results s = None"
| "run_profiles request candidates ((name, Some run) # ps) results s =
     do { (r, s') \<leftarrow> run request candidates s;
          run_profiles request candidates ps (gm_set name (case r of Inl err \<Rightarrow> None | Inr result \<Rightarrow> Some result) results) s' }"

partial_function (option) schedule_loop :: "'s HandlerPick \<Rightarrow> 's Profiles \<Rightarrow> InferenceRequest \<Rightarrow> Endpoint list \<Rightarrow> Results \<Rightarrow> 's
    \<Rightarrow> (Results \<times> 's) option option" where
  "schedule_loop Pick profiles request candidates results s =
     (case Pick (Some request) profiles results s of
        None \<Rightarrow> Some None
      | Some (picked, results1, s1) \<Rightarrow>
          if length picked = 0 then Some (Some (results1, s1))
          else (case run_profiles request candidates picked results1 s1 of
                  None \<Rightarrow> Some None
                | Some (results2, s2) \<Rightarrow> schedule_loop Pick profiles request candidates results2 s2))"

definition errNoProfileRun :: string where "errNoProfileRun = ''failed to run any scheduler profile for request''"

definition Schedule :: "'s HandlerPick \<Rightarrow> HandlerProcess \<Rightarrow> 's Profiles \<Rightarrow> InferenceRequest \<Rightarrow> Endpoint list \<Rightarrow> 's
    \<Rightarrow> ((string + SchedulingResult) \<times> InferenceRequest \<times> 's) option option" where
  "Schedule Pick ProcessResults profiles request candidates s =
     (case schedule_loop Pick profiles request candidates [] s of
        None \<Rightarrow> None
      | Some None \<Rightarrow> Some None
      | Some (Some (results, s1)) \<Rightarrow>
          if length results = 0 then Some (Some (Inl errNoProfileRun, request, s1))
          else (case ProcessResults request results of
                  None \<Rightarrow> Some None
                | Some (r, request') \<Rightarrow> Some (Some (r, request', s1))))"

subsection \<open>The contract of a profile handler\<close>

text \<open>A profile runs without a panic and never succeeds with an empty result. Between two picks the results belong to
  configured profiles. A handler keeps that, never panics, picks only configured profiles, and whenever it picks some, one
  of them has no result yet. \<open>supported\<close> is what the handler needs of the configuration.\<close>

definition run_ok :: "InferenceRequest \<Rightarrow> Endpoint list \<Rightarrow> 's ProfileRun \<Rightarrow> bool" where
  "run_ok request candidates run \<longleftrightarrow>
     (\<forall>s. \<exists>r s'. run request candidates s = Some (r, s') \<and> (\<forall>result. r = Inr result \<longrightarrow> TargetEndpoints result \<noteq> []))"

definition results_ok :: "'s Profiles \<Rightarrow> Results \<Rightarrow> bool" where
  "results_ok profiles results \<longleftrightarrow> gm_ok profiles \<and> gm_ok results \<and> fst ` set results \<subseteq> fst ` set profiles \<and>
     (\<forall>name result. (name, Some result) \<in> set results \<longrightarrow> TargetEndpoints result \<noteq> [])"

definition picks_fresh :: "'s Profiles \<Rightarrow> Results \<Rightarrow> 's Picked \<Rightarrow> bool" where
  "picks_fresh profiles results picked \<longleftrightarrow>
     (\<forall>(name, run) \<in> set picked. run \<noteq> None \<and> gm_get profiles name = run) \<and>
     (picked \<noteq> [] \<longrightarrow> \<not> fst ` set picked \<subseteq> fst ` set results)"

lemma results_ok_set:
  assumes "results_ok profiles results" and "name \<in> fst ` set profiles" and "\<forall>result. r = Some result \<longrightarrow> TargetEndpoints result \<noteq> []"
  shows "results_ok profiles (gm_set name r results)"
  using assms unfolding results_ok_def by (auto simp: distinct_update gm_set_keyset gm_set_in split: if_splits)

lemma remaining_shrinks:
  assumes "finite A" "B \<subseteq> B'" "C \<subseteq> A" "\<not> C \<subseteq> B'"
  shows "card (A - (B' \<union> C)) < card (A - B)"
  by (rule psubset_card_mono) (use assms in auto)

lemma picks_configured: "picks_fresh profiles results picked \<Longrightarrow> fst ` set picked \<subseteq> fst ` set profiles"
proof
  fix n
  assume "picks_fresh profiles results picked" "n \<in> fst ` set picked"
  then obtain run where "gm_get profiles n = Some run" unfolding picks_fresh_def by auto
  then show "n \<in> fst ` set profiles" by (rule gm_get_in [THEN imageI, of _ _ _ fst, simplified])
qed

lemma run_profiles_ok:
  assumes "results_ok profiles results" and "\<forall>(name, run) \<in> set profiles. run_ok request candidates run"
    and "\<forall>(name, run) \<in> set picked. run \<noteq> None \<and> gm_get profiles name = run"
  shows "\<exists>results' s'. run_profiles request candidates picked results s = Some (results', s') \<and> results_ok profiles results' \<and>
     fst ` set results' = fst ` set results \<union> fst ` set picked"
  using assms(1,3)
proof (induction picked arbitrary: results s)
  case (Cons a picked)
  obtain name run where a: "a = (name, Some run)" "gm_get profiles name = Some run" using Cons.prems(2) by (cases a) auto
  then have mem: "(name, run) \<in> set profiles" by (simp add: gm_get_in)
  then obtain r s' where r: "run request candidates s = Some (r, s')" "\<forall>result. r = Inr result \<longrightarrow> TargetEndpoints result \<noteq> []"
    using assms(2) unfolding run_ok_def by blast
  let ?results = "gm_set name (case r of Inl err \<Rightarrow> None | Inr result \<Rightarrow> Some result) results"
  have "results_ok profiles ?results"
    using mem r(2) by (intro results_ok_set [OF Cons.prems(1)]) (force split: sum.splits)+
  then obtain results' s'' where "run_profiles request candidates picked ?results s' = Some (results', s'')"
      "results_ok profiles results'" "fst ` set results' = fst ` set ?results \<union> fst ` set picked"
    using Cons.IH [of ?results s'] Cons.prems(2) by auto
  then show ?case using a r by (auto simp: gm_set_keyset)
qed simp

locale profile_handler =
  fixes Pick :: "'s HandlerPick" and supported :: "'s Profiles \<Rightarrow> bool"
  assumes pick_progress: "supported profiles \<Longrightarrow> results_ok profiles results \<Longrightarrow>
    \<exists>picked results' s'. Pick (Some request) profiles results s = Some (picked, results', s') \<and>
      results_ok profiles results' \<and> fst ` set results \<subseteq> fst ` set results' \<and> picks_fresh profiles results' picked"
begin

lemma loop_returns:
  assumes "supported profiles" and "\<forall>(name, run) \<in> set profiles. run_ok request candidates run" and "results_ok profiles results"
  shows "\<exists>results' s'. schedule_loop Pick profiles request candidates results s = Some (Some (results', s')) \<and>
     results_ok profiles results'"
  using assms(3)
proof (induction "card (fst ` set profiles - fst ` set results)" arbitrary: results s rule: less_induct)
  case less
  obtain picked results1 s1 where p: "Pick (Some request) profiles results s = Some (picked, results1, s1)"
      "results_ok profiles results1" "fst ` set results \<subseteq> fst ` set results1" "picks_fresh profiles results1 picked"
    using pick_progress [OF assms(1) less.prems] by blast
  show ?case
  proof (cases "picked = []")
    case True
    then show ?thesis using p by (subst schedule_loop.simps) auto
  next
    case False
    obtain results2 s2 where r: "run_profiles request candidates picked results1 s1 = Some (results2, s2)"
        "results_ok profiles results2" "fst ` set results2 = fst ` set results1 \<union> fst ` set picked"
      using run_profiles_ok [OF p(2) assms(2) p(4) [unfolded picks_fresh_def, THEN conjunct1], of s1] by blast
    have "card (fst ` set profiles - fst ` set results2) < card (fst ` set profiles - fst ` set results)"
      unfolding r(3)
      by (rule remaining_shrinks [OF _ p(3) picks_configured [OF p(4)]
            p(4) [unfolded picks_fresh_def, THEN conjunct2, rule_format, OF False]]) simp
    from less.hyps [OF this r(2)] show ?thesis using p(1) False r(1) by (subst schedule_loop.simps) simp
  qed
qed

lemma schedule_returns:
  assumes "supported profiles" and "gm_ok profiles" and "\<forall>(name, run) \<in> set profiles. run_ok request candidates run"
  shows "\<exists>results s'. schedule_loop Pick profiles request candidates [] s = Some (Some (results, s')) \<and> results_ok profiles results"
  by (rule loop_returns [OF assms(1,3)]) (simp add: results_ok_def assms(2))

end

end
