(* ===== verification/ProfileHandlers.thy ===== *)
theory ProfileHandlers
  imports Scheduler
begin

text \<open>
  The profile handlers (\<open>framework/plugins/scheduling/profile\<close> and \<open>profilehandler\<close>): a single profile, data parallelism
  behind one port, and disaggregated serving, where a request is decoded on one worker and may be encoded and prefilled on
  others; and the plugin that writes the chosen workers into the headers of the request. Spans, metrics and logging are left
  out. \<^const>\<open>None\<close> is a panic.
\<close>

subsection \<open>Host and port\<close>

definition JoinHostPort :: "string \<Rightarrow> string \<Rightarrow> string" where
  "JoinHostPort host port = (if CHR '':'' \<in> set host then ''['' @ host @ '']:'' @ port else host @ '':'' @ port)"

abbreviation host_port :: "Endpoint \<Rightarrow> string" where
  "host_port e \<equiv> JoinHostPort (md_Address (ep_Metadata e)) (md_Port (ep_Metadata e))"

fun itoa_nat :: "nat \<Rightarrow> string" where
  "itoa_nat n = (if n < 10 then [char_of (48 + n)] else itoa_nat (n div 10) @ [char_of (48 + n mod 10)])"

declare itoa_nat.simps [simp del]

definition Itoa :: "int \<Rightarrow> string" where
  "Itoa i = (if i < 0 then CHR ''-'' # itoa_nat (nat (- i)) else itoa_nat (nat i))"

definition PrefillEndpointHeader :: string where "PrefillEndpointHeader = ''x-prefiller-host-port''"
definition EncoderEndpointsHeader :: string where "EncoderEndpointsHeader = ''x-encoder-hosts-ports''"
definition DataParallelEndpointHeader :: string where "DataParallelEndpointHeader = ''x-data-parallel-host-port''"

subsection \<open>A single profile\<close>

abbreviation all_profiles :: "'s Profiles \<Rightarrow> 's Picked" where
  "all_profiles profiles \<equiv> map (\<lambda>(name, run). (name, Some run)) profiles"

definition single_Pick :: "'s HandlerPick" where
  "single_Pick request profiles profileResults s =
     (if length profiles = length profileResults then Some ([], profileResults, s)
      else Some (all_profiles profiles, profileResults, s))"

definition single_ProcessResults :: HandlerProcess where
  "single_ProcessResults request profileResults =
     Some ((if length profileResults \<noteq> 1 then Inl ''single profile handler is intended to be used with a single profile''
            else (let singleProfileName = fst (profileResults ! 0)
                  in case gm_get profileResults singleProfileName of
                       Some (Some _) \<Rightarrow> Inr \<lparr>sr_ProfileResults = profileResults, sr_PrimaryProfileName = singleProfileName\<rparr>
                     | _ \<Rightarrow> Inl ''failed to run scheduler profile'')), request)"

subsection \<open>Data parallelism\<close>

definition dp_ProfileHandlerFactory :: "int \<Rightarrow> string option" where
  "dp_ProfileHandlerFactory primaryPort =
     (if primaryPort \<noteq> 0 \<and> (primaryPort < 1 \<or> primaryPort > 65535) then None else Some (Itoa primaryPort))"

definition dp_Pick :: "'s HandlerPick" where
  "dp_Pick request profiles profileResults s =
     (if length profiles = length profileResults then Some ([], profileResults, s)
      else if length profiles \<noteq> 1 then Some ([], profileResults, s)
      else Some (all_profiles profiles, profileResults, s))"

text \<open>The copies of the endpoints are new objects: \<open>ref\<close> is the address of the first.\<close>

definition with_port :: "string \<Rightarrow> nat \<Rightarrow> Endpoint list \<Rightarrow> Endpoint list" where
  "with_port primaryPort ref targets =
     map (\<lambda>i. NewEndpoint (ref + i) ((ep_Metadata (targets ! i))\<lparr>md_Port := primaryPort\<rparr>) (ep_Metrics (targets ! i)) None)
       [0 ..< length targets]"

definition set_header :: "string \<Rightarrow> string \<Rightarrow> InferenceRequest \<Rightarrow> InferenceRequest" where
  "set_header h v request = request\<lparr>ir_Headers := gm_set h v (ir_Headers request)\<rparr>"

definition del_header :: "string \<Rightarrow> InferenceRequest \<Rightarrow> InferenceRequest" where
  "del_header h request = request\<lparr>ir_Headers := gm_del h (ir_Headers request)\<rparr>"

definition dp_ProcessResults :: "string \<Rightarrow> nat \<Rightarrow> HandlerProcess" where
  "dp_ProcessResults primaryPort ref request profileResults =
     (if length profileResults \<noteq> 1 then
        Some (Inl ''data parallel profile handler is intended to be used with a single profile'', request)
      else (let singleProfileName = fst (profileResults ! 0)
            in case gm_get profileResults singleProfileName of
                 Some (Some profileResult) \<Rightarrow>
                   (case TargetEndpoints profileResult of
                      [] \<Rightarrow> None
                    | target # _ \<Rightarrow>
                        Some (Inr \<lparr>sr_ProfileResults = [(singleProfileName, Some \<lparr>TargetEndpoints =
                                      with_port primaryPort ref (TargetEndpoints profileResult)\<rparr>)],
                                   sr_PrimaryProfileName = singleProfileName\<rparr>,
                              set_header DataParallelEndpointHeader (host_port target) request))
               | _ \<Rightarrow> Some (Inl ''failed to run scheduler profile'', request)))"

subsection \<open>Deciders\<close>

type_synonym Decider = "InferenceRequest option \<Rightarrow> Endpoint option \<Rightarrow> bool"

definition AlwaysDisaggPDDecider_disaggregate :: Decider where
  "AlwaysDisaggPDDecider_disaggregate request endpoint = True"

definition hasMultimodalContent :: "InferenceRequest option \<Rightarrow> bool" where
  "hasMultimodalContent request =
     (case request of
        None \<Rightarrow> False
      | Some r \<Rightarrow>
          (case ir_Body r of
             None \<Rightarrow> False
           | Some body \<Rightarrow>
               (case rb_ChatCompletions body of
                  None \<Rightarrow> False
                | Some messages \<Rightarrow>
                    list_ex (\<lambda>msg. list_ex (\<lambda>t. t = ''image_url'' \<or> t = ''video_url'' \<or> t = ''input_audio'') (msg_Structured msg))
                      messages)))"

definition AlwaysDisaggMultimodalDecider_disaggregate :: Decider where
  "AlwaysDisaggMultimodalDecider_disaggregate request endpoint = hasMultimodalContent request"

definition AverageCharactersPerToken :: int where "AverageCharactersPerToken = 4"

text \<open>\<open>Marshal\<close> is the JSON encoding of the messages, which only its length is taken from.\<close>

definition getUserInputLenInTokens :: "(Message list \<Rightarrow> string option) \<Rightarrow> InferenceRequest option \<Rightarrow> int option" where
  "getUserInputLenInTokens Marshal request =
     (case request of
        None \<Rightarrow> None
      | Some r \<Rightarrow>
          (case ir_Body r of
             None \<Rightarrow> None
           | Some body \<Rightarrow>
               (case rb_Completions body of
                  Some prompt \<Rightarrow> Some (int (length prompt) div AverageCharactersPerToken)
                | None \<Rightarrow>
                    (case rb_ChatCompletions body of
                       None \<Rightarrow> None
                     | Some messages \<Rightarrow>
                         (case Marshal messages of
                            None \<Rightarrow> None
                          | Some prompt \<Rightarrow> Some (int (length prompt) div AverageCharactersPerToken))))))"

definition NewPrefixBasedPDDecider :: "int \<Rightarrow> int option" where
  "NewPrefixBasedPDDecider nonCachedTokens = (if nonCachedTokens < 0 then None else Some nonCachedTokens)"

definition PrefixBasedPDDecider_disaggregate :: "int \<Rightarrow> (Message list \<Rightarrow> string option) \<Rightarrow> Decider" where
  "PrefixBasedPDDecider_disaggregate NonCachedTokens Marshal request endpoint =
     (if NonCachedTokens = 0 then False
      else (case endpoint of
              None \<Rightarrow> False
            | Some ep \<Rightarrow>
                (case getUserInputLenInTokens Marshal request of
                   None \<Rightarrow> False
                 | Some inputTokens \<Rightarrow>
                     if inputTokens < NonCachedTokens then False
                     else (case ep_Get PrefixCacheMatchInfoKey ep of
                             Some (PrefixCacheMatchInfo matchBlocks totalBlocks blockSizeTokens) \<Rightarrow>
                               (let hitPrefixTokens = matchBlocks * blockSizeTokens;
                                    nonCachedTokens = inputTokens - hitPrefixTokens
                                in if nonCachedTokens < NonCachedTokens then False else True)
                           | _ \<Rightarrow> False))))"


subsection \<open>Disaggregated serving\<close>

record Handler =
  dh_decodeProfile :: string
  dh_prefillProfile :: string
  dh_encodeProfile :: string
  dh_pdDecider :: "Decider option"
  dh_encodeDecider :: "Decider option"

definition NewDisaggProfileHandler :: "string \<Rightarrow> string \<Rightarrow> string \<Rightarrow> Decider option \<Rightarrow> Decider option \<Rightarrow> Handler" where
  "NewDisaggProfileHandler decodeProfile prefillProfile encodeProfile pdDecider encodeDecider =
     \<lparr>dh_decodeProfile = decodeProfile, dh_prefillProfile = prefillProfile, dh_encodeProfile = encodeProfile,
      dh_pdDecider = pdDecider, dh_encodeDecider = encodeDecider\<rparr>"

text \<open>One optional stage: run its profile if it is configured, has no result and the decider agrees; a refusal is
  remembered as a nil result.\<close>

definition disagg_stage :: "string \<Rightarrow> Decider option \<Rightarrow> InferenceRequest option \<Rightarrow> Endpoint \<Rightarrow> 's Profiles \<Rightarrow> Results
    \<Rightarrow> 's Picked option \<times> Results" where
  "disagg_stage name decider request target profiles profileResults =
     (case gm_get profiles name of
        None \<Rightarrow> (None, profileResults)
      | Some run \<Rightarrow>
          if gm_get profileResults name \<noteq> None then (None, profileResults)
          else if (case decider of None \<Rightarrow> False | Some disaggregate \<Rightarrow> disaggregate request (Some target))
          then (Some [(name, Some run)], profileResults)
          else (None, gm_set name None profileResults))"

definition disagg_Pick :: "Handler \<Rightarrow> 's HandlerPick" where
  "disagg_Pick h request profiles profileResults s =
     (if request = None then Some ([], profileResults, s)
      else
        (case gm_get profileResults (dh_decodeProfile h) of
           None \<Rightarrow>
             (case gm_get profiles (dh_decodeProfile h) of
                None \<Rightarrow> Some ([], profileResults, s)
              | Some decodeProfile \<Rightarrow> Some ([(dh_decodeProfile h, Some decodeProfile)], profileResults, s))
         | Some None \<Rightarrow> Some ([], profileResults, s)
         | Some (Some decodeRes) \<Rightarrow>
             (case TargetEndpoints decodeRes of
                [] \<Rightarrow> Some ([], profileResults, s)
              | target # _ \<Rightarrow>
                  (case disagg_stage (dh_encodeProfile h) (dh_encodeDecider h) request target profiles profileResults of
                     (Some picked, results1) \<Rightarrow> Some (picked, results1, s)
                   | (None, results1) \<Rightarrow>
                       (case disagg_stage (dh_prefillProfile h) (dh_pdDecider h) request target profiles results1 of
                          (Some picked, results2) \<Rightarrow> Some (picked, results2, s)
                        | (None, results2) \<Rightarrow> Some ([], results2, s))))))"

definition add_result :: "string \<Rightarrow> Results \<Rightarrow> Results \<Rightarrow> Results" where
  "add_result name profileResults updatedResults =
     (case gm_get profileResults name of
        Some (Some r) \<Rightarrow> gm_set name (Some r) updatedResults
      | _ \<Rightarrow> updatedResults)"

definition errNoDecodeWorkers :: string where "errNoDecodeWorkers = ''failed to find available decode workers''"

definition disagg_ProcessResults :: "Handler \<Rightarrow> HandlerProcess" where
  "disagg_ProcessResults h request profileResults =
     Some ((case gm_get profileResults (dh_decodeProfile h) of
              Some (Some decodeRunResults) \<Rightarrow>
                if length (TargetEndpoints decodeRunResults) = 0 then Inl errNoDecodeWorkers
                else Inr \<lparr>sr_ProfileResults =
                            add_result (dh_encodeProfile h) profileResults
                              (add_result (dh_prefillProfile h) profileResults
                                 (gm_set (dh_decodeProfile h) (Some decodeRunResults) [])),
                          sr_PrimaryProfileName = dh_decodeProfile h\<rparr>
            | _ \<Rightarrow> Inl errNoDecodeWorkers), request)"

subsection \<open>The deprecated prefill and decode handler\<close>

record PdProfileHandler =
  pd_decodeProfile :: string
  pd_prefillProfile :: string
  pd_primaryPort :: string
  pd_decider :: "Decider option"

definition NewPdProfileHandler :: "string \<Rightarrow> string \<Rightarrow> int \<Rightarrow> Decider option \<Rightarrow> PdProfileHandler" where
  "NewPdProfileHandler prefillProfile decodeProfile primaryPort decider =
     \<lparr>pd_decodeProfile = decodeProfile, pd_prefillProfile = prefillProfile,
      pd_primaryPort = (if primaryPort \<noteq> 0 then Itoa primaryPort else []), pd_decider = decider\<rparr>"

definition pd_Pick :: "PdProfileHandler \<Rightarrow> 's HandlerPick" where
  "pd_Pick h request profiles profileResults s =
     (case gm_get profileResults (pd_decodeProfile h) of
        None \<Rightarrow> Some ([(pd_decodeProfile h, gm_get profiles (pd_decodeProfile h))], profileResults, s)
      | Some decodeRes \<Rightarrow>
          (if length profiles = length profileResults then Some ([], profileResults, s)
           else
             (case decodeRes of
                None \<Rightarrow> Some ([], profileResults, s)
              | Some result \<Rightarrow>
                  do { prefill \<leftarrow> (case pd_decider h of
                                     None \<Rightarrow> Some False
                                   | Some disaggregate \<Rightarrow>
                                       (case TargetEndpoints result of
                                          [] \<Rightarrow> None
                                        | target # _ \<Rightarrow> Some (disaggregate request (Some target))));
                       r \<leftarrow> request;
                       Some (if prefill then [(pd_prefillProfile h, gm_get profiles (pd_prefillProfile h))] else [],
                             profileResults, s) })))"

definition pd_ProcessResults :: "PdProfileHandler \<Rightarrow> nat \<Rightarrow> HandlerProcess" where
  "pd_ProcessResults h ref request profileResults =
     (case gm_get profileResults (pd_decodeProfile h) of
        Some (Some decodeRunResults) \<Rightarrow>
          do { (decoded, request') \<leftarrow>
                 (if pd_primaryPort h \<noteq> [] then
                    (case TargetEndpoints decodeRunResults of
                       [] \<Rightarrow> None
                     | target # _ \<Rightarrow>
                         Some (\<lparr>TargetEndpoints = with_port (pd_primaryPort h) ref (TargetEndpoints decodeRunResults)\<rparr>,
                               set_header DataParallelEndpointHeader (host_port target) request))
                  else Some (decodeRunResults, request));
               Some (Inr \<lparr>sr_ProfileResults =
                            add_result (pd_prefillProfile h) profileResults (gm_set (pd_decodeProfile h) (Some decoded) []),
                          sr_PrimaryProfileName = pd_decodeProfile h\<rparr>, request') }
      | _ \<Rightarrow> Some (Inl errNoDecodeWorkers, request))"

subsection \<open>Headers for the chosen workers\<close>

fun join_comma :: "string list \<Rightarrow> string" where
  "join_comma [] = []"
| "join_comma [x] = x"
| "join_comma (x # y # xs) = x @ '','' @ join_comma (y # xs)"

definition HeadersHandler_PreRequest :: "string \<Rightarrow> string \<Rightarrow> InferenceRequest option \<Rightarrow> SchedulingResult option
    \<Rightarrow> InferenceRequest option" where
  "HeadersHandler_PreRequest prefillProfile encodeProfile request schedulingResult =
     (case (request, schedulingResult) of
        (Some req, Some result) \<Rightarrow>
          (let req1 = del_header PrefillEndpointHeader req;
               req2 = (case gm_get (sr_ProfileResults result) prefillProfile of
                         Some (Some prefillProfileRunResult) \<Rightarrow>
                           (case TargetEndpoints prefillProfileRunResult of
                              [] \<Rightarrow> req1
                            | target # _ \<Rightarrow> set_header PrefillEndpointHeader (host_port target) req1)
                       | _ \<Rightarrow> req1);
               req3 = del_header EncoderEndpointsHeader req2
           in Some (case gm_get (sr_ProfileResults result) encodeProfile of
                      Some (Some encodeProfileRunResult) \<Rightarrow>
                        (let encodeHostPorts = map host_port (TargetEndpoints encodeProfileRunResult)
                         in if length encodeHostPorts = 0 then req3
                            else set_header EncoderEndpointsHeader (join_comma encodeHostPorts) req3)
                    | _ \<Rightarrow> req3))
      | _ \<Rightarrow> request)"


subsection \<open>Every handler makes progress\<close>

lemma all_profiles_keys: "fst ` set (all_profiles profiles) = fst ` set profiles"
  by force

lemma picks_fresh_none [simp]: "picks_fresh profiles results []"
  by (simp add: picks_fresh_def)

lemma picks_fresh_one:
  assumes "gm_get profiles name = Some run" and "gm_get results name = None"
  shows "picks_fresh profiles results [(name, Some run)]"
  using assms by (simp add: picks_fresh_def map_of_eq_None_iff)

lemma picks_fresh_all:
  assumes "results_ok profiles results" and "length profiles \<noteq> length results"
  shows "picks_fresh profiles results (all_profiles profiles)"
proof -
  have ok: "gm_ok profiles" "gm_ok results" "fst ` set results \<subseteq> fst ` set profiles"
    using assms(1) by (simp_all add: results_ok_def)
  have "\<not> fst ` set profiles \<subseteq> fst ` set results"
  proof
    assume "fst ` set profiles \<subseteq> fst ` set results"
    then have "set (map fst profiles) = set (map fst results)" using ok(3) by auto
    then have "length (map fst profiles) = length (map fst results)" using ok(1,2) by (metis distinct_card)
    then show False using assms(2) by simp
  qed
  moreover have "gm_get profiles name = Some run" if "(name, run) \<in> set profiles" for name run using ok(1) that by simp
  ultimately show ?thesis unfolding picks_fresh_def all_profiles_keys by auto
qed

interpretation single: profile_handler single_Pick "\<lambda>_. True"
  by unfold_locales (auto simp: single_Pick_def picks_fresh_all)

interpretation dp: profile_handler dp_Pick "\<lambda>_. True"
  by unfold_locales (auto simp: dp_Pick_def picks_fresh_all)

lemma disagg_stage_progress:
  assumes "disagg_stage name decider request target profiles results = (p, results')" and "results_ok profiles results"
  shows "results_ok profiles results' \<and> fst ` set results \<subseteq> fst ` set results' \<and>
     (case p of None \<Rightarrow> True | Some picked \<Rightarrow> picks_fresh profiles results' picked)"
proof (cases "gm_get profiles name")
  case None
  then show ?thesis using assms by (auto simp: disagg_stage_def)
next
  case (Some run)
  then have "name \<in> fst ` set profiles" by (metis map_of_eq_None_iff option.distinct(1))
  then show ?thesis using Some assms results_ok_set [OF assms(2), of name None]
    unfolding disagg_stage_def
    by (force simp: gm_set_keyset picks_fresh_one split: if_splits)
qed

interpretation disagg: profile_handler "disagg_Pick h" "\<lambda>_. True" for h
proof
  fix profiles :: "'a Profiles" and results request s
  assume ok: "results_ok profiles results"
  show "\<exists>picked results' s'. disagg_Pick h (Some request) profiles results s = Some (picked, results', s') \<and>
      results_ok profiles results' \<and> fst ` set results \<subseteq> fst ` set results' \<and> picks_fresh profiles results' picked"
  proof (cases "gm_get results (dh_decodeProfile h)")
    case None
    then show ?thesis using ok by (auto simp: disagg_Pick_def intro: picks_fresh_one split: option.splits)
  next
    case (Some d)
    show ?thesis
    proof (cases "d = None \<or> TargetEndpoints (the d) = []")
      case True
      then show ?thesis using Some ok by (auto simp: disagg_Pick_def split: option.splits)
    next
      case False
      then obtain r target ts where d: "d = Some r" "TargetEndpoints r = target # ts" by (cases d; cases "TargetEndpoints (the d)") auto
      obtain p1 results1 where s1: "disagg_stage (dh_encodeProfile h) (dh_encodeDecider h) (Some request) target profiles results = (p1, results1)"
        by fastforce
      obtain p2 results2 where s2: "disagg_stage (dh_prefillProfile h) (dh_pdDecider h) (Some request) target profiles results1 = (p2, results2)"
        by fastforce
      note st1 = disagg_stage_progress [OF s1 ok]
      note st2 = disagg_stage_progress [OF s2 st1 [THEN conjunct1]]
      show ?thesis
        using Some d s1 s2 st1 st2 by (cases p1; cases p2) (auto simp: disagg_Pick_def)
    qed
  qed
qed


definition pd_supported :: "PdProfileHandler \<Rightarrow> 's Profiles \<Rightarrow> bool" where
  "pd_supported h profiles \<longleftrightarrow> pd_decodeProfile h \<noteq> pd_prefillProfile h \<and>
     fst ` set profiles = {pd_decodeProfile h, pd_prefillProfile h}"

lemma pd_prefill_fresh:
  assumes "pd_supported h profiles" and "results_ok profiles results" and "length profiles \<noteq> length results"
    and "gm_get results (pd_decodeProfile h) \<noteq> None"
  shows "gm_get results (pd_prefillProfile h) = None"
proof (rule ccontr)
  assume "gm_get results (pd_prefillProfile h) \<noteq> None"
  then have "fst ` set profiles \<subseteq> fst ` set results"
    using assms(1,4) by (auto simp: pd_supported_def map_of_eq_None_iff)
  then show False using picks_fresh_all [OF assms(2,3)] assms(1)
    unfolding picks_fresh_def all_profiles_keys by (auto simp: pd_supported_def)
qed

lemma pd_profile:
  assumes "pd_supported h profiles" and "name \<in> {pd_decodeProfile h, pd_prefillProfile h}"
  obtains run where "gm_get profiles name = Some run"
proof -
  have "name \<in> fst ` set profiles" using assms unfolding pd_supported_def by blast
  then show ?thesis using that by (metis map_of_eq_None_iff option.exhaust)
qed

interpretation pd: profile_handler "pd_Pick h" "pd_supported h" for h
proof
  fix profiles :: "'a Profiles" and results request s
  assume sup: "pd_supported h profiles" and ok: "results_ok profiles results"
  let ?goal = "\<exists>picked results' s'. pd_Pick h (Some request) profiles results s = Some (picked, results', s') \<and>
      results_ok profiles results' \<and> fst ` set results \<subseteq> fst ` set results' \<and> picks_fresh profiles results' picked"
  obtain dec pre where run: "gm_get profiles (pd_decodeProfile h) = Some dec" "gm_get profiles (pd_prefillProfile h) = Some pre"
    using pd_profile [OF sup] by (metis insertI1 insertI2)
  show ?goal
  proof (cases "gm_get results (pd_decodeProfile h)")
    case None
    then show ?thesis using run ok by (auto simp: pd_Pick_def intro: picks_fresh_one)
  next
    case (Some d)
    show ?thesis
    proof (cases "length profiles = length results \<or> d = None")
      case True
      then show ?thesis using Some ok by (auto simp: pd_Pick_def)
    next
      case False
      then obtain r where r: "d = Some r" by auto
      then have "(pd_decodeProfile h, Some r) \<in> set results" using Some by (simp add: gm_get_in)
      then have "TargetEndpoints r \<noteq> []" using ok unfolding results_ok_def by blast
      moreover have "gm_get results (pd_prefillProfile h) = None"
        using pd_prefill_fresh [OF sup ok] False Some by auto
      ultimately show ?thesis using False Some r run ok
        by (auto simp: pd_Pick_def neq_Nil_conv intro: picks_fresh_one split: option.splits)
    qed
  qed
qed

text \<open>Profiles of the previous theory run without a panic.\<close>

definition picker_plugin :: "'s PickerPlugin \<Rightarrow> bool" where
  "picker_plugin pick \<longleftrightarrow> (\<forall>ses s. ses \<noteq> [] \<longrightarrow> (\<exists>result s'. pick ses s = Some (result, s') \<and> TargetEndpoints result \<noteq> []))"

lemma profile_run_ok:
  assumes "profile_ok ok p" and "pf_picker p = Some pick" and "picker_plugin pick" and "list_all ok candidates"
  shows "run_ok request candidates (profile_Run p)"
  unfolding run_ok_def
proof
  fix s
  note parts = assms(1) [unfolded profile_ok_def, THEN conjunct1] assms(1) [unfolded profile_ok_def, THEN conjunct2]
  obtain survivors s1 where f: "runFilterPlugins (pf_filters p) request candidates s = Some (survivors, s1)" "list_all ok survivors"
    using runFilterPlugins_ok [OF parts(1) assms(4), of request s] by blast
  obtain m s2 where m: "runScorerPlugins (pf_scorers p) request survivors s1 = Some (m, s2)" "fst ` set m = set survivors"
    using runScorerPlugins_ok [OF parts(2) f(2), of request s1] by blast
  show "\<exists>r s'. profile_Run p request candidates s = Some (r, s') \<and> (\<forall>result. r = Inr result \<longrightarrow> TargetEndpoints result \<noteq> [])"
  proof (cases "survivors = []")
    case True
    then show ?thesis using f by (simp add: profile_Run_def)
  next
    case False
    then have "scored_endpoints m \<noteq> []" using m(2) by (auto simp: scored_endpoints_def)
    then obtain result s3 where "pick (scored_endpoints m) s2 = Some (result, s3)" "TargetEndpoints result \<noteq> []"
      using assms(3) unfolding picker_plugin_def by blast
    then show ?thesis using f m False assms(2) by (simp add: profile_Run_def runPickerPlugin_def)
  qed
qed

text \<open>C4: The scheduling cycle always ends. When the configured profiles have different names and run without a panic, the
  loop of \<open>Schedule\<close> returns for the single profile, data parallel and disaggregated handlers whatever the configuration
  and the deciders, and for the deprecated prefill and decode handler when its two profiles are the ones configured.\<close>

theorem schedule_terminates:
  assumes "gm_ok profiles" and "\<forall>(name, run) \<in> set profiles. run_ok request candidates run"
  shows "(\<exists>results s'. schedule_loop single_Pick profiles request candidates [] s = Some (Some (results, s'))) \<and>
     (\<exists>results s'. schedule_loop dp_Pick profiles request candidates [] s = Some (Some (results, s'))) \<and>
     (\<exists>results s'. schedule_loop (disagg_Pick h) profiles request candidates [] s = Some (Some (results, s'))) \<and>
     (pd_supported g profiles \<longrightarrow>
        (\<exists>results s'. schedule_loop (pd_Pick g) profiles request candidates [] s = Some (Some (results, s'))))"
  using single.schedule_returns [OF _ assms] dp.schedule_returns [OF _ assms] disagg.schedule_returns [OF _ assms]
    pd.schedule_returns [OF _ assms] by blast


lemma max_score_picker_plugin: "0 < k \<Longrightarrow> picker_plugin (\<lambda>ses s. Some (MaxScorePicker_Pick k (rnd s) ses, f s))"
  by (auto simp: picker_plugin_def max_score.pick_some)

lemma demo_run_ok: "run_ok request candidates (profile_Run demo_profile)"
proof (rule profile_run_ok [OF demo_profile_ok demo_profile_simps(3)])
  show "picker_plugin (\<lambda>ses (s :: unit). Some (MaxScorePicker_Pick 1 (\<lambda>_. 0) ses, s))"
    by (rule max_score_picker_plugin [where rnd = "\<lambda>_ _. 0" and f = "\<lambda>s. s"]) simp
qed (simp add: list_all_iff)

definition demo_profiles :: "unit Profiles" where
  "demo_profiles = [(''decode'', profile_Run demo_profile), (''prefill'', profile_Run demo_profile)]"

definition demo_handler :: Handler where
  "demo_handler = NewDisaggProfileHandler ''decode'' ''prefill'' ''encode'' (Some AlwaysDisaggPDDecider_disaggregate) None"

theorem schedule_terminates_witness:
  "\<exists>results s'. schedule_loop (disagg_Pick demo_handler) demo_profiles demo_request [demo_busy ''a'' 5, demo_busy ''b'' 0] [] () =
     Some (Some (results, s'))"
  using schedule_terminates [of demo_profiles demo_request "[demo_busy ''a'' 5, demo_busy ''b'' 0]"]
  by (simp add: demo_profiles_def demo_run_ok)

text \<open>With a third profile configured the deprecated handler never counts all profiles as executed. While its decider keeps
  asking for prefill, it picks the prefill profile again and again and \<open>Schedule\<close> does not return.\<close>

definition pd_stuck :: "PdProfileHandler \<Rightarrow> 's HandlerPick \<Rightarrow> 's Profiles \<Rightarrow> InferenceRequest \<Rightarrow> Endpoint list \<Rightarrow> Results \<Rightarrow> bool" where
  "pd_stuck h Pick profiles request candidates results \<longleftrightarrow>
     Pick = pd_Pick h \<and> 3 \<le> length profiles \<and> pd_decodeProfile h \<noteq> pd_prefillProfile h \<and>
     (\<exists>pre. gm_get profiles (pd_prefillProfile h) = Some pre \<and> (\<forall>s. \<exists>r s'. pre request candidates s = Some (r, s'))) \<and>
     (\<exists>d. pd_decider h = Some d \<and> (\<forall>t. d (Some request) (Some t))) \<and>
     gm_ok results \<and> fst ` set results \<subseteq> {pd_decodeProfile h, pd_prefillProfile h} \<and>
     (\<exists>r t ts. gm_get results (pd_decodeProfile h) = Some (Some r) \<and> TargetEndpoints r = t # ts)"

lemma pd_stuck_length:
  assumes "gm_ok results" and "fst ` set results \<subseteq> {a, b}"
  shows "length results \<le> 2"
proof -
  have "length results = card (set (map fst results))" using assms(1) by (metis distinct_card length_map)
  also have "\<dots> \<le> card {a, b}" by (rule card_mono) (use assms(2) in auto)
  also have "\<dots> \<le> 2" by (simp add: card_insert_if)
  finally show ?thesis .
qed

lemma pd_loop_repeats:
  assumes "schedule_loop Pick profiles request candidates results s = Some y"
  shows "\<not> pd_stuck h Pick profiles request candidates results"
  using assms
proof (rule schedule_loop.raw_induct [where P = "\<lambda>Pick profiles request candidates results s y.
    \<not> pd_stuck h Pick profiles request candidates results", rotated])
  fix loop :: "'a HandlerPick \<Rightarrow> 'a Profiles \<Rightarrow> InferenceRequest \<Rightarrow> Endpoint list \<Rightarrow> Results \<Rightarrow> 'a \<Rightarrow> (Results \<times> 'a) option option"
    and Pick profiles request candidates results s y
  assume IH: "\<And>Pick profiles request candidates results s y. loop Pick profiles request candidates results s = Some y \<Longrightarrow>
      \<not> pd_stuck h Pick profiles request candidates results"
    and body: "(case Pick (Some request) profiles results s of None \<Rightarrow> Some None
      | Some (picked, results1, s1) \<Rightarrow> if length picked = 0 then Some (Some (results1, s1))
          else (case run_profiles request candidates picked results1 s1 of None \<Rightarrow> Some None
               | Some (results2, s2) \<Rightarrow> loop Pick profiles request candidates results2 s2)) = Some y"
  show "\<not> pd_stuck h Pick profiles request candidates results"
  proof
    assume stuck: "pd_stuck h Pick profiles request candidates results"
    then obtain pre d r t ts where p: "Pick = pd_Pick h" "gm_get profiles (pd_prefillProfile h) = Some pre"
        "\<forall>s. \<exists>r s'. pre request candidates s = Some (r, s')" "pd_decider h = Some d" "\<forall>t. d (Some request) (Some t)"
        "gm_get results (pd_decodeProfile h) = Some (Some r)" "TargetEndpoints r = t # ts"
        "pd_decodeProfile h \<noteq> pd_prefillProfile h"
      unfolding pd_stuck_def by (elim conjE exE) (rule that)
    have "length profiles \<noteq> length results" using stuck pd_stuck_length [of results] unfolding pd_stuck_def by force
    then have pick: "Pick (Some request) profiles results s = Some ([(pd_prefillProfile h, Some pre)], results, s)"
      using p by (simp add: pd_Pick_def)
    obtain q s' where q: "pre request candidates s = Some (q, s')" using p(3) by blast
    let ?results = "gm_set (pd_prefillProfile h) (case q of Inl err \<Rightarrow> None | Inr result \<Rightarrow> Some result) results"
    have "loop Pick profiles request candidates ?results s' = Some y" using body pick q by simp
    then have "\<not> pd_stuck h Pick profiles request candidates ?results" by (rule IH)
    moreover have "pd_stuck h Pick profiles request candidates ?results"
      using stuck p(8) unfolding pd_stuck_def by (simp add: distinct_update gm_set_keyset update_conv' del: map_of_eq_Some_iff)
    ultimately show False by blast
  qed
qed

theorem pd_three_profiles_diverges:
  assumes "3 \<le> length profiles" and "pd_decodeProfile h \<noteq> pd_prefillProfile h"
    and "gm_get profiles (pd_decodeProfile h) = Some dec" and "gm_get profiles (pd_prefillProfile h) = Some pre"
    and "\<forall>s. \<exists>r s'. dec request candidates s = Some (Inr r, s') \<and> TargetEndpoints r \<noteq> []"
    and "\<forall>s. \<exists>r s'. pre request candidates s = Some (r, s')"
    and "pd_decider h = Some d" and "\<forall>t. d (Some request) (Some t)"
  shows "schedule_loop (pd_Pick h) profiles request candidates [] s = None"
proof -
  obtain r s' where r: "dec request candidates s = Some (Inr r, s')" "TargetEndpoints r \<noteq> []" using assms(5) by blast
  have "schedule_loop (pd_Pick h) profiles request candidates [] s =
      schedule_loop (pd_Pick h) profiles request candidates [(pd_decodeProfile h, Some r)] s'"
    using r assms(3) by (subst schedule_loop.simps) (simp add: pd_Pick_def)
  moreover have "schedule_loop (pd_Pick h) profiles request candidates [(pd_decodeProfile h, Some r)] s' \<noteq> Some y" for y
    using pd_loop_repeats [of "pd_Pick h" profiles request candidates "[(pd_decodeProfile h, Some r)]" s' y h]
      assms r(2) by (auto simp: pd_stuck_def neq_Nil_conv)
  ultimately show ?thesis by (cases "schedule_loop (pd_Pick h) profiles request candidates [] s") auto
qed


subsection \<open>Disaggregated scheduling as a pipeline\<close>

text \<open>The specification: decode first; then, for the worker it chose, encode and prefill, each when it is configured and its
  decider agrees; a stage that fails is left out.\<close>

definition agrees :: "Decider option \<Rightarrow> InferenceRequest \<Rightarrow> Endpoint \<Rightarrow> bool" where
  "agrees decider request target \<longleftrightarrow> (case decider of None \<Rightarrow> False | Some d \<Rightarrow> d (Some request) (Some target))"

definition succeeded :: "string + ProfileRunResult \<Rightarrow> ProfileRunResult option" where
  "succeeded r = (case r of Inl err \<Rightarrow> None | Inr result \<Rightarrow> Some result)"

definition stage_run :: "string \<Rightarrow> Decider option \<Rightarrow> 's Profiles \<Rightarrow> InferenceRequest \<Rightarrow> Endpoint \<Rightarrow> Endpoint list \<Rightarrow> 's
    \<Rightarrow> (ProfileRunResult option \<times> 's) option" where
  "stage_run name decider profiles request target candidates s =
     (case gm_get profiles name of
        None \<Rightarrow> Some (None, s)
      | Some run \<Rightarrow>
          if agrees decider request target then map_option (\<lambda>(r, s'). (succeeded r, s')) (run request candidates s)
          else Some (None, s))"

definition stage_result :: "string \<Rightarrow> ProfileRunResult option \<Rightarrow> Results" where
  "stage_result name r = (case r of None \<Rightarrow> [] | Some result \<Rightarrow> [(name, Some result)])"

definition disagg_pipeline :: "Handler \<Rightarrow> 's Profiles \<Rightarrow> InferenceRequest \<Rightarrow> Endpoint list \<Rightarrow> 's
    \<Rightarrow> ((string + SchedulingResult) \<times> InferenceRequest \<times> 's) option" where
  "disagg_pipeline h profiles request candidates s =
     (case gm_get profiles (dh_decodeProfile h) of
        None \<Rightarrow> Some (Inl errNoProfileRun, request, s)
      | Some decode \<Rightarrow>
          do { (d, s1) \<leftarrow> decode request candidates s;
               (case succeeded d of
                  None \<Rightarrow> Some (Inl errNoDecodeWorkers, request, s1)
                | Some result \<Rightarrow>
                    (case TargetEndpoints result of
                       [] \<Rightarrow> Some (Inl errNoDecodeWorkers, request, s1)
                     | target # _ \<Rightarrow>
                         do { (e, s2) \<leftarrow> stage_run (dh_encodeProfile h) (dh_encodeDecider h) profiles request target candidates s1;
                              (p, s3) \<leftarrow> stage_run (dh_prefillProfile h) (dh_pdDecider h) profiles request target candidates s2;
                              Some (Inr \<lparr>sr_ProfileResults = (dh_decodeProfile h, Some result) #
                                            stage_result (dh_prefillProfile h) p @ stage_result (dh_encodeProfile h) e,
                                         sr_PrimaryProfileName = dh_decodeProfile h\<rparr>, request, s3) })) })"

definition settled :: "'s Profiles \<Rightarrow> Results \<Rightarrow> string \<Rightarrow> bool" where
  "settled profiles results name \<longleftrightarrow> gm_get profiles name = None \<or> gm_get results name \<noteq> None"

definition record_result :: "'s Profiles \<Rightarrow> string \<Rightarrow> ProfileRunResult option \<Rightarrow> Results \<Rightarrow> Results" where
  "record_result profiles name r results = (if gm_get profiles name = None then results else gm_set name r results)"

lemma settled_record [simp]: "settled profiles (record_result profiles name r results) name"
  by (auto simp: settled_def record_result_def update_conv')

lemma record_nonempty [simp]: "results \<noteq> [] \<Longrightarrow> record_result profiles name r results \<noteq> []"
  by (cases results) (auto simp: record_result_def)

lemma record_other: "n \<noteq> name \<Longrightarrow> gm_get (record_result profiles name r results) n = gm_get results n"
  by (simp add: record_result_def update_conv')

lemma settled_other: "n \<noteq> name \<Longrightarrow> settled profiles (record_result profiles name r results) n = settled profiles results n"
  by (simp add: settled_def record_other)

lemma stage_settled: "settled profiles results name \<Longrightarrow> disagg_stage name decider request target profiles results = (None, results)"
  by (auto simp: settled_def disagg_stage_def split: option.splits)

lemma stage_open:
  assumes "\<not> settled profiles results name" and "gm_get profiles name = Some run"
  shows "disagg_stage name decider (Some request) target profiles results =
    (if agrees decider request target then (Some [(name, Some run)], results) else (None, gm_set name None results))"
  using assms by (simp add: settled_def disagg_stage_def agrees_def)


lemma disagg_Pick_decoded:
  assumes "gm_get results (dh_decodeProfile h) = Some (Some d)" and "TargetEndpoints d = target # ts"
  shows "disagg_Pick h (Some request) profiles results s =
    (case disagg_stage (dh_encodeProfile h) (dh_encodeDecider h) (Some request) target profiles results of
       (Some picked, results1) \<Rightarrow> Some (picked, results1, s)
     | (None, results1) \<Rightarrow>
         (case disagg_stage (dh_prefillProfile h) (dh_pdDecider h) (Some request) target profiles results1 of
            (Some picked, results2) \<Rightarrow> Some (picked, results2, s)
          | (None, results2) \<Rightarrow> Some ([], results2, s)))"
  using assms by (simp add: disagg_Pick_def)

lemma disagg_loop_done:
  assumes "gm_get results (dh_decodeProfile h) = Some (Some d)" and "TargetEndpoints d = target # ts"
    and "settled profiles results (dh_encodeProfile h)" and "settled profiles results (dh_prefillProfile h)"
  shows "schedule_loop (disagg_Pick h) profiles request candidates results s = Some (Some (results, s))"
  by (subst schedule_loop.simps) (simp add: disagg_Pick_decoded [OF assms(1,2)] stage_settled assms(3,4))

lemma disagg_loop_prefill:
  assumes dec: "gm_get results (dh_decodeProfile h) = Some (Some d)" "TargetEndpoints d = target # ts"
    and enc: "settled profiles results (dh_encodeProfile h)" and new: "gm_get results (dh_prefillProfile h) = None"
    and ne: "dh_decodeProfile h \<noteq> dh_prefillProfile h" "dh_encodeProfile h \<noteq> dh_prefillProfile h"
  shows "schedule_loop (disagg_Pick h) profiles request candidates results s =
     Some (map_option (\<lambda>(p, s'). (record_result profiles (dh_prefillProfile h) p results, s'))
       (stage_run (dh_prefillProfile h) (dh_pdDecider h) profiles request target candidates s))"
proof (cases "gm_get profiles (dh_prefillProfile h)")
  case None
  then have "settled profiles results (dh_prefillProfile h)" by (simp add: settled_def)
  from disagg_loop_done [OF dec enc this] show ?thesis using None by (simp add: stage_run_def record_result_def)
next
  case (Some run)
  then have unset: "\<not> settled profiles results (dh_prefillProfile h)" using new by (simp add: settled_def)
  have after: "schedule_loop (disagg_Pick h) profiles request candidates (gm_set (dh_prefillProfile h) p results) s' =
      Some (Some (gm_set (dh_prefillProfile h) p results, s'))" for p s'
    by (rule disagg_loop_done [OF _ dec(2)])
      (use dec(1) enc ne in \<open>simp_all add: settled_def update_conv'\<close>)
  show ?thesis
    by (cases "run request candidates s"; subst schedule_loop.simps)
      (auto simp: disagg_Pick_decoded [OF dec] stage_settled [OF enc] stage_open [OF unset Some] stage_run_def Some
        record_result_def succeeded_def after)
qed

lemma disagg_loop_encode:
  assumes dec: "gm_get results (dh_decodeProfile h) = Some (Some d)" "TargetEndpoints d = target # ts"
    and new: "gm_get results (dh_encodeProfile h) = None" and ne: "dh_decodeProfile h \<noteq> dh_encodeProfile h"
  shows "schedule_loop (disagg_Pick h) profiles request candidates results s =
     (case stage_run (dh_encodeProfile h) (dh_encodeDecider h) profiles request target candidates s of
        None \<Rightarrow> Some None
      | Some (e, s') \<Rightarrow>
          schedule_loop (disagg_Pick h) profiles request candidates (record_result profiles (dh_encodeProfile h) e results) s')"
proof (cases "gm_get profiles (dh_encodeProfile h)")
  case None
  then show ?thesis by (simp add: stage_run_def record_result_def)
next
  case (Some run)
  then have unset: "\<not> settled profiles results (dh_encodeProfile h)" using new by (simp add: settled_def)
  show ?thesis
  proof (cases "agrees (dh_encodeDecider h) request target")
    case True
    then show ?thesis
      by (cases "run request candidates s"; subst schedule_loop.simps)
        (auto simp: disagg_Pick_decoded [OF dec] stage_open [OF unset Some] stage_run_def Some record_result_def succeeded_def)
  next
    case False
    let ?results = "gm_set (dh_encodeProfile h) None results"
    have dec': "gm_get ?results (dh_decodeProfile h) = Some (Some d)" using dec(1) ne by (simp add: update_conv')
    have "settled profiles ?results (dh_encodeProfile h)" by (simp add: settled_def update_conv')
    then have "disagg_Pick h (Some request) profiles results s = disagg_Pick h (Some request) profiles ?results s"
      by (simp add: disagg_Pick_decoded [OF dec] disagg_Pick_decoded [OF dec' dec(2)] stage_open [OF unset Some] False stage_settled)
    then have "schedule_loop (disagg_Pick h) profiles request candidates results s =
        schedule_loop (disagg_Pick h) profiles request candidates ?results s"
      by (simp add: schedule_loop.simps [of _ _ _ _ results] schedule_loop.simps [of _ _ _ _ ?results])
    then show ?thesis using Some False by (simp add: stage_run_def record_result_def)
  qed
qed


lemma stage_run_unconfigured: "stage_run name decider profiles request target candidates s = Some (r, s') \<Longrightarrow>
    gm_get profiles name = None \<Longrightarrow> r = None"
  by (simp add: stage_run_def)

lemma disagg_ProcessResults_recorded:
  assumes "distinct [dh_decodeProfile h, dh_prefillProfile h, dh_encodeProfile h]" and "TargetEndpoints d = target # ts"
    and "gm_get profiles (dh_encodeProfile h) = None \<Longrightarrow> e = None" and "gm_get profiles (dh_prefillProfile h) = None \<Longrightarrow> p = None"
  shows "disagg_ProcessResults h request
      (record_result profiles (dh_prefillProfile h) p (record_result profiles (dh_encodeProfile h) e [(dh_decodeProfile h, Some d)])) =
    Some (Inr \<lparr>sr_ProfileResults = (dh_decodeProfile h, Some d) #
                  stage_result (dh_prefillProfile h) p @ stage_result (dh_encodeProfile h) e,
               sr_PrimaryProfileName = dh_decodeProfile h\<rparr>, request)"
  using assms
  by (cases p; cases e) (auto simp: disagg_ProcessResults_def record_result_def add_result_def stage_result_def update_conv')

lemma disagg_recorded_result:
  assumes "distinct [dh_decodeProfile h, dh_prefillProfile h, dh_encodeProfile h]" and "TargetEndpoints d = target # ts"
    and "stage_run (dh_encodeProfile h) dec1 profiles request target candidates s1 = Some (e, s2)"
    and "stage_run (dh_prefillProfile h) dec2 profiles request target candidates s2 = Some (p, s3)"
  shows "(case disagg_ProcessResults h request (record_result profiles (dh_prefillProfile h) p
             (record_result profiles (dh_encodeProfile h) e [(dh_decodeProfile h, Some d)])) of
           None \<Rightarrow> Some None | Some (r, request') \<Rightarrow> Some (Some (r, request', s3))) =
    Some (Some (Inr \<lparr>sr_ProfileResults = (dh_decodeProfile h, Some d) #
                  stage_result (dh_prefillProfile h) p @ stage_result (dh_encodeProfile h) e,
               sr_PrimaryProfileName = dh_decodeProfile h\<rparr>, request, s3))"
  using disagg_ProcessResults_recorded [OF assms(1,2), of profiles e p request]
    stage_run_unconfigured [OF assms(3)] stage_run_unconfigured [OF assms(4)] by simp

lemma disagg_loop_decoded:
  assumes "distinct [dh_decodeProfile h, dh_prefillProfile h, dh_encodeProfile h]" and "TargetEndpoints result = target # ts"
  shows "schedule_loop (disagg_Pick h) profiles request candidates [(dh_decodeProfile h, Some result)] s1 =
    Some (do { (e, s2) \<leftarrow> stage_run (dh_encodeProfile h) (dh_encodeDecider h) profiles request target candidates s1;
               (p, s3) \<leftarrow> stage_run (dh_prefillProfile h) (dh_pdDecider h) profiles request target candidates s2;
               Some (record_result profiles (dh_prefillProfile h) p
                       (record_result profiles (dh_encodeProfile h) e [(dh_decodeProfile h, Some result)]), s3) })"
proof -
  let ?dec = "[(dh_decodeProfile h, Some result)]"
  have "schedule_loop (disagg_Pick h) profiles request candidates ?dec s1 =
      (case stage_run (dh_encodeProfile h) (dh_encodeDecider h) profiles request target candidates s1 of
         None \<Rightarrow> Some None
       | Some (e, s2) \<Rightarrow> schedule_loop (disagg_Pick h) profiles request candidates
           (record_result profiles (dh_encodeProfile h) e ?dec) s2)"
    by (rule disagg_loop_encode [OF _ assms(2)]) (use assms in auto)
  moreover have "schedule_loop (disagg_Pick h) profiles request candidates (record_result profiles (dh_encodeProfile h) e ?dec) s2 =
      Some (map_option (\<lambda>(p, s'). (record_result profiles (dh_prefillProfile h) p
                                     (record_result profiles (dh_encodeProfile h) e ?dec), s'))
        (stage_run (dh_prefillProfile h) (dh_pdDecider h) profiles request target candidates s2))" for e s2
    by (rule disagg_loop_prefill [OF _ assms(2)]) (use assms in \<open>auto simp: record_other\<close>)
  ultimately show ?thesis by (auto simp: map_option_case split: option.split)
qed

lemma disagg_schedule_spec:
  assumes "distinct [dh_decodeProfile h, dh_prefillProfile h, dh_encodeProfile h]"
  shows "Schedule (disagg_Pick h) (disagg_ProcessResults h) profiles request candidates s =
    Some (disagg_pipeline h profiles request candidates s)"
proof (cases "gm_get profiles (dh_decodeProfile h)")
  case None
  then show ?thesis by (simp add: Schedule_def disagg_pipeline_def schedule_loop.simps disagg_Pick_def)
next
  case (Some decode)
  show ?thesis
  proof (cases "decode request candidates s")
    case None
    then show ?thesis using Some by (simp add: Schedule_def disagg_pipeline_def schedule_loop.simps disagg_Pick_def)
  next
    case ran: (Some ds)
    obtain d s1 where ds: "ds = (d, s1)" by (cases ds)
    have first: "schedule_loop (disagg_Pick h) profiles request candidates [] s =
        schedule_loop (disagg_Pick h) profiles request candidates [(dh_decodeProfile h, succeeded d)] s1"
      by (subst schedule_loop.simps) (simp add: disagg_Pick_def Some ran ds succeeded_def)
    show ?thesis
    proof (cases "\<exists>result target ts. succeeded d = Some result \<and> TargetEndpoints result = target # ts")
      case True
      then obtain result target ts where r: "succeeded d = Some result" "TargetEndpoints result = target # ts" by blast
      have "schedule_loop (disagg_Pick h) profiles request candidates [] s =
          Some (do { (e, s2) \<leftarrow> stage_run (dh_encodeProfile h) (dh_encodeDecider h) profiles request target candidates s1;
                     (p, s3) \<leftarrow> stage_run (dh_prefillProfile h) (dh_pdDecider h) profiles request target candidates s2;
                     Some (record_result profiles (dh_prefillProfile h) p
                             (record_result profiles (dh_encodeProfile h) e [(dh_decodeProfile h, Some result)]), s3) })"
        unfolding first r(1) by (rule disagg_loop_decoded [OF assms r(2)])
      then show ?thesis using Some ran ds r
        by (auto simp: Schedule_def disagg_pipeline_def disagg_recorded_result [OF assms r(2)]
            split: Option.bind_splits)
    next
      case False
      then have "schedule_loop (disagg_Pick h) profiles request candidates [] s = Some (Some ([(dh_decodeProfile h, succeeded d)], s1))"
        unfolding first by (subst schedule_loop.simps) (auto simp: disagg_Pick_def split: option.splits list.splits)
      then show ?thesis using False Some ran ds
        by (auto simp: Schedule_def disagg_pipeline_def disagg_ProcessResults_def split: option.splits list.splits)
    qed
  qed
qed


text \<open>C3: Disaggregated scheduling is a pipeline. For a handler with three different profile names, the loop of picks over a
  shared map of results computes exactly this: it runs decode, and nothing else if that fails; then encode and then prefill,
  each only when it is configured and its decider agrees on the worker that decode chose; it panics only where a profile
  panics; the result has decode as its primary profile and the optional stages that succeeded.\<close>

theorem disagg_schedule_pipeline:
  assumes "distinct [dh_decodeProfile h, dh_prefillProfile h, dh_encodeProfile h]"
  shows "Schedule (disagg_Pick h) (disagg_ProcessResults h) profiles request candidates s =
    Some (disagg_pipeline h profiles request candidates s)"
  by (rule disagg_schedule_spec [OF assms])

definition demo_fixed :: "string \<Rightarrow> unit ProfileRun" where
  "demo_fixed name request candidates s = Some (Inr \<lparr>TargetEndpoints = [demo_endpoint name]\<rparr>, s)"

lemma demo_handler_simps [simp]:
  "dh_decodeProfile demo_handler = ''decode''" "dh_prefillProfile demo_handler = ''prefill''"
  "dh_encodeProfile demo_handler = ''encode''" "dh_pdDecider demo_handler = Some AlwaysDisaggPDDecider_disaggregate"
  "dh_encodeDecider demo_handler = None"
  by (simp_all add: demo_handler_def NewDisaggProfileHandler_def)

theorem disagg_schedule_pipeline_witness:
  "Schedule (disagg_Pick demo_handler) (disagg_ProcessResults demo_handler)
     [(''decode'', demo_fixed ''d''), (''prefill'', demo_fixed ''p''), (''encode'', demo_fixed ''e'')] demo_request [] () =
   Some (Some (Inr \<lparr>sr_ProfileResults = [(''decode'', Some \<lparr>TargetEndpoints = [demo_endpoint ''d'']\<rparr>),
                                          (''prefill'', Some \<lparr>TargetEndpoints = [demo_endpoint ''p'']\<rparr>)],
                    sr_PrimaryProfileName = ''decode''\<rparr>, demo_request, ()))"
  by (subst disagg_schedule_pipeline)
    (simp_all add: disagg_pipeline_def demo_fixed_def stage_run_def agrees_def succeeded_def stage_result_def
      AlwaysDisaggPDDecider_disaggregate_def)

subsection \<open>Headers\<close>

lemma header_simps:
  "gm_get (ir_Headers (set_header h v request)) = (gm_get (ir_Headers request))(h \<mapsto> v)"
  "gm_get (ir_Headers (del_header h request)) = (gm_get (ir_Headers request))(h := None)"
  by (simp_all add: set_header_def del_header_def update_conv' delete_conv')

lemma header_names: "PrefillEndpointHeader \<noteq> EncoderEndpointsHeader"
  by (simp add: PrefillEndpointHeader_def EncoderEndpointsHeader_def)

definition stage_targets :: "SchedulingResult \<Rightarrow> string \<Rightarrow> Endpoint list" where
  "stage_targets result name = (case gm_get (sr_ProfileResults result) name of Some (Some r) \<Rightarrow> TargetEndpoints r | _ \<Rightarrow> [])"

lemma PreRequest_headers:
  "\<exists>request'. HeadersHandler_PreRequest prefill encode (Some request) (Some result) = Some request' \<and>
     request' = request\<lparr>ir_Headers := ir_Headers request'\<rparr> \<and>
     gm_get (ir_Headers request') PrefillEndpointHeader =
       (case stage_targets result prefill of [] \<Rightarrow> None | t # _ \<Rightarrow> Some (host_port t)) \<and>
     gm_get (ir_Headers request') EncoderEndpointsHeader =
       (if stage_targets result encode = [] then None else Some (join_comma (map host_port (stage_targets result encode)))) \<and>
     (\<forall>h. h \<noteq> PrefillEndpointHeader \<and> h \<noteq> EncoderEndpointsHeader \<longrightarrow> gm_get (ir_Headers request') h = gm_get (ir_Headers request) h)"
proof -
  let ?req2 = "case stage_targets result prefill of [] \<Rightarrow> del_header PrefillEndpointHeader request
     | t # _ \<Rightarrow> set_header PrefillEndpointHeader (host_port t) (del_header PrefillEndpointHeader request)"
  let ?req = "if stage_targets result encode = [] then del_header EncoderEndpointsHeader ?req2
     else set_header EncoderEndpointsHeader (join_comma (map host_port (stage_targets result encode))) (del_header EncoderEndpointsHeader ?req2)"
  have "HeadersHandler_PreRequest prefill encode (Some request) (Some result) = Some ?req"
    by (auto simp: HeadersHandler_PreRequest_def stage_targets_def Let_def split: option.split list.split)
  moreover have "?req = request\<lparr>ir_Headers := ir_Headers ?req\<rparr>"
    by (auto simp: set_header_def del_header_def split: list.split)
  ultimately show ?thesis using header_names
    by (intro exI [of _ ?req]) (auto simp: header_simps split: list.split)
qed


lemma stage_run_agrees: "stage_run name decider profiles request target candidates s = Some (Some r, s') \<Longrightarrow> agrees decider request target"
  by (auto simp: stage_run_def split: option.splits if_splits)

lemma pipeline_result:
  assumes "disagg_pipeline h profiles request candidates s = Some (Inr result, request1, s')"
  obtains d target ts e p s1 s2 where "request1 = request" and "TargetEndpoints d = target # ts"
    and "stage_run (dh_encodeProfile h) (dh_encodeDecider h) profiles request target candidates s1 = Some (e, s2)"
    and "stage_run (dh_prefillProfile h) (dh_pdDecider h) profiles request target candidates s2 = Some (p, s')"
    and "result = \<lparr>sr_ProfileResults = (dh_decodeProfile h, Some d) #
                     stage_result (dh_prefillProfile h) p @ stage_result (dh_encodeProfile h) e,
                   sr_PrimaryProfileName = dh_decodeProfile h\<rparr>"
  using assms unfolding disagg_pipeline_def
  by (auto split: option.splits list.splits Option.bind_splits prod.splits)

text \<open>C29: The worker headers can be trusted. After a successful disaggregated scheduling and the headers plugin, the request
  carries a prefill header only if the decider agreed on the worker chosen for decode, and its value is then the address
  of the first worker that the prefill profile chose; likewise the encoder header lists exactly the workers of the encode
  profile. Whatever the client sent in these headers is gone, and every other header is unchanged.\<close>

theorem disagg_headers_trusted:
  assumes "distinct [dh_decodeProfile h, dh_prefillProfile h, dh_encodeProfile h]"
    and "Schedule (disagg_Pick h) (disagg_ProcessResults h) profiles request candidates s = Some (Some (Inr result, request1, s'))"
  shows "\<exists>request2 target ts.
     HeadersHandler_PreRequest (dh_prefillProfile h) (dh_encodeProfile h) (Some request1) (Some result) = Some request2 \<and>
     stage_targets result (dh_decodeProfile h) = target # ts \<and>
     gm_get (ir_Headers request2) PrefillEndpointHeader =
       (case stage_targets result (dh_prefillProfile h) of [] \<Rightarrow> None | t # _ \<Rightarrow> Some (host_port t)) \<and>
     (gm_get (ir_Headers request2) PrefillEndpointHeader \<noteq> None \<longrightarrow> agrees (dh_pdDecider h) request target) \<and>
     gm_get (ir_Headers request2) EncoderEndpointsHeader =
       (case stage_targets result (dh_encodeProfile h) of [] \<Rightarrow> None | t # ts' \<Rightarrow> Some (join_comma (map host_port (t # ts')))) \<and>
     (gm_get (ir_Headers request2) EncoderEndpointsHeader \<noteq> None \<longrightarrow> agrees (dh_encodeDecider h) request target) \<and>
     (\<forall>n. n \<noteq> PrefillEndpointHeader \<and> n \<noteq> EncoderEndpointsHeader \<longrightarrow> gm_get (ir_Headers request2) n = gm_get (ir_Headers request) n)"
proof -
  have "disagg_pipeline h profiles request candidates s = Some (Inr result, request1, s')"
    using assms by (simp add: disagg_schedule_spec)
  then obtain d target ts e p s1 s2 where r: "request1 = request" "TargetEndpoints d = target # ts"
      "stage_run (dh_encodeProfile h) (dh_encodeDecider h) profiles request target candidates s1 = Some (e, s2)"
      "stage_run (dh_prefillProfile h) (dh_pdDecider h) profiles request target candidates s2 = Some (p, s')"
      "result = \<lparr>sr_ProfileResults = (dh_decodeProfile h, Some d) #
                     stage_result (dh_prefillProfile h) p @ stage_result (dh_encodeProfile h) e,
                   sr_PrimaryProfileName = dh_decodeProfile h\<rparr>"
    by (rule pipeline_result)
  have t: "stage_targets result (dh_decodeProfile h) = target # ts"
    "stage_targets result (dh_prefillProfile h) = (case p of None \<Rightarrow> [] | Some q \<Rightarrow> TargetEndpoints q)"
    "stage_targets result (dh_encodeProfile h) = (case e of None \<Rightarrow> [] | Some q \<Rightarrow> TargetEndpoints q)"
    using assms(1) r(2) by (auto simp: r(5) stage_targets_def stage_result_def split: option.split)
  have "agrees (dh_pdDecider h) request target" if "stage_targets result (dh_prefillProfile h) \<noteq> []"
    using that r(4) unfolding t by (cases p) (auto dest: stage_run_agrees)
  moreover have "agrees (dh_encodeDecider h) request target" if "stage_targets result (dh_encodeProfile h) \<noteq> []"
    using that r(3) unfolding t by (cases e) (auto dest: stage_run_agrees)
  ultimately show ?thesis
    using PreRequest_headers [of "dh_prefillProfile h" "dh_encodeProfile h" request result] t(1) unfolding r(1)
    by (elim exE conjE) (intro exI conjI, auto split: list.split)
qed


theorem disagg_headers_trusted_witness:
  "\<exists>request2. HeadersHandler_PreRequest ''prefill'' ''encode'' (Some (set_header EncoderEndpointsHeader ''evil:1'' demo_request))
       (Some \<lparr>sr_ProfileResults = [(''decode'', Some \<lparr>TargetEndpoints = [demo_endpoint ''d'']\<rparr>),
                                   (''prefill'', Some \<lparr>TargetEndpoints = [demo_endpoint ''p'']\<rparr>)],
             sr_PrimaryProfileName = ''decode''\<rparr>) = Some request2 \<and>
     gm_get (ir_Headers request2) PrefillEndpointHeader = Some ''10.0.0.1:8000'' \<and>
     gm_get (ir_Headers request2) EncoderEndpointsHeader = None"
proof -
  let ?request = "set_header EncoderEndpointsHeader ''evil:1'' demo_request"
  let ?profiles = "[(''decode'', demo_fixed ''d''), (''prefill'', demo_fixed ''p'')]"
  let ?result = "\<lparr>sr_ProfileResults = [(''decode'', Some \<lparr>TargetEndpoints = [demo_endpoint ''d'']\<rparr>),
                                         (''prefill'', Some \<lparr>TargetEndpoints = [demo_endpoint ''p'']\<rparr>)],
                  sr_PrimaryProfileName = ''decode''\<rparr>"
  have "Schedule (disagg_Pick demo_handler) (disagg_ProcessResults demo_handler) ?profiles ?request [] () =
      Some (Some (Inr ?result, ?request, ()))"
    by (subst disagg_schedule_spec)
      (simp_all add: disagg_pipeline_def demo_fixed_def stage_run_def agrees_def succeeded_def stage_result_def
        AlwaysDisaggPDDecider_disaggregate_def)
  moreover have "stage_targets ?result ''prefill'' = [demo_endpoint ''p'']" "stage_targets ?result ''encode'' = []"
    by (simp_all add: stage_targets_def)
  moreover have "host_port (demo_endpoint ''p'') = ''10.0.0.1:8000''"
    by (simp add: demo_endpoint_def demo_pod_def NewEndpoint_def JoinHostPort_def)
  ultimately show ?thesis
    using disagg_headers_trusted [of demo_handler ?profiles ?request "[]" "()" ?result ?request "()"] by auto
qed

subsection \<open>Data parallelism behind one port\<close>

lemma with_port_nth:
  assumes "i < length targets"
  shows "ep_Metadata (with_port port ref targets ! i) = (ep_Metadata (targets ! i))\<lparr>md_Port := port\<rparr>"
    and "ep_Metrics (with_port port ref targets ! i) = ep_Metrics (targets ! i)"
    and "ep_ref (with_port port ref targets ! i) = ref + i"
  using assms by (simp_all add: with_port_def NewEndpoint_def)

lemma with_port_length [simp]: "length (with_port port ref targets) = length targets"
  by (simp add: with_port_def)

lemma single_schedule_loop:
  assumes "Pick \<in> {single_Pick, dp_Pick}" and "run request candidates s = Some (r, s')"
  shows "schedule_loop Pick [(name, run)] request candidates [] s = Some (Some ([(name, succeeded r)], s'))"
proof -
  have P: "Pick (Some request) [(name, run)] [] s = Some ([(name, Some run)], [], s)"
    "Pick (Some request) [(name, run)] [(name, q)] s' = Some ([], [(name, q)], s')" for q
    using assms(1) by (auto simp: single_Pick_def dp_Pick_def)
  show ?thesis
    by (simp add: schedule_loop.simps [of _ _ _ _ "[]"] schedule_loop.simps [of _ _ _ _ "[(name, q)]" for q] P assms(2) succeeded_def)
qed

text \<open>C38: With one profile configured, the data parallel handler returns the workers that the profile chose, in the same
  order, with their addresses, names and metrics but all with the primary port; the real address of the first worker
  goes into the data parallel header, and no other header changes. When the profile finds no worker, scheduling fails.\<close>

theorem dp_schedule_redirects:
  assumes "run request candidates s = Some (r, s')" and "\<forall>result. r = Inr result \<longrightarrow> TargetEndpoints result \<noteq> []"
  shows "case r of
     Inl err \<Rightarrow> \<exists>e. Schedule dp_Pick (dp_ProcessResults port ref) [(name, run)] request candidates s = Some (Some (Inl e, request, s'))
   | Inr result \<Rightarrow> \<exists>targets request'.
       Schedule dp_Pick (dp_ProcessResults port ref) [(name, run)] request candidates s =
         Some (Some (Inr \<lparr>sr_ProfileResults = [(name, Some \<lparr>TargetEndpoints = targets\<rparr>)], sr_PrimaryProfileName = name\<rparr>, request', s')) \<and>
       map ep_Metadata targets = map (\<lambda>e. (ep_Metadata e)\<lparr>md_Port := port\<rparr>) (TargetEndpoints result) \<and>
       map ep_Metrics targets = map ep_Metrics (TargetEndpoints result) \<and>
       gm_get (ir_Headers request') =
         (gm_get (ir_Headers request))(DataParallelEndpointHeader \<mapsto> host_port (hd (TargetEndpoints result)))"
proof -
  have loop: "schedule_loop dp_Pick [(name, run)] request candidates [] s = Some (Some ([(name, succeeded r)], s'))"
    by (rule single_schedule_loop [of dp_Pick run request candidates s r s']) (simp_all add: assms(1))
  show ?thesis
  proof (cases r)
    case (Inl err)
    then show ?thesis
      by (simp add: Schedule_def loop dp_ProcessResults_def succeeded_def)
  next
    case (Inr result)
    then obtain t ts where t: "TargetEndpoints result = t # ts" using assms(2) by (cases "TargetEndpoints result") auto
    let ?targets = "with_port port ref (TargetEndpoints result)"
    have "map ep_Metadata ?targets = map (\<lambda>e. (ep_Metadata e)\<lparr>md_Port := port\<rparr>) (TargetEndpoints result)"
      "map ep_Metrics ?targets = map ep_Metrics (TargetEndpoints result)"
      by (auto intro: nth_equalityI simp: with_port_nth)
    then show ?thesis using Inr t
      by (simp add: Schedule_def loop dp_ProcessResults_def succeeded_def header_simps)
  qed
qed

theorem dp_schedule_redirects_witness:
  "\<exists>targets request'. Schedule dp_Pick (dp_ProcessResults (Itoa 8000) 7) [(''default'', demo_fixed ''a'')] demo_request [] () =
     Some (Some (Inr \<lparr>sr_ProfileResults = [(''default'', Some \<lparr>TargetEndpoints = targets\<rparr>)], sr_PrimaryProfileName = ''default''\<rparr>,
                 request', ())) \<and> length targets = 1"
  using dp_schedule_redirects [of "demo_fixed ''a''" demo_request "[]" "()" "Inr \<lparr>TargetEndpoints = [demo_endpoint ''a'']\<rparr>" "()"
      "Itoa 8000" 7 "''default''"]
  by (fastforce simp: demo_fixed_def dest: map_eq_imp_length_eq)

subsection \<open>Decimal numbers\<close>

lemma digit_char: "n < 10 \<Longrightarrow> digit_value (char_of (48 + n)) = Some n"
  by (simp add: digit_value_def)

lemma not_sign: "digit_value c = Some n \<Longrightarrow> c \<noteq> CHR ''-'' \<and> c \<noteq> CHR ''+''"
  by (auto simp: digit_value_def)

lemma digits_value_append: "digits_value acc (xs @ ys) = do { n \<leftarrow> digits_value acc xs; digits_value n ys }"
  by (induction xs arbitrary: acc) auto

lemma digits_itoa: "digits_value 0 (itoa_nat n) = Some n"
proof (induction n rule: itoa_nat.induct)
  case (1 n)
  then show ?case by (subst itoa_nat.simps) (simp add: digits_value_append digit_char)
qed

lemma itoa_head: "\<exists>c cs. itoa_nat n = c # cs \<and> c \<noteq> CHR ''-'' \<and> c \<noteq> CHR ''+''"
proof (induction n rule: itoa_nat.induct)
  case (1 n)
  have "char_of (48 + n) \<noteq> CHR ''-''" "char_of (48 + n) \<noteq> CHR ''+''" if "n < 10"
    using not_sign [OF digit_char [OF that]] by blast+
  then show ?case using 1 by (subst itoa_nat.simps) auto
qed

lemma Atoi_Itoa: "is_int i \<Longrightarrow> Atoi (Itoa i) = Some i"
proof (cases "i < 0")
  case True
  obtain c cs where "itoa_nat (nat (- i)) = c # cs" using itoa_head by blast
  then show "is_int i \<Longrightarrow> Atoi (Itoa i) = Some i" using True digits_itoa [of "nat (- i)"] by (simp add: Atoi_def Itoa_def)
next
  case False
  obtain c cs where "itoa_nat (nat i) = c # cs" "c \<noteq> CHR ''-''" "c \<noteq> CHR ''+''" using itoa_head by blast
  then show "is_int i \<Longrightarrow> Atoi (Itoa i) = Some i" using False digits_itoa [of "nat i"] by (simp add: Atoi_def Itoa_def)
qed


subsection \<open>Parameters of the disaggregation handler\<close>

text \<open>The parameters after JSON decoding: the nested format, and the deprecated flat one. A missing field is empty.
  \<open>Plugin\<close> looks up a configured plugin: \<^const>\<open>None\<close> when there is none, \<open>Some None\<close> when it is not a decider.\<close>

record disaggProfileHandlerParameters =
  dp_ProfilesDecode :: string
  dp_ProfilesPrefill :: string
  dp_ProfilesEncode :: string
  dp_DecidersPrefill :: string
  dp_DecidersEncode :: string

record legacyDisaggProfileHandlerParameters =
  lp_DecodeProfile :: string
  lp_PrefillProfile :: string
  lp_EncodeProfile :: string
  lp_PrefillDeciderPluginName :: string
  lp_EncodeDeciderPluginName :: string
  lp_DeciderPluginName :: string

definition noParameters :: disaggProfileHandlerParameters where
  "noParameters = \<lparr>dp_ProfilesDecode = [], dp_ProfilesPrefill = [], dp_ProfilesEncode = [], dp_DecidersPrefill = [], dp_DecidersEncode = []\<rparr>"

definition noLegacyParameters :: legacyDisaggProfileHandlerParameters where
  "noLegacyParameters = \<lparr>lp_DecodeProfile = [], lp_PrefillProfile = [], lp_EncodeProfile = [], lp_PrefillDeciderPluginName = [],
     lp_EncodeDeciderPluginName = [], lp_DeciderPluginName = []\<rparr>"

definition toDisaggParams :: "legacyDisaggProfileHandlerParameters \<Rightarrow> disaggProfileHandlerParameters" where
  "toDisaggParams l =
     (let p = noParameters;
          p = (if lp_DecodeProfile l \<noteq> [] then p\<lparr>dp_ProfilesDecode := lp_DecodeProfile l\<rparr> else p);
          p = (if lp_PrefillProfile l \<noteq> [] then p\<lparr>dp_ProfilesPrefill := lp_PrefillProfile l\<rparr> else p);
          p = (if lp_EncodeProfile l \<noteq> [] then p\<lparr>dp_ProfilesEncode := lp_EncodeProfile l\<rparr> else p);
          p = (if lp_PrefillDeciderPluginName l \<noteq> [] then p\<lparr>dp_DecidersPrefill := lp_PrefillDeciderPluginName l\<rparr> else p);
          p = (if lp_DeciderPluginName l \<noteq> [] \<and> dp_DecidersPrefill p = [] then p\<lparr>dp_DecidersPrefill := lp_DeciderPluginName l\<rparr> else p)
      in if lp_EncodeDeciderPluginName l \<noteq> [] then p\<lparr>dp_DecidersEncode := lp_EncodeDeciderPluginName l\<rparr> else p)"

definition select_params :: "(disaggProfileHandlerParameters \<times> legacyDisaggProfileHandlerParameters) option
    \<Rightarrow> string + disaggProfileHandlerParameters" where
  "select_params rawParameters =
     (case rawParameters of
        None \<Rightarrow> Inr noParameters
      | Some (parameters, legacy) \<Rightarrow>
          if parameters \<noteq> noParameters
          then (if legacy \<noteq> noLegacyParameters then Inl ''cannot mix deprecated flat parameters with nested parameters''
                else Inr parameters)
          else Inr (toDisaggParams legacy))"

definition resolve_decider :: "(string \<Rightarrow> Decider option option) \<Rightarrow> string \<Rightarrow> string + Decider option" where
  "resolve_decider Plugin name =
     (if name = [] then Inr None
      else (case Plugin name of
              None \<Rightarrow> Inl ''plugin not found''
            | Some None \<Rightarrow> Inl ''plugin does not implement a decider''
            | Some (Some d) \<Rightarrow> Inr (Some d)))"

definition or_default :: "string \<Rightarrow> string \<Rightarrow> string" where
  "or_default d s = (if s = [] then d else s)"

definition HandlerFactory :: "(disaggProfileHandlerParameters \<times> legacyDisaggProfileHandlerParameters) option
    \<Rightarrow> (string \<Rightarrow> Decider option option) \<Rightarrow> string + Handler" where
  "HandlerFactory rawParameters Plugin =
     (case select_params rawParameters of
        Inl err \<Rightarrow> Inl err
      | Inr p \<Rightarrow>
          (case resolve_decider Plugin (dp_DecidersPrefill p) of
             Inl err \<Rightarrow> Inl err
           | Inr pdDecider \<Rightarrow>
               (case resolve_decider Plugin (dp_DecidersEncode p) of
                  Inl err \<Rightarrow> Inl err
                | Inr encodeDecider \<Rightarrow>
                    Inr (NewDisaggProfileHandler (or_default ''decode'' (dp_ProfilesDecode p))
                           (or_default ''prefill'' (dp_ProfilesPrefill p)) (or_default ''encode'' (dp_ProfilesEncode p))
                           pdDecider encodeDecider))))"

text \<open>The deprecated flat parameters mean what their nested translation means: building the handler from either gives
  the same handler or the same error, for every set of configured plugins. Building it from both formats at once is refused,
  and a handler that is built always has three non-empty profile names.\<close>

theorem legacy_parameters_equivalent:
  "HandlerFactory (Some (noParameters, legacy)) Plugin = HandlerFactory (Some (toDisaggParams legacy, noLegacyParameters)) Plugin \<and>
   (parameters \<noteq> noParameters \<longrightarrow> legacy \<noteq> noLegacyParameters \<longrightarrow> (\<exists>err. HandlerFactory (Some (parameters, legacy)) Plugin = Inl err)) \<and>
   (\<forall>h. HandlerFactory raw Plugin = Inr h \<longrightarrow>
      dh_decodeProfile h \<noteq> [] \<and> dh_prefillProfile h \<noteq> [] \<and> dh_encodeProfile h \<noteq> [])"
proof (intro conjI)
  have "toDisaggParams noLegacyParameters = noParameters" by (simp add: toDisaggParams_def noLegacyParameters_def noParameters_def)
  then have "select_params (Some (noParameters, legacy)) = select_params (Some (toDisaggParams legacy, noLegacyParameters))"
    by (simp add: select_params_def)
  then show "HandlerFactory (Some (noParameters, legacy)) Plugin = HandlerFactory (Some (toDisaggParams legacy, noLegacyParameters)) Plugin"
    by (simp add: HandlerFactory_def)
  show "parameters \<noteq> noParameters \<longrightarrow> legacy \<noteq> noLegacyParameters \<longrightarrow> (\<exists>err. HandlerFactory (Some (parameters, legacy)) Plugin = Inl err)"
    by (simp add: HandlerFactory_def select_params_def)
  show "\<forall>h. HandlerFactory raw Plugin = Inr h \<longrightarrow> dh_decodeProfile h \<noteq> [] \<and> dh_prefillProfile h \<noteq> [] \<and> dh_encodeProfile h \<noteq> []"
    by (auto simp: HandlerFactory_def NewDisaggProfileHandler_def or_default_def split: sum.splits if_splits)
qed

theorem legacy_parameters_equivalent_witness:
  "\<exists>h. HandlerFactory (Some (noParameters, noLegacyParameters\<lparr>lp_DecodeProfile := ''d''\<rparr>)) (\<lambda>_. None) = Inr h \<and>
     dh_decodeProfile h \<noteq> [] \<and> dh_prefillProfile h \<noteq> [] \<and> dh_encodeProfile h \<noteq> []"
proof -
  let ?raw = "Some (noParameters, noLegacyParameters\<lparr>lp_DecodeProfile := ''d''\<rparr>)"
  obtain h where "HandlerFactory ?raw (\<lambda>_. None) = Inr h"
    by (simp add: HandlerFactory_def select_params_def toDisaggParams_def resolve_decider_def noParameters_def noLegacyParameters_def)
  then show ?thesis
    using legacy_parameters_equivalent [where raw = ?raw and Plugin = "\<lambda>_. None"] by blast
qed

end
