(* ===== verification/Eviction.thy ===== *)
theory Eviction
  imports EvictQueue ProfileHandlers
begin

text \<open>
  Eviction of requests in flight (\<open>flowcontrol/eviction\<close>): the registry of eviction channels
  (\<open>eviction_registry.go\<close>), the two evictors (\<open>evictor.go\<close>) and the plugin that tracks requests and evicts them
  (\<open>plugin.go\<close>). Channels are numbered in the order they are made; the closed ones form a set. The map \<open>closeOnce\<close> says of
  a request whether its \<open>sync.Once\<close> has run. \<^const>\<open>None\<close> is a panic. Logging is left out.
\<close>

subsection \<open>The registry of channels\<close>

type_synonym EvictionRegistry = "(string, nat) gomap"

definition NewEvictionRegistry :: EvictionRegistry where
  "NewEvictionRegistry = []"

definition evreg_Register :: "string \<Rightarrow> nat \<Rightarrow> EvictionRegistry \<Rightarrow> EvictionRegistry" where
  "evreg_Register requestID ch r = gm_set requestID ch r"

definition evreg_Get :: "string \<Rightarrow> EvictionRegistry \<Rightarrow> nat option" where
  "evreg_Get requestID r = gm_get r requestID"

definition evreg_Deregister :: "string \<Rightarrow> EvictionRegistry \<Rightarrow> EvictionRegistry" where
  "evreg_Deregister requestID r = gm_del requestID r"

subsection \<open>Evictors\<close>

datatype Evictor = NoOpEvictor | ImmediateResponseEvictor (closeOnce: "(string, bool) gomap")

definition NewImmediateResponseEvictor :: Evictor where
  "NewImmediateResponseEvictor = ImmediateResponseEvictor []"

definition ImmediateResponseEvictor_Evict ::
    "EvictionItem \<Rightarrow> (string, bool) gomap \<Rightarrow> nat set \<Rightarrow> (string option \<times> (string, bool) gomap \<times> nat set) option" where
  "ImmediateResponseEvictor_Evict item once shut =
     (case ei_EvictCh item of
        None \<Rightarrow> Some (Some (''eviction item '' @ ei_RequestID item @ '' has no eviction channel''), once, shut)
      | Some ch \<Rightarrow>
          (let once' = (if gm_get once (ei_RequestID item) = None then gm_set (ei_RequestID item) False once else once)
           in if gm_get once' (ei_RequestID item) = Some True then Some (None, once', shut)
              else if ch \<in> shut then None
              else Some (None, gm_set (ei_RequestID item) True once', insert ch shut)))"

fun Evict :: "EvictionItem \<Rightarrow> Evictor \<Rightarrow> nat set \<Rightarrow> (string option \<times> Evictor \<times> nat set) option" where
  "Evict item NoOpEvictor shut = Some (None, NoOpEvictor, shut)"
| "Evict item (ImmediateResponseEvictor once) shut =
     map_option (\<lambda>(err, once', shut'). (err, ImmediateResponseEvictor once', shut'))
       (ImmediateResponseEvictor_Evict item once shut)"

text \<open>The evictor of immediate responses supports \<open>Cleanup\<close>, the other does not.\<close>

fun evictor_Cleanup :: "string \<Rightarrow> Evictor \<Rightarrow> Evictor" where
  "evictor_Cleanup requestID NoOpEvictor = NoOpEvictor"
| "evictor_Cleanup requestID (ImmediateResponseEvictor once) = ImmediateResponseEvictor (gm_del requestID once)"

subsection \<open>The plugin\<close>

record RequestEvictor =
  re_queue :: EvictionQueue
  re_evictor :: Evictor
  re_evictionRegistry :: EvictionRegistry
  re_made :: nat
  re_closed :: "nat set"

definition NewRequestEvictor :: "(EvictionItem \<Rightarrow> EvictionItem \<Rightarrow> bool) \<Rightarrow> (EvictionItem \<Rightarrow> bool) \<Rightarrow> Evictor \<Rightarrow> RequestEvictor" where
  "NewRequestEvictor lt accept evictor =
     \<lparr>re_queue = NewEvictionQueue lt accept, re_evictor = evictor, re_evictionRegistry = NewEvictionRegistry,
      re_made = 0, re_closed = {}\<rparr>"

definition RequestIdHeaderKey :: string where "RequestIdHeaderKey = ''x-request-id''"

definition request_id :: "InferenceRequest \<Rightarrow> string" where
  "request_id request = (case gm_get (ir_Headers request) RequestIdHeaderKey of None \<Rightarrow> [] | Some v \<Rightarrow> v)"

text \<open>The endpoint that serves the request, when the scheduling result names one.\<close>

definition primary_target :: "SchedulingResult \<Rightarrow> Endpoint option" where
  "primary_target result =
     (case gm_get (sr_ProfileResults result) (sr_PrimaryProfileName result) of
        Some (Some r) \<Rightarrow> (case TargetEndpoints r of [] \<Rightarrow> None | e # _ \<Rightarrow> Some e)
      | _ \<Rightarrow> None)"

definition tracked_item :: "InferenceRequest \<Rightarrow> Endpoint \<Rightarrow> time \<Rightarrow> nat \<Rightarrow> EvictionItem" where
  "tracked_item request e now ch =
     \<lparr>ei_RequestID = request_id request, ei_Priority = ir_Priority request, ei_DispatchTime = now,
      ei_TargetURL = ''http://'' @ host_port e, ei_Request = request, ei_TargetEndpoint = ep_Metadata e, ei_EvictCh = Some ch\<rparr>"

text \<open>\<open>PreRequest\<close> also returns the request ID for which it started a goroutine that waits for the end of the request context
  and then cleans up.\<close>

definition evictor_PreRequest ::
    "InferenceRequest option \<Rightarrow> SchedulingResult option \<Rightarrow> time \<Rightarrow> RequestEvictor \<Rightarrow> (string option \<times> RequestEvictor) option" where
  "evictor_PreRequest request result now p =
     (case (request, Option.bind result primary_target) of
        (Some req, Some e) \<Rightarrow>
          (if request_id req = [] then Some (None, p)
           else (let ch = re_made p; p1 = p\<lparr>re_made := Suc ch\<rparr>
                 in do {
                   q \<leftarrow> Track (tracked_item req e now ch) (re_queue p1);
                   Some (Some (request_id req),
                     p1\<lparr>re_queue := q, re_evictionRegistry := evreg_Register (request_id req) ch (re_evictionRegistry p1)\<rparr>) }))
      | _ \<Rightarrow> Some (None, p))"

definition cleanupRequest :: "string \<Rightarrow> RequestEvictor \<Rightarrow> RequestEvictor option" where
  "cleanupRequest requestID p = do {
     q \<leftarrow> Untrack requestID (re_queue p);
     Some (p\<lparr>re_queue := q, re_evictionRegistry := evreg_Deregister requestID (re_evictionRegistry p),
             re_evictor := evictor_Cleanup requestID (re_evictor p)\<rparr>) }"

text \<open>The response is its flag \<open>EndOfStream\<close>, or nil.\<close>

definition evictor_ResponseBody :: "InferenceRequest option \<Rightarrow> bool option \<Rightarrow> RequestEvictor \<Rightarrow> RequestEvictor option" where
  "evictor_ResponseBody request response p =
     (case response of
        None \<Rightarrow> None
      | Some endOfStream \<Rightarrow>
          (if \<not> endOfStream then Some p
           else (case request of
                   None \<Rightarrow> Some p
                 | Some req \<Rightarrow> if request_id req = [] then Some p else cleanupRequest (request_id req) p)))"

fun evictn_loop :: "nat \<Rightarrow> RequestEvictor \<Rightarrow> string list \<Rightarrow> (string list \<times> RequestEvictor) option" where
  "evictn_loop 0 p evicted = Some (evicted, p)"
| "evictn_loop (Suc n) p evicted = do {
     (items, q) \<leftarrow> PopN 1 (re_queue p);
     case items of
       [] \<Rightarrow> Some (evicted, p\<lparr>re_queue := q\<rparr>)
     | item # _ \<Rightarrow> do {
         (err, evictor, shut) \<leftarrow> Evict item (re_evictor p) (re_closed p);
         let p' = p\<lparr>re_queue := q, re_evictor := evictor, re_closed := shut\<rparr>;
         if err \<noteq> None
         then do { q' \<leftarrow> Track item q; evictn_loop n (p'\<lparr>re_queue := q'\<rparr>) evicted }
         else evictn_loop n p' (evicted @ [ei_RequestID item]) } }"

definition EvictN :: "int \<Rightarrow> RequestEvictor \<Rightarrow> (string list \<times> RequestEvictor) option" where
  "EvictN n p = (if n < 0 then None else evictn_loop (nat n) p [])"

definition evictor_Stats :: "RequestEvictor \<Rightarrow> nat \<times> nat" where
  "evictor_Stats p = (InFlightLen (re_queue p), EvictableLen (re_queue p))"

subsection \<open>Runs\<close>

text \<open>Requests arrive, finish and lose their context while goroutines evict. \<open>hand\<close> holds the items that a call of
  \<open>EvictN\<close> has popped and not yet passed to the evictor, \<open>waiting\<close> the request IDs whose context has not ended. \<open>PreRequest\<close>,
  \<open>ResponseBody\<close> and the cleanup are one step each.\<close>

inductive ev_reach :: "(EvictionItem \<Rightarrow> EvictionItem \<Rightarrow> bool) \<Rightarrow> (EvictionItem \<Rightarrow> bool) \<Rightarrow> Evictor \<Rightarrow>
    RequestEvictor \<Rightarrow> EvictionItem multiset \<Rightarrow> string multiset \<Rightarrow> bool" for lt accept evictor where
  start: "ev_reach lt accept evictor (NewRequestEvictor lt accept evictor) {#} {#}"
| arrive: "ev_reach lt accept evictor p hand waiting \<Longrightarrow> evictor_PreRequest request result now p = Some (started, p') \<Longrightarrow>
    ev_reach lt accept evictor p' hand (case started of None \<Rightarrow> waiting | Some i \<Rightarrow> add_mset i waiting)"
| respond: "ev_reach lt accept evictor p hand waiting \<Longrightarrow> evictor_ResponseBody request response p = Some p' \<Longrightarrow>
    ev_reach lt accept evictor p' hand waiting"
| ended: "ev_reach lt accept evictor p hand (add_mset i waiting) \<Longrightarrow> cleanupRequest i p = Some p' \<Longrightarrow>
    ev_reach lt accept evictor p' hand waiting"
| pop: "ev_reach lt accept evictor p hand waiting \<Longrightarrow> PopN 1 (re_queue p) = Some ([item], q) \<Longrightarrow>
    ev_reach lt accept evictor (p\<lparr>re_queue := q\<rparr>) (add_mset item hand) waiting"
| evict: "ev_reach lt accept evictor p (add_mset item hand) waiting \<Longrightarrow>
    Evict item (re_evictor p) (re_closed p) = Some (None, evictor', shut') \<Longrightarrow>
    ev_reach lt accept evictor (p\<lparr>re_evictor := evictor', re_closed := shut'\<rparr>) hand waiting"
| fail: "ev_reach lt accept evictor p (add_mset item hand) waiting \<Longrightarrow>
    Evict item (re_evictor p) (re_closed p) = Some (Some err, evictor', shut') \<Longrightarrow> Track item (re_queue p) = Some q \<Longrightarrow>
    ev_reach lt accept evictor (p\<lparr>re_queue := q, re_evictor := evictor', re_closed := shut'\<rparr>) hand waiting"

subsection \<open>Channels\<close>

text \<open>Every request in flight or in hand has a channel of its own that is still open.\<close>

definition chan_ok :: "nat \<Rightarrow> nat set \<Rightarrow> nat option multiset \<Rightarrow> bool" where
  "chan_ok made shut M \<longleftrightarrow> (\<forall>c. count M c \<le> 1) \<and> (\<forall>c \<in># M. \<exists>ch. c = Some ch \<and> ch < made \<and> ch \<notin> shut) \<and> (\<forall>ch \<in> shut. ch < made)"

lemma chan_ok_mono: "chan_ok made shut M \<Longrightarrow> M' \<subseteq># M \<Longrightarrow> chan_ok made shut M'"
  unfolding chan_ok_def by (meson mset_subset_eqD mset_subset_eq_count order.trans)

lemma chan_ok_new:
  assumes "chan_ok made shut M"
  shows "chan_ok (Suc made) shut (add_mset (Some made) M)"
proof -
  have "Some made \<notin># M" "made \<notin> shut" using assms unfolding chan_ok_def by blast+
  then show ?thesis using assms unfolding chan_ok_def by (auto simp: not_in_iff less_Suc_eq)
qed

lemma chan_ok_close:
  assumes "chan_ok made shut (add_mset (Some ch) M)"
  shows "chan_ok made (insert ch shut) M"
proof -
  have "count (add_mset (Some ch) M) (Some ch) \<le> 1" using assms unfolding chan_ok_def by blast
  then have "Some ch \<notin># M" by (simp add: not_in_iff)
  moreover have "chan_ok made shut M" using chan_ok_mono [OF assms] by simp
  moreover have "ch < made" using assms by (simp add: chan_ok_def)
  ultimately show ?thesis unfolding chan_ok_def by blast
qed

lemma Evict_ok:
  assumes "chan_ok made shut (add_mset (ei_EvictCh item) M)"
  shows "\<exists>evictor' shut'. Evict item evictor shut = Some (None, evictor', shut') \<and> chan_ok made shut' M"
proof -
  obtain ch where ch: "ei_EvictCh item = Some ch" "ch \<notin> shut" using assms by (auto simp: chan_ok_def)
  have ok: "chan_ok made shut M" "chan_ok made (insert ch shut) M"
    using chan_ok_mono [OF assms] chan_ok_close assms ch(1) by auto
  show ?thesis
    using ch ok by (cases evictor) (auto simp: ImmediateResponseEvictor_Evict_def Let_def)
qed

lemma mset_gm_del: "mset (map snd (gm_del i m)) \<subseteq># mset (map snd m)"
  by (induction m) (auto intro: subset_mset.order_trans)

lemma mset_gm_get: "gm_ok m \<Longrightarrow> gm_get m i = Some v \<Longrightarrow> mset (map snd m) = add_mset v (mset (map snd (gm_del i m)))"
  by (induction m) (auto simp: delete_notin_dom split: if_splits)

lemma mset_gm_set: "gm_ok m \<Longrightarrow> mset (map snd (gm_set i v m)) = add_mset v (mset (map snd (gm_del i m)))"
  by (induction m) (auto simp: delete_notin_dom)

definition chans :: "(string, EvictionItem) gomap \<Rightarrow> EvictionItem multiset \<Rightarrow> nat option multiset" where
  "chans m hand = image_mset ei_EvictCh (mset (map snd m) + hand)"

lemma chans_del: "chans (gm_del i m) hand \<subseteq># chans m hand"
  unfolding chans_def by (intro image_mset_subseteq_mono subset_mset.add_mono mset_gm_del) simp

lemma chans_set:
  assumes "gm_ok m"
  shows "chans (gm_set i item m) hand = add_mset (ei_EvictCh item) (chans (gm_del i m) hand)"
  using mset_gm_set [OF assms] by (simp add: chans_def)

lemma chans_pop:
  assumes "gm_ok m" and "gm_get m i = Some item"
  shows "chans (gm_del i m) (add_mset item hand) = chans m hand"
  using mset_gm_get [OF assms] by (simp add: chans_def)

lemma chans_hand [simp]: "chans m (add_mset item hand) = add_mset (ei_EvictCh item) (chans m hand)"
  by (simp add: chans_def)

lemma chans_in:
  assumes "chan_ok made shut (chans m hand)" and "gm_get m i = Some item"
  obtains ch where "ei_EvictCh item = Some ch" "ch < made" "ch \<notin> shut"
proof -
  have "ei_EvictCh item \<in># chans m hand" using map_of_SomeD [OF assms(2)] by (force simp: chans_def)
  then show ?thesis using assms(1) that unfolding chan_ok_def by blast
qed

subsection \<open>The invariant of the plugin\<close>

definition ev_ok :: "(EvictionItem \<Rightarrow> EvictionItem \<Rightarrow> bool) \<Rightarrow> (EvictionItem \<Rightarrow> bool) \<Rightarrow> RequestEvictor \<Rightarrow> EvictionItem multiset \<Rightarrow>
    string multiset \<Rightarrow> bool" where
  "ev_ok lt accept p hand waiting \<longleftrightarrow> eq_ok (re_queue p) \<and> eq_less (re_queue p) = lt \<and> eq_filter (re_queue p) = accept \<and>
     chan_ok (re_made p) (re_closed p) (chans (eq_allInFlight (re_queue p)) hand) \<and> (\<forall>item \<in># hand. accept item) \<and>
     (\<forall>i it. inflight (re_queue p) i = Some it \<longrightarrow> evreg_Get i (re_evictionRegistry p) = ei_EvictCh it) \<and>
     (\<forall>i ch. evreg_Get i (re_evictionRegistry p) = Some ch \<longrightarrow> i \<in># waiting)"

lemma ev_ok_gm: "ev_ok lt accept p hand waiting \<Longrightarrow> gm_ok (eq_allInFlight (re_queue p))"
  by (simp add: ev_ok_def eq_ok_def entries_ok_def)

context eviction_policy
begin

lemma cleanup_ok:
  assumes "ev_ok lt accept p hand waiting" and "set_mset waiting - {i} \<subseteq> set_mset waiting'"
  shows "\<exists>p'. cleanupRequest i p = Some p' \<and> ev_ok lt accept p' hand waiting'"
proof -
  have ok: "eq_ok (re_queue p)" "eq_less (re_queue p) = lt" using assms(1) by (simp_all add: ev_ok_def)
  obtain q where q: "Untrack i (re_queue p) = Some q" "eq_ok q" "eq_allInFlight q = gm_del i (eq_allInFlight (re_queue p))"
    "eq_less q = lt" "eq_filter q = eq_filter (re_queue p)" using Untrack_ok [OF ok] by blast
  have "chan_ok (re_made p) (re_closed p) (chans (eq_allInFlight q) hand)"
    using assms(1) chan_ok_mono [OF _ chans_del] q(3) unfolding ev_ok_def by simp
  then show ?thesis using assms q
    by (auto simp: cleanupRequest_def ev_ok_def evreg_Deregister_def evreg_Get_def delete_conv' simp del: map_of_eq_Some_iff)
qed

lemma arrive_ok:
  assumes "ev_ok lt accept p hand waiting"
  shows "\<exists>started p'. evictor_PreRequest request result now p = Some (started, p') \<and>
     ev_ok lt accept p' hand (case started of None \<Rightarrow> waiting | Some i \<Rightarrow> add_mset i waiting)"
proof (cases "\<exists>req e. request = Some req \<and> Option.bind result primary_target = Some e \<and> request_id req \<noteq> []")
  case True
  then obtain req e where r: "request = Some req" "Option.bind result primary_target = Some e" "request_id req \<noteq> []" by blast
  let ?it = "tracked_item req e now (re_made p)" and ?m = "eq_allInFlight (re_queue p)"
  have it: "ei_RequestID ?it = request_id req" "ei_EvictCh ?it = Some (re_made p)" by (simp_all add: tracked_item_def)
  have ok: "eq_ok (re_queue p)" "eq_less (re_queue p) = lt" using assms by (simp_all add: ev_ok_def)
  obtain q where q: "Track ?it (re_queue p) = Some q" "eq_ok q" "eq_allInFlight q = gm_set (request_id req) ?it ?m"
    "eq_less q = lt" "eq_filter q = eq_filter (re_queue p)" using Track_ok [OF ok, of ?it] it(1) by auto
  have "chan_ok (re_made p) (re_closed p) (chans (gm_del (request_id req) ?m) hand)"
    using assms chan_ok_mono [OF _ chans_del] unfolding ev_ok_def by blast
  then have "chan_ok (Suc (re_made p)) (re_closed p) (chans (eq_allInFlight q) hand)"
    using chan_ok_new chans_set [OF ev_ok_gm [OF assms]] q(3) it(2) by simp
  then show ?thesis using assms r q it
    by (auto simp: evictor_PreRequest_def Let_def ev_ok_def evreg_Register_def evreg_Get_def update_conv' simp del: map_of_eq_Some_iff)
next
  case False
  then have "evictor_PreRequest request result now p = Some (None, p)"
    by (auto simp: evictor_PreRequest_def split: option.splits)
  then show ?thesis using assms by simp
qed

lemma pop_ok:
  assumes "ev_ok lt accept p hand waiting" and "fst (eq_h (re_queue p)) \<noteq> []"
  shows "\<exists>x q. PopN 1 (re_queue p) = Some ([x], q) \<and> (\<forall>n acc. popn_loop (Suc n) (re_queue p) acc = popn_loop n q (acc @ [x])) \<and>
     inflight q (ei_RequestID x) = None \<and> ev_ok lt accept (p\<lparr>re_queue := q\<rparr>) (add_mset x hand) waiting"
proof -
  have ok: "eq_ok (re_queue p)" "eq_less (re_queue p) = lt" using assms by (simp_all add: ev_ok_def)
  let ?m = "eq_allInFlight (re_queue p)"
  obtain x q where q: "PopN 1 (re_queue p) = Some ([x], q)"
    "\<forall>n acc. popn_loop (Suc n) (re_queue p) acc = popn_loop n q (acc @ [x])" "pops 1 (re_queue p) [x] q"
    "eq_allInFlight q = gm_del (ei_RequestID x) ?m" "inflight (re_queue p) (ei_RequestID x) = Some x" "eq_filter (re_queue p) x"
    using PopN_one [OF ok assms(2)] by blast
  have "chans (eq_allInFlight q) (add_mset x hand) = chans ?m hand"
    using chans_pop [OF ev_ok_gm [OF assms(1)] q(5)] q(4) by simp
  moreover have "inflight (re_queue p) i = Some it" if "inflight q i = Some it" for i it
    using that q(4) by (simp add: delete_conv' split: if_splits del: map_of_eq_Some_iff)
  ultimately have "ev_ok lt accept (p\<lparr>re_queue := q\<rparr>) (add_mset x hand) waiting"
    using assms(1) q(3,6) unfolding ev_ok_def pops_def by (simp del: map_of_eq_Some_iff chans_hand)
  moreover have "inflight q (ei_RequestID x) = None" using q(4) by (simp add: delete_conv')
  ultimately show ?thesis using q(1,2) by blast
qed

lemma evict_ok:
  assumes "ev_ok lt accept p (add_mset item hand) waiting"
  shows "\<exists>evictor' shut'. Evict item (re_evictor p) (re_closed p) = Some (None, evictor', shut') \<and>
     ev_ok lt accept (p\<lparr>re_evictor := evictor', re_closed := shut'\<rparr>) hand waiting"
proof -
  have "chan_ok (re_made p) (re_closed p) (add_mset (ei_EvictCh item) (chans (eq_allInFlight (re_queue p)) hand))"
    using assms by (simp add: ev_ok_def)
  then obtain evictor' shut' where "Evict item (re_evictor p) (re_closed p) = Some (None, evictor', shut')"
    "chan_ok (re_made p) shut' (chans (eq_allInFlight (re_queue p)) hand)" using Evict_ok by blast
  then show ?thesis using assms by (auto simp: ev_ok_def)
qed

lemma ev_reach_ok: "ev_reach lt accept evictor p hand waiting \<Longrightarrow> ev_ok lt accept p hand waiting"
proof (induction rule: ev_reach.induct)
  case start
  show ?case using New_ok by (simp add: ev_ok_def NewRequestEvictor_def NewEvictionQueue_def NewEvictionRegistry_def evreg_Get_def
      chan_ok_def chans_def)
next
  case (arrive p hand waiting request result now started p')
  then show ?case using arrive_ok [of accept p hand waiting request result now] by auto
next
  case (respond p hand waiting request response p')
  have "ev_ok lt accept p' hand waiting" if "cleanupRequest i p = Some p'" for i
    using cleanup_ok [OF respond.IH, of i waiting] that by auto
  then show ?case using respond by (auto simp: evictor_ResponseBody_def split: option.splits if_splits)
next
  case (ended p hand i waiting p')
  then show ?case using cleanup_ok [of accept p hand "add_mset i waiting" i waiting] by auto
next
  case (pop p hand waiting item q)
  then have "fst (eq_h (re_queue p)) \<noteq> []" by (auto simp: PopN_def)
  then show ?case using pop_ok [OF pop.IH] pop.hyps by auto
next
  case (evict p item hand waiting evictor' shut')
  then show ?case using evict_ok [OF evict.IH] by auto
next
  case (fail p item hand waiting err evictor' shut' q)
  then show ?case using evict_ok [OF fail.IH] by auto
qed

end

text \<open>The channels that evicting a list of items closes: those of the requests whose \<open>sync.Once\<close> has not run.\<close>

definition signalled :: "(string, bool) gomap \<Rightarrow> EvictionItem list \<Rightarrow> nat set" where
  "signalled once items = {ch. \<exists>it \<in> set items. ei_EvictCh it = Some ch \<and> gm_get once (ei_RequestID it) \<noteq> Some True}"

lemma evict_once:
  assumes "ei_EvictCh x = Some ch" and "ch \<notin> shut"
  shows "\<exists>once'. Evict x (ImmediateResponseEvictor once) shut =
       Some (None, ImmediateResponseEvictor once', shut \<union> signalled once [x]) \<and>
     (\<forall>i. i \<noteq> ei_RequestID x \<longrightarrow> gm_get once' i = gm_get once i)"
  using assms by (auto simp: ImmediateResponseEvictor_Evict_def Let_def signalled_def update_conv')

lemma popped_other_ids:
  assumes "eq_ok q" and "pops n q items q'" and "inflight q i = None"
  shows "\<forall>it \<in> set items. ei_RequestID it \<noteq> i"
proof
  fix it
  assume "it \<in> set items"
  then have "it \<in> set (evictable q)" using assms(2) unfolding pops_def by (metis set_mset_mset union_iff)
  then have "inflight q (ei_RequestID it) = Some it" using assms(1) unfolding eq_ok_def entries_ok_def by blast
  then show "ei_RequestID it \<noteq> i" using assms(3) by auto
qed

lemma same_evictor:
  "re_evictor p = ImmediateResponseEvictor once \<Longrightarrow>
   \<exists>once'. p = p\<lparr>re_queue := re_queue p, re_evictor := ImmediateResponseEvictor once', re_closed := re_closed p \<union> signalled once []\<rparr>"
  by (cases p) (auto simp: signalled_def)

lemma signalled_cons:
  assumes "\<forall>it \<in> set items. gm_get once' (ei_RequestID it) = gm_get once (ei_RequestID it)"
  shows "signalled once [x] \<union> signalled once' items = signalled once (x # items)"
  using assms by (auto simp: signalled_def)

context eviction_policy
begin

lemma evictn_loop_ok:
  assumes "ev_ok lt accept p hand waiting" and "re_evictor p = ImmediateResponseEvictor once"
  shows "\<exists>items q once'. popn_loop n (re_queue p) acc = Some (acc @ items, q) \<and>
     evictn_loop n p ids = Some (ids @ map ei_RequestID items,
       p\<lparr>re_queue := q, re_evictor := ImmediateResponseEvictor once', re_closed := re_closed p \<union> signalled once items\<rparr>)"
  using assms
proof (induction n arbitrary: p once acc ids)
  case 0
  then show ?case using same_evictor [of p once] by (intro exI [of _ "[]"]) auto
next
  case (Suc n)
  show ?case
  proof (cases "fst (eq_h (re_queue p)) = []")
    case True
    then have "PopN 1 (re_queue p) = Some ([], re_queue p)" by (simp add: PopN_def)
    then show ?thesis using True same_evictor [OF Suc.prems(2)] by (intro exI [of _ "[]"]) auto
  next
    case False
    obtain x q1 where x: "PopN 1 (re_queue p) = Some ([x], q1)"
      "\<forall>n acc. popn_loop (Suc n) (re_queue p) acc = popn_loop n q1 (acc @ [x])" "inflight q1 (ei_RequestID x) = None"
      "ev_ok lt accept (p\<lparr>re_queue := q1\<rparr>) (add_mset x hand) waiting" using pop_ok [OF Suc.prems(1) False] by blast
    obtain ch where "ei_EvictCh x = Some ch" "ch \<notin> re_closed p" using x(4) by (auto simp: ev_ok_def chan_ok_def)
    from evict_once [OF this] obtain once1 where e: "Evict x (ImmediateResponseEvictor once) (re_closed p) =
        Some (None, ImmediateResponseEvictor once1, re_closed p \<union> signalled once [x])"
      "\<forall>i. i \<noteq> ei_RequestID x \<longrightarrow> gm_get once1 i = gm_get once i" by blast
    let ?p = "p\<lparr>re_queue := q1, re_evictor := ImmediateResponseEvictor once1, re_closed := re_closed p \<union> signalled once [x]\<rparr>"
    have ok: "ev_ok lt accept ?p hand waiting" using evict_ok [OF x(4)] e(1) Suc.prems(2) by simp
    obtain items q once' where r: "popn_loop n q1 (acc @ [x]) = Some ((acc @ [x]) @ items, q)"
      "evictn_loop n ?p (ids @ [ei_RequestID x]) = Some ((ids @ [ei_RequestID x]) @ map ei_RequestID items,
         ?p\<lparr>re_queue := q, re_evictor := ImmediateResponseEvictor once', re_closed := re_closed ?p \<union> signalled once1 items\<rparr>)"
      using Suc.IH [OF ok, of once1 "acc @ [x]" "ids @ [ei_RequestID x]"] by auto
    have q1: "eq_ok q1" "eq_less q1 = lt" using x(4) by (simp_all add: ev_ok_def)
    have "pops n q1 items q" using popn_loop_ok [OF q1, of n "acc @ [x]"] r(1) by auto
    then have "signalled once [x] \<union> signalled once1 items = signalled once (x # items)"
      using popped_other_ids [OF q1(1) _ x(3)] e(2) by (intro signalled_cons) blast
    then have "evictn_loop (Suc n) p ids = Some (ids @ map ei_RequestID (x # items),
        p\<lparr>re_queue := q, re_evictor := ImmediateResponseEvictor once', re_closed := re_closed p \<union> signalled once (x # items)\<rparr>)"
      using x(1) e(1) r(2) Suc.prems(2) by (simp add: Un_assoc)
    then show ?thesis using x(2) r(1) by (intro exI [of _ "x # items"]) auto
  qed
qed

end

subsection \<open>Correctness of eviction\<close>

definition evict_request :: "string \<Rightarrow> int \<Rightarrow> InferenceRequest" where
  "evict_request i priority = \<lparr>ir_RequestId = i, ir_TargetModel = ''m'', ir_Body = None, ir_Headers = [(RequestIdHeaderKey, i)],
     ir_Priority = priority, ir_RequestSizeBytes = 0\<rparr>"

definition evict_result :: SchedulingResult where
  "evict_result = \<lparr>sr_ProfileResults = [(''default'', Some \<lparr>TargetEndpoints = [demo_endpoint ''ns/a'']\<rparr>)],
     sr_PrimaryProfileName = ''default''\<rparr>"

definition evict_arrive :: "string \<Rightarrow> int \<Rightarrow> time \<Rightarrow> RequestEvictor \<Rightarrow> RequestEvictor option" where
  "evict_arrive i priority now p =
     map_option snd (evictor_PreRequest (Some (evict_request i priority)) (Some evict_result) now p)"

lemma evict_arrive_reach:
  assumes "ev_reach lt accept evictor p hand waiting" and "evict_arrive i priority now p = Some p'" and "i \<noteq> []"
  shows "ev_reach lt accept evictor p' hand (add_mset i waiting)"
proof -
  have "request_id (evict_request i priority) = i" by (simp add: request_id_def evict_request_def)
  moreover have "primary_target evict_result = Some (demo_endpoint ''ns/a'')" by (simp add: primary_target_def evict_result_def)
  ultimately have "evictor_PreRequest (Some (evict_request i priority)) (Some evict_result) now p = Some (Some i, p')"
    using assms(2,3) by (auto simp: evict_arrive_def evictor_PreRequest_def Let_def split: Option.bind_splits)
  from ev_reach.arrive [OF assms(1) this] show ?thesis by simp
qed

abbreviation demo_start :: RequestEvictor where
  "demo_start \<equiv> NewRequestEvictor PriorityThenTimeOrdering_Less SheddableFilter_Accept NewImmediateResponseEvictor"

abbreviation demo_reach :: "RequestEvictor \<Rightarrow> EvictionItem multiset \<Rightarrow> string multiset \<Rightarrow> bool" where
  "demo_reach \<equiv> ev_reach PriorityThenTimeOrdering_Less SheddableFilter_Accept NewImmediateResponseEvictor"

definition demo_evictor :: RequestEvictor where
  "demo_evictor = the (do { p1 \<leftarrow> evict_arrive ''a'' (- 1) 10 demo_start; p2 \<leftarrow> evict_arrive ''b'' 3 11 p1; evict_arrive ''c'' (- 5) 12 p2 })"

lemma demo_evictor_reach: "demo_reach demo_evictor {#} {#''c'', ''b'', ''a''#}"
proof -
  have "do { p1 \<leftarrow> evict_arrive ''a'' (- 1) 10 demo_start; p2 \<leftarrow> evict_arrive ''b'' 3 11 p1; evict_arrive ''c'' (- 5) 12 p2 } \<noteq> None"
    by code_simp
  then obtain p1 p2 p3 where p: "evict_arrive ''a'' (- 1) 10 demo_start = Some p1" "evict_arrive ''b'' 3 11 p1 = Some p2"
    "evict_arrive ''c'' (- 5) 12 p2 = Some p3" by (auto split: Option.bind_splits)
  then have "demo_evictor = p3" by (simp add: demo_evictor_def)
  moreover have "demo_reach p1 {#} {#''a''#}" using evict_arrive_reach [OF ev_reach.start p(1)] by simp
  then have "demo_reach p2 {#} {#''b'', ''a''#}" using evict_arrive_reach [OF _ p(2)] by simp
  then have "demo_reach p3 {#} {#''c'', ''b'', ''a''#}" using evict_arrive_reach [OF _ p(3)] by simp
  ultimately show ?thesis by simp
qed

lemma demo_evictor_pops: "map_option (map ei_RequestID \<circ> fst) (PopN 1 (re_queue demo_evictor)) = Some [''c'']"
  by code_simp

lemma demo_evictor_evicts:
  "map_option (\<lambda>(ids, p). (ids, re_closed p)) (EvictN 5 demo_evictor) = Some ([''c'', ''a''], {0, 2})"
  by code_simp

lemma demo_evictor_fresh: "re_evictor demo_evictor = ImmediateResponseEvictor []"
  by code_simp



text \<open>C19: \<open>EvictN\<close> with immediate responses evicts what \<open>PopN\<close> would take: in every reachable state it returns the IDs of the \<open>n\<close> most
  evictable requests, or of all if there are fewer, in the order of the policy; they leave the queue; and it closes exactly
  their channels, except for an ID that was signalled before and not cleaned up since.\<close>

theorem EvictN_signals_most_evictable:
  assumes "strict_weak lt" and "ev_reach lt accept evictor p hand waiting" and "re_evictor p = ImmediateResponseEvictor once" and "0 \<le> n"
  shows "\<exists>items q p'. PopN n (re_queue p) = Some (items, q) \<and> EvictN n p = Some (map ei_RequestID items, p') \<and>
     length items = min (nat n) (EvictableLen (re_queue p)) \<and> first_by lt items (evictable q) \<and> re_queue p' = q \<and>
     re_evictionRegistry p' = re_evictionRegistry p \<and>
     re_closed p' = re_closed p \<union>
       {ch. \<exists>it \<in> set items. ei_EvictCh it = Some ch \<and> gm_get once (ei_RequestID it) \<noteq> Some True}"
proof -
  have pol: "eviction_policy lt" using assms(1) by (rule eviction_policy.intro)
  have ok: "ev_ok lt accept p hand waiting" using eviction_policy.ev_reach_ok [OF pol assms(2)] .
  then have q: "eq_ok (re_queue p)" "eq_less (re_queue p) = lt" by (simp_all add: ev_ok_def)
  obtain items q once' where r: "popn_loop (nat n) (re_queue p) [] = Some (items, q)"
    "evictn_loop (nat n) p [] = Some (map ei_RequestID items,
       p\<lparr>re_queue := q, re_evictor := ImmediateResponseEvictor once', re_closed := re_closed p \<union> signalled once items\<rparr>)"
    using eviction_policy.evictn_loop_ok [OF pol ok assms(3), of "nat n" "[]" "[]"] by auto
  have pop: "PopN n (re_queue p) = Some (items, q)" using r(1) assms(4) by (simp add: PopN_def)
  then have "pops (nat n) (re_queue p) items q" using eviction_policy.PopN_ok [OF pol q assms(4)] by auto
  then show ?thesis using pop r(2) q(2) assms(4) by (auto simp: EvictN_def pops_def signalled_def)
qed

theorem EvictN_signals_most_evictable_witness:
  "map_option (\<lambda>(ids, p). (ids, re_closed p)) (EvictN 5 demo_evictor) = Some ([''c'', ''a''], {0, 2}) \<and>
   (\<exists>items q p'. PopN 5 (re_queue demo_evictor) = Some (items, q) \<and> EvictN 5 demo_evictor = Some (map ei_RequestID items, p') \<and>
      re_queue p' = q)"
  using EvictN_signals_most_evictable [OF priority_time.strict_weak_axioms demo_evictor_reach demo_evictor_fresh, of 5]
    demo_evictor_evicts by auto

subsection \<open>Request IDs that come back\<close>

text \<open>\<open>closeOnce\<close> remembers request IDs, not channels. A request that arrives with the ID of one that was evicted and not yet
  cleaned up is reported as evicted, but its channel, here channel 1, stays open.\<close>

lemma reused_id_not_signalled:
  "do { p1 \<leftarrow> evict_arrive ''r'' (- 1) 10 demo_start; (ids1, p2) \<leftarrow> EvictN 1 p1;
        p3 \<leftarrow> evict_arrive ''r'' (- 1) 20 p2; (ids2, p4) \<leftarrow> EvictN 1 p3;
        Some (ids1, ids2, evreg_Get ''r'' (re_evictionRegistry p4), re_closed p4) } = Some ([''r''], [''r''], Some 1, {0})"
  by code_simp

text \<open>A request that finishes between \<open>PopN\<close> and \<open>Evict\<close> leaves an entry in \<open>closeOnce\<close> that nothing removes: no context is
  waited for any more.\<close>

lemma closeOnce_outlives_request: "\<exists>p. demo_reach p {#} {#} \<and> closeOnce (re_evictor p) = [(''r'', True)]"
proof -
  have "map_option (\<lambda>p. closeOnce (re_evictor p))
    (do { p1 \<leftarrow> evict_arrive ''r'' (- 1) 10 demo_start; (items, q) \<leftarrow> PopN 1 (re_queue p1);
          p2 \<leftarrow> cleanupRequest ''r'' (p1\<lparr>re_queue := q\<rparr>);
          (err, evictor', shut') \<leftarrow> Evict (hd items) (re_evictor p2) (re_closed p2);
          if err = None \<and> length items = 1 then Some (p2\<lparr>re_evictor := evictor', re_closed := shut'\<rparr>) else None }) = Some [(''r'', True)]"
    by code_simp
  then obtain p1 items q p2 evictor' shut' where p: "evict_arrive ''r'' (- 1) 10 demo_start = Some p1"
    "PopN 1 (re_queue p1) = Some (items, q)" "cleanupRequest ''r'' (p1\<lparr>re_queue := q\<rparr>) = Some p2"
    "Evict (hd items) (re_evictor p2) (re_closed p2) = Some (None, evictor', shut')" "length items = 1"
    "closeOnce evictor' = [(''r'', True)]"
    by (auto split: Option.bind_splits if_splits)
  obtain x where x: "items = [x]" using p(5) by (auto simp: length_Suc_conv)
  have "demo_reach p1 {#} {#''r''#}" using evict_arrive_reach [OF ev_reach.start p(1)] by simp
  then have "demo_reach (p1\<lparr>re_queue := q\<rparr>) {#x#} {#''r''#}" using ev_reach.pop p(2) x by fastforce
  then have "demo_reach p2 {#x#} {#}" using ev_reach.ended [OF _ p(3)] by simp
  then have "demo_reach (p2\<lparr>re_evictor := evictor', re_closed := shut'\<rparr>) {#} {#}" using ev_reach.evict p(4) x by fastforce
  then show ?thesis using p(6) by auto
qed

end
