(* ===== verification/Spec2Isabelle.thy ===== *)
theory Spec2Isabelle
  imports ControllerProofs Eviction
begin

text \<open>
  A verification development for the llm-d inference scheduler: the endpoint picker under \<open>src/pkg/epp\<close>, which decides
  when a request to a pool of model servers may proceed (flow control) and which server gets it (scheduling).

  \<^bold>\<open>The program.\<close> Flow control holds a request until the pool has room. \<open>FlowController.EnqueueAndWait\<close>
  (\<open>flowcontrol/controller/controller.go\<close>) opens a connection to the flow registry
  (\<open>flowcontrol/registry/registry.go\<close>), wraps the request into a \<open>FlowItem\<close>, hands it to the worker of the shard with the
  fewest queued bytes of its flow, and waits for the final state of the item. The worker is a \<open>ShardProcessor\<close>
  (\<open>controller/internal/processor.go\<close>): it moves items from its channel into the queues of its shard, dispatches from the
  highest priority band, asking the fairness policy of the band for a queue, sweeps items that were finalized
  elsewhere, and evicts everything when it stops. The registry creates bands and flows on demand, counts leases on them,
  collects the idle ones, and keeps the statistics that admission reads. Scheduling then runs profiles chosen by a profile
  handler (\<open>scheduling/scheduler.go\<close>); a profile (\<open>scheduling/scheduler_profile.go\<close>) filters the endpoints, adds up
  weighted scores and lets a picker choose. Eviction (\<open>flowcontrol/eviction\<close>) tracks the requests that were sent to a server
  and can end the least important of them; no component of this version calls it yet.

  \<^bold>\<open>Conventions.\<close> A function that can panic returns an option and \<^const>\<open>None\<close> is the panic; an error of the code is a
  value of a sum type. The counters and limits that the code keeps in \<open>int64\<close> and \<open>uint64\<close> and whose sums can wrap are
  \<open>64 word\<close>. Times are integers, a \<open>float64\<close> is a real number: rounding, infinities and NaN are not modelled. A Go map that
  is iterated is an association list (\<open>GoMap\<close>), so what is proved for every list holds for every order of iteration. Items and
  handles live in a store, since the code shares them by pointer. Whatever comes from a clock, a random source, a \<open>select\<close> or
  a plugin outside the sources is an argument, a list of possible results, or a rule of a step relation.

  \<^bold>\<open>Flow control, from the bottom.\<close>
  \<^item> \<open>Prelude\<close>, \<open>GoMap\<close>, \<open>HeapOrder\<close>: words, lists, maps, strict weak orders and heaps on levels.
  \<^item> \<open>FlowTypes\<close>, \<open>Outcomes\<close>: \<open>FlowKey\<close>, \<open>FlowItem\<close> and its finalization (\<open>internal/item.go\<close>), outcomes and errors
    (\<open>types/outcomes.go\<close>, \<open>types/errors.go\<close>). The first finalization decides, and the others have no effect.
  \<^item> \<open>OrderingPolicies\<close>: the \<open>Less\<close> functions of \<open>ordering/fcfs\<close>, \<open>edf\<close> and \<open>slodeadline\<close>; each is a strict weak order.
  \<^item> \<open>SafeQueue\<close>: the contract \<open>contracts.SafeQueue\<close> as the locale \<open>safe_queue\<close>. \<open>ListQueue\<close> (\<open>plugins/queue/listqueue.go\<close>)
    and \<open>MaxMinHeap\<close>, \<open>MaxMinHeapProofs\<close>, \<open>HeapQueue\<close> (\<open>plugins/queue/maxminheap.go\<close>) implement it. The heap order is
    preserved by \<open>Add\<close>, and by \<open>Remove\<close> of the head when no items tie; two lemmas show how it is lost otherwise.
  \<^item> \<open>ManagedQueue\<close> (\<open>registry/managedqueue.go\<close>): counters that match the contents and the deltas reported upwards.
  \<^item> \<open>RegistryConfig\<close> (\<open>registry/config.go\<close>): building, validating and partitioning configurations.
  \<^item> \<open>Leasing\<close> (\<open>registry/leasing.go\<close>): pins and collection, also as an interleaving \<open>pool_step\<close> of goroutines.
  \<^item> \<open>Shard\<close>, \<open>ShardOps\<close> (\<open>registry/shard.go\<close>): bands, queues and statistics; \<open>shard_reach\<close> are the states of a shard.
  \<^item> \<open>Registry\<close>, \<open>RegistryProofs\<close>, \<open>RegistryReach\<close> (\<open>registry/registry.go\<close>, \<open>connection.go\<close>): provisioning, connections
    and collection; \<open>reg_reach\<close> are the states of the registry with its open connections.
  \<^item> \<open>Fairness\<close> (\<open>plugins/flowcontrol/fairness\<close>): global strict and round robin, both \<open>fairness_policy\<close>.
  \<^item> \<open>Processor\<close>, \<open>ProcessorProofs\<close>, \<open>ProcessorOps\<close>, \<open>ProcessorRun\<close>: the shard processor, handler by handler, and the runs
    \<open>proc_run\<close> that interleave submitters, the run loop, the sweep, external finalization and shutdown. No item is lost,
    dispatch implements an abstract choice of a band, and capacity limits hold where sums do not wrap. The locale
    \<open>queue_worker\<close> shows that the worker pool over the queues has the same effect in every order.
  \<^item> \<open>Controller\<close>, \<open>ControllerProofs\<close>: \<open>EnqueueAndWait\<close> as a relation between its rounds, the distribution over
    shards, contexts and the reconciliation of workers.

  \<^bold>\<open>Scheduling, from the bottom.\<close>
  \<^item> \<open>Endpoints\<close>, \<open>Base64\<close>: what is known of a model server, and the encoding of the session header.
  \<^item> \<open>Scorers\<close>, \<open>RankScorers\<close> (\<open>plugins/scheduling/scorer\<close>): the score functions; the locale \<open>scorer_contract\<close> says that
    every endpoint gets one score between zero and one. The latency scorer is not an instance: it can give more than one.
  \<^item> \<open>Pickers\<close>, \<open>Filters\<close> (\<open>plugins/scheduling/picker\<close>, \<open>filter\<close>): instances of \<open>picker_contract\<close> and \<open>filter_contract\<close>.
  \<^item> \<open>Profile\<close>: a run of a profile keeps these contracts and picks the best survivors.
  \<^item> \<open>Scheduler\<close>, \<open>ProfileHandlers\<close>: the scheduling loop and the handlers (\<open>plugins/scheduling/profile\<close>, \<open>profilehandler\<close>).
    The locale \<open>profile_handler\<close> gives termination; the disaggregation handler refines a pipeline of stages.

  \<^bold>\<open>Eviction.\<close>
  \<^item> \<open>BinHeap\<close>: the operations of \<open>container/heap\<close> of the Go library on a slice whose elements know their position; each keeps
    the heap order for every strict weak order.
  \<^item> \<open>EvictQueue\<close> (\<open>eviction/queue.go\<close> and the policies of \<open>plugins/flowcontrol/eviction\<close>): the heap holds exactly the accepted
    requests in flight, and \<open>PopN\<close> takes the first of them. The locale \<open>eviction_policy\<close> is what an ordering policy promises.
  \<^item> \<open>Eviction\<close> (\<open>eviction/plugin.go\<close>, \<open>evictor.go\<close>, \<open>eviction_registry.go\<close>): hooks and evictors, and the runs \<open>ev_reach\<close> that
    interleave arrivals, responses, ended contexts and evictions. No channel is closed twice and nothing outlives the
    contexts in queue and registry; two lemmas show what a request ID that comes back does to the map \<open>closeOnce\<close>.

  \<^bold>\<open>Loops and bounds.\<close> No definition uses fuel. Loops over data are structural or have a measure. The scheduling loop may run
  forever, so it is a \<open>partial_function\<close>, where \<^const>\<open>None\<close> is a run that does not end; that it ends is proved for each
  handler, and that it need not is proved for the deprecated handler with three profiles. Retries of \<open>EnqueueAndWait\<close> and
  the steps of the processor are relations without a bound.

  \<^bold>\<open>Atomicity.\<close> A critical section, or a handler of an actor, is one step. Interleavings inside a method of the registry are
  modelled for leases only.

  \<^bold>\<open>Not modelled.\<close> I/O and its types (external processing server, parsers, data layer, metrics, tracing, sidecar proxy,
  entry points), reconcilers of cluster objects, decoding of configuration files, the precise prefix cache scorer, which is
  built on a package outside the sources, and the plugins that produce the attributes and the saturation that the model
  takes as arguments.
\<close>

section \<open>Properties across components\<close>

text \<open>C2: One request through the scheduler with a single profile: when the filters and scorers of the profile keep their
  contracts, \<open>Schedule\<close> returns. It fails when no candidate survives the filters; otherwise the result names the profile
  and holds the best survivors by weighted score.\<close>

theorem single_profile_schedules_best:
  assumes "profile_ok ok p" and "pf_picker p = Some (\<lambda>ses s. Some (MaxScorePicker_Pick k (rnd s) ses, next s))"
    and "list_all ok candidates"
  shows "\<exists>survivors s1. runFilterPlugins (pf_filters p) request candidates s = Some (survivors, s1) \<and>
     (if survivors = []
      then \<exists>err. Schedule single_Pick single_ProcessResults [(name, profile_Run p)] request candidates s =
             Some (Some (Inl err, request, s1))
      else \<exists>result s'. Schedule single_Pick single_ProcessResults [(name, profile_Run p)] request candidates s =
             Some (Some (Inr \<lparr>sr_ProfileResults = [(name, Some result)], sr_PrimaryProfileName = name\<rparr>, request, s')) \<and>
             best_targets k (total_score (pf_scorers p) request survivors s1) survivors (TargetEndpoints result))"
proof -
  obtain survivors s1 where f: "runFilterPlugins (pf_filters p) request candidates s = Some (survivors, s1)"
    and b: "if survivors = [] then profile_Run p request candidates s = Some (Inl errNoEndpoints, s1)
      else \<exists>result s'. profile_Run p request candidates s = Some (Inr result, s') \<and>
             best_targets k (total_score (pf_scorers p) request survivors s1) survivors (TargetEndpoints result)"
    using profile_run_best [OF assms, of request s] by blast
  have S: "Schedule single_Pick single_ProcessResults [(name, profile_Run p)] request candidates s =
      Some (Some (case r of Inl err \<Rightarrow> Inl ''failed to run scheduler profile''
        | Inr result \<Rightarrow> Inr \<lparr>sr_ProfileResults = [(name, Some result)], sr_PrimaryProfileName = name\<rparr>, request, s'))"
    if r: "profile_Run p request candidates s = Some (r, s')" for r s'
  proof -
    have "schedule_loop single_Pick [(name, profile_Run p)] request candidates [] s = Some (Some ([(name, succeeded r)], s'))"
      by (rule single_schedule_loop [of single_Pick "profile_Run p" request candidates s r s']) (simp_all add: r)
    then show ?thesis by (simp add: Schedule_def single_ProcessResults_def succeeded_def split: sum.split)
  qed
  show ?thesis
  proof (cases "survivors = []")
    case True
    then show ?thesis using f b S by (intro exI [of _ survivors] exI [of _ s1]) simp
  next
    case False
    then obtain result s' where "profile_Run p request candidates s = Some (Inr result, s')"
        "best_targets k (total_score (pf_scorers p) request survivors s1) survivors (TargetEndpoints result)"
      using b by auto
    then show ?thesis using f False S by (intro exI [of _ survivors] exI [of _ s1]) simp
  qed
qed

theorem single_profile_schedules_best_witness:
  "\<exists>result s'. Schedule single_Pick single_ProcessResults [(''default'', profile_Run demo_profile)] demo_request
       [demo_busy ''a'' 5, demo_busy ''b'' 0] () =
     Some (Some (Inr \<lparr>sr_ProfileResults = [(''default'', Some result)], sr_PrimaryProfileName = ''default''\<rparr>, demo_request, s')) \<and>
     length (TargetEndpoints result) = 1"
proof -
  let ?es = "[demo_busy ''a'' 5, demo_busy ''b'' 0]"
  have "demo_busy ''a'' 5 \<noteq> demo_busy ''b'' 0" by (simp add: demo_busy_def demo_endpoint_def NewEndpoint_def demo_pod_def)
  then show ?thesis
    using single_profile_schedules_best [OF demo_profile_ok, of 1 "\<lambda>_ _. 0" "\<lambda>s. s" ?es demo_request "()" "''default''"]
    by (auto simp: demo_survivors demo_profile_simps(3) best_targets_def)
qed

end
